(* ===== verification/Prelude.thy ===== *)
theory Prelude
  imports Main "HOL-Library.Word" "HOL-Library.Code_Target_Numeral"
begin

unbundle bit_operations_syntax

text \<open>
  Shared vocabulary of the development: the machine types of the C++ code, the
  error monad in which every \<open>return false\<close>, \<open>throw\<close> and \<open>assert\<close> of the source
  is a value, little-endian byte conversions (\<open>crypto/common.h\<close>), signed 32 and
  64 bit wrap-around, and the generic lemmas the component theories rest on.
\<close>

section \<open>Machine types\<close>

type_synonym byte = "8 word"
type_synonym u16 = "16 word"
type_synonym u32 = "32 word"
type_synonym u64 = "64 word"

text \<open>\<open>std::vector<unsigned char>\<close>, the script vector \<open>CScript\<close> and the 32 byte
  blob \<open>uint256\<close>.\<close>

type_synonym valtype = "byte list"
type_synonym CScript = "byte list"
type_synonym uint256 = "byte list"

text \<open>\<open>int\<close> and \<open>int64_t\<close> are modelled by \<^typ>\<open>int\<close>; where an operation can leave the
  range, its result is wrapped by one of these.\<close>

definition i32 :: "int \<Rightarrow> int" where
  "i32 x = signed_take_bit 31 x"

definition i64 :: "int \<Rightarrow> int" where
  "i64 x = signed_take_bit 63 x"

named_theorems wrap_simps \<open>wrap-around is the identity inside the range\<close>

lemma i32_id [wrap_simps]: "- (2 ^ 31) \<le> x \<Longrightarrow> x < 2 ^ 31 \<Longrightarrow> i32 x = x"
  by (simp add: i32_def signed_take_bit_int_eq_self)

lemma i64_id [wrap_simps]: "- (2 ^ 63) \<le> x \<Longrightarrow> x < 2 ^ 63 \<Longrightarrow> i64 x = x"
  by (simp add: i64_def signed_take_bit_int_eq_self)

lemma i64_bounds: "- (2 ^ 63) \<le> i64 x" "i64 x < 2 ^ 63"
  by (simp_all add: i64_def signed_take_bit_int_greater_eq_minus_exp signed_take_bit_int_less_exp
      del: power_numeral)

section \<open>Errors as values\<close>

text \<open>\<open>bindE\<close> sequences two fallible computations, \<open>guardE\<close> is an early return.\<close>

definition bindE :: "'e + 'a \<Rightarrow> ('a \<Rightarrow> 'e + 'b) \<Rightarrow> 'e + 'b" where
  "bindE m f = (case m of Inl e \<Rightarrow> Inl e | Inr x \<Rightarrow> f x)"

definition guardE :: "bool \<Rightarrow> 'e \<Rightarrow> 'e + unit" where
  "guardE b e = (if b then Inr () else Inl e)"

lemma bindE_simps [simp]: "bindE (Inl e) f = Inl e" "bindE (Inr x) f = f x"
  by (simp_all add: bindE_def)

lemma guardE_simps [simp]: "guardE True e = Inr ()" "guardE False e = Inl e"
  by (simp_all add: guardE_def)

lemma bindE_Inr_iff: "bindE m f = Inr y \<longleftrightarrow> (\<exists>x. m = Inr x \<and> f x = Inr y)"
  by (cases m) auto

lemma bindE_Inl_iff: "bindE m f = Inl e \<longleftrightarrow> m = Inl e \<or> (\<exists>x. m = Inr x \<and> f x = Inl e)"
  by (cases m) auto

lemma guardE_Inr_iff [simp]: "guardE b e = Inr u \<longleftrightarrow> b"
  by (simp add: guardE_def)

lemma guardE_Inl_iff [simp]: "guardE b e = Inl e' \<longleftrightarrow> \<not> b \<and> e' = e"
  by (auto simp: guardE_def)

lemma bindE_guardE [simp]: "bindE (guardE b e) f = (if b then f () else Inl e)"
  by (simp add: guardE_def)

lemma bindE_assoc: "bindE (bindE m f) g = bindE m (\<lambda>x. bindE (f x) g)"
  by (cases m) auto

lemma bindE_cong [fundef_cong]:
  "m = m' \<Longrightarrow> (\<And>x. m' = Inr x \<Longrightarrow> f x = f' x) \<Longrightarrow> bindE m f = bindE m' f'"
  by (cases m') auto

lemmas bindE_iffs = bindE_Inr_iff bindE_Inl_iff

text \<open>\<open>refinesE a b\<close>: whenever \<open>a\<close> succeeds, \<open>b\<close> succeeds with the same value.  It is the
  relation between a stricter and a more permissive validation routine.\<close>

definition refinesE :: "'e + 'a \<Rightarrow> 'e + 'a \<Rightarrow> bool" where
  "refinesE a b \<longleftrightarrow> (\<forall>x. a = Inr x \<longrightarrow> b = Inr x)"

named_theorems refinesE_intros \<open>structural rules for refinesE\<close>

lemma refinesE_refl [refinesE_intros, simp]: "refinesE a a"
  by (simp add: refinesE_def)

lemma refinesE_Inl [refinesE_intros, simp]: "refinesE (Inl e) b"
  by (simp add: refinesE_def)

lemma refinesE_bindE [refinesE_intros]:
  "refinesE m m' \<Longrightarrow> (\<And>x. refinesE (f x) (f' x)) \<Longrightarrow> refinesE (bindE m f) (bindE m' f')"
  by (auto simp: refinesE_def bindE_Inr_iff)

lemma refinesE_guardE [refinesE_intros]: "(b \<Longrightarrow> b') \<Longrightarrow> refinesE (guardE b e) (guardE b' e')"
  by (auto simp: refinesE_def guardE_def)

lemma refinesE_if [refinesE_intros]:
  "(b \<Longrightarrow> refinesE x x') \<Longrightarrow> (\<not> b \<Longrightarrow> refinesE y y') \<Longrightarrow>
   refinesE (if b then x else y) (if b then x' else y')"
  by simp

lemma refinesE_D: "refinesE a b \<Longrightarrow> a = Inr x \<Longrightarrow> b = Inr x"
  by (simp add: refinesE_def)

lemma refinesE_trans: "refinesE a b \<Longrightarrow> refinesE b c \<Longrightarrow> refinesE a c"
  by (auto simp: refinesE_def)

section \<open>Little-endian bytes\<close>

lemma unat_lt2p: "unat (x :: 'a::len word) < 2 ^ LENGTH('a)"
  by (rule unsigned_less)

lemma unat_byte_less: "unat (b :: byte) < 256"
  using unat_lt2p [of b] by simp

fun le_nat :: "byte list \<Rightarrow> nat" where
  "le_nat [] = 0"
| "le_nat (b # bs) = unat b + 256 * le_nat bs"

fun le_bytes :: "nat \<Rightarrow> nat \<Rightarrow> byte list" where
  "le_bytes 0 n = []"
| "le_bytes (Suc k) n = of_nat n # le_bytes k (n div 256)"

lemma length_le_bytes [simp]: "length (le_bytes k n) = k"
  by (induction k arbitrary: n) auto

lemma le_nat_bound: "le_nat bs < 256 ^ length bs"
proof (induction bs)
  case (Cons b bs)
  have "unat b + 256 * le_nat bs < 256 * Suc (le_nat bs)"
    using unat_byte_less [of b] by simp
  also have "\<dots> \<le> 256 * 256 ^ length bs"
    using Cons by (intro mult_le_mono2) simp
  finally show ?case by simp
qed simp

lemma le_nat_le_bytes: "le_nat (le_bytes k n) = n mod 256 ^ k"
proof (induction k arbitrary: n)
  case (Suc k)
  have "unat (of_nat n :: byte) = n mod 256"
    by (simp add: unat_of_nat)
  then show ?case by (simp add: Suc mod_mult2_eq)
qed simp

lemma le_nat_append: "le_nat (xs @ ys) = le_nat xs + 256 ^ length xs * le_nat ys"
  by (induction xs) (auto simp: algebra_simps)

lemma le_bytes_le_nat: "le_bytes (length bs) (le_nat bs) = bs"
proof (induction bs)
  case (Cons b bs)
  have b: "unat b < 256" using unat_lt2p [of b] by simp
  have "(256 :: byte) = 0" by simp
  then have "of_nat (unat b + 256 * le_nat bs) = (of_nat (unat b) :: byte)"
    unfolding of_nat_add of_nat_mult of_nat_numeral by (simp only:) simp
  with Cons b show ?case by simp
qed simp

lemma le_nat_inj: "length xs = length ys \<Longrightarrow> le_nat xs = le_nat ys \<Longrightarrow> xs = ys"
  by (metis le_bytes_le_nat)

definition ReadLE16 :: "byte list \<Rightarrow> u16" where
  "ReadLE16 p = of_nat (le_nat (take 2 p))"

definition ReadLE32 :: "byte list \<Rightarrow> u32" where
  "ReadLE32 p = of_nat (le_nat (take 4 p))"

definition ReadLE64 :: "byte list \<Rightarrow> u64" where
  "ReadLE64 p = of_nat (le_nat (take 8 p))"

definition WriteLE16 :: "u16 \<Rightarrow> byte list" where
  "WriteLE16 x = le_bytes 2 (unat x)"

definition WriteLE32 :: "u32 \<Rightarrow> byte list" where
  "WriteLE32 x = le_bytes 4 (unat x)"

definition WriteLE64 :: "u64 \<Rightarrow> byte list" where
  "WriteLE64 x = le_bytes 8 (unat x)"

lemma ReadLE16_WriteLE16 [simp]: "ReadLE16 (WriteLE16 x @ r) = x"
  using unat_lt2p [of x] by (simp add: ReadLE16_def WriteLE16_def le_nat_le_bytes)

lemma ReadLE32_WriteLE32 [simp]: "ReadLE32 (WriteLE32 x @ r) = x"
  using unat_lt2p [of x] by (simp add: ReadLE32_def WriteLE32_def le_nat_le_bytes)

lemma ReadLE64_WriteLE64 [simp]: "ReadLE64 (WriteLE64 x @ r) = x"
  using unat_lt2p [of x] by (simp add: ReadLE64_def WriteLE64_def le_nat_le_bytes)

lemma WriteLE_ReadLE:
  "length b = 2 \<Longrightarrow> WriteLE16 (ReadLE16 b) = b"
  "length b = 4 \<Longrightarrow> WriteLE32 (ReadLE32 b) = b"
  "length b = 8 \<Longrightarrow> WriteLE64 (ReadLE64 b) = b"
  using le_nat_bound [of b] le_bytes_le_nat [of b]
  by (simp_all add: WriteLE16_def ReadLE16_def WriteLE32_def ReadLE32_def WriteLE64_def ReadLE64_def unat_of_nat)

lemma length_WriteLE [simp]:
  "length (WriteLE16 x) = 2" "length (WriteLE32 y) = 4" "length (WriteLE64 z) = 8"
  by (simp_all add: WriteLE16_def WriteLE32_def WriteLE64_def)

section \<open>Words\<close>

lemma word_or_eq_plus: "a AND b = 0 \<Longrightarrow> a OR b = a + (b :: 'a::len word)"
  by (rule disjunctive_add [symmetric]) (metis bit_0_eq bit_and_iff bot_apply bot_bool_def)

lemma and_mask_eq_0_iff_bit: "(a AND push_bit n 1 = 0) \<longleftrightarrow> \<not> bit a n"
  for a :: "'a::len word"
proof
  assume "a AND push_bit n 1 = 0"
  then have "\<not> bit (a AND push_bit n 1) n" by simp
  then show "\<not> bit a n"
    by (auto simp: bit_simps dest: bit_imp_le_length)
next
  assume "\<not> bit a n"
  then show "a AND push_bit n 1 = 0"
    by (intro bit_word_eqI) (auto simp: bit_simps)
qed

lemma bit_byte_7_iff: "bit b 7 \<longleftrightarrow> 0x80 \<le> unat b" for b :: byte
proof -
  have "bit b 7 \<longleftrightarrow> odd (unat b div 2 ^ 7)"
    using bit_unsigned_iff [where 'a = nat, of b 7] by (simp add: bit_iff_odd [of "unat b"])
  also have "\<dots> \<longleftrightarrow> 0x80 \<le> unat b"
  proof -
    have "n < 256 \<Longrightarrow> n div 128 = (if 128 \<le> n then 1 else 0)" for n :: nat
      by (auto intro: div_nat_eqI)
    from this [OF unat_byte_less] show ?thesis by simp
  qed
  finally show ?thesis .
qed

lemma and_0x80_iff: "b AND 0x80 = 0 \<longleftrightarrow> unat b < 0x80" for b :: byte
proof -
  have "push_bit 7 1 = (0x80 :: byte)" by simp
  with and_mask_eq_0_iff_bit [of b 7] show ?thesis
    by (simp only: bit_byte_7_iff not_le)
qed

lemma unat_ucast: "unat (ucast w :: 'b::len word) = unat w mod 2 ^ LENGTH('b)"
  for w :: "'a::len word"
  by (simp add: unsigned_ucast_eq unsigned_take_bit_eq take_bit_eq_mod)

lemma bit_word_less_2p: "unat w < 2 ^ k \<Longrightarrow> bit w n \<Longrightarrow> n < k" for w :: "'a::len word"
proof (rule ccontr)
  assume w: "unat w < 2 ^ k" and b: "bit w n" and "\<not> n < k"
  then have "unat w < 2 ^ n"
    using power_increasing [of k n "2 :: nat"] by linarith
  moreover have "bit (unat w) n"
    using b bit_unsigned_iff [where 'a = nat, of w n] by simp
  ultimately show False by (simp add: bit_iff_odd)
qed

lemma or_push_bit_eq_plus:
  assumes "unat r < 2 ^ k"
  shows "r OR push_bit k x = r + push_bit k (x :: 'a::len word)"
proof (rule word_or_eq_plus, rule bit_word_eqI)
  fix n show "bit (r AND push_bit k x) n = bit (0 :: 'a word) n"
    by (auto simp: bit_simps dest!: bit_word_less_2p [OF assms])
qed

lemma unat_push_bit:
  fixes x :: "'a::len word"
  assumes "unat x * 2 ^ k < 2 ^ LENGTH('a)"
  shows "unat (push_bit k x) = unat x * 2 ^ k"
proof -
  have "unat (push_bit k x) = unat x * 2 ^ k mod 2 ^ LENGTH('a)"
    unfolding unsigned_push_bit_eq by (simp add: push_bit_eq_mult take_bit_eq_mod)
  with assms show ?thesis by simp
qed

lemma unat_2p: "k < LENGTH('a) \<Longrightarrow> unat (2 ^ k :: 'a::len word) = 2 ^ k"
  using unat_push_bit [of "1 :: 'a word" k] by (simp add: push_bit_eq_mult)

lemma unat_or_push_bit:
  fixes x :: "'a::len word"
  assumes "unat r < 2 ^ k" and "unat r + unat x * 2 ^ k < 2 ^ LENGTH('a)"
  shows "unat (r OR push_bit k x) = unat r + unat x * 2 ^ k"
  using assms by (simp add: or_push_bit_eq_plus unat_word_ariths unat_push_bit)

lemma sint_eq_unat:
  fixes w :: "'a::len word"
  assumes "unat w < 2 ^ (LENGTH('a) - 1)"
  shows "sint w = int (unat w)"
proof -
  have "uint w = int (unat w)" by simp
  moreover have "int (unat w) < 2 ^ (LENGTH('a) - 1)"
    using assms by (metis of_nat_less_iff of_nat_numeral of_nat_power)
  ultimately have "signed_take_bit (LENGTH('a) - 1) (uint w) = uint w"
    by (intro signed_take_bit_int_eq_self) (auto intro: order_trans [of _ 0])
  then show ?thesis by (simp add: sint_uint)
qed

section \<open>Hash functions\<close>

text \<open>Two messages that break the collision resistance of a hash function.\<close>

definition collision :: "(byte list \<Rightarrow> uint256) \<Rightarrow> byte list \<Rightarrow> byte list \<Rightarrow> bool" where
  "collision H x y \<longleftrightarrow> x \<noteq> y \<and> H x = H y"

end
