(* ===== verification/Script_Num.thy ===== *)
theory Script_Num
  imports Prelude
begin

unbundle bit_operations_syntax

text \<open>
  \<open>CScriptNum\<close> of \<open>script/script.h\<close>: the sign-and-magnitude little-endian numbers of
  the script machine.  Decoding is the constructor from a byte vector (with the
  minimality check and the size limit), encoding is \<open>serialize\<close>.  The lemmas relate
  both to one arithmetic reading of a byte vector and show that, on minimally encoded
  vectors, they are mutually inverse.
\<close>

section \<open>The code\<close>

datatype scriptnum_error = ScriptNumOverflow | ScriptNumNotMinimal | NegativeGasValue

text \<open>The loop \<open>result |= (int64_t)vch[i] << 8*i\<close>, shared by \<open>set_vch\<close> and \<open>vch_to_uint64\<close>.\<close>

fun or_shift_loop :: "nat \<Rightarrow> u64 \<Rightarrow> valtype \<Rightarrow> u64" where
  "or_shift_loop i result [] = result"
| "or_shift_loop i result (b # bs) =
     or_shift_loop (Suc i) (result OR push_bit (8 * i) (ucast b)) bs"

definition set_vch :: "valtype \<Rightarrow> int" where
  "set_vch vch =
     (if vch = [] then 0
      else let result = or_shift_loop 0 0 vch in
        if last vch AND 0x80 \<noteq> 0
        then - sint (result AND NOT (push_bit (8 * (length vch - 1)) 0x80))
        else sint result)"

definition nDefaultMaxNumSize :: nat where
  "nDefaultMaxNumSize = 4"

definition not_minimal :: "valtype \<Rightarrow> bool" where
  "not_minimal vch \<longleftrightarrow>
     length vch > 0 \<and> last vch AND 0x7f = 0 \<and>
     (length vch \<le> 1 \<or> vch ! (length vch - 2) AND 0x80 = 0)"

definition CScriptNum :: "valtype \<Rightarrow> bool \<Rightarrow> nat \<Rightarrow> scriptnum_error + int" where
  "CScriptNum vch fRequireMinimal nMaxNumSize =
     (if length vch > nMaxNumSize then Inl ScriptNumOverflow
      else if fRequireMinimal \<and> not_minimal vch then Inl ScriptNumNotMinimal
      else Inr (set_vch vch))"

definition getint :: "int \<Rightarrow> int" where
  "getint m = (if m > 2 ^ 31 - 1 then 2 ^ 31 - 1 else if m < - (2 ^ 31) then - (2 ^ 31) else m)"

fun abs_bytes :: "nat \<Rightarrow> byte list" where
  "abs_bytes a = (if a = 0 then [] else of_nat (a mod 256) # abs_bytes (a div 256))"

declare abs_bytes.simps [simp del]

definition serialize :: "int \<Rightarrow> valtype" where
  "serialize value =
     (if value = 0 then []
      else let neg = value < 0; result = abs_bytes (nat \<bar>value\<bar>) in
        if last result AND 0x80 \<noteq> 0 then result @ [if neg then 0x80 else 0]
        else if neg then butlast result @ [last result OR 0x80]
        else result)"

definition vch_to_uint64 :: "valtype \<Rightarrow> scriptnum_error + u64" where
  "vch_to_uint64 vch =
     (if length vch > 8 then Inl ScriptNumOverflow
      else if vch = [] then Inr 0
      else let result = or_shift_loop 0 0 vch in
        if last vch AND 0x80 \<noteq> 0 then Inl NegativeGasValue else Inr result)"

section \<open>The arithmetic reading\<close>

text \<open>Sign and magnitude of a vector whose last byte is \<open>b\<close>.\<close>

definition sm_mag :: "byte list \<Rightarrow> byte \<Rightarrow> nat" where
  "sm_mag xs b = le_nat xs + 256 ^ length xs * (unat b mod 128)"

definition sm_value :: "byte list \<Rightarrow> byte \<Rightarrow> int" where
  "sm_value xs b = (if unat b \<ge> 128 then - int (sm_mag xs b) else int (sm_mag xs b))"

lemma unat_or_shift_loop:
  assumes "unat r < 256 ^ i" and "i + length bs \<le> 8"
  shows "unat (or_shift_loop i r bs) = unat r + 256 ^ i * le_nat bs"
  using assms
proof (induction bs arbitrary: i r)
  case (Cons b bs)
  have pow: "(256 :: nat) ^ i = 2 ^ (8 * i)" by (simp add: power_mult)
  have u: "unat (ucast b :: u64) = unat b"
    using unat_byte_less [of b] by (simp add: unat_ucast)
  have lt: "unat r + unat b * 256 ^ i < 256 ^ Suc i"
  proof -
    have "unat r + unat b * 256 ^ i < Suc (unat b) * 256 ^ i" using Cons.prems(1) by simp
    also have "\<dots> \<le> 256 * 256 ^ i" using unat_byte_less [of b] by (intro mult_le_mono1) simp
    finally show ?thesis by simp
  qed
  also have "(256 :: nat) ^ Suc i \<le> 256 ^ 8"
    using Cons.prems(2) by (intro power_increasing) auto
  finally have fits: "unat r + unat b * 2 ^ (8 * i) < 2 ^ 64" by (simp add: pow)
  have step: "unat (r OR push_bit (8 * i) (ucast b)) = unat r + unat b * 256 ^ i"
    using Cons.prems(1) fits unat_or_push_bit [of r "8 * i" "ucast b"] by (simp add: pow u)
  show ?case
    using Cons.IH [of "r OR push_bit (8 * i) (ucast b)" "Suc i"] Cons.prems(2) lt step
    by (simp add: algebra_simps)
qed simp

lemma unat_or_shift_loop_0: "length bs \<le> 8 \<Longrightarrow> unat (or_shift_loop 0 0 bs) = le_nat bs"
  using unat_or_shift_loop [of 0 0 bs] by simp

lemma unat_and_0x7f: "unat (b AND 0x7f) = unat b mod 128" for b :: byte
proof -
  have "b AND 0x7f = take_bit 7 b" by (simp add: take_bit_eq_mask mask_eq_exp_minus_1)
  then have "unat (b AND 0x7f) = take_bit 7 (unat b)" by (simp only: unsigned_take_bit_eq)
  then show ?thesis by (simp add: take_bit_eq_mod)
qed

lemma and_0x7f_iff: "b AND 0x7f = 0 \<longleftrightarrow> unat b mod 128 = 0" for b :: byte
  by (metis unat_and_0x7f unat_eq_zero)

lemma unat_or_0x80: "unat b < 128 \<Longrightarrow> unat (b OR 0x80) = unat b + 128" for b :: byte
  using unat_or_push_bit [of b 7 1] by simp

lemma unat_clear_top:
  fixes r :: u64
  assumes r: "unat r = a + 256 ^ m * c" and a: "a < 256 ^ m" and c: "128 \<le> c" "c < 256" and m: "m \<le> 7"
  shows "unat (r AND NOT (push_bit (8 * m) 0x80)) = a + 256 ^ m * (c - 128)"
proof -
  let ?n = "8 * m + 7"
  have pow: "(2 :: nat) ^ ?n = 256 ^ m * 128" by (simp add: power_add power_mult)
  have "push_bit (8 * m) (0x80 :: u64) = push_bit ?n 1"
    by (simp add: push_bit_eq_mult power_add)
  moreover have "bit r ?n"
  proof -
    have "unat r div 2 ^ ?n = (unat r div 256 ^ m) div 128" by (simp add: pow div_mult2_eq)
    also have "unat r div 256 ^ m = c" using r a by simp
    also have "c div 128 = 1" using c by (intro div_nat_eqI) auto
    finally have "bit (unat r) ?n" by (simp add: bit_iff_odd)
    then show ?thesis using bit_unsigned_iff [where 'a = nat, of r ?n] by simp
  qed
  moreover have "unset_bit ?n r = r AND NOT (push_bit ?n 1)"
    by (simp add: unset_bit_eq_and_not)
  ultimately have eq: "r AND NOT (push_bit (8 * m) 0x80) = r - 2 ^ ?n"
    by (simp add: unset_bit_eq)
  have p: "unat (2 ^ ?n :: u64) = 2 ^ ?n"
    using m by (intro unat_2p) simp
  have "256 ^ m * 128 \<le> 256 ^ m * c" using c by simp
  then have "2 ^ ?n \<le> unat r" unfolding r pow by (rule trans_le_add2)
  then have "unat (r - 2 ^ ?n) = unat r - 2 ^ ?n"
    using p by (simp add: unat_sub word_le_nat_alt)
  then have "unat (r AND NOT (push_bit (8 * m) 0x80)) = a + 256 ^ m * c - 256 ^ m * 128"
    unfolding eq r pow .
  then show ?thesis using c by (simp add: diff_mult_distrib2)
qed

lemma sm_bound:
  "sm_mag xs b < 2 ^ (8 * length xs + 7)"
proof -
  have "le_nat xs + 256 ^ length xs * (unat b mod 128) < 256 ^ length xs * Suc (unat b mod 128)"
    using le_nat_bound [of xs] by simp
  also have "\<dots> \<le> 256 ^ length xs * 128" by (intro mult_le_mono2) (simp add: Suc_le_eq)
  finally show ?thesis by (simp add: sm_mag_def power_add power_mult)
qed

lemma set_vch_snoc:
  assumes "length xs \<le> 7"
  shows "set_vch (xs @ [b]) = sm_value xs b"
proof -
  let ?r = "or_shift_loop 0 0 (xs @ [b])"
  have r: "unat ?r = le_nat xs + 256 ^ length xs * unat b"
    using assms by (simp add: unat_or_shift_loop_0 le_nat_append)
  have le: "(2 :: nat) ^ (8 * length xs + 7) \<le> 2 ^ 63"
    using assms by (intro power_increasing) auto
  show ?thesis
  proof (cases "128 \<le> unat b")
    case True
    have "unat (?r AND NOT (push_bit (8 * length xs) 0x80)) =
        le_nat xs + 256 ^ length xs * (unat b - 128)"
      using unat_clear_top [OF r le_nat_bound True unat_byte_less assms] .
    moreover have "unat b mod 128 = unat b - 128"
      using True unat_byte_less [of b] by (simp add: le_mod_geq)
    ultimately have "unat (?r AND NOT (push_bit (8 * length xs) 0x80)) = sm_mag xs b"
      by (simp add: sm_mag_def)
    then have "sint (?r AND NOT (push_bit (8 * length xs) 0x80)) = int (sm_mag xs b)"
      using sm_bound [of xs b] le by (subst sint_eq_unat) auto
    with True show ?thesis
      by (simp add: set_vch_def sm_value_def and_0x80_iff not_less Let_def)
  next
    case False
    then have "unat ?r = sm_mag xs b" using r by (simp add: sm_mag_def)
    then have "sint ?r = int (sm_mag xs b)"
      using sm_bound [of xs b] le by (subst sint_eq_unat) auto
    with False show ?thesis
      by (simp add: set_vch_def sm_value_def and_0x80_iff Let_def)
  qed
qed

lemma le_nat_abs_bytes: "le_nat (abs_bytes a) = a"
proof (induction a rule: abs_bytes.induct)
  case (1 a)
  show ?case
  proof (cases "a = 0")
    case True
    then show ?thesis by (simp add: abs_bytes.simps [of 0])
  next
    case False
    have "unat (of_nat (a mod 256) :: byte) = a mod 256" by (simp add: unat_of_nat)
    with False "1.IH" show ?thesis by (subst abs_bytes.simps) simp
  qed
qed

lemma abs_bytes_Nil_iff [simp]: "abs_bytes a = [] \<longleftrightarrow> a = 0"
  by (subst abs_bytes.simps) simp

lemma last_abs_bytes: "a \<noteq> 0 \<Longrightarrow> last (abs_bytes a) \<noteq> 0"
proof (induction a rule: abs_bytes.induct)
  case (1 a)
  show ?case
  proof (cases "a div 256 = 0")
    case True
    with "1.prems" have "a mod 256 = a" "a < 256" by (auto simp: div_eq_0_iff)
    with "1.prems" have "(of_nat (a mod 256) :: byte) \<noteq> 0"
      by (simp add: word_unat_eq_iff unat_of_nat)
    with True "1.prems" show ?thesis by (subst abs_bytes.simps) (simp add: abs_bytes.simps [of 0])
  next
    case False
    with "1" show ?thesis by (subst abs_bytes.simps) simp
  qed
qed

lemma le_nat_pos: "ys \<noteq> [] \<Longrightarrow> last ys \<noteq> 0 \<Longrightarrow> le_nat ys \<noteq> 0"
  by (induction ys) (auto simp: unat_eq_zero split: if_splits)

lemma abs_bytes_le_nat: "ys \<noteq> [] \<Longrightarrow> last ys \<noteq> 0 \<Longrightarrow> abs_bytes (le_nat ys) = ys"
proof (induction ys)
  case (Cons y ys)
  have y: "unat y < 256" by (rule unat_byte_less)
  have pos: "le_nat (y # ys) \<noteq> 0" using le_nat_pos Cons.prems by blast
  have "abs_bytes (le_nat ys) = ys"
    using Cons by (cases "ys = []") (auto simp: abs_bytes.simps [of 0])
  moreover have "(of_nat (le_nat (y # ys) mod 256) :: byte) = y" using y by simp
  moreover have "le_nat (y # ys) div 256 = le_nat ys" using y by simp
  ultimately show ?case using pos by (subst abs_bytes.simps) (simp del: le_nat.simps)
qed simp

lemma not_minimal_snoc:
  "not_minimal (xs @ [b]) \<longleftrightarrow> unat b mod 128 = 0 \<and> (xs = [] \<or> unat (last xs) < 128)"
proof (cases xs rule: rev_cases)
  case Nil
  then show ?thesis by (simp add: not_minimal_def and_0x7f_iff)
next
  case (snoc ys y)
  then show ?thesis by (simp add: not_minimal_def and_0x7f_iff and_0x80_iff nth_append)
qed

text \<open>Encoding a value yields a minimal vector that reads back as the value.\<close>

lemma serialize_reads:
  assumes "n \<noteq> 0"
  obtains xs b where "serialize n = xs @ [b]" "sm_value xs b = n" "\<not> not_minimal (xs @ [b])"
proof -
  define ys where "ys = abs_bytes (nat \<bar>n\<bar>)"
  have ne: "ys \<noteq> []" and l0: "last ys \<noteq> 0" and v: "le_nat ys = nat \<bar>n\<bar>"
    using assms last_abs_bytes le_nat_abs_bytes by (auto simp: ys_def)
  from ne obtain xs t where ys: "ys = xs @ [t]" by (cases ys rule: rev_cases) auto
  have v': "le_nat xs + 256 ^ length xs * unat t = nat \<bar>n\<bar>" using v by (simp add: ys le_nat_append)
  have t0: "unat t \<noteq> 0" using l0 ys by (simp add: unat_eq_zero)
  show ?thesis
  proof (cases "unat t < 128")
    case True
    let ?b = "if n < 0 then t OR 0x80 else t"
    have "serialize n = xs @ [?b]"
      using assms True by (simp add: serialize_def ys_def [symmetric] ys and_0x80_iff)
    moreover have "sm_mag xs ?b = nat \<bar>n\<bar>"
      using v' True by (simp add: sm_mag_def unat_or_0x80)
    then have "sm_value xs ?b = n"
      using True by (simp add: sm_value_def unat_or_0x80)
    moreover have "\<not> not_minimal (xs @ [?b])"
      using True t0 by (auto simp: not_minimal_snoc unat_or_0x80 mod_add_self2)
    ultimately show ?thesis using that by blast
  next
    case False
    let ?b = "if n < 0 then 0x80 else 0 :: byte"
    have "serialize n = (xs @ [t]) @ [?b]"
      using assms False by (simp add: serialize_def ys_def [symmetric] ys and_0x80_iff)
    moreover have "sm_mag (xs @ [t]) ?b = nat \<bar>n\<bar>"
      using v' by (simp add: sm_mag_def le_nat_append)
    then have "sm_value (xs @ [t]) ?b = n" by (simp add: sm_value_def)
    moreover have "\<not> not_minimal ((xs @ [t]) @ [?b])"
      using False unfolding not_minimal_snoc by simp
    ultimately show ?thesis using that by blast
  qed
qed

lemma serialize_sm_value:
  assumes "\<not> not_minimal (xs @ [b])"
  shows "serialize (sm_value xs b) = xs @ [b]"
proof -
  define neg where "neg = (128 \<le> unat b)"
  define c where "c = unat b mod 128"
  have c: "unat b = c + (if neg then 128 else 0)" "c < 128"
    using unat_byte_less [of b] by (auto simp: neg_def c_def le_mod_geq)
  have mag: "sm_mag xs b = le_nat xs + 256 ^ length xs * c"
    by (simp add: sm_mag_def c_def)
  have val: "sm_value xs b = (if neg then - int (sm_mag xs b) else int (sm_mag xs b))"
    by (simp add: sm_value_def neg_def)
  show ?thesis
  proof (cases "c = 0")
    case True
    with assms have ne: "xs \<noteq> []" and top: "\<not> unat (last xs) < 128"
      by (auto simp: not_minimal_snoc c_def)
    then have l0: "last xs \<noteq> 0" by auto
    have b: "b = (if neg then 0x80 else 0)"
      using c True by (auto simp: word_unat_eq_iff)
    have "serialize (if neg then - int (le_nat xs) else int (le_nat xs)) =
        xs @ [if neg then 0x80 else 0]"
      using le_nat_pos [OF ne l0] abs_bytes_le_nat [OF ne l0] top
      by (simp add: serialize_def and_0x80_iff Let_def)
    then show ?thesis unfolding val mag True b [symmetric] by (simp split: if_splits)
  next
    case False
    define t :: byte where "t = of_nat c"
    have t: "unat t = c" using c by (simp add: t_def unat_of_nat)
    then have l0: "last (xs @ [t]) \<noteq> 0" using False by (auto simp: word_unat_eq_iff)
    have b: "b = (if neg then t OR 0x80 else t)"
      using c t by (auto simp: word_unat_eq_iff unat_or_0x80)
    have le: "sm_mag xs b = le_nat (xs @ [t])"
      by (simp add: le_nat_append t mag)
    have "serialize (if neg then - int (le_nat (xs @ [t])) else int (le_nat (xs @ [t]))) =
        xs @ [if neg then t OR 0x80 else t]"
      using le_nat_pos [OF _ l0] abs_bytes_le_nat [OF _ l0] t c
      by (simp add: serialize_def and_0x80_iff Let_def)
    then show ?thesis unfolding val le b [symmetric] .
  qed
qed

lemma minimal_mag_lower:
  assumes "\<not> not_minimal (xs @ [b])" and "xs \<noteq> []"
  shows "2 ^ (8 * length xs - 1) \<le> sm_mag xs b"
proof -
  from assms(2) obtain ys y where xs: "xs = ys @ [y]" by (cases xs rule: rev_cases) auto
  have pow: "(2 :: nat) ^ (8 * length xs - 1) = 256 ^ length ys * 128"
    by (simp add: xs power_add power_mult)
  show ?thesis
  proof (cases "unat b mod 128 = 0")
    case True
    then have "128 \<le> unat y" using assms not_minimal_snoc [of xs b] by (auto simp: xs)
    then have "256 ^ length ys * 128 \<le> 256 ^ length ys * unat y" by (rule mult_le_mono2)
    also have "\<dots> \<le> sm_mag xs b" by (simp add: sm_mag_def xs le_nat_append)
    finally show ?thesis unfolding pow .
  next
    case False
    have "256 ^ length ys * 128 \<le> (256 :: nat) ^ length xs * 1" by (simp add: xs)
    also have "\<dots> \<le> 256 ^ length xs * (unat b mod 128)"
      using False by (intro mult_le_mono2) simp
    also have "\<dots> \<le> sm_mag xs b" by (simp add: sm_mag_def)
    finally show ?thesis unfolding pow .
  qed
qed

lemma abs_sm_value [simp]: "\<bar>sm_value xs b\<bar> = int (sm_mag xs b)"
  by (simp add: sm_value_def)

text \<open>The size of an encoding is decided by the magnitude alone.\<close>

lemma length_serialize_le_iff:
  assumes "1 \<le> k"
  shows "length (serialize n) \<le> k \<longleftrightarrow> \<bar>n\<bar> < 2 ^ (8 * k - 1)"
proof (cases "n = 0")
  case True
  then show ?thesis by (simp add: serialize_def)
next
  case False
  then obtain xs b where s: "serialize n = xs @ [b]" and v: "sm_value xs b = n"
    and m: "\<not> not_minimal (xs @ [b])" by (rule serialize_reads)
  have n: "\<bar>n\<bar> = int (sm_mag xs b)" by (simp flip: v)
  have "length xs < k \<longleftrightarrow> sm_mag xs b < 2 ^ (8 * k - 1)"
  proof
    assume "length xs < k"
    then have "(2 :: nat) ^ (8 * length xs + 7) \<le> 2 ^ (8 * k - 1)"
      by (intro power_increasing) auto
    with sm_bound [of xs b] show "sm_mag xs b < 2 ^ (8 * k - 1)" by linarith
  next
    assume less: "sm_mag xs b < 2 ^ (8 * k - 1)"
    show "length xs < k"
    proof (rule ccontr)
      assume "\<not> length xs < k"
      then have "(2 :: nat) ^ (8 * k - 1) \<le> 2 ^ (8 * length xs - 1)" and "xs \<noteq> []"
        using assms by (auto intro!: power_increasing)
      with minimal_mag_lower [OF m] less show False by linarith
    qed
  qed
  then show ?thesis
    unfolding n s by (simp add: Suc_le_eq)
qed

lemma serialize_0 [simp]: "serialize 0 = []"
  by (simp add: serialize_def)

lemma serialize_minimal: "\<not> not_minimal (serialize n)"
  by (cases "n = 0") (auto simp: not_minimal_def elim: serialize_reads)

lemma set_vch_Nil [simp]: "set_vch [] = 0"
  by (simp add: set_vch_def)

lemma set_vch_serialize:
  assumes "\<bar>n\<bar> < 2 ^ 63"
  shows "set_vch (serialize n) = n"
proof (cases "n = 0")
  case False
  then obtain xs b where s: "serialize n = xs @ [b]" and v: "sm_value xs b = n"
    by (rule serialize_reads)
  have "length xs \<le> 7" using length_serialize_le_iff [of 8 n] assms s by simp
  then show ?thesis using set_vch_snoc [of xs b] s v by simp
qed simp

text \<open>C26: decoding with the minimality check and a size limit of \<open>k\<close> bytes accepts exactly
  the serialisations of the integers of magnitude below \<open>2 ^ (8 k - 1)\<close>, and returns that
  integer: on minimal vectors encoding and decoding are mutually inverse.\<close>

theorem CScriptNum_minimal_iff:
  assumes "1 \<le> k" and "k \<le> 8"
  shows "CScriptNum vch True k = Inr n \<longleftrightarrow> vch = serialize n \<and> \<bar>n\<bar> < 2 ^ (8 * k - 1)"
proof
  assume dec: "CScriptNum vch True k = Inr n"
  then have len: "length vch \<le> k" and min: "\<not> not_minimal vch" and v: "set_vch vch = n"
    by (auto simp: CScriptNum_def split: if_splits)
  have "vch = serialize n"
  proof (cases vch rule: rev_cases)
    case (snoc xs b)
    then have "length xs \<le> 7" using len assms by simp
    then show ?thesis using serialize_sm_value [of xs b] set_vch_snoc [of xs b] snoc min v by simp
  qed (use v in simp)
  with len show "vch = serialize n \<and> \<bar>n\<bar> < 2 ^ (8 * k - 1)"
    using length_serialize_le_iff [OF assms(1)] by simp
next
  assume r: "vch = serialize n \<and> \<bar>n\<bar> < 2 ^ (8 * k - 1)"
  have "(2 :: int) ^ (8 * k - 1) \<le> 2 ^ 63" using assms by (intro power_increasing) auto
  then have "set_vch vch = n" using r set_vch_serialize by simp
  then show "CScriptNum vch True k = Inr n"
    using r length_serialize_le_iff [OF assms(1)] serialize_minimal
    by (simp add: CScriptNum_def not_less)
qed

theorem CScriptNum_minimal_iff_witness:
  "CScriptNum (serialize (- 12345)) True 4 = Inr (- 12345)"
  using CScriptNum_minimal_iff [of 4 "serialize (- 12345)" "- 12345"] by simp

lemma CScriptNum_range:
  assumes "CScriptNum vch fmin k = Inr n" and "1 \<le> k" and "k \<le> 8"
  shows "\<bar>n\<bar> < 2 ^ (8 * k - 1)"
proof -
  from assms(1) have len: "length vch \<le> k" and v: "set_vch vch = n"
    by (auto simp: CScriptNum_def split: if_splits)
  show ?thesis
  proof (cases vch rule: rev_cases)
    case (snoc xs b)
    then have l: "length xs < k" "length xs \<le> 7" using len assms by auto
    then have "\<bar>n\<bar> = int (sm_mag xs b)" using set_vch_snoc [of xs b] snoc v by (simp flip: v)
    moreover have "sm_mag xs b < 2 ^ (8 * k - 1)"
    proof -
      have "(2 :: nat) ^ (8 * length xs + 7) \<le> 2 ^ (8 * k - 1)" using l by (intro power_increasing) auto
      with sm_bound [of xs b] show ?thesis by linarith
    qed
    ultimately show ?thesis by (metis of_nat_less_iff of_nat_numeral of_nat_power)
  qed (use v in auto)
qed

end
