(* ===== verification/Script.thy ===== *)
theory Script
  imports Script_Num
begin

unbundle bit_operations_syntax

text \<open>
  \<open>CScript\<close> of \<open>script/script.h\<close> and \<open>script/script.cpp\<close>: the opcode enumeration, the
  instruction reader \<open>GetScriptOp\<close>, the push operators, the pattern tests and the
  signature-operation counts.  A script is its byte list, an iterator is the suffix
  it points to.  \<open>opcodetype\<close> is the unsigned value of the opcode byte.
\<close>

section \<open>Opcodes\<close>

type_synonym opcodetype = nat

abbreviation (input) OP_0 :: opcodetype where "OP_0 \<equiv> 0x00"
abbreviation (input) OP_FALSE :: opcodetype where "OP_FALSE \<equiv> 0x00"
abbreviation (input) OP_PUSHDATA1 :: opcodetype where "OP_PUSHDATA1 \<equiv> 0x4c"
abbreviation (input) OP_PUSHDATA2 :: opcodetype where "OP_PUSHDATA2 \<equiv> 0x4d"
abbreviation (input) OP_PUSHDATA4 :: opcodetype where "OP_PUSHDATA4 \<equiv> 0x4e"
abbreviation (input) OP_1NEGATE :: opcodetype where "OP_1NEGATE \<equiv> 0x4f"
abbreviation (input) OP_RESERVED :: opcodetype where "OP_RESERVED \<equiv> 0x50"
abbreviation (input) OP_1 :: opcodetype where "OP_1 \<equiv> 0x51"
abbreviation (input) OP_TRUE :: opcodetype where "OP_TRUE \<equiv> 0x51"
abbreviation (input) OP_2 :: opcodetype where "OP_2 \<equiv> 0x52"
abbreviation (input) OP_3 :: opcodetype where "OP_3 \<equiv> 0x53"
abbreviation (input) OP_4 :: opcodetype where "OP_4 \<equiv> 0x54"
abbreviation (input) OP_5 :: opcodetype where "OP_5 \<equiv> 0x55"
abbreviation (input) OP_6 :: opcodetype where "OP_6 \<equiv> 0x56"
abbreviation (input) OP_7 :: opcodetype where "OP_7 \<equiv> 0x57"
abbreviation (input) OP_8 :: opcodetype where "OP_8 \<equiv> 0x58"
abbreviation (input) OP_9 :: opcodetype where "OP_9 \<equiv> 0x59"
abbreviation (input) OP_10 :: opcodetype where "OP_10 \<equiv> 0x5a"
abbreviation (input) OP_11 :: opcodetype where "OP_11 \<equiv> 0x5b"
abbreviation (input) OP_12 :: opcodetype where "OP_12 \<equiv> 0x5c"
abbreviation (input) OP_13 :: opcodetype where "OP_13 \<equiv> 0x5d"
abbreviation (input) OP_14 :: opcodetype where "OP_14 \<equiv> 0x5e"
abbreviation (input) OP_15 :: opcodetype where "OP_15 \<equiv> 0x5f"
abbreviation (input) OP_16 :: opcodetype where "OP_16 \<equiv> 0x60"
abbreviation (input) OP_NOP :: opcodetype where "OP_NOP \<equiv> 0x61"
abbreviation (input) OP_VER :: opcodetype where "OP_VER \<equiv> 0x62"
abbreviation (input) OP_IF :: opcodetype where "OP_IF \<equiv> 0x63"
abbreviation (input) OP_NOTIF :: opcodetype where "OP_NOTIF \<equiv> 0x64"
abbreviation (input) OP_VERIF :: opcodetype where "OP_VERIF \<equiv> 0x65"
abbreviation (input) OP_VERNOTIF :: opcodetype where "OP_VERNOTIF \<equiv> 0x66"
abbreviation (input) OP_ELSE :: opcodetype where "OP_ELSE \<equiv> 0x67"
abbreviation (input) OP_ENDIF :: opcodetype where "OP_ENDIF \<equiv> 0x68"
abbreviation (input) OP_VERIFY :: opcodetype where "OP_VERIFY \<equiv> 0x69"
abbreviation (input) OP_RETURN :: opcodetype where "OP_RETURN \<equiv> 0x6a"
abbreviation (input) OP_TOALTSTACK :: opcodetype where "OP_TOALTSTACK \<equiv> 0x6b"
abbreviation (input) OP_FROMALTSTACK :: opcodetype where "OP_FROMALTSTACK \<equiv> 0x6c"
abbreviation (input) OP_2DROP :: opcodetype where "OP_2DROP \<equiv> 0x6d"
abbreviation (input) OP_2DUP :: opcodetype where "OP_2DUP \<equiv> 0x6e"
abbreviation (input) OP_3DUP :: opcodetype where "OP_3DUP \<equiv> 0x6f"
abbreviation (input) OP_2OVER :: opcodetype where "OP_2OVER \<equiv> 0x70"
abbreviation (input) OP_2ROT :: opcodetype where "OP_2ROT \<equiv> 0x71"
abbreviation (input) OP_2SWAP :: opcodetype where "OP_2SWAP \<equiv> 0x72"
abbreviation (input) OP_IFDUP :: opcodetype where "OP_IFDUP \<equiv> 0x73"
abbreviation (input) OP_DEPTH :: opcodetype where "OP_DEPTH \<equiv> 0x74"
abbreviation (input) OP_DROP :: opcodetype where "OP_DROP \<equiv> 0x75"
abbreviation (input) OP_DUP :: opcodetype where "OP_DUP \<equiv> 0x76"
abbreviation (input) OP_NIP :: opcodetype where "OP_NIP \<equiv> 0x77"
abbreviation (input) OP_OVER :: opcodetype where "OP_OVER \<equiv> 0x78"
abbreviation (input) OP_PICK :: opcodetype where "OP_PICK \<equiv> 0x79"
abbreviation (input) OP_ROLL :: opcodetype where "OP_ROLL \<equiv> 0x7a"
abbreviation (input) OP_ROT :: opcodetype where "OP_ROT \<equiv> 0x7b"
abbreviation (input) OP_SWAP :: opcodetype where "OP_SWAP \<equiv> 0x7c"
abbreviation (input) OP_TUCK :: opcodetype where "OP_TUCK \<equiv> 0x7d"
abbreviation (input) OP_CAT :: opcodetype where "OP_CAT \<equiv> 0x7e"
abbreviation (input) OP_SUBSTR :: opcodetype where "OP_SUBSTR \<equiv> 0x7f"
abbreviation (input) OP_LEFT :: opcodetype where "OP_LEFT \<equiv> 0x80"
abbreviation (input) OP_RIGHT :: opcodetype where "OP_RIGHT \<equiv> 0x81"
abbreviation (input) OP_SIZE :: opcodetype where "OP_SIZE \<equiv> 0x82"
abbreviation (input) OP_INVERT :: opcodetype where "OP_INVERT \<equiv> 0x83"
abbreviation (input) OP_AND :: opcodetype where "OP_AND \<equiv> 0x84"
abbreviation (input) OP_OR :: opcodetype where "OP_OR \<equiv> 0x85"
abbreviation (input) OP_XOR :: opcodetype where "OP_XOR \<equiv> 0x86"
abbreviation (input) OP_EQUAL :: opcodetype where "OP_EQUAL \<equiv> 0x87"
abbreviation (input) OP_EQUALVERIFY :: opcodetype where "OP_EQUALVERIFY \<equiv> 0x88"
abbreviation (input) OP_RESERVED1 :: opcodetype where "OP_RESERVED1 \<equiv> 0x89"
abbreviation (input) OP_RESERVED2 :: opcodetype where "OP_RESERVED2 \<equiv> 0x8a"
abbreviation (input) OP_1ADD :: opcodetype where "OP_1ADD \<equiv> 0x8b"
abbreviation (input) OP_1SUB :: opcodetype where "OP_1SUB \<equiv> 0x8c"
abbreviation (input) OP_2MUL :: opcodetype where "OP_2MUL \<equiv> 0x8d"
abbreviation (input) OP_2DIV :: opcodetype where "OP_2DIV \<equiv> 0x8e"
abbreviation (input) OP_NEGATE :: opcodetype where "OP_NEGATE \<equiv> 0x8f"
abbreviation (input) OP_ABS :: opcodetype where "OP_ABS \<equiv> 0x90"
abbreviation (input) OP_NOT :: opcodetype where "OP_NOT \<equiv> 0x91"
abbreviation (input) OP_0NOTEQUAL :: opcodetype where "OP_0NOTEQUAL \<equiv> 0x92"
abbreviation (input) OP_ADD :: opcodetype where "OP_ADD \<equiv> 0x93"
abbreviation (input) OP_SUB :: opcodetype where "OP_SUB \<equiv> 0x94"
abbreviation (input) OP_MUL :: opcodetype where "OP_MUL \<equiv> 0x95"
abbreviation (input) OP_DIV :: opcodetype where "OP_DIV \<equiv> 0x96"
abbreviation (input) OP_MOD :: opcodetype where "OP_MOD \<equiv> 0x97"
abbreviation (input) OP_LSHIFT :: opcodetype where "OP_LSHIFT \<equiv> 0x98"
abbreviation (input) OP_RSHIFT :: opcodetype where "OP_RSHIFT \<equiv> 0x99"
abbreviation (input) OP_BOOLAND :: opcodetype where "OP_BOOLAND \<equiv> 0x9a"
abbreviation (input) OP_BOOLOR :: opcodetype where "OP_BOOLOR \<equiv> 0x9b"
abbreviation (input) OP_NUMEQUAL :: opcodetype where "OP_NUMEQUAL \<equiv> 0x9c"
abbreviation (input) OP_NUMEQUALVERIFY :: opcodetype where "OP_NUMEQUALVERIFY \<equiv> 0x9d"
abbreviation (input) OP_NUMNOTEQUAL :: opcodetype where "OP_NUMNOTEQUAL \<equiv> 0x9e"
abbreviation (input) OP_LESSTHAN :: opcodetype where "OP_LESSTHAN \<equiv> 0x9f"
abbreviation (input) OP_GREATERTHAN :: opcodetype where "OP_GREATERTHAN \<equiv> 0xa0"
abbreviation (input) OP_LESSTHANOREQUAL :: opcodetype where "OP_LESSTHANOREQUAL \<equiv> 0xa1"
abbreviation (input) OP_GREATERTHANOREQUAL :: opcodetype where "OP_GREATERTHANOREQUAL \<equiv> 0xa2"
abbreviation (input) OP_MIN :: opcodetype where "OP_MIN \<equiv> 0xa3"
abbreviation (input) OP_MAX :: opcodetype where "OP_MAX \<equiv> 0xa4"
abbreviation (input) OP_WITHIN :: opcodetype where "OP_WITHIN \<equiv> 0xa5"
abbreviation (input) OP_RIPEMD160 :: opcodetype where "OP_RIPEMD160 \<equiv> 0xa6"
abbreviation (input) OP_SHA1 :: opcodetype where "OP_SHA1 \<equiv> 0xa7"
abbreviation (input) OP_SHA256 :: opcodetype where "OP_SHA256 \<equiv> 0xa8"
abbreviation (input) OP_HASH160 :: opcodetype where "OP_HASH160 \<equiv> 0xa9"
abbreviation (input) OP_HASH256 :: opcodetype where "OP_HASH256 \<equiv> 0xaa"
abbreviation (input) OP_CODESEPARATOR :: opcodetype where "OP_CODESEPARATOR \<equiv> 0xab"
abbreviation (input) OP_CHECKSIG :: opcodetype where "OP_CHECKSIG \<equiv> 0xac"
abbreviation (input) OP_CHECKSIGVERIFY :: opcodetype where "OP_CHECKSIGVERIFY \<equiv> 0xad"
abbreviation (input) OP_CHECKMULTISIG :: opcodetype where "OP_CHECKMULTISIG \<equiv> 0xae"
abbreviation (input) OP_CHECKMULTISIGVERIFY :: opcodetype where "OP_CHECKMULTISIGVERIFY \<equiv> 0xaf"
abbreviation (input) OP_NOP1 :: opcodetype where "OP_NOP1 \<equiv> 0xb0"
abbreviation (input) OP_CHECKLOCKTIMEVERIFY :: opcodetype where "OP_CHECKLOCKTIMEVERIFY \<equiv> 0xb1"
abbreviation (input) OP_NOP2 :: opcodetype where "OP_NOP2 \<equiv> 0xb1"
abbreviation (input) OP_CHECKSEQUENCEVERIFY :: opcodetype where "OP_CHECKSEQUENCEVERIFY \<equiv> 0xb2"
abbreviation (input) OP_NOP3 :: opcodetype where "OP_NOP3 \<equiv> 0xb2"
abbreviation (input) OP_NOP4 :: opcodetype where "OP_NOP4 \<equiv> 0xb3"
abbreviation (input) OP_NOP5 :: opcodetype where "OP_NOP5 \<equiv> 0xb4"
abbreviation (input) OP_NOP6 :: opcodetype where "OP_NOP6 \<equiv> 0xb5"
abbreviation (input) OP_NOP7 :: opcodetype where "OP_NOP7 \<equiv> 0xb6"
abbreviation (input) OP_NOP8 :: opcodetype where "OP_NOP8 \<equiv> 0xb7"
abbreviation (input) OP_NOP9 :: opcodetype where "OP_NOP9 \<equiv> 0xb8"
abbreviation (input) OP_NOP10 :: opcodetype where "OP_NOP10 \<equiv> 0xb9"
abbreviation (input) OP_CREATE :: opcodetype where "OP_CREATE \<equiv> 0xc1"
abbreviation (input) OP_CALL :: opcodetype where "OP_CALL \<equiv> 0xc2"
abbreviation (input) OP_SPEND :: opcodetype where "OP_SPEND \<equiv> 0xc3"
abbreviation (input) OP_GAS_PRICE :: opcodetype where "OP_GAS_PRICE \<equiv> 0xf5"
abbreviation (input) OP_VERSION :: opcodetype where "OP_VERSION \<equiv> 0xf6"
abbreviation (input) OP_GAS_LIMIT :: opcodetype where "OP_GAS_LIMIT \<equiv> 0xf7"
abbreviation (input) OP_DATA :: opcodetype where "OP_DATA \<equiv> 0xf8"
abbreviation (input) OP_SMALLINTEGER :: opcodetype where "OP_SMALLINTEGER \<equiv> 0xfa"
abbreviation (input) OP_PUBKEYS :: opcodetype where "OP_PUBKEYS \<equiv> 0xfb"
abbreviation (input) OP_PUBKEYHASH :: opcodetype where "OP_PUBKEYHASH \<equiv> 0xfd"
abbreviation (input) OP_PUBKEY :: opcodetype where "OP_PUBKEY \<equiv> 0xfe"
abbreviation (input) OP_INVALIDOPCODE :: opcodetype where "OP_INVALIDOPCODE \<equiv> 0xff"

definition MAX_OPCODE :: nat where
  "MAX_OPCODE = OP_NOP10"

definition MAX_SCRIPT_ELEMENT_SIZE :: nat where
  "MAX_SCRIPT_ELEMENT_SIZE = 128000"

definition MAX_OPS_PER_SCRIPT :: nat where
  "MAX_OPS_PER_SCRIPT = 201"

definition MAX_PUBKEYS_PER_MULTISIG :: nat where
  "MAX_PUBKEYS_PER_MULTISIG = 20"

definition MAX_SCRIPT_SIZE :: nat where
  "MAX_SCRIPT_SIZE = 129000"

definition MAX_STACK_SIZE :: nat where
  "MAX_STACK_SIZE = 1000"

definition LOCKTIME_THRESHOLD :: nat where
  "LOCKTIME_THRESHOLD = 500000000"

lemmas script_limits =
  MAX_OPCODE_def MAX_SCRIPT_ELEMENT_SIZE_def MAX_OPS_PER_SCRIPT_def MAX_PUBKEYS_PER_MULTISIG_def
  MAX_SCRIPT_SIZE_def MAX_STACK_SIZE_def LOCKTIME_THRESHOLD_def

section \<open>Reading instructions\<close>

text \<open>The size of an immediate operand and the iterator after it; on the left the iterator
  where reading failed.\<close>

definition operand_size :: "opcodetype \<Rightarrow> CScript \<Rightarrow> CScript + nat \<times> CScript" where
  "operand_size opcode pc =
     (if opcode < OP_PUSHDATA1 then Inr (opcode, pc)
      else if opcode = OP_PUSHDATA1 then
        (if length pc < 1 then Inl pc else Inr (unat (pc ! 0), drop 1 pc))
      else if opcode = OP_PUSHDATA2 then
        (if length pc < 2 then Inl pc else Inr (unat (ReadLE16 pc), drop 2 pc))
      else
        (if length pc < 4 then Inl pc else Inr (unat (ReadLE32 pc), drop 4 pc)))"

text \<open>\<open>GetScriptOp\<close> returns the new iterator, the opcode and the pushed data, or on failure
  the position its reference parameter \<open>pc\<close> is left at.\<close>

definition GetScriptOp :: "CScript \<Rightarrow> CScript + CScript \<times> opcodetype \<times> valtype" where
  "GetScriptOp pc =
     (case pc of [] \<Rightarrow> Inl []
      | b # pc1 \<Rightarrow>
        let opcode = unat b in
        if opcode \<le> OP_PUSHDATA4 then
          bindE (operand_size opcode pc1) (\<lambda>(nSize, pc2).
            if length pc2 < nSize then Inl pc2
            else Inr (drop nSize pc2, opcode, take nSize pc2))
        else Inr (pc1, opcode, []))"

lemma operand_size_length: "operand_size opcode pc = Inr (n, pc') \<Longrightarrow> length pc' \<le> length pc"
  by (auto simp: operand_size_def split: if_splits)

lemma GetScriptOp_length: "GetScriptOp pc = Inr (pc', opcode, v) \<Longrightarrow> length pc' < length pc"
  by (auto simp: GetScriptOp_def Let_def bindE_iffs dest!: operand_size_length split: list.splits if_splits)

lemma GetScriptOp_data_length:
  "GetScriptOp pc = Inr (pc', opcode, v) \<Longrightarrow> length v + length pc' < length pc"
  by (auto simp: GetScriptOp_def Let_def bindE_iffs dest!: operand_size_length split: list.splits if_splits)

lemma GetScriptOp_Nil [simp]: "GetScriptOp [] = Inl []"
  by (simp add: GetScriptOp_def)

lemma GetScriptOp_opcode_byte: "GetScriptOp pc = Inr (pc', opcode, v) \<Longrightarrow> opcode < 256"
  using unat_byte_less
  by (auto simp: GetScriptOp_def Let_def bindE_iffs split: list.splits if_splits)

section \<open>Building scripts\<close>

definition push_opcode :: "CScript \<Rightarrow> opcodetype \<Rightarrow> CScript" where
  "push_opcode s opcode = s @ [of_nat opcode]"

definition push_data :: "CScript \<Rightarrow> valtype \<Rightarrow> CScript" where
  "push_data s b =
     s @ (if length b < OP_PUSHDATA1 then [of_nat (length b)]
          else if length b \<le> 0xff then [of_nat OP_PUSHDATA1, of_nat (length b)]
          else if length b \<le> 0xffff then of_nat OP_PUSHDATA2 # WriteLE16 (of_nat (length b))
          else of_nat OP_PUSHDATA4 # WriteLE32 (of_nat (length b))) @ b"

definition push_int64 :: "CScript \<Rightarrow> int \<Rightarrow> CScript" where
  "push_int64 s n =
     (if n = - 1 \<or> (1 \<le> n \<and> n \<le> 16) then s @ [of_int (n + (int OP_1 - 1))]
      else if n = 0 then s @ [of_nat OP_0]
      else push_data s (serialize n))"

text \<open>\<open>None\<close> is the failed assertion on the argument.\<close>

definition DecodeOP_N :: "opcodetype \<Rightarrow> nat option" where
  "DecodeOP_N opcode =
     (if opcode = OP_0 then Some 0
      else if OP_1 \<le> opcode \<and> opcode \<le> OP_16 then Some (opcode - (OP_1 - 1)) else None)"

definition EncodeOP_N :: "nat \<Rightarrow> opcodetype option" where
  "EncodeOP_N n = (if n > 16 then None else if n = 0 then Some OP_0 else Some (OP_1 + n - 1))"

lemma DecodeOP_N_total: "opcode = OP_0 \<or> OP_1 \<le> opcode \<and> opcode \<le> OP_16 \<Longrightarrow> DecodeOP_N opcode \<noteq> None"
  by (auto simp: DecodeOP_N_def)

section \<open>Scanning a script\<close>

text \<open>\<open>Find\<close>: how often an opcode occurs, up to the first unreadable instruction.\<close>

function Find :: "CScript \<Rightarrow> opcodetype \<Rightarrow> nat" where
  "Find pc opc =
     (case GetScriptOp pc of Inl _ \<Rightarrow> 0
      | Inr (pc', opcode, _) \<Rightarrow> (if opcode = opc then 1 else 0) + Find pc' opc)"
  by pat_completeness auto
termination by (relation "measure (length \<circ> fst)") (auto dest: GetScriptOp_length)

declare Find.simps [simp del]

text \<open>What one instruction adds to \<open>n\<close> in \<open>GetSigOpCount(bool)\<close>, and the loop with its
  \<open>lastOpcode\<close> and running count \<open>n\<close>.  The guard is the assertion of \<open>DecodeOP_N\<close> (\<open>DecodeOP_N_total\<close>).\<close>

definition opcode_sigops :: "bool \<Rightarrow> opcodetype \<Rightarrow> opcodetype \<Rightarrow> nat" where
  "opcode_sigops fAccurate lastOpcode opcode =
     (if opcode = OP_CHECKSIG \<or> opcode = OP_CHECKSIGVERIFY then 1
      else if opcode = OP_CHECKMULTISIG \<or> opcode = OP_CHECKMULTISIGVERIFY then
        (if fAccurate \<and> OP_1 \<le> lastOpcode \<and> lastOpcode \<le> OP_16
         then the (DecodeOP_N lastOpcode)
         else MAX_PUBKEYS_PER_MULTISIG)
      else 0)"

function sigop_loop :: "bool \<Rightarrow> opcodetype \<Rightarrow> nat \<Rightarrow> CScript \<Rightarrow> nat" where
  "sigop_loop fAccurate lastOpcode n pc =
     (case GetScriptOp pc of Inl _ \<Rightarrow> n
      | Inr (pc', opcode, _) \<Rightarrow>
        sigop_loop fAccurate opcode (n + opcode_sigops fAccurate lastOpcode opcode) pc')"
  by pat_completeness auto
termination by (relation "measure (\<lambda>(_, _, _, pc). length pc)") (auto dest: GetScriptOp_length)

declare sigop_loop.simps [simp del]

definition GetSigOpCount :: "bool \<Rightarrow> CScript \<Rightarrow> nat" where
  "GetSigOpCount fAccurate s = sigop_loop fAccurate OP_INVALIDOPCODE 0 s"

definition IsPayToScriptHash :: "CScript \<Rightarrow> bool" where
  "IsPayToScriptHash s \<longleftrightarrow>
     length s = 23 \<and> unat (s ! 0) = OP_HASH160 \<and> s ! 1 = 0x14 \<and> unat (s ! 22) = OP_EQUAL"

text \<open>The last data pushed by a push-only scriptSig, \<open>None\<close> where \<open>GetSigOpCount\<close> returns 0.\<close>

function last_push :: "valtype \<Rightarrow> CScript \<Rightarrow> valtype option" where
  "last_push vData pc =
     (if pc = [] then Some vData
      else case GetScriptOp pc of Inl _ \<Rightarrow> None
      | Inr (pc', opcode, v) \<Rightarrow> if opcode > OP_16 then None else last_push v pc')"
  by pat_completeness auto
termination by (relation "measure (\<lambda>(_, pc). length pc)") (auto dest: GetScriptOp_length)

declare last_push.simps [simp del]

definition GetSigOpCount_P2SH :: "CScript \<Rightarrow> CScript \<Rightarrow> nat" where
  "GetSigOpCount_P2SH s scriptSig =
     (if \<not> IsPayToScriptHash s then GetSigOpCount True s
      else case last_push [] scriptSig of None \<Rightarrow> 0
      | Some subscript \<Rightarrow> GetSigOpCount True subscript)"

definition IsPayToPubkey :: "CScript \<Rightarrow> bool" where
  "IsPayToPubkey s \<longleftrightarrow>
     (length s = 35 \<and> s ! 0 = 33 \<and> unat (s ! 34) = OP_CHECKSIG \<and> (s ! 1 = 0x02 \<or> s ! 1 = 0x03)) \<or>
     (length s = 67 \<and> s ! 0 = 65 \<and> unat (s ! 66) = OP_CHECKSIG \<and> s ! 1 = 0x04)"

definition IsPayToPubkeyHash :: "CScript \<Rightarrow> bool" where
  "IsPayToPubkeyHash s \<longleftrightarrow>
     length s = 25 \<and> unat (s ! 0) = OP_DUP \<and> unat (s ! 1) = OP_HASH160 \<and> s ! 2 = 0x14 \<and>
     unat (s ! 23) = OP_EQUALVERIFY \<and> unat (s ! 24) = OP_CHECKSIG"

definition IsPayToWitnessScriptHash :: "CScript \<Rightarrow> bool" where
  "IsPayToWitnessScriptHash s \<longleftrightarrow> length s = 34 \<and> unat (s ! 0) = OP_0 \<and> s ! 1 = 0x20"

text \<open>\<open>IsWitnessProgram\<close> returns the version and the program through its reference parameters;
  \<open>Some None\<close> is the result \<open>false\<close> and \<open>None\<close> the failed assertion of \<open>DecodeOP_N\<close>.\<close>

definition IsWitnessProgram :: "CScript \<Rightarrow> (nat \<times> valtype) option option" where
  "IsWitnessProgram s =
     (if length s < 4 \<or> length s > 42 then Some None
      else if unat (s ! 0) \<noteq> OP_0 \<and> (unat (s ! 0) < OP_1 \<or> unat (s ! 0) > OP_16) then Some None
      else if unat (s ! 1) + 2 = length s then
        (case DecodeOP_N (unat (s ! 0)) of None \<Rightarrow> None | Some version \<Rightarrow> Some (Some (version, drop 2 s)))
      else Some None)"

lemma IsWitnessProgram_total: "IsWitnessProgram s \<noteq> None"
  using DecodeOP_N_total [of "unat (s ! 0)"] by (auto simp: IsWitnessProgram_def)

function IsPushOnly :: "CScript \<Rightarrow> bool" where
  "IsPushOnly pc =
     (pc = [] \<or>
      (case GetScriptOp pc of Inl _ \<Rightarrow> False
       | Inr (pc', opcode, _) \<Rightarrow> \<not> opcode > OP_16 \<and> IsPushOnly pc'))"
  by pat_completeness auto
termination by (relation "measure length") (auto dest: GetScriptOp_length)

declare IsPushOnly.simps [simp del]

function HasValidOps :: "CScript \<Rightarrow> bool" where
  "HasValidOps it =
     (it = [] \<or>
      (case GetScriptOp it of Inl _ \<Rightarrow> False
       | Inr (it', opcode, item) \<Rightarrow>
           \<not> (opcode > MAX_OPCODE \<or> length item > MAX_SCRIPT_ELEMENT_SIZE) \<and> HasValidOps it'))"
  by pat_completeness auto
termination by (relation "measure length") (auto dest: GetScriptOp_length)

declare HasValidOps.simps [simp del]

definition IsUnspendable :: "CScript \<Rightarrow> bool" where
  "IsUnspendable s \<longleftrightarrow> (length s > 0 \<and> unat (s ! 0) = OP_RETURN) \<or> length s > MAX_SCRIPT_SIZE"

definition HasOpCreate :: "CScript \<Rightarrow> bool" where
  "HasOpCreate s \<longleftrightarrow> Find s OP_CREATE = 1"

definition HasOpCall :: "CScript \<Rightarrow> bool" where
  "HasOpCall s \<longleftrightarrow> Find s OP_CALL = 1"

definition HasOpSpend :: "CScript \<Rightarrow> bool" where
  "HasOpSpend s \<longleftrightarrow> length s = 1 \<and> unat (s ! 0) = OP_SPEND"

section \<open>Reading back what was pushed\<close>

definition push_opcode_of :: "valtype \<Rightarrow> opcodetype" where
  "push_opcode_of d =
     (if length d < OP_PUSHDATA1 then length d
      else if length d \<le> 0xff then OP_PUSHDATA1
      else if length d \<le> 0xffff then OP_PUSHDATA2 else OP_PUSHDATA4)"

lemma unat_of_nat_less: "n < 2 ^ LENGTH('a) \<Longrightarrow> unat (of_nat n :: 'a::len word) = n"
  by (simp add: unat_of_nat)

lemma GetScriptOp_push:
  assumes "length d < 2 ^ 32"
  shows "GetScriptOp (push_data [] d @ rest) = Inr (rest, push_opcode_of d, d)"
proof -
  consider (direct) "length d < OP_PUSHDATA1" | (p1) "OP_PUSHDATA1 \<le> length d" "length d \<le> 0xff"
    | (p2) "0xff < length d" "length d \<le> 0xffff" | (p4) "0xffff < length d" by linarith
  then show ?thesis
  proof cases
    case direct
    then show ?thesis
      by (simp add: push_data_def push_opcode_of_def GetScriptOp_def operand_size_def unat_of_nat_less Let_def)
  next
    case p1
    then show ?thesis
      by (simp add: push_data_def push_opcode_of_def GetScriptOp_def operand_size_def unat_of_nat_less Let_def)
  next
    case p2
    let ?w = "of_nat (length d) :: u16"
    have "unat ?w = length d" using p2 by (simp add: unat_of_nat_less)
    with p2 show ?thesis
      by (simp add: push_data_def push_opcode_of_def GetScriptOp_def operand_size_def Let_def)
  next
    case p4
    let ?w = "of_nat (length d) :: u32"
    have "unat ?w = length d" using assms by (simp add: unat_of_nat_less)
    with p4 show ?thesis
      by (simp add: push_data_def push_opcode_of_def GetScriptOp_def operand_size_def Let_def)
  qed
qed

text \<open>The instruction reader inverts the push operator: reading a script that starts with a
  push of \<open>d\<close> returns exactly \<open>d\<close>, the opcode of the shortest push form for its length,
  and the rest of the script.\<close>

theorem GetScriptOp_push_data:
  assumes "length d < 2 ^ 32"
  shows "GetScriptOp (push_data [] d @ rest) = Inr (rest, push_opcode_of d, d)"
  by (rule GetScriptOp_push [OF assms])

theorem GetScriptOp_push_data_witness:
  "GetScriptOp (push_data [] [7, 8, 9] @ [0xac]) = Inr ([0xac], push_opcode_of [7, 8, 9], [7, 8, 9])"
  using GetScriptOp_push_data [of "[7, 8, 9]" "[0xac]"] by simp

lemma push_data_append: "push_data s d = s @ push_data [] d"
  by (simp add: push_data_def)

lemma push_data_Nil_ne [simp]: "push_data [] d \<noteq> []"
  by (simp add: push_data_def)

lemma GetScriptOp_plain:
  "OP_PUSHDATA4 < unat b \<Longrightarrow> GetScriptOp (b # rest) = Inr (rest, unat b, [])"
  by (simp add: GetScriptOp_def)

lemma push_opcode_of_le: "push_opcode_of d \<le> OP_PUSHDATA4"
  by (simp add: push_opcode_of_def)

section \<open>Signature operation counts\<close>

lemma opcode_sigops_le: "opcode_sigops fAcc lastOp opcode \<le> opcode_sigops False lastOp' opcode"
  by (auto simp: opcode_sigops_def DecodeOP_N_def script_limits)

lemma opcode_sigops_bound: "opcode_sigops fAcc lastOp opcode \<le> MAX_PUBKEYS_PER_MULTISIG"
  by (auto simp: opcode_sigops_def DecodeOP_N_def script_limits)

lemma sigop_loop_mono:
  "n \<le> n' \<Longrightarrow> sigop_loop fAcc lastOp n pc \<le> sigop_loop False lastOp' n' pc"
proof (induction fAcc lastOp n pc arbitrary: lastOp' n' rule: sigop_loop.induct)
  case (1 fAcc lastOp n pc)
  show ?case
  proof (cases "GetScriptOp pc")
    case (Inl x)
    with "1.prems" show ?thesis
      by (simp add: sigop_loop.simps [of fAcc lastOp n pc] sigop_loop.simps [of False lastOp' n' pc])
  next
    case (Inr y)
    then obtain pc' opcode v where op: "GetScriptOp pc = Inr (pc', opcode, v)" by (cases y) auto
    with "1.prems" "1.IH" [OF op refl refl, of "n' + opcode_sigops False lastOp' opcode" opcode]
    show ?thesis
      using opcode_sigops_le [of fAcc lastOp opcode lastOp']
      by (simp add: sigop_loop.simps [of fAcc lastOp n pc] sigop_loop.simps [of False lastOp' n' pc])
  qed
qed

text \<open>Accurate counting never exceeds the legacy count, and one opcode counts for at most 20.\<close>

lemma GetSigOpCount_accurate_le: "GetSigOpCount True s \<le> GetSigOpCount False s"
  by (simp add: GetSigOpCount_def sigop_loop_mono)

lemma sigop_loop_bound: "sigop_loop fAcc lastOp n pc \<le> n + MAX_PUBKEYS_PER_MULTISIG * length pc"
proof (induction fAcc lastOp n pc rule: sigop_loop.induct)
  case (1 fAcc lastOp n pc)
  show ?case
  proof (cases "GetScriptOp pc")
    case (Inl x)
    then show ?thesis by (simp add: sigop_loop.simps [of fAcc lastOp n pc])
  next
    case (Inr y)
    then obtain pc' opcode v where op: "GetScriptOp pc = Inr (pc', opcode, v)" by (cases y) auto
    then have "Suc (length pc') \<le> length pc" by (simp add: GetScriptOp_length Suc_le_eq)
    then have "MAX_PUBKEYS_PER_MULTISIG * Suc (length pc') \<le> MAX_PUBKEYS_PER_MULTISIG * length pc"
      by (rule mult_le_mono2)
    with "1.IH" [OF op refl refl] op opcode_sigops_bound [of fAcc lastOp opcode] show ?thesis
      by (simp add: sigop_loop.simps [of fAcc lastOp n pc])
  qed
qed

section \<open>Witness programs\<close>

lemma DecodeOP_N_EncodeOP_N: "EncodeOP_N n = Some opc \<Longrightarrow> DecodeOP_N opc = Some n"
  by (auto simp: EncodeOP_N_def DecodeOP_N_def split: if_splits)

lemma EncodeOP_N_DecodeOP_N: "DecodeOP_N opc = Some n \<Longrightarrow> EncodeOP_N n = Some opc"
  by (auto simp: EncodeOP_N_def DecodeOP_N_def split: if_splits)

text \<open>A script is recognised as a witness program with version \<open>v\<close> and program \<open>p\<close> exactly
  when it is the small-integer opcode of \<open>v\<close> followed by one direct push of \<open>p\<close>, where
  \<open>p\<close> has 2 to 40 bytes.\<close>

theorem IsWitnessProgram_iff:
  "IsWitnessProgram s = Some (Some (v, p)) \<longleftrightarrow>
   2 \<le> length p \<and> length p \<le> 40 \<and>
   (\<exists>opc. EncodeOP_N v = Some opc \<and> s = push_data [of_nat opc] p)"
proof
  assume w: "IsWitnessProgram s = Some (Some (v, p))"
  then obtain a b r where s: "s = a # b # r"
    by (cases s; cases "tl s") (auto simp: IsWitnessProgram_def)
  have ab: "DecodeOP_N (unat a) = Some v" "unat b = length r" "p = r" "2 \<le> length r" "length r \<le> 40"
    using w by (auto simp: IsWitnessProgram_def s split: if_splits option.splits)
  have "b = of_nat (length r)" using ab(2) by (metis of_nat_unat ucast_id)
  then have "s = push_data [of_nat (unat a)] p" using ab by (simp add: push_data_def s)
  with ab show "2 \<le> length p \<and> length p \<le> 40 \<and>
      (\<exists>opc. EncodeOP_N v = Some opc \<and> s = push_data [of_nat opc] p)"
    using EncodeOP_N_DecodeOP_N by blast
next
  assume r: "2 \<le> length p \<and> length p \<le> 40 \<and>
    (\<exists>opc. EncodeOP_N v = Some opc \<and> s = push_data [of_nat opc] p)"
  then obtain opc where e: "EncodeOP_N v = Some opc" and s: "s = [of_nat opc, of_nat (length p)] @ p"
    by (auto simp: push_data_def)
  have "opc \<le> OP_16" "opc = OP_0 \<or> OP_1 \<le> opc" using e by (auto simp: EncodeOP_N_def split: if_splits)
  then show "IsWitnessProgram s = Some (Some (v, p))"
    using r DecodeOP_N_EncodeOP_N [OF e] by (auto simp: IsWitnessProgram_def s unat_of_nat_less)
qed

section \<open>Push-only scripts\<close>

lemma last_push_iff_IsPushOnly: "(last_push v s \<noteq> None) = IsPushOnly s"
proof (induction v s rule: last_push.induct)
  case (1 v s)
  then show ?case
    by (subst last_push.simps, subst IsPushOnly.simps) (auto split: sum.splits)
qed

lemma IsPushOnly_push_data:
  assumes "length d < 2 ^ 32"
  shows "IsPushOnly (push_data [] d @ rest) \<longleftrightarrow> IsPushOnly rest"
  by (subst IsPushOnly.simps)
     (use push_opcode_of_le [of d] in \<open>simp add: GetScriptOp_push [OF assms]\<close>)

lemma last_push_push_data:
  assumes "length d < 2 ^ 32"
  shows "last_push v (push_data [] d @ rest) = last_push d rest"
  by (subst last_push.simps)
     (use push_opcode_of_le [of d] in \<open>simp add: GetScriptOp_push [OF assms]\<close>)

end
