(* ===== verification/Script_Checks.thy ===== *)
theory Script_Checks
  imports Script
begin

unbundle bit_operations_syntax

text \<open>
  The static checks of \<open>script/interpreter.cpp\<close>: truth of a stack value, public key and
  signature encodings, minimal pushes, and \<open>FindAndDelete\<close>; with the error and flag
  enumerations of \<open>script_error.h\<close> and \<open>interpreter.h\<close>.  A check that may set an error is
  a computation in the error monad with \<open>ScriptError\<close> on the left.
\<close>

section \<open>Errors and flags\<close>

datatype ScriptError =
    SCRIPT_ERR_OK
  | SCRIPT_ERR_UNKNOWN_ERROR
  | SCRIPT_ERR_EVAL_FALSE
  | SCRIPT_ERR_OP_RETURN
  | SCRIPT_ERR_SCRIPT_SIZE
  | SCRIPT_ERR_PUSH_SIZE
  | SCRIPT_ERR_OP_COUNT
  | SCRIPT_ERR_STACK_SIZE
  | SCRIPT_ERR_SIG_COUNT
  | SCRIPT_ERR_PUBKEY_COUNT
  | SCRIPT_ERR_VERIFY
  | SCRIPT_ERR_EQUALVERIFY
  | SCRIPT_ERR_CHECKMULTISIGVERIFY
  | SCRIPT_ERR_CHECKSIGVERIFY
  | SCRIPT_ERR_NUMEQUALVERIFY
  | SCRIPT_ERR_BAD_OPCODE
  | SCRIPT_ERR_DISABLED_OPCODE
  | SCRIPT_ERR_INVALID_STACK_OPERATION
  | SCRIPT_ERR_INVALID_ALTSTACK_OPERATION
  | SCRIPT_ERR_UNBALANCED_CONDITIONAL
  | SCRIPT_ERR_NEGATIVE_LOCKTIME
  | SCRIPT_ERR_UNSATISFIED_LOCKTIME
  | SCRIPT_ERR_SIG_HASHTYPE
  | SCRIPT_ERR_SIG_DER
  | SCRIPT_ERR_MINIMALDATA
  | SCRIPT_ERR_SIG_PUSHONLY
  | SCRIPT_ERR_SIG_HIGH_S
  | SCRIPT_ERR_SIG_NULLDUMMY
  | SCRIPT_ERR_PUBKEYTYPE
  | SCRIPT_ERR_CLEANSTACK
  | SCRIPT_ERR_MINIMALIF
  | SCRIPT_ERR_SIG_NULLFAIL
  | SCRIPT_ERR_DISCOURAGE_UPGRADABLE_NOPS
  | SCRIPT_ERR_DISCOURAGE_UPGRADABLE_WITNESS_PROGRAM
  | SCRIPT_ERR_WITNESS_PROGRAM_WRONG_LENGTH
  | SCRIPT_ERR_WITNESS_PROGRAM_WITNESS_EMPTY
  | SCRIPT_ERR_WITNESS_PROGRAM_MISMATCH
  | SCRIPT_ERR_WITNESS_MALLEATED
  | SCRIPT_ERR_WITNESS_MALLEATED_P2SH
  | SCRIPT_ERR_WITNESS_UNEXPECTED
  | SCRIPT_ERR_WITNESS_PUBKEYTYPE
  | SCRIPT_ERR_OP_CODESEPARATOR
  | SCRIPT_ERR_SIG_FINDANDDELETE
  | SCRIPT_ERR_ERROR_COUNT

datatype SigVersion = BASE | WITNESS_V0

abbreviation (input) SCRIPT_VERIFY_NONE :: u32 where "SCRIPT_VERIFY_NONE \<equiv> 0"
abbreviation (input) SCRIPT_VERIFY_P2SH :: u32 where "SCRIPT_VERIFY_P2SH \<equiv> push_bit 0 1"
abbreviation (input) SCRIPT_VERIFY_STRICTENC :: u32 where "SCRIPT_VERIFY_STRICTENC \<equiv> push_bit 1 1"
abbreviation (input) SCRIPT_VERIFY_DERSIG :: u32 where "SCRIPT_VERIFY_DERSIG \<equiv> push_bit 2 1"
abbreviation (input) SCRIPT_VERIFY_LOW_S :: u32 where "SCRIPT_VERIFY_LOW_S \<equiv> push_bit 3 1"
abbreviation (input) SCRIPT_VERIFY_NULLDUMMY :: u32 where "SCRIPT_VERIFY_NULLDUMMY \<equiv> push_bit 4 1"
abbreviation (input) SCRIPT_VERIFY_SIGPUSHONLY :: u32 where "SCRIPT_VERIFY_SIGPUSHONLY \<equiv> push_bit 5 1"
abbreviation (input) SCRIPT_VERIFY_MINIMALDATA :: u32 where "SCRIPT_VERIFY_MINIMALDATA \<equiv> push_bit 6 1"
abbreviation (input) SCRIPT_VERIFY_DISCOURAGE_UPGRADABLE_NOPS :: u32 where "SCRIPT_VERIFY_DISCOURAGE_UPGRADABLE_NOPS \<equiv> push_bit 7 1"
abbreviation (input) SCRIPT_VERIFY_CLEANSTACK :: u32 where "SCRIPT_VERIFY_CLEANSTACK \<equiv> push_bit 8 1"
abbreviation (input) SCRIPT_VERIFY_CHECKLOCKTIMEVERIFY :: u32 where "SCRIPT_VERIFY_CHECKLOCKTIMEVERIFY \<equiv> push_bit 9 1"
abbreviation (input) SCRIPT_VERIFY_CHECKSEQUENCEVERIFY :: u32 where "SCRIPT_VERIFY_CHECKSEQUENCEVERIFY \<equiv> push_bit 10 1"
abbreviation (input) SCRIPT_VERIFY_WITNESS :: u32 where "SCRIPT_VERIFY_WITNESS \<equiv> push_bit 11 1"
abbreviation (input) SCRIPT_VERIFY_DISCOURAGE_UPGRADABLE_WITNESS_PROGRAM :: u32 where "SCRIPT_VERIFY_DISCOURAGE_UPGRADABLE_WITNESS_PROGRAM \<equiv> push_bit 12 1"
abbreviation (input) SCRIPT_VERIFY_MINIMALIF :: u32 where "SCRIPT_VERIFY_MINIMALIF \<equiv> push_bit 13 1"
abbreviation (input) SCRIPT_VERIFY_NULLFAIL :: u32 where "SCRIPT_VERIFY_NULLFAIL \<equiv> push_bit 14 1"
abbreviation (input) SCRIPT_VERIFY_WITNESS_PUBKEYTYPE :: u32 where "SCRIPT_VERIFY_WITNESS_PUBKEYTYPE \<equiv> push_bit 15 1"
abbreviation (input) SCRIPT_VERIFY_CONST_SCRIPTCODE :: u32 where "SCRIPT_VERIFY_CONST_SCRIPTCODE \<equiv> push_bit 16 1"
abbreviation (input) SCRIPT_EXEC_BYTE_CODE :: u32 where "SCRIPT_EXEC_BYTE_CODE \<equiv> push_bit 30 1"

abbreviation (input) SIGHASH_ALL :: nat where "SIGHASH_ALL \<equiv> 1"
abbreviation (input) SIGHASH_NONE :: nat where "SIGHASH_NONE \<equiv> 2"
abbreviation (input) SIGHASH_SINGLE :: nat where "SIGHASH_SINGLE \<equiv> 3"
abbreviation (input) SIGHASH_ANYONECANPAY :: nat where "SIGHASH_ANYONECANPAY \<equiv> 0x80"

definition has_flag :: "u32 \<Rightarrow> u32 \<Rightarrow> bool" where
  "has_flag flags f \<longleftrightarrow> flags AND f \<noteq> 0"

text \<open>The code outside the modelled files that the interpreter calls: the hash functions of
  \<open>crypto/\<close> and the low-S test of \<open>pubkey.cpp\<close>, which is a call into libsecp256k1.\<close>

record crypto =
  RIPEMD160 :: "valtype \<Rightarrow> valtype"
  SHA1 :: "valtype \<Rightarrow> valtype"
  SHA256 :: "valtype \<Rightarrow> valtype"
  CheckLowS :: "valtype \<Rightarrow> bool"

definition Hash160 :: "crypto \<Rightarrow> valtype \<Rightarrow> valtype" where
  "Hash160 cr v = RIPEMD160 cr (SHA256 cr v)"

definition Hash256 :: "crypto \<Rightarrow> valtype \<Rightarrow> valtype" where
  "Hash256 cr v = SHA256 cr (SHA256 cr v)"

section \<open>Checks\<close>

text \<open>\<open>CastToBool\<close> scans for a non-zero byte; a lone \<open>0x80\<close> in last position is negative zero.\<close>

fun CastToBool :: "valtype \<Rightarrow> bool" where
  "CastToBool [] = False"
| "CastToBool (b # bs) = (if b \<noteq> 0 then \<not> (bs = [] \<and> b = 0x80) else CastToBool bs)"

definition PUBLIC_KEY_SIZE :: nat where
  "PUBLIC_KEY_SIZE = 65"

definition COMPRESSED_PUBLIC_KEY_SIZE :: nat where
  "COMPRESSED_PUBLIC_KEY_SIZE = 33"

definition IsCompressedOrUncompressedPubKey :: "valtype \<Rightarrow> bool" where
  "IsCompressedOrUncompressedPubKey vchPubKey =
     (if length vchPubKey < COMPRESSED_PUBLIC_KEY_SIZE then False
      else if vchPubKey ! 0 = 0x04 then length vchPubKey = PUBLIC_KEY_SIZE
      else if vchPubKey ! 0 = 0x02 \<or> vchPubKey ! 0 = 0x03 then
        length vchPubKey = COMPRESSED_PUBLIC_KEY_SIZE
      else False)"

definition IsCompressedPubKey :: "valtype \<Rightarrow> bool" where
  "IsCompressedPubKey vchPubKey =
     (if length vchPubKey \<noteq> COMPRESSED_PUBLIC_KEY_SIZE then False
      else if vchPubKey ! 0 \<noteq> 0x02 \<and> vchPubKey ! 0 \<noteq> 0x03 then False
      else True)"

definition IsValidSignatureEncoding :: "valtype \<Rightarrow> bool \<Rightarrow> bool" where
  "IsValidSignatureEncoding sig haveHashType =
     (if length sig < 9 then False
      else if length sig > 73 then False
      else if sig ! 0 \<noteq> 0x30 then False
      else if unat (sig ! 1) \<noteq> length sig - (if haveHashType then 3 else 2) then False
      else let lenR = unat (sig ! 3) in
      if 5 + lenR \<ge> length sig then False
      else let lenS = unat (sig ! (5 + lenR)) in
      if lenR + lenS + (if haveHashType then 7 else 6) \<noteq> length sig then False
      else if sig ! 2 \<noteq> 0x02 then False
      else if lenR = 0 then False
      else if sig ! 4 AND 0x80 \<noteq> 0 then False
      else if lenR > 1 \<and> sig ! 4 = 0x00 \<and> sig ! 5 AND 0x80 = 0 then False
      else if sig ! (lenR + 4) \<noteq> 0x02 then False
      else if lenS = 0 then False
      else if sig ! (lenR + 6) AND 0x80 \<noteq> 0 then False
      else if lenS > 1 \<and> sig ! (lenR + 6) = 0x00 \<and> sig ! (lenR + 7) AND 0x80 = 0 then False
      else True)"

definition IsLowDERSignature :: "crypto \<Rightarrow> valtype \<Rightarrow> bool \<Rightarrow> ScriptError + unit" where
  "IsLowDERSignature cr vchSig haveHashType =
     (if \<not> IsValidSignatureEncoding vchSig haveHashType then Inl SCRIPT_ERR_SIG_DER
      else let vchSigCopy = take (length vchSig - (if haveHashType then 1 else 0)) vchSig in
        if \<not> CheckLowS cr vchSigCopy then Inl SCRIPT_ERR_SIG_HIGH_S
        else Inr ())"

definition IsDERSignature :: "valtype \<Rightarrow> bool \<Rightarrow> ScriptError + unit" where
  "IsDERSignature vchSig haveHashType =
     (if \<not> IsValidSignatureEncoding vchSig haveHashType then Inl SCRIPT_ERR_SIG_DER else Inr ())"

definition IsDefinedHashtypeSignature :: "valtype \<Rightarrow> bool" where
  "IsDefinedHashtypeSignature vchSig =
     (if length vchSig = 0 then False
      else let nHashType = unat (vchSig ! (length vchSig - 1) AND NOT 0x80) in
        \<not> (nHashType < SIGHASH_ALL \<or> nHashType > SIGHASH_SINGLE))"

definition CheckSignatureEncoding :: "crypto \<Rightarrow> valtype \<Rightarrow> u32 \<Rightarrow> ScriptError + unit" where
  "CheckSignatureEncoding cr vchSig flags =
     (if length vchSig = 0 then Inr ()
      else if has_flag flags (SCRIPT_VERIFY_DERSIG OR SCRIPT_VERIFY_LOW_S OR SCRIPT_VERIFY_STRICTENC) \<and>
              \<not> IsValidSignatureEncoding vchSig True then Inl SCRIPT_ERR_SIG_DER
      else if has_flag flags SCRIPT_VERIFY_LOW_S \<and> IsLowDERSignature cr vchSig True \<noteq> Inr () then
        IsLowDERSignature cr vchSig True
      else if has_flag flags SCRIPT_VERIFY_STRICTENC \<and> \<not> IsDefinedHashtypeSignature vchSig then
        Inl SCRIPT_ERR_SIG_HASHTYPE
      else Inr ())"

definition CheckPubKeyEncoding :: "valtype \<Rightarrow> u32 \<Rightarrow> SigVersion \<Rightarrow> ScriptError + unit" where
  "CheckPubKeyEncoding vchPubKey flags sigversion =
     (if has_flag flags SCRIPT_VERIFY_STRICTENC \<and> \<not> IsCompressedOrUncompressedPubKey vchPubKey then
        Inl SCRIPT_ERR_PUBKEYTYPE
      else if has_flag flags SCRIPT_VERIFY_WITNESS_PUBKEYTYPE \<and> sigversion = WITNESS_V0 \<and>
              \<not> IsCompressedPubKey vchPubKey then Inl SCRIPT_ERR_WITNESS_PUBKEYTYPE
      else Inr ())"

text \<open>\<open>None\<close> is the failed assertion on the opcode.\<close>

definition CheckMinimalPush :: "valtype \<Rightarrow> opcodetype \<Rightarrow> bool option" where
  "CheckMinimalPush data opcode =
     (if \<not> opcode \<le> OP_PUSHDATA4 then None
      else if length data = 0 then Some (opcode = OP_0)
      else if length data = 1 \<and> 1 \<le> unat (data ! 0) \<and> unat (data ! 0) \<le> 16 then Some False
      else if length data = 1 \<and> data ! 0 = 0x81 then Some False
      else if length data \<le> 75 then Some (opcode = length data)
      else if length data \<le> 255 then Some (opcode = OP_PUSHDATA1)
      else if length data \<le> 65535 then Some (opcode = OP_PUSHDATA2)
      else Some True)"

section \<open>FindAndDelete\<close>

text \<open>The inner \<open>while\<close>: step over adjacent copies of \<open>b\<close>.\<close>

function skip_copies :: "CScript \<Rightarrow> CScript \<Rightarrow> nat \<Rightarrow> CScript \<times> nat" where
  "skip_copies b pc nFound =
     (if b \<noteq> [] \<and> length pc \<ge> length b \<and> take (length b) pc = b
      then skip_copies b (drop (length b) pc) (Suc nFound) else (pc, nFound))"
  by pat_completeness auto
termination
  by (relation "measure (\<lambda>(_, pc, _). length pc)")
     (auto intro!: diff_less intro: order_less_le_trans)

declare skip_copies.simps [simp del]

lemma skip_copies_length: "skip_copies b pc n = (pc', n') \<Longrightarrow> length pc' \<le> length pc"
proof (induction b pc n rule: skip_copies.induct)
  case (1 b pc n)
  then show ?case by (subst (asm) (2) skip_copies.simps) (fastforce split: if_splits)
qed

text \<open>The outer loop: \<open>result\<close> collects the bytes between \<open>pc2\<close> and \<open>pc\<close>.\<close>

function find_and_delete_loop ::
    "CScript \<Rightarrow> CScript \<Rightarrow> nat \<Rightarrow> CScript \<Rightarrow> CScript \<Rightarrow> nat \<times> CScript \<times> CScript" where
  "find_and_delete_loop b result nFound pc2 pc =
     (let result = result @ take (length pc2 - length pc) pc2;
          s = skip_copies b pc nFound in
      case GetScriptOp (fst s) of Inl _ \<Rightarrow> (snd s, result, fst s)
      | Inr (pc'', _, _) \<Rightarrow> find_and_delete_loop b result (snd s) (fst s) pc'')"
  by pat_completeness auto
termination
proof (relation "measure (\<lambda>(_, _, _, _, pc). length pc)", goal_cases)
  case (2 b result nFound pc2 pc x xa y pc'' z w v)
  then show ?case
    using skip_copies_length [of b pc nFound "fst xa" "snd xa"] GetScriptOp_length [of "fst xa"]
    by fastforce
qed auto

declare find_and_delete_loop.simps [simp del]

definition FindAndDelete :: "CScript \<Rightarrow> CScript \<Rightarrow> nat \<times> CScript" where
  "FindAndDelete script b =
     (if b = [] then (0, script)
      else case find_and_delete_loop b [] 0 script script of (nFound, result, pc2) \<Rightarrow>
        if nFound > 0 then (nFound, result @ pc2) else (nFound, script))"

end
