(* ===== verification/Script_Interp.thy ===== *)
theory Script_Interp
  imports Script_Checks
begin

unbundle bit_operations_syntax

text \<open>
  \<open>EvalScript\<close> of \<open>script/interpreter.cpp\<close>.  The machine state is a record of the main
  and alternative stacks, the conditional stack, the code-hash start and the opcode
  count; stacks are lists with the top element first, so \<open>stacktop(-i)\<close> is position
  \<open>i - 1\<close>.  Each instruction (or group sharing a \<open>case\<close> body) is one definition.  The
  left side of the error monad holds every way the C++ code leaves the loop early:
  \<open>set_error\<close>, a thrown exception, or a failed \<open>assert\<close>.
\<close>

section \<open>Machine state and environment\<close>

datatype eval_exn =
    SErr ScriptError              \<comment> \<open>\<open>return set_error(...)\<close>\<close>
  | NumExn scriptnum_error        \<comment> \<open>\<open>scriptnum_error\<close>\<close>
  | OutOfRange                    \<comment> \<open>\<open>std::out_of_range\<close> from \<open>vector::at\<close>\<close>
  | PopEmpty                      \<comment> \<open>\<open>popstack(): stack empty\<close>\<close>
  | AssertFail                    \<comment> \<open>\<open>assert\<close>: the process aborts\<close>

record exec_state =
  stack :: "valtype list"
  altstack :: "valtype list"
  vfExec :: "bool list"
  pbegincodehash :: CScript
  nOpCount :: int

text \<open>The virtual class \<open>BaseSignatureChecker\<close>: its three methods.\<close>

record sig_checker =
  CheckSig :: "valtype \<Rightarrow> valtype \<Rightarrow> CScript \<Rightarrow> SigVersion \<Rightarrow> bool"
  CheckLockTime :: "int \<Rightarrow> bool"
  CheckSequence :: "int \<Rightarrow> bool"

text \<open>The default methods of the base class.\<close>

definition BaseSignatureChecker :: sig_checker where
  "BaseSignatureChecker =
     \<lparr>CheckSig = (\<lambda>scriptSig vchPubKey scriptCode sigversion. False),
      CheckLockTime = (\<lambda>nLockTime. False), CheckSequence = (\<lambda>nSequence. False)\<rparr>"

record eval_env =
  flags :: u32
  checker :: sig_checker
  sigversion :: SigVersion
  crypt :: crypto

type_synonym 'a eval = "eval_exn + 'a"

definition fRequireMinimal :: "eval_env \<Rightarrow> bool" where
  "fRequireMinimal env = has_flag (flags env) SCRIPT_VERIFY_MINIMALDATA"

definition vchFalse :: valtype where
  "vchFalse = []"

definition vchTrue :: valtype where
  "vchTrue = [1]"

definition vchBool :: "bool \<Rightarrow> valtype" where
  "vchBool b = (if b then vchTrue else vchFalse)"

definition stacktop :: "valtype list \<Rightarrow> nat \<Rightarrow> valtype eval" where
  "stacktop s i = (if 1 \<le> i \<and> i \<le> length s then Inr (s ! (i - 1)) else Inl OutOfRange)"

fun popstack :: "valtype list \<Rightarrow> valtype list eval" where
  "popstack [] = Inl PopEmpty"
| "popstack (x # xs) = Inr xs"

definition swaptop :: "valtype list \<Rightarrow> nat \<Rightarrow> nat \<Rightarrow> valtype list eval" where
  "swaptop s i j =
     bindE (stacktop s i) (\<lambda>x. bindE (stacktop s j) (\<lambda>y. Inr (s[i - 1 := y, j - 1 := x])))"

definition script_num :: "eval_env \<Rightarrow> valtype \<Rightarrow> nat \<Rightarrow> int eval" where
  "script_num env v nMaxNumSize =
     (case CScriptNum v (fRequireMinimal env) nMaxNumSize of Inl e \<Rightarrow> Inl (NumExn e) | Inr n \<Rightarrow> Inr n)"

definition need :: "nat \<Rightarrow> valtype list \<Rightarrow> unit eval" where
  "need n s = guardE (\<not> length s < n) (SErr SCRIPT_ERR_INVALID_STACK_OPERATION)"

definition push :: "valtype \<Rightarrow> exec_state \<Rightarrow> exec_state" where
  "push v st = st\<lparr>stack := v # stack st\<rparr>"

section \<open>Pushes, lock times and control\<close>

definition op_push_number :: "opcodetype \<Rightarrow> exec_state \<Rightarrow> exec_state eval" where
  "op_push_number opcode st = Inr (push (serialize (int opcode - int (OP_1 - 1))) st)"

definition op_checklocktimeverify :: "eval_env \<Rightarrow> exec_state \<Rightarrow> exec_state eval" where
  "op_checklocktimeverify env st =
     (if \<not> has_flag (flags env) SCRIPT_VERIFY_CHECKLOCKTIMEVERIFY then Inr st
      else bindE (need 1 (stack st)) (\<lambda>_.
        bindE (bindE (stacktop (stack st) 1) (\<lambda>v. script_num env v 5)) (\<lambda>nLockTime.
        bindE (guardE (\<not> nLockTime < 0) (SErr SCRIPT_ERR_NEGATIVE_LOCKTIME)) (\<lambda>_.
        bindE (guardE (CheckLockTime (checker env) nLockTime) (SErr SCRIPT_ERR_UNSATISFIED_LOCKTIME)) (\<lambda>_.
        Inr st)))))"

definition SEQUENCE_LOCKTIME_DISABLE_FLAG :: u32 where
  "SEQUENCE_LOCKTIME_DISABLE_FLAG = push_bit 31 1"

definition op_checksequenceverify :: "eval_env \<Rightarrow> exec_state \<Rightarrow> exec_state eval" where
  "op_checksequenceverify env st =
     (if \<not> has_flag (flags env) SCRIPT_VERIFY_CHECKSEQUENCEVERIFY then Inr st
      else bindE (need 1 (stack st)) (\<lambda>_.
        bindE (bindE (stacktop (stack st) 1) (\<lambda>v. script_num env v 5)) (\<lambda>nSequence.
        bindE (guardE (\<not> nSequence < 0) (SErr SCRIPT_ERR_NEGATIVE_LOCKTIME)) (\<lambda>_.
        if nSequence AND uint SEQUENCE_LOCKTIME_DISABLE_FLAG \<noteq> 0 then Inr st
        else bindE (guardE (CheckSequence (checker env) nSequence) (SErr SCRIPT_ERR_UNSATISFIED_LOCKTIME)) (\<lambda>_.
        Inr st)))))"

definition op_upgradable_nop :: "eval_env \<Rightarrow> exec_state \<Rightarrow> exec_state eval" where
  "op_upgradable_nop env st =
     bindE (guardE (\<not> has_flag (flags env) SCRIPT_VERIFY_DISCOURAGE_UPGRADABLE_NOPS)
       (SErr SCRIPT_ERR_DISCOURAGE_UPGRADABLE_NOPS)) (\<lambda>_. Inr st)"

definition minimal_if :: "eval_env \<Rightarrow> valtype \<Rightarrow> unit eval" where
  "minimal_if env vch =
     guardE (\<not> (sigversion env = WITNESS_V0 \<and> has_flag (flags env) SCRIPT_VERIFY_MINIMALIF \<and>
                (length vch > 1 \<or> (length vch = 1 \<and> vch ! 0 \<noteq> 1))))
       (SErr SCRIPT_ERR_MINIMALIF)"

definition op_if :: "eval_env \<Rightarrow> bool \<Rightarrow> opcodetype \<Rightarrow> exec_state \<Rightarrow> exec_state eval" where
  "op_if env fExec opcode st =
     (if fExec then
        bindE (guardE (\<not> length (stack st) < 1) (SErr SCRIPT_ERR_UNBALANCED_CONDITIONAL)) (\<lambda>_.
        bindE (stacktop (stack st) 1) (\<lambda>vch.
        bindE (minimal_if env vch) (\<lambda>_.
        bindE (popstack (stack st)) (\<lambda>s.
        Inr (st\<lparr>stack := s,
                vfExec := (if opcode = OP_NOTIF then \<not> CastToBool vch else CastToBool vch) # vfExec st\<rparr>)))))
      else Inr (st\<lparr>vfExec := False # vfExec st\<rparr>))"

definition op_else :: "exec_state \<Rightarrow> exec_state eval" where
  "op_else st =
     (case vfExec st of [] \<Rightarrow> Inl (SErr SCRIPT_ERR_UNBALANCED_CONDITIONAL)
      | b # bs \<Rightarrow> Inr (st\<lparr>vfExec := (\<not> b) # bs\<rparr>))"

definition op_endif :: "exec_state \<Rightarrow> exec_state eval" where
  "op_endif st =
     (case vfExec st of [] \<Rightarrow> Inl (SErr SCRIPT_ERR_UNBALANCED_CONDITIONAL)
      | b # bs \<Rightarrow> Inr (st\<lparr>vfExec := bs\<rparr>))"

definition op_verify :: "exec_state \<Rightarrow> exec_state eval" where
  "op_verify st =
     bindE (need 1 (stack st)) (\<lambda>_.
     bindE (stacktop (stack st) 1) (\<lambda>v.
     if CastToBool v then bindE (popstack (stack st)) (\<lambda>s. Inr (st\<lparr>stack := s\<rparr>))
     else Inl (SErr SCRIPT_ERR_VERIFY)))"

section \<open>Stack operations\<close>

definition op_toaltstack :: "exec_state \<Rightarrow> exec_state eval" where
  "op_toaltstack st =
     bindE (need 1 (stack st)) (\<lambda>_.
     bindE (stacktop (stack st) 1) (\<lambda>v.
     bindE (popstack (stack st)) (\<lambda>s.
     Inr (st\<lparr>altstack := v # altstack st, stack := s\<rparr>))))"

definition op_fromaltstack :: "exec_state \<Rightarrow> exec_state eval" where
  "op_fromaltstack st =
     bindE (guardE (\<not> length (altstack st) < 1) (SErr SCRIPT_ERR_INVALID_ALTSTACK_OPERATION)) (\<lambda>_.
     bindE (stacktop (altstack st) 1) (\<lambda>v.
     bindE (popstack (altstack st)) (\<lambda>a.
     Inr (st\<lparr>stack := v # stack st, altstack := a\<rparr>))))"

definition op_2drop :: "exec_state \<Rightarrow> exec_state eval" where
  "op_2drop st =
     bindE (need 2 (stack st)) (\<lambda>_.
     bindE (bindE (popstack (stack st)) popstack) (\<lambda>s. Inr (st\<lparr>stack := s\<rparr>)))"

definition op_2dup :: "exec_state \<Rightarrow> exec_state eval" where
  "op_2dup st =
     bindE (need 2 (stack st)) (\<lambda>_.
     bindE (stacktop (stack st) 2) (\<lambda>vch1.
     bindE (stacktop (stack st) 1) (\<lambda>vch2.
     Inr (push vch2 (push vch1 st)))))"

definition op_3dup :: "exec_state \<Rightarrow> exec_state eval" where
  "op_3dup st =
     bindE (need 3 (stack st)) (\<lambda>_.
     bindE (stacktop (stack st) 3) (\<lambda>vch1.
     bindE (stacktop (stack st) 2) (\<lambda>vch2.
     bindE (stacktop (stack st) 1) (\<lambda>vch3.
     Inr (push vch3 (push vch2 (push vch1 st)))))))"

definition op_2over :: "exec_state \<Rightarrow> exec_state eval" where
  "op_2over st =
     bindE (need 4 (stack st)) (\<lambda>_.
     bindE (stacktop (stack st) 4) (\<lambda>vch1.
     bindE (stacktop (stack st) 3) (\<lambda>vch2.
     Inr (push vch2 (push vch1 st)))))"

definition op_2rot :: "exec_state \<Rightarrow> exec_state eval" where
  "op_2rot st =
     bindE (need 6 (stack st)) (\<lambda>_.
     bindE (stacktop (stack st) 6) (\<lambda>vch1.
     bindE (stacktop (stack st) 5) (\<lambda>vch2.
     Inr (push vch2 (push vch1 (st\<lparr>stack := take 4 (stack st) @ drop 6 (stack st)\<rparr>))))))"

definition op_2swap :: "exec_state \<Rightarrow> exec_state eval" where
  "op_2swap st =
     bindE (need 4 (stack st)) (\<lambda>_.
     bindE (bindE (swaptop (stack st) 4 2) (\<lambda>s. swaptop s 3 1)) (\<lambda>s. Inr (st\<lparr>stack := s\<rparr>)))"

definition op_ifdup :: "exec_state \<Rightarrow> exec_state eval" where
  "op_ifdup st =
     bindE (need 1 (stack st)) (\<lambda>_.
     bindE (stacktop (stack st) 1) (\<lambda>vch.
     Inr (if CastToBool vch then push vch st else st)))"

definition op_depth :: "exec_state \<Rightarrow> exec_state eval" where
  "op_depth st = Inr (push (serialize (int (length (stack st)))) st)"

definition op_drop :: "exec_state \<Rightarrow> exec_state eval" where
  "op_drop st =
     bindE (need 1 (stack st)) (\<lambda>_.
     bindE (popstack (stack st)) (\<lambda>s. Inr (st\<lparr>stack := s\<rparr>)))"

definition op_dup :: "exec_state \<Rightarrow> exec_state eval" where
  "op_dup st =
     bindE (need 1 (stack st)) (\<lambda>_.
     bindE (stacktop (stack st) 1) (\<lambda>vch. Inr (push vch st)))"

definition op_nip :: "exec_state \<Rightarrow> exec_state eval" where
  "op_nip st =
     bindE (need 2 (stack st)) (\<lambda>_.
     Inr (st\<lparr>stack := take 1 (stack st) @ drop 2 (stack st)\<rparr>))"

definition op_over :: "exec_state \<Rightarrow> exec_state eval" where
  "op_over st =
     bindE (need 2 (stack st)) (\<lambda>_.
     bindE (stacktop (stack st) 2) (\<lambda>vch. Inr (push vch st)))"

definition op_pick_roll :: "eval_env \<Rightarrow> opcodetype \<Rightarrow> exec_state \<Rightarrow> exec_state eval" where
  "op_pick_roll env opcode st =
     bindE (need 2 (stack st)) (\<lambda>_.
     bindE (bindE (stacktop (stack st) 1) (\<lambda>v. script_num env v nDefaultMaxNumSize)) (\<lambda>num.
     let n = getint num in
     bindE (popstack (stack st)) (\<lambda>s.
     bindE (guardE (\<not> (n < 0 \<or> n \<ge> int (length s))) (SErr SCRIPT_ERR_INVALID_STACK_OPERATION)) (\<lambda>_.
     bindE (stacktop s (nat n + 1)) (\<lambda>vch.
     let s' = (if opcode = OP_ROLL then take (nat n) s @ drop (nat n + 1) s else s) in
     Inr (st\<lparr>stack := vch # s'\<rparr>))))))"

definition op_rot :: "exec_state \<Rightarrow> exec_state eval" where
  "op_rot st =
     bindE (need 3 (stack st)) (\<lambda>_.
     bindE (bindE (swaptop (stack st) 3 2) (\<lambda>s. swaptop s 2 1)) (\<lambda>s. Inr (st\<lparr>stack := s\<rparr>)))"

definition op_swap :: "exec_state \<Rightarrow> exec_state eval" where
  "op_swap st =
     bindE (need 2 (stack st)) (\<lambda>_.
     bindE (swaptop (stack st) 2 1) (\<lambda>s. Inr (st\<lparr>stack := s\<rparr>)))"

definition op_tuck :: "exec_state \<Rightarrow> exec_state eval" where
  "op_tuck st =
     bindE (need 2 (stack st)) (\<lambda>_.
     bindE (stacktop (stack st) 1) (\<lambda>vch.
     Inr (st\<lparr>stack := take 2 (stack st) @ [vch] @ drop 2 (stack st)\<rparr>)))"

definition op_size :: "exec_state \<Rightarrow> exec_state eval" where
  "op_size st =
     bindE (need 1 (stack st)) (\<lambda>_.
     bindE (stacktop (stack st) 1) (\<lambda>v. Inr (push (serialize (int (length v))) st)))"

section \<open>Comparison and arithmetic\<close>

definition op_equal :: "opcodetype \<Rightarrow> exec_state \<Rightarrow> exec_state eval" where
  "op_equal opcode st =
     bindE (need 2 (stack st)) (\<lambda>_.
     bindE (stacktop (stack st) 2) (\<lambda>vch1.
     bindE (stacktop (stack st) 1) (\<lambda>vch2.
     let fEqual = (vch1 = vch2) in
     bindE (bindE (popstack (stack st)) popstack) (\<lambda>s.
     let s' = vchBool fEqual # s in
     if opcode = OP_EQUALVERIFY then
       (if fEqual then bindE (popstack s') (\<lambda>s''. Inr (st\<lparr>stack := s''\<rparr>))
        else Inl (SErr SCRIPT_ERR_EQUALVERIFY))
     else Inr (st\<lparr>stack := s'\<rparr>)))))"

text \<open>\<open>operator+=\<close>, \<open>operator-=\<close> and unary minus of \<open>CScriptNum\<close> with their assertions.\<close>

definition num_add_assign :: "int \<Rightarrow> int \<Rightarrow> int eval" where
  "num_add_assign m rhs =
     bindE (guardE (rhs = 0 \<or> (rhs > 0 \<and> m \<le> (2 ^ 63 - 1) - rhs) \<or> (rhs < 0 \<and> m \<ge> - (2 ^ 63) - rhs))
       AssertFail) (\<lambda>_. Inr (i64 (m + rhs)))"

definition num_sub_assign :: "int \<Rightarrow> int \<Rightarrow> int eval" where
  "num_sub_assign m rhs =
     bindE (guardE (rhs = 0 \<or> (rhs > 0 \<and> m \<ge> - (2 ^ 63) + rhs) \<or> (rhs < 0 \<and> m \<le> (2 ^ 63 - 1) + rhs))
       AssertFail) (\<lambda>_. Inr (i64 (m - rhs)))"

definition num_neg :: "int \<Rightarrow> int eval" where
  "num_neg m = bindE (guardE (m \<noteq> - (2 ^ 63)) AssertFail) (\<lambda>_. Inr (i64 (- m)))"

definition unary_num :: "opcodetype \<Rightarrow> int \<Rightarrow> int eval" where
  "unary_num opcode bn =
     (if opcode = OP_1ADD then num_add_assign bn 1
      else if opcode = OP_1SUB then num_sub_assign bn 1
      else if opcode = OP_NEGATE then num_neg bn
      else if opcode = OP_ABS then (if bn < 0 then num_neg bn else Inr bn)
      else if opcode = OP_NOT then Inr (of_bool (bn = 0))
      else if opcode = OP_0NOTEQUAL then Inr (of_bool (bn \<noteq> 0))
      else Inl AssertFail)"

definition op_unary :: "eval_env \<Rightarrow> opcodetype \<Rightarrow> exec_state \<Rightarrow> exec_state eval" where
  "op_unary env opcode st =
     bindE (need 1 (stack st)) (\<lambda>_.
     bindE (bindE (stacktop (stack st) 1) (\<lambda>v. script_num env v nDefaultMaxNumSize)) (\<lambda>bn.
     bindE (unary_num opcode bn) (\<lambda>r.
     bindE (popstack (stack st)) (\<lambda>s.
     Inr (st\<lparr>stack := serialize r # s\<rparr>)))))"

definition binary_num :: "opcodetype \<Rightarrow> int \<Rightarrow> int \<Rightarrow> int eval" where
  "binary_num opcode bn1 bn2 =
     (if opcode = OP_ADD then Inr (i64 (bn1 + bn2))
      else if opcode = OP_SUB then Inr (i64 (bn1 - bn2))
      else if opcode = OP_BOOLAND then Inr (of_bool (bn1 \<noteq> 0 \<and> bn2 \<noteq> 0))
      else if opcode = OP_BOOLOR then Inr (of_bool (bn1 \<noteq> 0 \<or> bn2 \<noteq> 0))
      else if opcode = OP_NUMEQUAL then Inr (of_bool (bn1 = bn2))
      else if opcode = OP_NUMEQUALVERIFY then Inr (of_bool (bn1 = bn2))
      else if opcode = OP_NUMNOTEQUAL then Inr (of_bool (bn1 \<noteq> bn2))
      else if opcode = OP_LESSTHAN then Inr (of_bool (bn1 < bn2))
      else if opcode = OP_GREATERTHAN then Inr (of_bool (bn1 > bn2))
      else if opcode = OP_LESSTHANOREQUAL then Inr (of_bool (bn1 \<le> bn2))
      else if opcode = OP_GREATERTHANOREQUAL then Inr (of_bool (bn1 \<ge> bn2))
      else if opcode = OP_MIN then Inr (if bn1 < bn2 then bn1 else bn2)
      else if opcode = OP_MAX then Inr (if bn1 > bn2 then bn1 else bn2)
      else Inl AssertFail)"

definition op_binary :: "eval_env \<Rightarrow> opcodetype \<Rightarrow> exec_state \<Rightarrow> exec_state eval" where
  "op_binary env opcode st =
     bindE (need 2 (stack st)) (\<lambda>_.
     bindE (bindE (stacktop (stack st) 2) (\<lambda>v. script_num env v nDefaultMaxNumSize)) (\<lambda>bn1.
     bindE (bindE (stacktop (stack st) 1) (\<lambda>v. script_num env v nDefaultMaxNumSize)) (\<lambda>bn2.
     bindE (binary_num opcode bn1 bn2) (\<lambda>bn.
     bindE (bindE (popstack (stack st)) popstack) (\<lambda>s.
     let s' = serialize bn # s in
     if opcode = OP_NUMEQUALVERIFY then
       bindE (stacktop s' 1) (\<lambda>v.
       if CastToBool v then bindE (popstack s') (\<lambda>s''. Inr (st\<lparr>stack := s''\<rparr>))
       else Inl (SErr SCRIPT_ERR_NUMEQUALVERIFY))
     else Inr (st\<lparr>stack := s'\<rparr>))))))"

definition op_within :: "eval_env \<Rightarrow> exec_state \<Rightarrow> exec_state eval" where
  "op_within env st =
     bindE (need 3 (stack st)) (\<lambda>_.
     bindE (bindE (stacktop (stack st) 3) (\<lambda>v. script_num env v nDefaultMaxNumSize)) (\<lambda>bn1.
     bindE (bindE (stacktop (stack st) 2) (\<lambda>v. script_num env v nDefaultMaxNumSize)) (\<lambda>bn2.
     bindE (bindE (stacktop (stack st) 1) (\<lambda>v. script_num env v nDefaultMaxNumSize)) (\<lambda>bn3.
     let fValue = (bn2 \<le> bn1 \<and> bn1 < bn3) in
     bindE (bindE (bindE (popstack (stack st)) popstack) popstack) (\<lambda>s.
     Inr (st\<lparr>stack := vchBool fValue # s\<rparr>))))))"

section \<open>Hashing and signatures\<close>

definition op_hash :: "eval_env \<Rightarrow> opcodetype \<Rightarrow> exec_state \<Rightarrow> exec_state eval" where
  "op_hash env opcode st =
     bindE (need 1 (stack st)) (\<lambda>_.
     bindE (stacktop (stack st) 1) (\<lambda>vch.
     let vchHash =
       (if opcode = OP_RIPEMD160 then RIPEMD160 (crypt env) vch
        else if opcode = OP_SHA1 then SHA1 (crypt env) vch
        else if opcode = OP_SHA256 then SHA256 (crypt env) vch
        else if opcode = OP_HASH160 then Hash160 (crypt env) vch
        else Hash256 (crypt env) vch) in
     bindE (popstack (stack st)) (\<lambda>s. Inr (st\<lparr>stack := vchHash # s\<rparr>))))"

definition op_codeseparator :: "CScript \<Rightarrow> exec_state \<Rightarrow> exec_state eval" where
  "op_codeseparator pc st = Inr (st\<lparr>pbegincodehash := pc\<rparr>)"

text \<open>Dropping one signature from the script code of a pre-segwit script.\<close>

definition drop_signature :: "eval_env \<Rightarrow> valtype \<Rightarrow> CScript \<Rightarrow> CScript eval" where
  "drop_signature env vchSig scriptCode =
     (if sigversion env = BASE then
        (case FindAndDelete scriptCode (push_data [] vchSig) of (found, scriptCode') \<Rightarrow>
           if found > 0 \<and> has_flag (flags env) SCRIPT_VERIFY_CONST_SCRIPTCODE
           then Inl (SErr SCRIPT_ERR_SIG_FINDANDDELETE) else Inr scriptCode')
      else Inr scriptCode)"

text \<open>\<open>CheckSignatureEncoding(...) || CheckPubKeyEncoding(...)\<close>: the first failure sets the error.\<close>

definition check_encodings :: "eval_env \<Rightarrow> valtype \<Rightarrow> valtype \<Rightarrow> unit eval" where
  "check_encodings env vchSig vchPubKey =
     (case bindE (CheckSignatureEncoding (crypt env) vchSig (flags env))
             (\<lambda>_. CheckPubKeyEncoding vchPubKey (flags env) (sigversion env)) of
        Inl e \<Rightarrow> Inl (SErr e) | Inr u \<Rightarrow> Inr u)"

definition op_checksig :: "eval_env \<Rightarrow> opcodetype \<Rightarrow> exec_state \<Rightarrow> exec_state eval" where
  "op_checksig env opcode st =
     bindE (need 2 (stack st)) (\<lambda>_.
     bindE (stacktop (stack st) 2) (\<lambda>vchSig.
     bindE (stacktop (stack st) 1) (\<lambda>vchPubKey.
     bindE (drop_signature env vchSig (pbegincodehash st)) (\<lambda>scriptCode.
     bindE (check_encodings env vchSig vchPubKey) (\<lambda>_.
     let fSuccess = CheckSig (checker env) vchSig vchPubKey scriptCode (sigversion env) in
     bindE (guardE (\<not> (\<not> fSuccess \<and> has_flag (flags env) SCRIPT_VERIFY_NULLFAIL \<and> length vchSig \<noteq> 0))
       (SErr SCRIPT_ERR_SIG_NULLFAIL)) (\<lambda>_.
     bindE (bindE (popstack (stack st)) popstack) (\<lambda>s.
     let s' = vchBool fSuccess # s in
     if opcode = OP_CHECKSIGVERIFY then
       (if fSuccess then bindE (popstack s') (\<lambda>s''. Inr (st\<lparr>stack := s''\<rparr>))
        else Inl (SErr SCRIPT_ERR_CHECKSIGVERIFY))
     else Inr (st\<lparr>stack := s'\<rparr>))))))))"

text \<open>The three loops of \<open>OP_CHECKMULTISIG\<close>: dropping the signatures from the script code,
  matching signatures against keys, and popping the arguments.\<close>

fun multisig_drop :: "eval_env \<Rightarrow> valtype list \<Rightarrow> nat \<Rightarrow> nat \<Rightarrow> CScript \<Rightarrow> CScript eval" where
  "multisig_drop env stk isig 0 scriptCode = Inr scriptCode"
| "multisig_drop env stk isig (Suc k) scriptCode =
     bindE (stacktop stk isig) (\<lambda>vchSig.
     bindE (drop_signature env vchSig scriptCode) (\<lambda>scriptCode'.
     multisig_drop env stk (Suc isig) k scriptCode'))"

function multisig_loop ::
    "eval_env \<Rightarrow> valtype list \<Rightarrow> CScript \<Rightarrow> nat \<Rightarrow> int \<Rightarrow> nat \<Rightarrow> int \<Rightarrow> bool \<Rightarrow> bool eval" where
  "multisig_loop env stk scriptCode isig nSigsCount ikey nKeysCount fSuccess =
     (if fSuccess \<and> nSigsCount > 0 then
        bindE (stacktop stk isig) (\<lambda>vchSig.
        bindE (stacktop stk ikey) (\<lambda>vchPubKey.
        bindE (check_encodings env vchSig vchPubKey) (\<lambda>_.
        let fOk = CheckSig (checker env) vchSig vchPubKey scriptCode (sigversion env);
            isig' = (if fOk then isig + 1 else isig);
            nSigsCount' = (if fOk then nSigsCount - 1 else nSigsCount);
            ikey' = ikey + 1;
            nKeysCount' = nKeysCount - 1 in
        multisig_loop env stk scriptCode isig' nSigsCount' ikey' nKeysCount'
          (if nSigsCount' > nKeysCount' then False else fSuccess))))
      else Inr fSuccess)"
  by pat_completeness auto
termination
  by (relation "measure (\<lambda>(_, _, _, _, _, _, nKeysCount, fSuccess). if fSuccess then Suc (nat nKeysCount) else 0)")
     (auto split: if_splits)

declare multisig_loop.simps [simp del]

fun multisig_cleanup :: "eval_env \<Rightarrow> bool \<Rightarrow> nat \<Rightarrow> nat \<Rightarrow> valtype list \<Rightarrow> valtype list eval" where
  "multisig_cleanup env fSuccess 0 ikey2 stk = Inr stk"
| "multisig_cleanup env fSuccess (Suc i) ikey2 stk =
     bindE (if \<not> fSuccess \<and> has_flag (flags env) SCRIPT_VERIFY_NULLFAIL \<and> ikey2 = 0
            then bindE (stacktop stk 1) (\<lambda>v. guardE (\<not> length v \<noteq> 0) (SErr SCRIPT_ERR_SIG_NULLFAIL))
            else Inr ()) (\<lambda>_.
     bindE (popstack stk) (\<lambda>stk'.
     multisig_cleanup env fSuccess i (if ikey2 > 0 then ikey2 - 1 else ikey2) stk'))"

definition op_checkmultisig :: "eval_env \<Rightarrow> opcodetype \<Rightarrow> exec_state \<Rightarrow> exec_state eval" where
  "op_checkmultisig env opcode st =
     bindE (need 1 (stack st)) (\<lambda>_.
     bindE (bindE (stacktop (stack st) 1) (\<lambda>v. script_num env v nDefaultMaxNumSize)) (\<lambda>num.
     let nKeysCount = getint num in
     bindE (guardE (\<not> (nKeysCount < 0 \<or> nKeysCount > int MAX_PUBKEYS_PER_MULTISIG))
       (SErr SCRIPT_ERR_PUBKEY_COUNT)) (\<lambda>_.
     let nOps = nOpCount st + nKeysCount in
     bindE (guardE (\<not> nOps > int MAX_OPS_PER_SCRIPT) (SErr SCRIPT_ERR_OP_COUNT)) (\<lambda>_.
     let ikey = 2; ikey2 = nat nKeysCount + 2; i = 2 + nat nKeysCount in
     bindE (need i (stack st)) (\<lambda>_.
     bindE (bindE (stacktop (stack st) i) (\<lambda>v. script_num env v nDefaultMaxNumSize)) (\<lambda>num2.
     let nSigsCount = getint num2 in
     bindE (guardE (\<not> (nSigsCount < 0 \<or> nSigsCount > nKeysCount)) (SErr SCRIPT_ERR_SIG_COUNT)) (\<lambda>_.
     let isig = i + 1; i = isig + nat nSigsCount in
     bindE (need i (stack st)) (\<lambda>_.
     bindE (multisig_drop env (stack st) isig (nat nSigsCount) (pbegincodehash st)) (\<lambda>scriptCode.
     bindE (multisig_loop env (stack st) scriptCode isig nSigsCount ikey nKeysCount True) (\<lambda>fSuccess.
     bindE (multisig_cleanup env fSuccess (i - 1) ikey2 (stack st)) (\<lambda>s.
     bindE (need 1 s) (\<lambda>_.
     bindE (if has_flag (flags env) SCRIPT_VERIFY_NULLDUMMY
            then bindE (stacktop s 1) (\<lambda>v. guardE (\<not> length v \<noteq> 0) (SErr SCRIPT_ERR_SIG_NULLDUMMY))
            else Inr ()) (\<lambda>_.
     bindE (popstack s) (\<lambda>s.
     let s' = vchBool fSuccess # s in
     if opcode = OP_CHECKMULTISIGVERIFY then
       (if fSuccess then bindE (popstack s') (\<lambda>s''. Inr (st\<lparr>stack := s'', nOpCount := nOps\<rparr>))
        else Inl (SErr SCRIPT_ERR_CHECKMULTISIGVERIFY))
     else Inr (st\<lparr>stack := s', nOpCount := nOps\<rparr>)))))))))))))))"

section \<open>The interpreter loop\<close>

text \<open>The \<open>switch\<close> over the opcode, for the instructions that fall through to the size check.\<close>

definition exec_opcode ::
    "eval_env \<Rightarrow> bool \<Rightarrow> opcodetype \<Rightarrow> CScript \<Rightarrow> exec_state \<Rightarrow> exec_state eval" where
  "exec_opcode env fExec opcode pc st =
     (if opcode = OP_1NEGATE \<or> (OP_1 \<le> opcode \<and> opcode \<le> OP_16) then op_push_number opcode st
      else if opcode = OP_NOP then Inr st
      else if opcode = OP_CHECKLOCKTIMEVERIFY then op_checklocktimeverify env st
      else if opcode = OP_CHECKSEQUENCEVERIFY then op_checksequenceverify env st
      else if opcode = OP_NOP1 \<or> (OP_NOP4 \<le> opcode \<and> opcode \<le> OP_NOP10) then op_upgradable_nop env st
      else if opcode = OP_IF \<or> opcode = OP_NOTIF then op_if env fExec opcode st
      else if opcode = OP_ELSE then op_else st
      else if opcode = OP_ENDIF then op_endif st
      else if opcode = OP_VERIFY then op_verify st
      else if opcode = OP_RETURN then Inl (SErr SCRIPT_ERR_OP_RETURN)
      else if opcode = OP_TOALTSTACK then op_toaltstack st
      else if opcode = OP_FROMALTSTACK then op_fromaltstack st
      else if opcode = OP_2DROP then op_2drop st
      else if opcode = OP_2DUP then op_2dup st
      else if opcode = OP_3DUP then op_3dup st
      else if opcode = OP_2OVER then op_2over st
      else if opcode = OP_2ROT then op_2rot st
      else if opcode = OP_2SWAP then op_2swap st
      else if opcode = OP_IFDUP then op_ifdup st
      else if opcode = OP_DEPTH then op_depth st
      else if opcode = OP_DROP then op_drop st
      else if opcode = OP_DUP then op_dup st
      else if opcode = OP_NIP then op_nip st
      else if opcode = OP_OVER then op_over st
      else if opcode = OP_PICK \<or> opcode = OP_ROLL then op_pick_roll env opcode st
      else if opcode = OP_ROT then op_rot st
      else if opcode = OP_SWAP then op_swap st
      else if opcode = OP_TUCK then op_tuck st
      else if opcode = OP_SIZE then op_size st
      else if opcode = OP_EQUAL \<or> opcode = OP_EQUALVERIFY then op_equal opcode st
      else if opcode = OP_1ADD \<or> opcode = OP_1SUB \<or> opcode = OP_NEGATE \<or> opcode = OP_ABS \<or>
              opcode = OP_NOT \<or> opcode = OP_0NOTEQUAL then op_unary env opcode st
      else if opcode = OP_ADD \<or> opcode = OP_SUB \<or> (OP_BOOLAND \<le> opcode \<and> opcode \<le> OP_MAX)
        then op_binary env opcode st
      else if opcode = OP_WITHIN then op_within env st
      else if OP_RIPEMD160 \<le> opcode \<and> opcode \<le> OP_HASH256 then op_hash env opcode st
      else if opcode = OP_CODESEPARATOR then op_codeseparator pc st
      else if opcode = OP_CHECKSIG \<or> opcode = OP_CHECKSIGVERIFY then op_checksig env opcode st
      else if opcode = OP_CHECKMULTISIG \<or> opcode = OP_CHECKMULTISIGVERIFY
        then op_checkmultisig env opcode st
      else Inl (SErr SCRIPT_ERR_BAD_OPCODE))"

definition is_disabled :: "opcodetype \<Rightarrow> bool" where
  "is_disabled opcode \<longleftrightarrow>
     opcode = OP_CAT \<or> opcode = OP_SUBSTR \<or> opcode = OP_LEFT \<or> opcode = OP_RIGHT \<or>
     opcode = OP_INVERT \<or> opcode = OP_AND \<or> opcode = OP_OR \<or> opcode = OP_XOR \<or>
     opcode = OP_2MUL \<or> opcode = OP_2DIV \<or> opcode = OP_MUL \<or> opcode = OP_DIV \<or>
     opcode = OP_MOD \<or> opcode = OP_LSHIFT \<or> opcode = OP_RSHIFT"

text \<open>The checks made on every instruction before it is executed; they return the updated
  opcode count.\<close>

definition op_prologue :: "eval_env \<Rightarrow> opcodetype \<Rightarrow> valtype \<Rightarrow> int \<Rightarrow> int eval" where
  "op_prologue env opcode vchPushValue nOps =
     bindE (guardE (\<not> length vchPushValue > MAX_SCRIPT_ELEMENT_SIZE) (SErr SCRIPT_ERR_PUSH_SIZE)) (\<lambda>_.
     let nOps' = (if opcode > OP_16 then nOps + 1 else nOps) in
     bindE (guardE (\<not> (opcode > OP_16 \<and> nOps' > int MAX_OPS_PER_SCRIPT)) (SErr SCRIPT_ERR_OP_COUNT)) (\<lambda>_.
     bindE (guardE (\<not> is_disabled opcode) (SErr SCRIPT_ERR_DISABLED_OPCODE)) (\<lambda>_.
     bindE (guardE (\<not> (opcode = OP_CODESEPARATOR \<and> sigversion env = BASE \<and>
                       has_flag (flags env) SCRIPT_VERIFY_CONST_SCRIPTCODE))
       (SErr SCRIPT_ERR_OP_CODESEPARATOR)) (\<lambda>_. Inr nOps'))))"

definition fExec_of :: "exec_state \<Rightarrow> bool" where
  "fExec_of st = list_all id (vfExec st)"

definition op_push :: "eval_env \<Rightarrow> opcodetype \<Rightarrow> valtype \<Rightarrow> exec_state \<Rightarrow> exec_state eval" where
  "op_push env opcode vchPushValue st =
     bindE (if fRequireMinimal env then
              (case CheckMinimalPush vchPushValue opcode of
                 None \<Rightarrow> Inl AssertFail
               | Some minimal \<Rightarrow> guardE (\<not> \<not> minimal) (SErr SCRIPT_ERR_MINIMALDATA))
            else Inr ()) (\<lambda>_. Inr (push vchPushValue st))"

text \<open>One iteration: the contract opcodes of this chain return from \<open>EvalScript\<close> at once.\<close>

datatype step_result = Continue CScript exec_state | ReturnTrue exec_state

definition size_limit :: "exec_state \<Rightarrow> unit eval" where
  "size_limit st = guardE (\<not> length (stack st) + length (altstack st) > MAX_STACK_SIZE)
     (SErr SCRIPT_ERR_STACK_SIZE)"

definition op_contract :: "opcodetype \<Rightarrow> CScript \<Rightarrow> exec_state \<Rightarrow> exec_state" where
  "op_contract opcode pc st = (if opcode = OP_SPEND then st else push (of_nat opcode # pc) st)"

definition eval_step :: "eval_env \<Rightarrow> CScript \<Rightarrow> exec_state \<Rightarrow> step_result eval" where
  "eval_step env pc0 st =
     (case GetScriptOp pc0 of Inl _ \<Rightarrow> Inl (SErr SCRIPT_ERR_BAD_OPCODE)
      | Inr (pc, opcode, vchPushValue) \<Rightarrow>
        bindE (op_prologue env opcode vchPushValue (nOpCount st)) (\<lambda>nOps.
        let fExec = fExec_of st; st1 = st\<lparr>nOpCount := nOps\<rparr> in
        if fExec \<and> (opcode = OP_SPEND \<or> opcode = OP_CREATE \<or> opcode = OP_CALL) then
          Inr (ReturnTrue (op_contract opcode pc st1))
        else
          bindE (if fExec \<and> opcode \<le> OP_PUSHDATA4 then op_push env opcode vchPushValue st1
                 else if fExec \<or> (OP_IF \<le> opcode \<and> opcode \<le> OP_ENDIF)
                 then exec_opcode env fExec opcode pc st1
                 else Inr st1) (\<lambda>st2.
          bindE (size_limit st2) (\<lambda>_. Inr (Continue pc st2)))))"

lemma eval_step_length:
  "eval_step env pc0 st = Inr (Continue pc st') \<Longrightarrow> length pc < length pc0"
  by (auto simp: eval_step_def bindE_iffs Let_def dest: GetScriptOp_length split: sum.splits if_splits)

function eval_loop :: "eval_env \<Rightarrow> CScript \<Rightarrow> exec_state \<Rightarrow> step_result eval" where
  "eval_loop env pc st =
     (if pc = [] then Inr (Continue [] st)
      else bindE (eval_step env pc st) (\<lambda>r. case r of
          ReturnTrue st' \<Rightarrow> Inr (ReturnTrue st')
        | Continue pc' st' \<Rightarrow> eval_loop env pc' st'))"
  by pat_completeness auto
termination
  by (relation "measure (\<lambda>(_, pc, _). length pc)") (auto dest: eval_step_length)

declare eval_loop.simps [simp del]

text \<open>How \<open>EvalScript\<close> ends when it does not return \<open>true\<close>.  When it does, the result holds
  the value left in \<open>*serror\<close> and the stack.\<close>

datatype script_fail = Fail ScriptError | Abort

definition catch_eval :: "'a eval \<Rightarrow> script_fail + 'a" where
  "catch_eval m =
     (case m of Inl (SErr e) \<Rightarrow> Inl (Fail e)
      | Inl AssertFail \<Rightarrow> Inl Abort
      | Inl _ \<Rightarrow> Inl (Fail SCRIPT_ERR_UNKNOWN_ERROR)
      | Inr x \<Rightarrow> Inr x)"

definition init_state :: "valtype list \<Rightarrow> CScript \<Rightarrow> exec_state" where
  "init_state stk script =
     \<lparr>stack = stk, altstack = [], vfExec = [], pbegincodehash = script, nOpCount = 0\<rparr>"

definition EvalScript ::
    "eval_env \<Rightarrow> valtype list \<Rightarrow> CScript \<Rightarrow> script_fail + ScriptError \<times> valtype list" where
  "EvalScript env stk script =
     bindE (guardE (\<not> length script > MAX_SCRIPT_SIZE) (Fail SCRIPT_ERR_SCRIPT_SIZE)) (\<lambda>_.
     bindE (catch_eval (eval_loop env script (init_state stk script))) (\<lambda>r. case r of
       ReturnTrue st \<Rightarrow> Inr (SCRIPT_ERR_UNKNOWN_ERROR, stack st)
     | Continue _ st \<Rightarrow>
         bindE (guardE (vfExec st = []) (Fail SCRIPT_ERR_UNBALANCED_CONDITIONAL)) (\<lambda>_.
         Inr (SCRIPT_ERR_OK, stack st))))"

text \<open>An environment with concrete stand-ins of the right output sizes for the hash functions, used
  to run the model on examples.\<close>

definition sample_env :: "u32 \<Rightarrow> eval_env" where
  "sample_env f = \<lparr>flags = f, checker = BaseSignatureChecker, sigversion = BASE,
     crypt = \<lparr>RIPEMD160 = (\<lambda>v. take 20 (v @ replicate 20 0)), SHA1 = (\<lambda>v. take 20 (v @ replicate 20 0)),
              SHA256 = (\<lambda>v. take 32 (v @ replicate 32 0)), CheckLowS = (\<lambda>_. True)\<rparr>\<rparr>"

end
