(* ===== verification/Script_Verify.thy ===== *)
theory Script_Verify
  imports Script_Interp
begin

unbundle bit_operations_syntax

text \<open>
  \<open>VerifyScript\<close>, \<open>VerifyWitnessProgram\<close> and the witness signature-operation counts of
  \<open>script/interpreter.cpp\<close>.  A witness is the list of its stack elements in vector
  order; the machine stack has its top first, hence the reversals.
\<close>

section \<open>The code\<close>

definition WITNESS_V0_SCRIPTHASH_SIZE :: nat where
  "WITNESS_V0_SCRIPTHASH_SIZE = 32"

definition WITNESS_V0_KEYHASH_SIZE :: nat where
  "WITNESS_V0_KEYHASH_SIZE = 20"

text \<open>The choice of script and initial stack; \<open>None\<close> for the versions reserved for later soft
  forks, which succeed without execution.\<close>

definition witness_script ::
    "crypto \<Rightarrow> u32 \<Rightarrow> valtype list \<Rightarrow> nat \<Rightarrow> valtype \<Rightarrow> script_fail + (CScript \<times> valtype list) option" where
  "witness_script cr fl witness witversion program =
     (if witversion = 0 then
        (if length program = WITNESS_V0_SCRIPTHASH_SIZE then
           (if length witness = 0 then Inl (Fail SCRIPT_ERR_WITNESS_PROGRAM_WITNESS_EMPTY)
            else let scriptPubKey = last witness; stk = rev (butlast witness) in
              if SHA256 cr scriptPubKey \<noteq> program then Inl (Fail SCRIPT_ERR_WITNESS_PROGRAM_MISMATCH)
              else Inr (Some (scriptPubKey, stk)))
         else if length program = WITNESS_V0_KEYHASH_SIZE then
           (if length witness \<noteq> 2 then Inl (Fail SCRIPT_ERR_WITNESS_PROGRAM_MISMATCH)
            else Inr (Some
              (push_opcode (push_opcode (push_data (push_opcode (push_opcode [] OP_DUP) OP_HASH160) program)
                 OP_EQUALVERIFY) OP_CHECKSIG, rev witness)))
         else Inl (Fail SCRIPT_ERR_WITNESS_PROGRAM_WRONG_LENGTH))
      else if has_flag fl SCRIPT_VERIFY_DISCOURAGE_UPGRADABLE_WITNESS_PROGRAM then
        Inl (Fail SCRIPT_ERR_DISCOURAGE_UPGRADABLE_WITNESS_PROGRAM)
      else Inr None)"

definition VerifyWitnessProgram ::
    "eval_env \<Rightarrow> valtype list \<Rightarrow> nat \<Rightarrow> valtype \<Rightarrow> script_fail + unit" where
  "VerifyWitnessProgram env witness witversion program =
     bindE (witness_script (crypt env) (flags env) witness witversion program) (\<lambda>r. case r of
       None \<Rightarrow> Inr ()
     | Some (scriptPubKey, stk) \<Rightarrow>
         bindE (guardE (\<not> list_ex (\<lambda>v. length v > MAX_SCRIPT_ELEMENT_SIZE) stk) (Fail SCRIPT_ERR_PUSH_SIZE)) (\<lambda>_.
         bindE (EvalScript (env\<lparr>sigversion := WITNESS_V0\<rparr>) stk scriptPubKey) (\<lambda>(serror, stk').
         bindE (guardE (\<not> length stk' \<noteq> 1) (Fail SCRIPT_ERR_CLEANSTACK)) (\<lambda>_.
         guardE (\<not> \<not> CastToBool (hd stk')) (Fail SCRIPT_ERR_EVAL_FALSE)))))"

text \<open>\<open>stack.resize(1)\<close> keeps the bottom element.\<close>

definition resize1 :: "valtype list \<Rightarrow> valtype list" where
  "resize1 s = (if s = [] then [[]] else [last s])"

text \<open>Running a script and requiring a true top element.\<close>

definition eval_true :: "eval_env \<Rightarrow> valtype list \<Rightarrow> CScript \<Rightarrow> script_fail + valtype list" where
  "eval_true env stk script =
     bindE (EvalScript env stk script) (\<lambda>(serror, stk').
     bindE (guardE (\<not> stk' = []) (Fail SCRIPT_ERR_EVAL_FALSE)) (\<lambda>_.
     bindE (guardE (\<not> CastToBool (hd stk') = False) (Fail SCRIPT_ERR_EVAL_FALSE)) (\<lambda>_.
     Inr stk')))"

text \<open>Evaluating the witness program of a script, if it is one: the resulting \<open>hadWitness\<close> and
  stack.  \<open>malleated\<close> is the requirement on the scriptSig and its error.\<close>

definition verify_witness ::
    "eval_env \<Rightarrow> valtype list \<Rightarrow> CScript \<Rightarrow> bool \<Rightarrow> ScriptError \<Rightarrow> bool \<times> valtype list \<Rightarrow>
     script_fail + bool \<times> valtype list" where
  "verify_witness env witness script malleated err hs =
     (if has_flag (flags env) SCRIPT_VERIFY_WITNESS then
        (case IsWitnessProgram script of
           None \<Rightarrow> Inl Abort
         | Some None \<Rightarrow> Inr hs
         | Some (Some (witnessversion, witnessprogram)) \<Rightarrow>
             bindE (guardE (\<not> malleated) (Fail err)) (\<lambda>_.
             bindE (VerifyWitnessProgram env witness witnessversion witnessprogram) (\<lambda>_.
             Inr (True, resize1 (snd hs)))))
      else Inr hs)"

text \<open>The pay-to-script-hash part: \<open>stackCopy\<close> is the stack after the scriptSig.\<close>

definition verify_p2sh ::
    "eval_env \<Rightarrow> CScript \<Rightarrow> CScript \<Rightarrow> valtype list \<Rightarrow> valtype list \<Rightarrow> bool \<times> valtype list \<Rightarrow>
     script_fail + bool \<times> valtype list" where
  "verify_p2sh env scriptSig scriptPubKey witness stackCopy hs =
     (if has_flag (flags env) SCRIPT_VERIFY_P2SH \<and> IsPayToScriptHash scriptPubKey then
        bindE (guardE (\<not> \<not> IsPushOnly scriptSig) (Fail SCRIPT_ERR_SIG_PUSHONLY)) (\<lambda>_.
        case stackCopy of [] \<Rightarrow> Inl Abort
        | pubKey2 # stk \<Rightarrow>
            bindE (eval_true env stk pubKey2) (\<lambda>stk'.
            verify_witness env witness pubKey2 (scriptSig \<noteq> push_data [] pubKey2)
              SCRIPT_ERR_WITNESS_MALLEATED_P2SH (fst hs, stk')))
      else Inr hs)"

definition VerifyScript ::
    "eval_env \<Rightarrow> CScript \<Rightarrow> CScript \<Rightarrow> valtype list \<Rightarrow> script_fail + unit" where
  "VerifyScript env0 scriptSig scriptPubKey witness =
     (let env = env0\<lparr>sigversion := BASE\<rparr> in
      bindE (guardE (\<not> (has_flag (flags env) SCRIPT_VERIFY_SIGPUSHONLY \<and> \<not> IsPushOnly scriptSig))
        (Fail SCRIPT_ERR_SIG_PUSHONLY)) (\<lambda>_.
      bindE (EvalScript env [] scriptSig) (\<lambda>(_, stackCopy).
      bindE (eval_true env stackCopy scriptPubKey) (\<lambda>stk.
      bindE (verify_witness env witness scriptPubKey (length scriptSig \<noteq> 0)
               SCRIPT_ERR_WITNESS_MALLEATED (False, stk)) (\<lambda>hs.
      bindE (verify_p2sh env scriptSig scriptPubKey witness stackCopy hs) (\<lambda>(hadWitness, stk).
      bindE (if has_flag (flags env) SCRIPT_VERIFY_CLEANSTACK then
               bindE (guardE (has_flag (flags env) SCRIPT_VERIFY_P2SH) Abort) (\<lambda>_.
               bindE (guardE (has_flag (flags env) SCRIPT_VERIFY_WITNESS) Abort) (\<lambda>_.
               guardE (\<not> length stk \<noteq> 1) (Fail SCRIPT_ERR_CLEANSTACK)))
             else Inr ()) (\<lambda>_.
      if has_flag (flags env) SCRIPT_VERIFY_WITNESS then
        bindE (guardE (has_flag (flags env) SCRIPT_VERIFY_P2SH) Abort) (\<lambda>_.
        guardE (\<not> (\<not> hadWitness \<and> witness \<noteq> [])) (Fail SCRIPT_ERR_WITNESS_UNEXPECTED))
      else Inr ())))))))"

definition WitnessSigOps :: "nat \<Rightarrow> valtype \<Rightarrow> valtype list \<Rightarrow> nat" where
  "WitnessSigOps witversion witprogram witness =
     (if witversion = 0 then
        (if length witprogram = WITNESS_V0_KEYHASH_SIZE then 1
         else if length witprogram = WITNESS_V0_SCRIPTHASH_SIZE \<and> length witness > 0 then
           GetSigOpCount True (last witness)
         else 0)
      else 0)"

text \<open>\<open>None\<close>: an assertion failed, that \<open>SCRIPT_VERIFY_WITNESS\<close> comes with \<open>SCRIPT_VERIFY_P2SH\<close> or that of
  \<open>DecodeOP_N\<close>.\<close>

definition CountWitnessSigOps :: "CScript \<Rightarrow> CScript \<Rightarrow> valtype list \<Rightarrow> u32 \<Rightarrow> nat option" where
  "CountWitnessSigOps scriptSig scriptPubKey witness fl =
     (if \<not> has_flag fl SCRIPT_VERIFY_WITNESS then Some 0
      else if \<not> has_flag fl SCRIPT_VERIFY_P2SH then None
      else case IsWitnessProgram scriptPubKey of
        None \<Rightarrow> None
      | Some (Some (v, p)) \<Rightarrow> Some (WitnessSigOps v p witness)
      | Some None \<Rightarrow>
          if IsPayToScriptHash scriptPubKey \<and> IsPushOnly scriptSig then
            (case last_push [] scriptSig of None \<Rightarrow> Some 0
             | Some subscript \<Rightarrow>
                 (case IsWitnessProgram subscript of
                    None \<Rightarrow> None
                  | Some (Some (v, p)) \<Rightarrow> Some (WitnessSigOps v p witness)
                  | Some None \<Rightarrow> Some 0))
          else Some 0)"

end
