(* ===== verification/Script_Softfork.thy ===== *)
theory Script_Softfork
  imports Script_Verify
begin

unbundle bit_operations_syntax

text \<open>
  The promise of \<open>interpreter.h\<close>: "All flags are intended to be soft forks: the set of
  acceptable scripts under flags (A | B) is a subset of the acceptable scripts under
  flag (A)".  Every instruction is shown to succeed with the same state when flags are
  taken away, and the property is lifted through the loop to \<open>EvalScript\<close> and
  \<open>VerifyScript\<close>.
\<close>

section \<open>Fewer flags\<close>

definition fewer_flags :: "u32 \<Rightarrow> u32 \<Rightarrow> bool" where
  "fewer_flags f' f \<longleftrightarrow> f' AND f = f'"

lemma has_flag_mono:
  assumes "fewer_flags f' f" and "has_flag f' x"
  shows "has_flag f x"
proof -
  have "f' AND x = f' AND (f AND x)"
    using assms(1) by (simp add: fewer_flags_def flip: and.assoc)
  with assms(2) show ?thesis by (auto simp: has_flag_def)
qed

lemma fewer_flags_or: "fewer_flags a (a OR b)"
  unfolding fewer_flags_def by (rule bit_word_eqI) (auto simp: bit_simps)

text \<open>\<open>weaker env' env\<close>: the same environment with fewer flags.\<close>

definition weaker :: "eval_env \<Rightarrow> eval_env \<Rightarrow> bool" where
  "weaker env' env \<longleftrightarrow>
     checker env' = checker env \<and> sigversion env' = sigversion env \<and> crypt env' = crypt env \<and>
     fewer_flags (flags env') (flags env)"

lemma weakerD:
  assumes "weaker env' env"
  shows "checker env' = checker env" "sigversion env' = sigversion env" "crypt env' = crypt env"
    "has_flag (flags env') x \<Longrightarrow> has_flag (flags env) x"
  using assms has_flag_mono by (auto simp: weaker_def)

lemma weaker_sigversion: "weaker env' env \<Longrightarrow> weaker (env'\<lparr>sigversion := v\<rparr>) (env\<lparr>sigversion := v\<rparr>)"
  by (simp add: weaker_def)

named_theorems softfork \<open>an operation succeeds identically under fewer flags\<close>

section \<open>Instructions\<close>

lemma script_num_mono [softfork]:
  "weaker env' env \<Longrightarrow> refinesE (script_num env v k) (script_num env' v k)"
  by (auto simp: refinesE_def script_num_def CScriptNum_def fRequireMinimal_def
      dest: weakerD(4) split: sum.splits if_splits)

lemma minimal_if_mono [softfork]:
  "weaker env' env \<Longrightarrow> refinesE (minimal_if env v) (minimal_if env' v)"
  by (auto simp: refinesE_def minimal_if_def weakerD dest: weakerD(4))

lemma CheckSignatureEncoding_mono:
  assumes "fewer_flags f' f"
  shows "refinesE (CheckSignatureEncoding cr v f) (CheckSignatureEncoding cr v f')"
  using has_flag_mono [OF assms]
  by (auto simp: refinesE_def CheckSignatureEncoding_def split: if_splits)

lemma CheckPubKeyEncoding_mono:
  assumes "fewer_flags f' f"
  shows "refinesE (CheckPubKeyEncoding v f sv) (CheckPubKeyEncoding v f' sv)"
  using has_flag_mono [OF assms]
  by (auto simp: refinesE_def CheckPubKeyEncoding_def split: if_splits)

lemma check_encodings_mono [softfork]:
  assumes "weaker env' env"
  shows "refinesE (check_encodings env s k) (check_encodings env' s k)"
proof -
  have f: "fewer_flags (flags env') (flags env)" using assms by (simp add: weaker_def)
  show ?thesis
    using CheckSignatureEncoding_mono [OF f, of "crypt env" s]
      CheckPubKeyEncoding_mono [OF f, of k "sigversion env"] weakerD [OF assms]
    by (auto simp: refinesE_def check_encodings_def bindE_iffs split: sum.splits)
qed

lemma drop_signature_mono [softfork]:
  "weaker env' env \<Longrightarrow> refinesE (drop_signature env v s) (drop_signature env' v s)"
  by (auto simp: refinesE_def drop_signature_def weakerD split: prod.splits if_splits dest: weakerD(4))

lemma op_checklocktimeverify_mono [softfork]:
  assumes "weaker env' env"
  shows "refinesE (op_checklocktimeverify env st) (op_checklocktimeverify env' st)"
  using script_num_mono [OF assms] weakerD [OF assms]
  by (auto simp: op_checklocktimeverify_def refinesE_def bindE_Inr_iff)

lemma op_checksequenceverify_mono [softfork]:
  assumes "weaker env' env"
  shows "refinesE (op_checksequenceverify env st) (op_checksequenceverify env' st)"
  using script_num_mono [OF assms] weakerD [OF assms]
  by (auto simp: op_checksequenceverify_def refinesE_def bindE_Inr_iff split: if_splits)

lemma op_upgradable_nop_mono [softfork]:
  "weaker env' env \<Longrightarrow> refinesE (op_upgradable_nop env st) (op_upgradable_nop env' st)"
  by (auto simp: op_upgradable_nop_def refinesE_def dest: weakerD(4))

lemma op_if_mono [softfork]:
  "weaker env' env \<Longrightarrow> refinesE (op_if env fExec opcode st) (op_if env' fExec opcode st)"
  unfolding op_if_def by (intro refinesE_intros softfork)

lemma op_pick_roll_mono [softfork]:
  "weaker env' env \<Longrightarrow> refinesE (op_pick_roll env opcode st) (op_pick_roll env' opcode st)"
  unfolding op_pick_roll_def Let_def by (intro refinesE_intros softfork)

lemma op_unary_mono [softfork]:
  "weaker env' env \<Longrightarrow> refinesE (op_unary env opcode st) (op_unary env' opcode st)"
  unfolding op_unary_def Let_def by (intro refinesE_intros softfork)

lemma op_binary_mono [softfork]:
  "weaker env' env \<Longrightarrow> refinesE (op_binary env opcode st) (op_binary env' opcode st)"
  unfolding op_binary_def Let_def by (intro refinesE_intros softfork)

lemma op_within_mono [softfork]:
  "weaker env' env \<Longrightarrow> refinesE (op_within env st) (op_within env' st)"
  unfolding op_within_def Let_def by (intro refinesE_intros softfork)

lemma op_hash_mono [softfork]:
  assumes "weaker env' env"
  shows "refinesE (op_hash env opcode st) (op_hash env' opcode st)"
  unfolding op_hash_def weakerD(3) [OF assms] by (rule refinesE_refl)

lemma op_checksig_mono [softfork]:
  "weaker env' env \<Longrightarrow> refinesE (op_checksig env opcode st) (op_checksig env' opcode st)"
  unfolding op_checksig_def Let_def
  by (simp only: weakerD(1,2)) (intro refinesE_intros softfork; auto dest: weakerD(4))

lemma multisig_drop_mono [softfork]:
  "weaker env' env \<Longrightarrow> refinesE (multisig_drop env stk isig k sc) (multisig_drop env' stk isig k sc)"
proof (induction k arbitrary: isig sc)
  case (Suc k)
  show ?case
    unfolding multisig_drop.simps
    by (intro refinesE_intros drop_signature_mono Suc.IH Suc.prems)
qed simp

lemma multisig_loop_mono [softfork]:
  assumes "weaker env' env"
  shows "refinesE (multisig_loop env stk sc isig ns ikey nk ok) (multisig_loop env' stk sc isig ns ikey nk ok)"
  using assms
proof (induction env stk sc isig ns ikey nk ok rule: multisig_loop.induct)
  case (1 env stk sc isig ns ikey nk ok)
  show ?case
  proof (cases "ok \<and> 0 < ns")
    case True
    show ?thesis
      unfolding refinesE_def
    proof (intro allI impI)
      fix r
      assume r: "multisig_loop env stk sc isig ns ikey nk ok = Inr r"
      then obtain sig key where sk: "stacktop stk isig = Inr sig" "stacktop stk ikey = Inr key"
        and enc: "check_encodings env sig key = Inr ()"
        using True by (subst (asm) multisig_loop.simps) (auto simp: bindE_Inr_iff)
      from enc check_encodings_mono [OF "1.prems"] have enc': "check_encodings env' sig key = Inr ()"
        by (auto simp: refinesE_def)
      note eqs = sk enc enc' True weakerD(1,2) [OF "1.prems"]
      show "multisig_loop env' stk sc isig ns ikey nk ok = Inr r"
        using r "1.IH" [OF True sk enc refl refl refl refl refl "1.prems"]
        by (simp add: multisig_loop.simps [of env stk sc isig ns ikey nk True]
            multisig_loop.simps [of env' stk sc isig ns ikey nk True] eqs Let_def refinesE_def
            split del: if_split cong: if_cong)
    qed
  next
    case False
    then show ?thesis
      by (simp only: multisig_loop.simps [of env stk sc isig ns ikey nk ok]
          multisig_loop.simps [of env' stk sc isig ns ikey nk ok] if_False refinesE_refl)
  qed
qed

lemma multisig_cleanup_mono [softfork]:
  "weaker env' env \<Longrightarrow> refinesE (multisig_cleanup env ok i ikey2 stk) (multisig_cleanup env' ok i ikey2 stk)"
proof (induction i arbitrary: ikey2 stk)
  case (Suc i)
  show ?case
    unfolding multisig_cleanup.simps
    by (intro refinesE_bindE Suc.IH Suc.prems refinesE_refl)
       (auto simp: refinesE_def bindE_Inr_iff dest: weakerD(4) [OF Suc.prems])
qed simp

lemma null_dummy_mono:
  assumes "weaker env' env"
  shows "refinesE (if has_flag (flags env) f then m else Inr ()) (if has_flag (flags env') f then m else Inr ())"
  using weakerD(4) [OF assms, of f] by (auto simp: refinesE_def)

lemma op_checkmultisig_mono [softfork]:
  "weaker env' env \<Longrightarrow> refinesE (op_checkmultisig env opcode st) (op_checkmultisig env' opcode st)"
  unfolding op_checkmultisig_def Let_def by (intro refinesE_intros null_dummy_mono softfork)

lemma exec_opcode_mono [softfork]:
  "weaker env' env \<Longrightarrow> refinesE (exec_opcode env fExec opcode pc st) (exec_opcode env' fExec opcode pc st)"
  unfolding exec_opcode_def by (intro refinesE_intros softfork)

section \<open>The loop\<close>

lemma op_prologue_mono [softfork]:
  "weaker env' env \<Longrightarrow> refinesE (op_prologue env opcode v n) (op_prologue env' opcode v n)"
  unfolding op_prologue_def Let_def
  by (intro refinesE_intros) (auto dest: weakerD)

lemma op_push_mono [softfork]:
  "weaker env' env \<Longrightarrow> refinesE (op_push env opcode v st) (op_push env' opcode v st)"
  by (auto simp: refinesE_def op_push_def fRequireMinimal_def bindE_iffs dest: weakerD(4) split: if_splits option.splits)

lemma eval_step_mono [softfork]:
  assumes "weaker env' env"
  shows "refinesE (eval_step env pc st) (eval_step env' pc st)"
proof (cases "GetScriptOp pc")
  case (Inr y)
  then obtain pc' opcode v where "GetScriptOp pc = Inr (pc', opcode, v)" by (cases y) auto
  then show ?thesis
    unfolding eval_step_def Let_def
    by (simp only: sum.case prod.case) (intro refinesE_intros softfork assms)
qed (simp add: eval_step_def)

lemma eval_loop_mono:
  assumes "weaker env' env"
  shows "refinesE (eval_loop env pc st) (eval_loop env' pc st)"
  using assms
proof (induction env pc st rule: eval_loop.induct)
  case (1 env pc st)
  show ?case
  proof (cases "pc = [] \<or> (\<exists>e. eval_step env pc st = Inl e)")
    case True
    then show ?thesis
      by (auto simp: eval_loop.simps [of env pc st] eval_loop.simps [of env' pc st])
  next
    case False
    then obtain r where r: "eval_step env pc st = Inr r" by (cases "eval_step env pc st") auto
    with eval_step_mono [OF "1.prems"] have r': "eval_step env' pc st = Inr r"
      by (auto simp: refinesE_def)
    from False r r' "1.IH" "1.prems" show ?thesis
      by (cases r) (auto simp: eval_loop.simps [of env pc st] eval_loop.simps [of env' pc st])
  qed
qed

lemma EvalScript_mono [softfork]:
  assumes "weaker env' env"
  shows "refinesE (EvalScript env stk script) (EvalScript env' stk script)"
  using eval_loop_mono [OF assms, of script "init_state stk script"]
  by (auto simp: EvalScript_def refinesE_def bindE_Inr_iff catch_eval_def
      split: sum.splits eval_exn.splits)

section \<open>Whole-script verification\<close>

lemma eval_true_mono [softfork]:
  "weaker env' env \<Longrightarrow> refinesE (eval_true env stk script) (eval_true env' stk script)"
  unfolding eval_true_def by (intro refinesE_bindE EvalScript_mono) (auto split: prod.splits)

lemma witness_script_mono:
  "fewer_flags f' f \<Longrightarrow> refinesE (witness_script cr f w v p) (witness_script cr f' w v p)"
  by (auto simp: refinesE_def witness_script_def dest: has_flag_mono split: if_splits)

lemma VerifyWitnessProgram_mono [softfork]:
  assumes "weaker env' env"
  shows "refinesE (VerifyWitnessProgram env w v p) (VerifyWitnessProgram env' w v p)"
proof -
  have f: "fewer_flags (flags env') (flags env)" and c: "crypt env' = crypt env"
    using assms by (auto simp: weaker_def)
  show ?thesis
    unfolding VerifyWitnessProgram_def c
    by (intro refinesE_bindE witness_script_mono f)
       (auto split: option.splits prod.splits
         intro!: refinesE_intros EvalScript_mono weaker_sigversion assms)
qed

lemma verify_witness_mono:
  assumes "weaker env' env" and "has_flag (flags env') SCRIPT_VERIFY_WITNESS"
  shows "refinesE (verify_witness env w s m e hs) (verify_witness env' w s m e hs)"
  using VerifyWitnessProgram_mono [OF assms(1)] assms(2) weakerD(4) [OF assms]
  by (auto simp: verify_witness_def refinesE_def bindE_Inr_iff split: option.splits if_splits)

lemma verify_witness_off:
  "\<not> has_flag (flags env) SCRIPT_VERIFY_WITNESS \<Longrightarrow> verify_witness env w s m e hs = Inr hs"
  by (simp add: verify_witness_def)

lemma verify_p2sh_mono:
  assumes "weaker env' env" and "has_flag (flags env') SCRIPT_VERIFY_WITNESS"
    and "has_flag (flags env') SCRIPT_VERIFY_P2SH"
  shows "refinesE (verify_p2sh env sig pk w c hs) (verify_p2sh env' sig pk w c hs)"
  unfolding verify_p2sh_def using assms(3) weakerD(4) [OF assms(1,3)]
  by (auto split: list.splits intro!: refinesE_intros verify_witness_mono eval_true_mono assms(1,2))

lemma verify_p2sh_off:
  assumes "weaker env' env" and "\<not> has_flag (flags env') SCRIPT_VERIFY_WITNESS"
    and "verify_p2sh env sig pk w c hs = Inr r"
  shows "\<exists>r'. verify_p2sh env' sig pk w c hs' = Inr r'"
  using assms(3) eval_true_mono [OF assms(1)] weakerD(4) [OF assms(1)]
  by (auto simp: verify_p2sh_def verify_witness_off [OF assms(2)] refinesE_def bindE_Inr_iff
      split: if_splits list.splits)

text \<open>The combinations of flags the assertions of \<open>VerifyScript\<close> allow.\<close>

definition flags_ok :: "u32 \<Rightarrow> bool" where
  "flags_ok f \<longleftrightarrow>
     (has_flag f SCRIPT_VERIFY_CLEANSTACK \<longrightarrow> has_flag f SCRIPT_VERIFY_WITNESS) \<and>
     (has_flag f SCRIPT_VERIFY_WITNESS \<longrightarrow> has_flag f SCRIPT_VERIFY_P2SH)"

lemma VerifyScript_mono:
  assumes w: "weaker env' env" and ok: "flags_ok (flags env')"
    and v: "VerifyScript env sig pk wit = Inr ()"
  shows "VerifyScript env' sig pk wit = Inr ()"
proof -
  let ?e = "env\<lparr>sigversion := BASE\<rparr>" and ?e' = "env'\<lparr>sigversion := BASE\<rparr>"
  have we: "weaker ?e' ?e" by (rule weaker_sigversion [OF w])
  have fl: "\<And>x. has_flag (flags env') x \<Longrightarrow> has_flag (flags env) x" using weakerD(4) [OF w] .
  from v obtain er c s hs hw s2 where
      so: "has_flag (flags env) SCRIPT_VERIFY_SIGPUSHONLY \<longrightarrow> IsPushOnly sig"
    and c: "EvalScript ?e [] sig = Inr (er, c)" and s: "eval_true ?e c pk = Inr s"
    and hs: "verify_witness ?e wit pk (length sig \<noteq> 0) SCRIPT_ERR_WITNESS_MALLEATED (False, s) = Inr hs"
    and p2: "verify_p2sh ?e sig pk wit c hs = Inr (hw, s2)"
    and cs: "has_flag (flags env) SCRIPT_VERIFY_CLEANSTACK \<longrightarrow> length s2 = 1"
    and un: "has_flag (flags env) SCRIPT_VERIFY_WITNESS \<longrightarrow> hw \<or> wit = []"
    by (fastforce simp: VerifyScript_def Let_def bindE_Inr_iff split: if_splits)
  have c': "EvalScript ?e' [] sig = Inr (er, c)" and s': "eval_true ?e' c pk = Inr s"
    by (rule refinesE_D [OF EvalScript_mono [OF we] c], rule refinesE_D [OF eval_true_mono [OF we] s])
  show ?thesis
  proof (cases "has_flag (flags env') SCRIPT_VERIFY_WITNESS")
    case True
    then have p: "has_flag (flags env') SCRIPT_VERIFY_P2SH" using ok by (simp add: flags_ok_def)
    have "verify_witness ?e' wit pk (length sig \<noteq> 0) SCRIPT_ERR_WITNESS_MALLEATED (False, s) = Inr hs"
      using True by (intro refinesE_D [OF verify_witness_mono [OF we] hs]) simp
    moreover have "verify_p2sh ?e' sig pk wit c hs = Inr (hw, s2)"
      using True p by (intro refinesE_D [OF verify_p2sh_mono [OF we] p2]) simp_all
    ultimately show ?thesis
      using so c' s' cs un True p fl by (simp add: VerifyScript_def Let_def)
  next
    case False
    obtain hw' s2' where "verify_p2sh ?e' sig pk wit c (False, s) = Inr (hw', s2')"
      using verify_p2sh_off [OF we _ p2, of "(False, s)"] False by auto
    moreover have "\<not> has_flag (flags env') SCRIPT_VERIFY_CLEANSTACK"
      using ok False by (auto simp: flags_ok_def)
    ultimately show ?thesis
      using so c' s' False fl by (simp add: VerifyScript_def Let_def verify_witness_off)
  qed
qed

text \<open>Soft-fork safety of the interpreter.  If a script evaluates to true under the flags
  \<open>f OR g\<close>, it evaluates to true under \<open>f\<close> alone, with the same final stack and error code,
  for every signature checker, signature version and hash functions.\<close>

theorem EvalScript_softfork:
  assumes "EvalScript (env\<lparr>flags := f OR g\<rparr>) stk script = Inr r"
  shows "EvalScript (env\<lparr>flags := f\<rparr>) stk script = Inr r"
proof -
  have "weaker (env\<lparr>flags := f\<rparr>) (env\<lparr>flags := f OR g\<rparr>)"
    by (simp add: weaker_def fewer_flags_or)
  from refinesE_D [OF EvalScript_mono [OF this] assms] show ?thesis .
qed

theorem EvalScript_softfork_witness:
  "EvalScript ((sample_env 0)\<lparr>flags := SCRIPT_VERIFY_P2SH\<rparr>) [[2]] [0x52, 0x87] = Inr (SCRIPT_ERR_OK, [[1]])"
proof -
  have "EvalScript ((sample_env 0)\<lparr>flags := SCRIPT_VERIFY_P2SH OR SCRIPT_VERIFY_MINIMALDATA\<rparr>)
          [[2]] [0x52, 0x87] = Inr (SCRIPT_ERR_OK, [[1]])"
    by code_simp
  then show ?thesis by (rule EvalScript_softfork)
qed

text \<open>C1: soft-fork safety of transaction input verification.  An input accepted under the flags
  \<open>f OR g\<close> is accepted under \<open>f\<close>, as long as \<open>f\<close> itself is a combination the assertions
  of \<open>VerifyScript\<close> allow (CLEANSTACK needs WITNESS, WITNESS needs P2SH).\<close>

theorem VerifyScript_softfork:
  assumes "flags_ok f"
    and "VerifyScript (env\<lparr>flags := f OR g\<rparr>) scriptSig scriptPubKey witness = Inr ()"
  shows "VerifyScript (env\<lparr>flags := f\<rparr>) scriptSig scriptPubKey witness = Inr ()"
proof -
  have "weaker (env\<lparr>flags := f\<rparr>) (env\<lparr>flags := f OR g\<rparr>)"
    by (simp add: weaker_def fewer_flags_or)
  from VerifyScript_mono [OF this _ assms(2)] assms(1) show ?thesis by simp
qed

theorem VerifyScript_softfork_witness:
  "VerifyScript ((sample_env 0)\<lparr>flags := SCRIPT_VERIFY_P2SH\<rparr>) [0x52] [0x52, 0x87] [] = Inr ()"
proof -
  have "flags_ok SCRIPT_VERIFY_P2SH" by code_simp
  moreover have "VerifyScript ((sample_env 0)\<lparr>flags := SCRIPT_VERIFY_P2SH OR
      (SCRIPT_VERIFY_WITNESS OR SCRIPT_VERIFY_CLEANSTACK)\<rparr>) [0x52] [0x52, 0x87] [] = Inr ()"
    by code_simp
  ultimately show ?thesis by (rule VerifyScript_softfork)
qed

end
