(* ===== verification/Script_Safety.thy ===== *)
theory Script_Safety
  imports Script_Softfork
begin

unbundle bit_operations_syntax

text \<open>
  Memory safety and resource limits of the script interpreter.  The \<open>stacktop\<close> macro throws
  \<open>std::out_of_range\<close> and \<open>popstack\<close> throws on an empty stack; the interpreter swallows
  both into \<open>SCRIPT_ERR_UNKNOWN_ERROR\<close>.  The lemmas show that the size guards of every
  instruction make these throws, and every \<open>assert\<close>, unreachable, and that the limits on
  operations, stack height and element size hold throughout a run.
\<close>

section \<open>Exceptions\<close>

text \<open>The exits the code intends: \<open>set_error\<close> and the exceptions of number decoding.\<close>

fun benign :: "eval_exn \<Rightarrow> bool" where
  "benign (SErr e) = True"
| "benign (NumExn e) = True"
| "benign _ = False"

named_theorems benign_intros \<open>an operation only fails in an intended way\<close>

lemma popstack_if: "popstack s = (if length s = 0 then Inl PopEmpty else Inr (tl s))"
  by (cases s) auto

lemma script_num_benign: "script_num env v k = Inl e \<Longrightarrow> benign e"
  by (auto simp: script_num_def split: sum.splits)

lemma script_num_range:
  assumes "script_num env v k = Inr n" and "1 \<le> k" and "k \<le> 8"
  shows "\<bar>n\<bar> < 2 ^ (8 * k - 1)"
  using assms CScriptNum_range by (auto simp: script_num_def split: sum.splits)

lemma minimal_if_benign: "minimal_if env v = Inl e \<Longrightarrow> benign e"
  by (auto simp: minimal_if_def)

lemma check_encodings_benign: "check_encodings env a b = Inl e \<Longrightarrow> benign e"
  by (auto simp: check_encodings_def split: sum.splits)

lemma drop_signature_benign: "drop_signature env a b = Inl e \<Longrightarrow> benign e"
  by (auto simp: drop_signature_def split: prod.splits if_splits)

lemmas benign_atoms = script_num_benign minimal_if_benign check_encodings_benign drop_signature_benign

lemma Suc_0_le_length: "Suc 0 \<le> length xs \<longleftrightarrow> xs \<noteq> []"
  by (cases xs) auto

lemmas eval_unfolds = Suc_0_le_length bindE_iffs need_def guardE_def stacktop_def popstack_if swaptop_def Let_def push_def

lemma op_push_number_benign [benign_intros]: "op_push_number opcode st = Inl e \<Longrightarrow> benign e"
  by (simp add: op_push_number_def)

lemma op_checklocktimeverify_benign [benign_intros]: "op_checklocktimeverify env st = Inl e \<Longrightarrow> benign e"
  by (auto simp: op_checklocktimeverify_def eval_unfolds simp del: length_0_conv
      dest: benign_atoms split: if_splits)

lemma op_checksequenceverify_benign [benign_intros]: "op_checksequenceverify env st = Inl e \<Longrightarrow> benign e"
  by (auto simp: op_checksequenceverify_def eval_unfolds simp del: length_0_conv
      dest: benign_atoms split: if_splits)

lemma op_upgradable_nop_benign [benign_intros]: "op_upgradable_nop env st = Inl e \<Longrightarrow> benign e"
  by (auto simp: op_upgradable_nop_def eval_unfolds split: if_splits)

lemma op_if_benign [benign_intros]: "op_if env f opcode st = Inl e \<Longrightarrow> benign e"
  by (auto simp: op_if_def eval_unfolds simp del: length_0_conv dest: benign_atoms split: if_splits)

lemma op_else_benign [benign_intros]: "op_else st = Inl e \<Longrightarrow> benign e"
  by (auto simp: op_else_def split: list.splits)

lemma op_endif_benign [benign_intros]: "op_endif st = Inl e \<Longrightarrow> benign e"
  by (auto simp: op_endif_def split: list.splits)

lemma op_verify_benign [benign_intros]: "op_verify st = Inl e \<Longrightarrow> benign e"
  by (auto simp: op_verify_def eval_unfolds simp del: length_0_conv split: if_splits)

lemma stack_ops_benign [benign_intros]:
  "op_toaltstack st = Inl e \<Longrightarrow> benign e"
  "op_fromaltstack st = Inl e \<Longrightarrow> benign e"
  "op_2drop st = Inl e \<Longrightarrow> benign e"
  "op_2dup st = Inl e \<Longrightarrow> benign e"
  "op_3dup st = Inl e \<Longrightarrow> benign e"
  "op_2over st = Inl e \<Longrightarrow> benign e"
  "op_2rot st = Inl e \<Longrightarrow> benign e"
  "op_ifdup st = Inl e \<Longrightarrow> benign e"
  "op_depth st = Inl e \<Longrightarrow> benign e"
  "op_drop st = Inl e \<Longrightarrow> benign e"
  "op_dup st = Inl e \<Longrightarrow> benign e"
  "op_nip st = Inl e \<Longrightarrow> benign e"
  "op_over st = Inl e \<Longrightarrow> benign e"
  "op_tuck st = Inl e \<Longrightarrow> benign e"
  "op_size st = Inl e \<Longrightarrow> benign e"
  by (auto simp: op_toaltstack_def op_fromaltstack_def op_2drop_def op_2dup_def op_3dup_def
      op_2over_def op_2rot_def op_ifdup_def op_depth_def op_drop_def op_dup_def op_nip_def
      op_over_def op_tuck_def op_size_def eval_unfolds simp del: length_0_conv split: if_splits)

lemma swap_ops_benign [benign_intros]:
  "op_2swap st = Inl e \<Longrightarrow> benign e"
  "op_rot st = Inl e \<Longrightarrow> benign e"
  "op_swap st = Inl e \<Longrightarrow> benign e"
  by (auto simp: op_2swap_def op_rot_def op_swap_def eval_unfolds simp del: length_0_conv split: if_splits)

lemma op_pick_roll_benign [benign_intros]: "op_pick_roll env opcode st = Inl e \<Longrightarrow> benign e"
  by (auto simp: op_pick_roll_def eval_unfolds simp del: length_0_conv dest: benign_atoms split: if_splits)

lemma op_equal_benign [benign_intros]: "op_equal opcode st = Inl e \<Longrightarrow> benign e"
  by (auto simp: op_equal_def eval_unfolds simp del: length_0_conv split: if_splits)

lemma op_hash_benign [benign_intros]: "op_hash env opcode st = Inl e \<Longrightarrow> benign e"
  by (auto simp: op_hash_def eval_unfolds simp del: length_0_conv split: if_splits)

lemma op_codeseparator_benign [benign_intros]: "op_codeseparator pc st = Inl e \<Longrightarrow> benign e"
  by (simp add: op_codeseparator_def)

lemma op_within_benign [benign_intros]: "op_within env st = Inl e \<Longrightarrow> benign e"
  by (auto simp: op_within_def eval_unfolds simp del: length_0_conv dest: benign_atoms split: if_splits)

lemma op_checksig_benign [benign_intros]: "op_checksig env opcode st = Inl e \<Longrightarrow> benign e"
  by (auto simp: op_checksig_def eval_unfolds simp del: length_0_conv dest: benign_atoms split: if_splits)

lemma num_add_assign_ok: "\<bar>m\<bar> < 2 ^ 31 \<Longrightarrow> \<bar>r\<bar> < 2 ^ 31 \<Longrightarrow> num_add_assign m r = Inr (m + r)"
  by (auto simp: num_add_assign_def guardE_def wrap_simps abs_less_iff)

lemma num_sub_assign_ok: "\<bar>m\<bar> < 2 ^ 31 \<Longrightarrow> \<bar>r\<bar> < 2 ^ 31 \<Longrightarrow> num_sub_assign m r = Inr (m - r)"
  by (auto simp: num_sub_assign_def guardE_def wrap_simps abs_less_iff)

lemma num_neg_ok: "\<bar>m\<bar> < 2 ^ 31 \<Longrightarrow> num_neg m = Inr (- m)"
  by (auto simp: num_neg_def guardE_def wrap_simps abs_less_iff)

lemmas num_ops_ok = num_add_assign_ok num_sub_assign_ok num_neg_ok

text \<open>On the operands number decoding lets through, arithmetic neither asserts nor wraps.\<close>

definition is_unary :: "opcodetype \<Rightarrow> bool" where
  "is_unary opcode \<longleftrightarrow> opcode = OP_1ADD \<or> opcode = OP_1SUB \<or> opcode = OP_NEGATE \<or> opcode = OP_ABS \<or>
     opcode = OP_NOT \<or> opcode = OP_0NOTEQUAL"

definition is_binary :: "opcodetype \<Rightarrow> bool" where
  "is_binary opcode \<longleftrightarrow> opcode = OP_ADD \<or> opcode = OP_SUB \<or> (OP_BOOLAND \<le> opcode \<and> opcode \<le> OP_MAX)"

lemma unary_num_ok:
  assumes "\<bar>n\<bar> < 2 ^ 31" and "is_unary opcode"
  shows "\<exists>r. unary_num opcode n = Inr r \<and> \<bar>r\<bar> \<le> 2 ^ 31"
  using assms by (auto simp: unary_num_def is_unary_def num_ops_ok)

lemma is_binary_iff:
  "is_binary opcode \<longleftrightarrow> opcode \<in> set ([OP_ADD, OP_SUB] @ [OP_BOOLAND..<Suc OP_MAX])"
  by (auto simp: is_binary_def simp del: upt_rec_numeral)

lemma binary_num_ok:
  assumes "\<bar>a\<bar> < 2 ^ 31" and "\<bar>b\<bar> < 2 ^ 31" and "is_binary opcode"
  shows "\<exists>r. binary_num opcode a b = Inr r \<and> \<bar>r\<bar> < 2 ^ 32"
proof -
  have i: "i64 (a + b) = a + b" "i64 (a - b) = a - b"
    using assms(1,2) by (auto simp: wrap_simps abs_less_iff)
  have "\<bar>a + b\<bar> < 2 ^ 32" "\<bar>a - b\<bar> < 2 ^ 32" "\<bar>a\<bar> < 2 ^ 32" "\<bar>b\<bar> < 2 ^ 32"
    using assms(1,2) by auto
  moreover have "opcode \<in> set [147, 148, 154, 155, 156, 157, 158, 159, 160, 161, 162, 163, 164]"
    using assms(3) unfolding is_binary_iff by (simp add: upt_rec)
  ultimately show ?thesis
    unfolding list.set by (elim insertE) (simp_all add: binary_num_def i of_bool_def)
qed

lemma script_num_default:
  "script_num env v nDefaultMaxNumSize = Inr n \<Longrightarrow> \<bar>n\<bar> < 2 ^ 31"
  using script_num_range [of env v nDefaultMaxNumSize n] by (simp add: nDefaultMaxNumSize_def)

lemma op_unary_benign:
  assumes op: "is_unary opcode" and f: "op_unary env opcode st = Inl e"
  shows "benign e"
proof -
  have ok: "unary_num opcode a \<noteq> Inl e'" if "script_num env v nDefaultMaxNumSize = Inr a" for a v e'
    using unary_num_ok [OF script_num_default [OF that] op] by auto
  show ?thesis using f
    by (auto simp: op_unary_def eval_unfolds simp del: length_0_conv
        dest: benign_atoms ok split: if_splits)
qed

lemma op_binary_benign:
  assumes op: "is_binary opcode" and f: "op_binary env opcode st = Inl e"
  shows "benign e"
proof -
  have ok: "binary_num opcode a b \<noteq> Inl e'"
    if "script_num env v nDefaultMaxNumSize = Inr a" "script_num env w nDefaultMaxNumSize = Inr b" for a b v w e'
    using binary_num_ok [OF script_num_default [OF that(1)] script_num_default [OF that(2)] op] by auto
  show ?thesis using f
    by (auto simp: op_binary_def eval_unfolds simp del: length_0_conv
        dest: benign_atoms ok split: if_splits)
qed

section \<open>Multisignature checks\<close>

lemma multisig_drop_benign:
  "multisig_drop env stk isig k c = Inl e \<Longrightarrow> 1 \<le> isig \<Longrightarrow> isig + k \<le> length stk + 1 \<Longrightarrow> benign e"
  by (induction env stk isig k c rule: multisig_drop.induct)
     (auto simp: bindE_iffs stacktop_def dest: drop_signature_benign split: if_splits)

lemma multisig_loop_benign:
  assumes "multisig_loop env stk c isig nSigs ikey nKeys f = Inl e"
    and "1 \<le> isig" and "1 \<le> ikey" and "int isig + nSigs \<le> int (length stk) + 1"
    and "int ikey + nKeys \<le> int (length stk) + 1" and "f \<Longrightarrow> nSigs \<le> nKeys"
  shows "benign e"
  using assms
proof (induction env stk c isig nSigs ikey nKeys f rule: multisig_loop.induct)
  case (1 env stk c isig nSigs ikey nKeys f)
  then have run: "f" "nSigs > 0" by (auto simp: multisig_loop.simps [of env stk c isig] split: if_splits)
  with 1 have pos: "isig \<le> length stk" "ikey \<le> length stk" by auto
  let ?s = "stk ! (isig - 1)" and ?k = "stk ! (ikey - 1)"
  have top: "stacktop stk isig = Inr ?s" "stacktop stk ikey = Inr ?k"
    using pos 1 by (simp_all add: stacktop_def)
  show ?case
  proof (cases "check_encodings env ?s ?k")
    case (Inl e')
    with 1 run top show ?thesis
      by (auto simp: multisig_loop.simps [of env stk c isig] dest: check_encodings_benign)
  next
    case (Inr u)
    show ?thesis
      by (rule "1.IH" [OF _ top Inr refl refl refl refl refl])
         (use "1.prems" run top Inr in
           \<open>auto simp: multisig_loop.simps [of env stk c isig nSigs ikey nKeys] Let_def split: if_splits\<close>)
  qed
qed

lemma multisig_cleanup_benign:
  "multisig_cleanup env f i k stk = Inl e \<Longrightarrow> i \<le> length stk \<Longrightarrow> benign e"
  by (induction env f i k stk rule: multisig_cleanup.induct)
     (auto simp: bindE_iffs stacktop_def popstack_if Suc_0_le_length split: if_splits)

lemma multisig_cleanup_eq:
  "multisig_cleanup env f i k stk = Inr s \<Longrightarrow> s = drop i stk"
  by (induction env f i k stk rule: multisig_cleanup.induct)
     (auto simp: bindE_iffs popstack_if drop_Suc split: if_splits)

text \<open>The guards of \<open>OP_CHECKMULTISIG\<close> are threaded step by step.\<close>

definition safe :: "'a eval \<Rightarrow> bool" where
  "safe m \<longleftrightarrow> (\<forall>e. m = Inl e \<longrightarrow> benign e)"

lemma safe_bindE: "safe m \<Longrightarrow> (\<And>x. m = Inr x \<Longrightarrow> safe (f x)) \<Longrightarrow> safe (bindE m f)"
  by (auto simp: safe_def bindE_iffs)

lemma safe_if: "(b \<Longrightarrow> safe m) \<Longrightarrow> (\<not> b \<Longrightarrow> safe n) \<Longrightarrow> safe (if b then m else n)"
  by simp

lemma safe_leaf [simp]:
  "safe (Inr x)" "safe (Inl (SErr e))" "safe (guardE b (SErr e))" "safe (need n s)"
  "safe (script_num env v k)" "safe (check_encodings env v w)" "safe (drop_signature env v c)"
  by (auto simp: safe_def need_def dest: benign_atoms)

lemma safe_stacktop: "1 \<le> i \<Longrightarrow> i \<le> length s \<Longrightarrow> safe (stacktop s i)"
  by (simp add: stacktop_def)

lemma safe_popstack: "s \<noteq> [] \<Longrightarrow> safe (popstack s)"
  by (cases s) simp_all

lemma need_Inr_iff [simp]: "need n s = Inr u \<longleftrightarrow> n \<le> length s"
  by (auto simp: need_def)

lemma safe_multisig_drop:
  "1 \<le> isig \<Longrightarrow> isig + k \<le> length stk + 1 \<Longrightarrow> safe (multisig_drop env stk isig k c)"
  by (auto simp: safe_def dest: multisig_drop_benign)

lemma safe_multisig_loop:
  assumes "1 \<le> isig" "1 \<le> ikey" "0 \<le> n" "n \<le> k" "isig + nat n \<le> length stk" "ikey + nat k \<le> length stk"
  shows "safe (multisig_loop env stk c isig n ikey k True)"
  unfolding safe_def using multisig_loop_benign [of env stk c isig n ikey k True] assms by auto

lemma safe_multisig_cleanup: "i \<le> length stk \<Longrightarrow> safe (multisig_cleanup env f i k stk)"
  by (auto simp: safe_def dest: multisig_cleanup_benign)

lemma op_checkmultisig_safe: "safe (op_checkmultisig env opcode st)"
  unfolding op_checkmultisig_def Let_def bindE_assoc
  by (intro safe_bindE safe_if safe_leaf safe_stacktop safe_popstack safe_multisig_drop
        safe_multisig_loop safe_multisig_cleanup)
     (auto simp: Suc_0_le_length)

lemma op_checkmultisig_benign [benign_intros]: "op_checkmultisig env opcode st = Inl e \<Longrightarrow> benign e"
  using op_checkmultisig_safe by (auto simp: safe_def)

section \<open>No unintended exception\<close>

lemma safeI: "(\<And>e. m = Inl e \<Longrightarrow> benign e) \<Longrightarrow> safe m"
  by (simp add: safe_def)

lemma safe_benign: "safe m \<Longrightarrow> m = Inl e \<Longrightarrow> benign e"
  by (simp add: safe_def)

lemma exec_opcode_safe: "safe (exec_opcode env f opcode pc st)"
  unfolding exec_opcode_def is_unary_def [symmetric] is_binary_def [symmetric]
  by (intro safe_if safe_leaf safeI; (erule benign_intros | erule (1) op_unary_benign | erule (1) op_binary_benign))

lemma op_prologue_benign: "op_prologue env opcode v n = Inl e \<Longrightarrow> benign e"
  by (auto simp: op_prologue_def Let_def split: if_splits)

lemma CheckMinimalPush_total: "opcode \<le> OP_PUSHDATA4 \<Longrightarrow> CheckMinimalPush v opcode \<noteq> None"
  by (auto simp: CheckMinimalPush_def)

lemma op_push_safe: "opcode \<le> OP_PUSHDATA4 \<Longrightarrow> safe (op_push env opcode v st)"
  using CheckMinimalPush_total [of opcode v] by (auto simp: op_push_def intro!: safe_bindE safe_if)

lemma eval_step_safe: "safe (eval_step env pc st)"
proof (cases "GetScriptOp pc")
  case (Inl x)
  then show ?thesis by (simp add: eval_step_def)
next
  case (Inr r)
  then show ?thesis
    by (cases r) (auto simp: eval_step_def Let_def size_limit_def
        intro!: safe_bindE safe_if safe_leaf exec_opcode_safe op_push_safe intro: safeI dest: op_prologue_benign)
qed

lemma eval_loop_benign: "eval_loop env pc st = Inl e \<Longrightarrow> benign e"
proof (induction env pc st rule: eval_loop.induct)
  case (1 env pc st)
  show ?case
  proof (cases "eval_step env pc st")
    case (Inl e')
    with "1.prems" show ?thesis
      by (auto simp: eval_loop.simps [of env pc] dest: safe_benign [OF eval_step_safe] split: if_splits)
  next
    case (Inr r)
    with "1.prems" show ?thesis
      by (auto simp: eval_loop.simps [of env pc] split: if_splits step_result.splits
          intro: "1.IH" [OF _ Inr])
  qed
qed

lemma EvalScript_no_Abort: "EvalScript env stk script \<noteq> Inl Abort"
proof
  assume "EvalScript env stk script = Inl Abort"
  then have "eval_loop env script (init_state stk script) = Inl AssertFail"
    by (auto simp: EvalScript_def catch_eval_def bindE_iffs
        split: sum.splits eval_exn.splits step_result.splits if_splits)
  from eval_loop_benign [OF this] show False by simp
qed

section \<open>No assertion of VerifyScript fails\<close>

lemma eval_true_no_Abort: "eval_true env stk script \<noteq> Inl Abort"
  using EvalScript_no_Abort by (auto simp: eval_true_def bindE_iffs split: if_splits)

lemma VerifyWitnessProgram_no_Abort: "VerifyWitnessProgram env w v p \<noteq> Inl Abort"
  using EvalScript_no_Abort
  by (auto simp: VerifyWitnessProgram_def witness_script_def bindE_iffs Let_def
      split: if_splits option.splits)

lemma verify_witness_no_Abort: "verify_witness env w s m e hs \<noteq> Inl Abort"
  using VerifyWitnessProgram_no_Abort IsWitnessProgram_total [of s]
  by (auto simp: verify_witness_def bindE_iffs split: if_splits option.splits)

text \<open>The comment in \<open>VerifyScript\<close> about its first assertion: a pay-to-script-hash output script
  cannot succeed on an empty stack.\<close>

lemma P2SH_needs_stack:
  assumes "IsPayToScriptHash pk"
  shows "EvalScript env [] pk = Inl (Fail SCRIPT_ERR_INVALID_STACK_OPERATION)"
proof -
  obtain x ops where pk: "pk = x # ops" and x: "unat x = OP_HASH160"
    using assms by (cases pk) (auto simp: IsPayToScriptHash_def)
  have "GetScriptOp pk = Inr (ops, OP_HASH160, [])"
    using GetScriptOp_plain [of x ops] x pk by simp
  then have "eval_step env pk (init_state [] pk) = Inl (SErr SCRIPT_ERR_INVALID_STACK_OPERATION)"
    by (simp add: eval_step_def op_prologue_def is_disabled_def script_limits init_state_def
        fExec_of_def exec_opcode_def op_hash_def need_def)
  moreover have "length pk = 23" using assms by (simp add: IsPayToScriptHash_def)
  ultimately show ?thesis
    by (auto simp: EvalScript_def eval_loop.simps [of env pk] catch_eval_def script_limits)
qed

text \<open>C17: under flags the assertions allow, no assertion of \<open>VerifyScript\<close> or of anything it
  runs can fail, whatever the scripts, the witness, the hash functions and the signature
  checker: untrusted input cannot abort the process.\<close>

theorem VerifyScript_no_abort:
  assumes "flags_ok (flags env)"
  shows "VerifyScript env scriptSig scriptPubKey witness \<noteq> Inl Abort"
proof -
  have p2: "verify_p2sh e sig pk w c hs \<noteq> Inl Abort" if "eval_true e c pk = Inr s" for e sig pk w c hs s
    using that P2SH_needs_stack [of pk e] eval_true_no_Abort verify_witness_no_Abort
    by (auto simp: verify_p2sh_def eval_true_def bindE_iffs split: if_splits list.splits)
  show ?thesis
    using assms EvalScript_no_Abort eval_true_no_Abort verify_witness_no_Abort
    by (auto simp: VerifyScript_def Let_def bindE_iffs flags_ok_def dest: p2 split: if_splits)
qed

theorem VerifyScript_no_abort_witness:
  "flags_ok SCRIPT_VERIFY_P2SH \<and>
   VerifyScript (sample_env SCRIPT_VERIFY_P2SH) [0x76] [0x87] [] \<noteq> Inl Abort"
proof -
  have f: "flags_ok SCRIPT_VERIFY_P2SH" by code_simp
  then have "flags_ok (flags (sample_env SCRIPT_VERIFY_P2SH))" by (simp add: sample_env_def)
  from VerifyScript_no_abort [OF this, of "[0x76]" "[0x87]" "[]"] f show ?thesis by blast
qed

end
