(* ===== verification/Script_Limits.thy ===== *)
theory Script_Limits
  imports Script_Safety
begin

unbundle bit_operations_syntax

text \<open>
  The resource limits of \<open>script.h\<close> as invariants of the interpreter: at most
  \<open>MAX_OPS_PER_SCRIPT\<close> counted operations, at most \<open>MAX_STACK_SIZE\<close> elements on both
  stacks, no element above \<open>MAX_SCRIPT_ELEMENT_SIZE\<close>.  The locale \<open>eval_invariant\<close> lifts an
  invariant of one loop iteration to a whole run.
\<close>

section \<open>Invariants of a run\<close>

lemma catch_eval_Inr [simp]: "catch_eval (Inr x) = Inr x"
  by (simp add: catch_eval_def)

lemma eval_loop_Nil [simp]: "eval_loop env [] st = Inr (Continue [] st)"
  by (simp add: eval_loop.simps)

lemma catch_eval_Inr_iff [simp]: "catch_eval m = Inr x \<longleftrightarrow> m = Inr x"
  by (auto simp: catch_eval_def split: sum.splits eval_exn.splits)

locale eval_invariant =
  fixes env :: eval_env and I :: "exec_state \<Rightarrow> bool" and J :: "exec_state \<Rightarrow> bool"
  assumes step_continue: "I st \<Longrightarrow> eval_step env pc st = Inr (Continue pc' st') \<Longrightarrow> I st'"
    and step_return: "I st \<Longrightarrow> eval_step env pc st = Inr (ReturnTrue st') \<Longrightarrow> J st'"
begin

lemma loop:
  "I st \<Longrightarrow> eval_loop env pc st = Inr r \<Longrightarrow>
   (case r of Continue pc' st' \<Rightarrow> pc' = [] \<and> I st' | ReturnTrue st' \<Rightarrow> J st')"
proof (induction "length pc" arbitrary: pc st rule: less_induct)
  case less
  show ?case
  proof (cases "pc = []")
    case True
    with less.prems show ?thesis by auto
  next
    case False
    with less.prems obtain q where q: "eval_step env pc st = Inr q"
      by (auto simp: eval_loop.simps [of env pc] bindE_iffs)
    show ?thesis
    proof (cases q)
      case (Continue pc' st')
      with q less.prems(1) have "I st'" by (blast intro: step_continue)
      moreover have "length pc' < length pc" using q Continue eval_step_length by blast
      ultimately show ?thesis
        using less.hyps [of pc' st'] less.prems q Continue False by (simp add: eval_loop.simps [of env pc])
    next
      case (ReturnTrue st')
      with q less.prems False show ?thesis
        by (auto simp: eval_loop.simps [of env pc] dest: step_return)
    qed
  qed
qed

lemma EvalScript_result:
  assumes "I (init_state stk script)" and "EvalScript env stk script = Inr (err, stk')"
  obtains (ok) st where "err = SCRIPT_ERR_OK" "stk' = stack st" "I st" "vfExec st = []"
  | (contract) st where "err = SCRIPT_ERR_UNKNOWN_ERROR" "stk' = stack st" "J st"
proof -
  from assms(2) obtain r where r: "eval_loop env script (init_state stk script) = Inr r"
    by (auto simp: EvalScript_def bindE_iffs split: if_splits)
  from loop [OF assms(1) r] assms(2) r show thesis
    by (auto simp: EvalScript_def bindE_iffs split: step_result.splits if_splits
        intro: ok contract)
qed

end

section \<open>What an instruction may add\<close>

definition elems :: "exec_state \<Rightarrow> valtype set" where
  "elems st = set (stack st) \<union> set (altstack st)"

text \<open>The output sizes of the hash functions.\<close>

definition hash_sizes :: "crypto \<Rightarrow> bool" where
  "hash_sizes cr \<longleftrightarrow>
     (\<forall>v. length (RIPEMD160 cr v) = 20 \<and> length (SHA1 cr v) = 20 \<and> length (SHA256 cr v) = 32)"

text \<open>Every element after an instruction was there before or is a number, truth value or hash of
  at most 32 bytes.\<close>

definition adds_short :: "exec_state \<Rightarrow> exec_state \<Rightarrow> bool" where
  "adds_short st st' \<longleftrightarrow> (\<forall>v \<in> elems st'. v \<in> elems st \<or> length v \<le> 32)"

definition within_limits :: "exec_state \<Rightarrow> bool" where
  "within_limits st \<longleftrightarrow>
     length (stack st) + length (altstack st) \<le> MAX_STACK_SIZE \<and>
     (\<forall>v \<in> elems st. length v \<le> MAX_SCRIPT_ELEMENT_SIZE) \<and>
     0 \<le> nOpCount st \<and> nOpCount st \<le> int MAX_OPS_PER_SCRIPT"

text \<open>Success postconditions, with the structural rules that compute them.\<close>

definition yields :: "('a \<Rightarrow> bool) \<Rightarrow> 'e + 'a \<Rightarrow> bool" where
  "yields P m \<longleftrightarrow> (\<forall>x. m = Inr x \<longrightarrow> P x)"

named_theorems yields_intros \<open>structural rules for yields\<close>

lemma yields_bindE [yields_intros]: "(\<And>x. m = Inr x \<Longrightarrow> yields P (f x)) \<Longrightarrow> yields P (bindE m f)"
  by (auto simp: yields_def bindE_iffs)

lemma yields_if [yields_intros]:
  "(b \<Longrightarrow> yields P m) \<Longrightarrow> (\<not> b \<Longrightarrow> yields P n) \<Longrightarrow> yields P (if b then m else n)"
  by simp

lemma yields_Inl [yields_intros]: "yields P (Inl e)"
  by (simp add: yields_def)

lemma yields_Inr [yields_intros]: "P x \<Longrightarrow> yields P (Inr x)"
  by (simp add: yields_def)

lemma yieldsD: "yields P m \<Longrightarrow> m = Inr x \<Longrightarrow> P x"
  by (simp add: yields_def)

abbreviation keeps :: "exec_state \<Rightarrow> exec_state eval \<Rightarrow> bool" where
  "keeps st \<equiv> yields (\<lambda>st'. adds_short st st' \<and> nOpCount st' = nOpCount st)"

named_theorems keeps_intros \<open>an instruction adds only short elements and counts no operation\<close>

lemma serialize_short: "\<bar>n\<bar> < 2 ^ 63 \<Longrightarrow> length (serialize n) \<le> 32"
  using length_serialize_le_iff [of 8 n] by simp

lemma vchBool_short [simp]: "length (vchBool b) \<le> 32"
  by (simp add: vchBool_def vchTrue_def vchFalse_def)

lemma stacktop_in: "stacktop s i = Inr v \<Longrightarrow> v \<in> set s"
  by (auto simp: stacktop_def split: if_splits)

lemma popstack_subset: "popstack s = Inr s' \<Longrightarrow> set s' \<subseteq> set s"
  by (cases s) auto

lemma swaptop_subset: "swaptop s i j = Inr s' \<Longrightarrow> set s' \<subseteq> set s"
  by (auto simp: swaptop_def bindE_iffs dest!: stacktop_in dest: subsetD [OF set_update_subset_insert])

lemmas stack_dests = stacktop_in popstack_subset [THEN subsetD] swaptop_subset [THEN subsetD]
  in_set_takeD in_set_dropD


lemma adds_short_refl [simp]: "adds_short st st"
  by (simp add: adds_short_def)

lemma shuffle_ops_keep [keeps_intros]:
  "keeps st (op_toaltstack st)" "keeps st (op_fromaltstack st)" "keeps st (op_2drop st)"
  "keeps st (op_2dup st)" "keeps st (op_3dup st)" "keeps st (op_2over st)" "keeps st (op_2rot st)"
  "keeps st (op_2swap st)" "keeps st (op_ifdup st)" "keeps st (op_drop st)" "keeps st (op_dup st)"
  "keeps st (op_nip st)" "keeps st (op_over st)" "keeps st (op_rot st)" "keeps st (op_swap st)"
  "keeps st (op_tuck st)"
  unfolding op_toaltstack_def op_fromaltstack_def op_2drop_def op_2dup_def op_3dup_def
      op_2over_def op_2rot_def op_2swap_def op_ifdup_def op_drop_def op_dup_def op_nip_def
      op_over_def op_rot_def op_swap_def op_tuck_def bindE_assoc
  by (intro yields_intros; auto simp: push_def adds_short_def elems_def dest: stack_dests)+

lemma control_ops_keep [keeps_intros]:
  "keeps st (op_checklocktimeverify env st)" "keeps st (op_checksequenceverify env st)"
  "keeps st (op_upgradable_nop env st)" "keeps st (op_if env f opcode st)"
  "keeps st (op_verify st)" "keeps st (op_codeseparator pc st)"
  unfolding op_checklocktimeverify_def op_checksequenceverify_def op_upgradable_nop_def
      op_if_def op_verify_def op_codeseparator_def bindE_assoc
  by (intro yields_intros; auto simp: adds_short_def elems_def dest: stack_dests)+

lemma else_endif_keep [keeps_intros]: "keeps st (op_else st)" "keeps st (op_endif st)"
  by (auto simp: op_else_def op_endif_def yields_def adds_short_def elems_def split: list.splits)

lemma compare_ops_keep [keeps_intros]:
  "keeps st (op_equal opcode st)" "keeps st (op_checksig env opcode st)" "keeps st (op_within env st)"
  "keeps st (op_pick_roll env opcode st)"
  unfolding op_equal_def op_checksig_def op_within_def op_pick_roll_def Let_def bindE_assoc
  by (intro yields_intros; auto simp: adds_short_def elems_def dest: stack_dests split: if_splits)+

lemma hash_keep:
  assumes "hash_sizes (crypt env)"
  shows "keeps st (op_hash env opcode st)"
  using assms unfolding op_hash_def Let_def bindE_assoc
  by (intro yields_intros)
     (auto simp: adds_short_def elems_def hash_sizes_def Hash160_def Hash256_def dest: stack_dests)

lemma number_ops_keep:
  assumes "within_limits st"
  shows "keeps st (op_depth st)" and "keeps st (op_size st)"
proof -
  have l: "length (serialize (int n)) \<le> 32" if "n \<le> MAX_SCRIPT_ELEMENT_SIZE" for n
    using that by (intro serialize_short) (simp add: script_limits)
  show "keeps st (op_depth st)"
    unfolding op_depth_def using assms l [of "length (stack st)"]
    by (intro yields_intros) (auto simp: adds_short_def elems_def push_def within_limits_def script_limits)
  show "keeps st (op_size st)"
    unfolding op_size_def using assms l
    by (intro yields_intros)
       (auto simp: adds_short_def elems_def push_def within_limits_def dest!: stacktop_in)
qed

lemma op_push_number_keep:
  "opcode = OP_1NEGATE \<or> (OP_1 \<le> opcode \<and> opcode \<le> OP_16) \<Longrightarrow> keeps st (op_push_number opcode st)"
  unfolding op_push_number_def
  by (intro yields_intros) (auto simp: adds_short_def elems_def push_def intro!: serialize_short)

lemma op_unary_keep: "is_unary opcode \<Longrightarrow> keeps st (op_unary env opcode st)"
  unfolding op_unary_def bindE_assoc
  by (intro yields_intros)
     (auto simp: adds_short_def elems_def dest!: script_num_default dest: stack_dests
       unary_num_ok [of _ opcode] intro!: serialize_short)

lemma op_binary_keep: "is_binary opcode \<Longrightarrow> keeps st (op_binary env opcode st)"
  unfolding op_binary_def bindE_assoc Let_def
  by (intro yields_intros)
     (auto simp: adds_short_def elems_def dest!: script_num_default dest: stack_dests
       binary_num_ok [of _ _ opcode] intro!: serialize_short)

lemma op_checkmultisig_keep:
  "yields (\<lambda>st'. adds_short st st' \<and> nOpCount st \<le> nOpCount st' \<and> nOpCount st' \<le> int MAX_OPS_PER_SCRIPT)
     (op_checkmultisig env opcode st)"
  unfolding op_checkmultisig_def Let_def bindE_assoc
  by (intro yields_intros;
      auto simp: adds_short_def elems_def simp del: multisig_cleanup.simps
        dest!: multisig_cleanup_eq dest: stack_dests split: if_splits)

section \<open>The limits hold throughout a run\<close>

lemma yields_mono: "yields P m \<Longrightarrow> (\<And>x. P x \<Longrightarrow> Q x) \<Longrightarrow> yields Q m"
  by (auto simp: yields_def)

lemma exec_opcode_keeps:
  assumes "within_limits st" and "hash_sizes (crypt env)"
  shows "yields (\<lambda>st'. adds_short st st' \<and> 0 \<le> nOpCount st' \<and> nOpCount st' \<le> int MAX_OPS_PER_SCRIPT)
           (exec_opcode env f opcode pc st)"
proof -
  have k: "keeps st m \<Longrightarrow>
      yields (\<lambda>st'. adds_short st st' \<and> 0 \<le> nOpCount st' \<and> nOpCount st' \<le> int MAX_OPS_PER_SCRIPT) m" for m
    using assms(1) by (auto simp: yields_def within_limits_def)
  have m: "yields (\<lambda>st'. adds_short st st' \<and> 0 \<le> nOpCount st' \<and> nOpCount st' \<le> int MAX_OPS_PER_SCRIPT)
      (op_checkmultisig env opcode st)"
    using assms(1) by (auto intro: yields_mono [OF op_checkmultisig_keep] simp: within_limits_def)
  have r: "keeps st (Inr st)" by (simp add: yields_def)
  show ?thesis
    unfolding exec_opcode_def is_unary_def [symmetric] is_binary_def [symmetric]
    by (intro yields_if yields_Inl m k keeps_intros r hash_keep [OF assms(2)] number_ops_keep [OF assms(1)]
        op_push_number_keep op_unary_keep op_binary_keep)
qed

text \<open>What holds when a contract opcode ended the run: one more element than the stack limit, and
  only the topmost may be long.\<close>

definition contract_limits :: "exec_state \<Rightarrow> bool" where
  "contract_limits st \<longleftrightarrow>
     length (stack st) + length (altstack st) \<le> MAX_STACK_SIZE + 1 \<and>
     (\<forall>v \<in> set (tl (stack st)). length v \<le> MAX_SCRIPT_ELEMENT_SIZE)"

lemma op_prologue_count:
  "op_prologue env opcode v n = Inr n' \<Longrightarrow> 0 \<le> n \<Longrightarrow> n \<le> int MAX_OPS_PER_SCRIPT \<Longrightarrow>
   0 \<le> n' \<and> n' \<le> int MAX_OPS_PER_SCRIPT \<and> length v \<le> MAX_SCRIPT_ELEMENT_SIZE"
  by (auto simp: op_prologue_def Let_def split: if_splits)

lemma adds_short_limits:
  "adds_short st st' \<Longrightarrow> within_limits st \<Longrightarrow> size_limit st' = Inr u \<Longrightarrow>
   0 \<le> nOpCount st' \<Longrightarrow> nOpCount st' \<le> int MAX_OPS_PER_SCRIPT \<Longrightarrow> within_limits st'"
  by (fastforce simp: adds_short_def within_limits_def size_limit_def script_limits)

lemma within_limits_count:
  "within_limits st \<Longrightarrow> 0 \<le> n \<Longrightarrow> n \<le> int MAX_OPS_PER_SCRIPT \<Longrightarrow> within_limits (st\<lparr>nOpCount := n\<rparr>)"
  by (simp add: within_limits_def elems_def)

lemma push_limits:
  "within_limits st \<Longrightarrow> length v \<le> MAX_SCRIPT_ELEMENT_SIZE \<Longrightarrow> size_limit (push v st) = Inr u \<Longrightarrow>
   within_limits (push v st)"
  by (auto simp: within_limits_def size_limit_def push_def elems_def)

lemma contract_limits_op: "within_limits st \<Longrightarrow> contract_limits (op_contract opcode pc st)"
  by (cases "stack st")
     (auto simp: within_limits_def contract_limits_def op_contract_def push_def elems_def)

lemma eval_step_limits:
  assumes st: "within_limits st" and h: "hash_sizes (crypt env)" and step: "eval_step env pc st = Inr r"
  shows "case r of Continue pc' st' \<Rightarrow> within_limits st' | ReturnTrue st' \<Rightarrow> contract_limits st'"
proof -
  from step obtain pc' opcode v n where op: "GetScriptOp pc = Inr (pc', opcode, v)"
    and n: "op_prologue env opcode v (nOpCount st) = Inr n"
    by (auto simp: eval_step_def bindE_iffs split: sum.splits)
  let ?st = "st\<lparr>nOpCount := n\<rparr>"
  have c: "0 \<le> n" "n \<le> int MAX_OPS_PER_SCRIPT" "length v \<le> MAX_SCRIPT_ELEMENT_SIZE"
    using op_prologue_count [OF n] st by (auto simp: within_limits_def)
  then have st1: "within_limits ?st" using st by (simp add: within_limits_count)
  have ex: "within_limits st2" if "exec_opcode env f opcode pc' ?st = Inr st2" "size_limit st2 = Inr u" for f st2 u
    using yieldsD [OF exec_opcode_keeps [OF st1 h] that(1)] adds_short_limits [OF _ st1 that(2)] by blast
  have ps: "within_limits st2" if "op_push env opcode v ?st = Inr st2" "size_limit st2 = Inr u" for st2 u
    using that push_limits [OF st1 c(3)] by (auto simp: op_push_def bindE_iffs split: if_splits)
  have sz: "within_limits ?st" if "size_limit ?st = Inr u" for u by (rule st1)
  show ?thesis using step op n
    by (auto simp: eval_step_def Let_def bindE_iffs split: if_splits
        intro: ex ps st1 contract_limits_op [OF st1])
qed

definition limits_inv :: "eval_env \<Rightarrow> exec_state \<Rightarrow> bool" where
  "limits_inv env st \<longleftrightarrow> hash_sizes (crypt env) \<and> within_limits st"

interpretation limits: eval_invariant env "limits_inv env" contract_limits for env
  by unfold_locales (auto simp: limits_inv_def dest!: eval_step_limits)

text \<open>C18: the interpreter never exceeds its resource limits.  Started on a stack of at most 1000
  elements of at most 128000 bytes, a successful run that reaches the end of the script leaves
  at most 1000 elements, all within the size limit; a run ended by a contract opcode leaves at most 1001 elements, where only the topmost may exceed the limit.\<close>

theorem EvalScript_limits:
  assumes "hash_sizes (crypt env)" and "length stk \<le> MAX_STACK_SIZE"
    and "\<forall>v \<in> set stk. length v \<le> MAX_SCRIPT_ELEMENT_SIZE"
    and "EvalScript env stk script = Inr (err, stk')"
  shows "(err = SCRIPT_ERR_OK \<and> length stk' \<le> MAX_STACK_SIZE \<and>
           (\<forall>v \<in> set stk'. length v \<le> MAX_SCRIPT_ELEMENT_SIZE)) \<or>
         (err = SCRIPT_ERR_UNKNOWN_ERROR \<and> length stk' \<le> MAX_STACK_SIZE + 1 \<and>
           (\<forall>v \<in> set (tl stk'). length v \<le> MAX_SCRIPT_ELEMENT_SIZE))"
proof -
  have "limits_inv env (init_state stk script)"
    using assms(1-3) by (simp add: limits_inv_def within_limits_def init_state_def elems_def)
  from this assms(4) show ?thesis
    by (cases rule: limits.EvalScript_result)
       (auto simp: limits_inv_def within_limits_def contract_limits_def elems_def)
qed

theorem EvalScript_limits_witness:
  "hash_sizes (crypt (sample_env 0)) \<and>
   EvalScript (sample_env 0) [] [0x51, 0x76] = Inr (SCRIPT_ERR_OK, [[1], [1]]) \<and>
   length [[1::byte], [1]] \<le> MAX_STACK_SIZE"
proof -
  have h: "hash_sizes (crypt (sample_env 0))" by (auto simp: hash_sizes_def sample_env_def min_def)
  have e: "EvalScript (sample_env 0) [] [0x51, 0x76] = Inr (SCRIPT_ERR_OK, [[1], [1]])" by code_simp
  from EvalScript_limits [OF h _ _ e] h e show ?thesis by simp
qed

section \<open>Contract opcodes\<close>

text \<open>The configurations a run passes through: the rest of the script and the machine state.\<close>

inductive eval_reach :: "eval_env \<Rightarrow> CScript \<Rightarrow> exec_state \<Rightarrow> CScript \<Rightarrow> exec_state \<Rightarrow> bool" for env where
  reach_here: "eval_reach env pc st pc st"
| reach_step: "eval_step env pc st = Inr (Continue pc1 st1) \<Longrightarrow> eval_reach env pc1 st1 pc2 st2 \<Longrightarrow> eval_reach env pc st pc2 st2"

lemma eval_loop_ReturnTrue:
  "eval_loop env pc st = Inr (ReturnTrue st') \<longleftrightarrow> (\<exists>pc1 st1. eval_reach env pc st pc1 st1 \<and> eval_step env pc1 st1 = Inr (ReturnTrue st'))"
proof
  assume "eval_loop env pc st = Inr (ReturnTrue st')"
  then show "\<exists>pc1 st1. eval_reach env pc st pc1 st1 \<and> eval_step env pc1 st1 = Inr (ReturnTrue st')"
  proof (induction env pc st rule: eval_loop.induct)
    case (1 env pc st)
    from "1.prems" obtain r where pc: "pc \<noteq> []" and r: "eval_step env pc st = Inr r"
      by (auto simp: eval_loop.simps [of env pc] bindE_iffs split: if_splits)
    show ?case
    proof (cases r)
      case (Continue pc1 st1)
      then have "eval_loop env pc1 st1 = Inr (ReturnTrue st')" using "1.prems" pc r by (simp add: eval_loop.simps [of env pc])
      then show ?thesis using "1.IH" [OF pc r Continue] reach_step [of env pc st pc1 st1] r Continue by blast
    next
      case (ReturnTrue st1)
      then show ?thesis using "1.prems" pc r reach_here by (fastforce simp: eval_loop.simps [of env pc])
    qed
  qed
next
  have nonempty: "pc \<noteq> []" if "eval_step env pc st = Inr r" for pc st r using that by (auto simp: eval_step_def GetScriptOp_def)
  assume "\<exists>pc1 st1. eval_reach env pc st pc1 st1 \<and> eval_step env pc1 st1 = Inr (ReturnTrue st')"
  then obtain pc1 st1 where "eval_reach env pc st pc1 st1" "eval_step env pc1 st1 = Inr (ReturnTrue st')" by blast
  then show "eval_loop env pc st = Inr (ReturnTrue st')"
    by (induction rule: eval_reach.induct) (simp_all add: nonempty eval_loop.simps)
qed

lemma GetScriptOp_opcode: "GetScriptOp pc = Inr (rest, opcode, v) \<Longrightarrow> OP_PUSHDATA4 < opcode \<Longrightarrow> \<exists>b. pc = b # rest \<and> unat b = opcode \<and> v = []"
  by (auto simp: GetScriptOp_def Let_def bindE_iffs split: list.splits if_splits)

lemma eval_step_ReturnTrue:
  "eval_step env pc st = Inr (ReturnTrue st') \<longleftrightarrow>
     (\<exists>b rest. pc = b # rest \<and> unat b \<in> {OP_SPEND, OP_CREATE, OP_CALL} \<and> fExec_of st \<and> nOpCount st < int MAX_OPS_PER_SCRIPT \<and>
        st' = op_contract (unat b) rest (st\<lparr>nOpCount := nOpCount st + 1\<rparr>))"
proof
  assume run: "eval_step env pc st = Inr (ReturnTrue st')"
  then obtain rest opcode v n where op: "GetScriptOp pc = Inr (rest, opcode, v)" "op_prologue env opcode v (nOpCount st) = Inr n"
      "fExec_of st" "opcode = OP_SPEND \<or> opcode = OP_CREATE \<or> opcode = OP_CALL" "st' = op_contract opcode rest (st\<lparr>nOpCount := n\<rparr>)"
    by (auto simp: eval_step_def Let_def bindE_iffs split: sum.splits if_splits)
  moreover obtain b where "pc = b # rest" "unat b = opcode" using GetScriptOp_opcode [OF op(1)] op(4) by auto
  moreover have "n = nOpCount st + 1" "nOpCount st < int MAX_OPS_PER_SCRIPT"
    using op(2,4) by (auto simp: op_prologue_def Let_def bindE_iffs split: if_splits)
  ultimately show "\<exists>b rest. pc = b # rest \<and> unat b \<in> {OP_SPEND, OP_CREATE, OP_CALL} \<and> fExec_of st \<and> nOpCount st < int MAX_OPS_PER_SCRIPT \<and>
      st' = op_contract (unat b) rest (st\<lparr>nOpCount := nOpCount st + 1\<rparr>)" by auto
next
  assume "\<exists>b rest. pc = b # rest \<and> unat b \<in> {OP_SPEND, OP_CREATE, OP_CALL} \<and> fExec_of st \<and> nOpCount st < int MAX_OPS_PER_SCRIPT \<and>
      st' = op_contract (unat b) rest (st\<lparr>nOpCount := nOpCount st + 1\<rparr>)"
  then obtain b rest where b: "pc = b # rest" "unat b = OP_SPEND \<or> unat b = OP_CREATE \<or> unat b = OP_CALL" "fExec_of st"
      "nOpCount st < int MAX_OPS_PER_SCRIPT" "st' = op_contract (unat b) rest (st\<lparr>nOpCount := nOpCount st + 1\<rparr>)" by blast
  have "GetScriptOp (b # rest) = Inr (rest, unat b, [])" using b(2) by (intro GetScriptOp_plain) auto
  then show "eval_step env pc st = Inr (ReturnTrue st')"
    using b by (auto simp: eval_step_def op_prologue_def is_disabled_def Let_def)
qed

text \<open>C23: where an evaluation ends in a contract opcode.  \<open>EvalScript\<close> returns true with \<open>*serror\<close> left at
  \<open>SCRIPT_ERR_UNKNOWN_ERROR\<close> exactly when it reaches, at any position of the script and within the limit
  on operations, an \<open>OP_SPEND\<close>, \<open>OP_CREATE\<close> or \<open>OP_CALL\<close> in an executed branch.  Whatever follows it is not
  evaluated, open conditionals included; \<open>OP_SPEND\<close> leaves the stack as it is, the others push the
  unevaluated rest of the script, opcode included.\<close>

theorem EvalScript_contract:
  "EvalScript env stk script = Inr (SCRIPT_ERR_UNKNOWN_ERROR, stk') \<longleftrightarrow> length script \<le> MAX_SCRIPT_SIZE \<and>
     (\<exists>b rest st. eval_reach env script (init_state stk script) (b # rest) st \<and> unat b \<in> {OP_SPEND, OP_CREATE, OP_CALL} \<and>
        fExec_of st \<and> nOpCount st < int MAX_OPS_PER_SCRIPT \<and>
        stk' = (if unat b = OP_SPEND then stack st else (b # rest) # stack st))"
proof -
  have "EvalScript env stk script = Inr (SCRIPT_ERR_UNKNOWN_ERROR, stk') \<longleftrightarrow> length script \<le> MAX_SCRIPT_SIZE \<and>
      (\<exists>st'. eval_loop env script (init_state stk script) = Inr (ReturnTrue st') \<and> stk' = stack st')"
    by (auto simp: EvalScript_def catch_eval_def bindE_iffs guardE_simps split: sum.splits eval_exn.splits step_result.splits if_splits)
  moreover have contract: "stack (op_contract (unat b) rest (st\<lparr>nOpCount := n\<rparr>)) =
      (if unat b = OP_SPEND then stack st else (b # rest) # stack st)" for b rest st n
    by (simp add: op_contract_def push_def)
  have "(\<exists>st'. eval_loop env script (init_state stk script) = Inr (ReturnTrue st') \<and> stk' = stack st') \<longleftrightarrow>
      (\<exists>b rest st. eval_reach env script (init_state stk script) (b # rest) st \<and> unat b \<in> {OP_SPEND, OP_CREATE, OP_CALL} \<and>
        fExec_of st \<and> nOpCount st < int MAX_OPS_PER_SCRIPT \<and>
        stk' = stack (op_contract (unat b) rest (st\<lparr>nOpCount := nOpCount st + 1\<rparr>)))"
    unfolding eval_loop_ReturnTrue eval_step_ReturnTrue by blast
  ultimately show ?thesis unfolding contract by simp
qed

theorem EvalScript_contract_witness:
  "EvalScript (sample_env 0) [] [0x51, 0x63, 0xc2, 0x4c] = Inr (SCRIPT_ERR_UNKNOWN_ERROR, [[0xc2, 0x4c]])"
proof -
  let ?env = "sample_env 0" and ?script = "[0x51, 0x63, 0xc2, 0x4c] :: CScript"
  let ?st2 = "(init_state [] ?script)\<lparr>vfExec := [True], nOpCount := 1\<rparr>"
  have step: "eval_step ?env ?script (init_state [] ?script) = Inr (Continue [0x63, 0xc2, 0x4c] (init_state [[1]] ?script))"
    "eval_step ?env [0x63, 0xc2, 0x4c] (init_state [[1]] ?script) = Inr (Continue [0xc2, 0x4c] ?st2)" by code_simp+
  have "eval_reach ?env ?script (init_state [] ?script) [0xc2, 0x4c] ?st2"
    by (rule reach_step [OF step(1)], rule reach_step [OF step(2)], rule reach_here)
  moreover have "fExec_of ?st2" "nOpCount ?st2 < int MAX_OPS_PER_SCRIPT" "stack ?st2 = []" by code_simp+
  moreover have "unat (0xc2 :: byte) = OP_CALL" by simp
  ultimately show ?thesis unfolding EvalScript_contract
    by (intro conjI exI [of _ "0xc2"] exI [of _ "[0x4c]"] exI [of _ ?st2]) (simp_all add: script_limits)
qed

end
