(* ===== verification/Script_Delete.thy ===== *)
theory Script_Delete
  imports Script_Checks
begin

unbundle bit_operations_syntax

text \<open>
  \<open>FindAndDelete\<close> against a direct description: walking the script instruction by instruction,
  every copy of the pattern that starts at an instruction boundary is dropped, and the bytes of
  every other instruction are kept.
\<close>

section \<open>The description\<close>

definition starts_with :: "CScript \<Rightarrow> CScript \<Rightarrow> bool" where
  "starts_with b pc \<longleftrightarrow> length b \<le> length pc \<and> take (length b) pc = b"

function delete_at_boundaries :: "CScript \<Rightarrow> CScript \<Rightarrow> nat \<times> CScript" where
  "delete_at_boundaries b pc =
     (if b \<noteq> [] \<and> starts_with b pc then
        (case delete_at_boundaries b (drop (length b) pc) of (n, r) \<Rightarrow> (Suc n, r))
      else case GetScriptOp pc of Inl _ \<Rightarrow> (0, pc)
      | Inr (pc', _, _) \<Rightarrow>
          (case delete_at_boundaries b pc' of (n, r) \<Rightarrow> (n, take (length pc - length pc') pc @ r)))"
  by pat_completeness auto
termination
  by (relation "measure (length \<circ> snd)")
     (auto dest: GetScriptOp_length simp: starts_with_def intro!: diff_less intro: order_less_le_trans)

declare delete_at_boundaries.simps [simp del]

section \<open>Equivalence\<close>

lemma GetScriptOp_suffix: "GetScriptOp pc = Inr (pc', opcode, v) \<Longrightarrow> drop (length pc - length pc') pc = pc'"
proof -
  assume g: "GetScriptOp pc = Inr (pc', opcode, v)"
  have "\<exists>k. pc' = drop k pc"
  proof (cases pc)
    case Nil
    with g show ?thesis by simp
  next
    case (Cons b pc1)
    have os: "\<exists>k. pc2 = drop k pc1" if "operand_size opc pc1 = Inr (n, pc2)" for opc n pc2
      using that by (auto simp: operand_size_def split: if_splits intro: exI [of _ 0])
    from g Cons have "\<exists>k. pc' = drop k pc1"
      by (auto simp: GetScriptOp_def Let_def bindE_iffs dest!: os split: if_splits intro: exI [of _ 0])
    then show ?thesis using Cons by (metis drop_Suc_Cons)
  qed
  then obtain k where k: "pc' = drop k pc" by blast
  show ?thesis
  proof (cases "k \<le> length pc")
    case True
    with k show ?thesis by simp
  next
    case False
    with k show ?thesis by simp
  qed
qed

lemma delete_skip_copies:
  assumes "b \<noteq> []"
  shows "delete_at_boundaries b pc =
     (case delete_at_boundaries b (fst (skip_copies b pc n)) of (k, r) \<Rightarrow> (snd (skip_copies b pc n) - n + k, r))
   \<and> n \<le> snd (skip_copies b pc n) \<and> \<not> starts_with b (fst (skip_copies b pc n))"
  using assms
proof (induction b pc n rule: skip_copies.induct)
  case (1 b pc n)
  show ?case
  proof (cases "starts_with b pc")
    case True
    then have s: "skip_copies b pc n = skip_copies b (drop (length b) pc) (Suc n)"
      using "1.prems" by (subst skip_copies.simps) (simp add: starts_with_def)
    from 1 True have ih: "delete_at_boundaries b (drop (length b) pc) =
      (case delete_at_boundaries b (fst (skip_copies b (drop (length b) pc) (Suc n))) of
         (k, r) \<Rightarrow> (snd (skip_copies b (drop (length b) pc) (Suc n)) - Suc n + k, r))
      \<and> Suc n \<le> snd (skip_copies b (drop (length b) pc) (Suc n))
      \<and> \<not> starts_with b (fst (skip_copies b (drop (length b) pc) (Suc n)))"
      by (simp add: starts_with_def)
    from True "1.prems" have "delete_at_boundaries b pc =
        (case delete_at_boundaries b (drop (length b) pc) of (k, r) \<Rightarrow> (Suc k, r))"
      by (simp add: delete_at_boundaries.simps [of b pc])
    with ih s show ?thesis by (auto split: prod.splits)
  next
    case False
    then have "skip_copies b pc n = (pc, n)"
      by (subst skip_copies.simps) (auto simp: starts_with_def)
    with False show ?thesis by (simp split: prod.splits)
  qed
qed

lemma find_and_delete_loop_eq:
  assumes "b \<noteq> []" and "drop (length pc2 - length pc) pc2 = pc"
  shows "find_and_delete_loop b result n pc2 pc =
     (m, r, p) \<Longrightarrow>
     r @ p = result @ take (length pc2 - length pc) pc2 @ snd (delete_at_boundaries b pc) \<and>
     m = n + fst (delete_at_boundaries b pc)"
  using assms
proof (induction b result n pc2 pc rule: find_and_delete_loop.induct)
  case (1 b result n pc2 pc)
  let ?r = "result @ take (length pc2 - length pc) pc2"
  obtain pc' n' where s: "skip_copies b pc n = (pc', n')" by fastforce
  note d = delete_skip_copies [OF "1.prems"(2), of pc n, unfolded s]
  show ?case
  proof (cases "GetScriptOp pc'")
    case (Inl x)
    with d have "delete_at_boundaries b pc' = (0, pc')"
      by (simp add: delete_at_boundaries.simps [of b pc'])
    with 1 Inl s d show ?thesis
      by (auto simp: find_and_delete_loop.simps [of b result n] Let_def)
  next
    case (Inr y)
    then obtain pc'' opc v where op: "GetScriptOp pc' = Inr (pc'', opc, v)" by (cases y) auto
    have rec: "find_and_delete_loop b ?r n' pc' pc'' = (m, r, p)"
      using "1.prems"(1) s op by (simp add: find_and_delete_loop.simps [of b result n] Let_def)
    have "delete_at_boundaries b pc' = (case delete_at_boundaries b pc'' of (n, r) \<Rightarrow>
        (n, take (length pc' - length pc'') pc' @ r))"
      using d op by (simp add: delete_at_boundaries.simps [of b pc'])
    moreover have "r @ p = ?r @ take (length pc' - length pc'') pc' @ snd (delete_at_boundaries b pc'') \<and>
        m = n' + fst (delete_at_boundaries b pc'')"
      using "1.IH" [of ?r "(pc', n')" "(pc'', opc, v)" pc'' "(opc, v)" opc v]
        s op rec GetScriptOp_suffix [OF op] "1.prems"(2) by simp
    ultimately show ?thesis using d by (auto split: prod.splits)
  qed
qed

lemma delete_none: "fst (delete_at_boundaries b pc) = 0 \<Longrightarrow> snd (delete_at_boundaries b pc) = pc"
proof (induction b pc rule: delete_at_boundaries.induct)
  case (1 b pc)
  show ?case
  proof (cases "b \<noteq> [] \<and> starts_with b pc")
    case True
    with "1.prems" show ?thesis by (simp add: delete_at_boundaries.simps [of b pc] split: prod.splits)
  next
    case False
    note eq = delete_at_boundaries.simps [of b pc, unfolded if_not_P [OF False]]
    show ?thesis
    proof (cases "GetScriptOp pc")
      case (Inl x)
      then show ?thesis unfolding eq by simp
    next
      case (Inr y)
      then obtain pc' opc v where op: "GetScriptOp pc = Inr (pc', opc, v)" by (cases y) auto
      from "1.prems" op have "fst (delete_at_boundaries b pc') = 0" unfolding eq by (simp split: prod.splits)
      with "1.IH"(2) [OF False op refl refl] have "snd (delete_at_boundaries b pc') = pc'" by simp
      then have "snd (delete_at_boundaries b pc) = take (length pc - length pc') pc @ pc'"
        unfolding eq using op by (auto split: prod.splits)
      also have "\<dots> = pc"
        using append_take_drop_id [of "length pc - length pc'" pc] GetScriptOp_suffix [OF op] by simp
      finally show ?thesis .
    qed
  qed
qed

lemma FindAndDelete_eq:
  assumes "b \<noteq> []"
  shows "FindAndDelete script b = delete_at_boundaries b script"
proof -
  obtain m r p where l: "find_and_delete_loop b [] 0 script script = (m, r, p)"
    using prod_cases3 by blast
  from find_and_delete_loop_eq [OF assms _ l] have "r @ p = snd (delete_at_boundaries b script)"
    "m = fst (delete_at_boundaries b script)" by simp_all
  with l assms delete_none [of b script] show ?thesis
    by (cases "delete_at_boundaries b script") (auto simp: FindAndDelete_def)
qed

text \<open>C24: \<open>FindAndDelete\<close> with its two iterators and nested loops computes exactly the boundary-wise
  deletion: the number of copies found and the script without them; an empty pattern changes
  nothing.\<close>

theorem FindAndDelete_boundaries:
  "FindAndDelete script b = (if b = [] then (0, script) else delete_at_boundaries b script)"
  using FindAndDelete_eq [of b script] by (simp add: FindAndDelete_def)

lemma starts_with_Cons: "starts_with (x # xs) (y # ys) \<longleftrightarrow> x = y \<and> starts_with xs ys"
  by (auto simp: starts_with_def)

lemma delete_at_boundaries_Nil [simp]: "delete_at_boundaries b [] = (0, [])"
  by (auto simp: delete_at_boundaries.simps [of b] starts_with_def)

text \<open>An instruction that does not start with the pattern is kept.\<close>

lemma delete_at_boundaries_keep:
  assumes "\<not> starts_with b (xs @ rest)" and "GetScriptOp (xs @ rest) = Inr (rest, opc, v)"
    and "delete_at_boundaries b rest = (0, rest)"
  shows "delete_at_boundaries b (xs @ rest) = (0, xs @ rest)"
  using assms by (simp add: delete_at_boundaries.simps [of b "xs @ rest"])

end
