(* ===== verification/Script_Spend.thy ===== *)
theory Script_Spend
  imports Script_Limits Script_Delete
begin

unbundle bit_operations_syntax

text \<open>
  Who can spend an output: the meaning of the pay-to-pubkey-hash template, in its legacy and
  witness forms, and of the multisignature check, derived from the interpreter.
\<close>

section \<open>Symbolic execution\<close>

definition p2pkh :: "valtype \<Rightarrow> CScript" where
  "p2pkh h = push_opcode (push_opcode (push_data (push_opcode (push_opcode [] OP_DUP) OP_HASH160) h)
     OP_EQUALVERIFY) OP_CHECKSIG"

lemma p2pkh_eq: "length h = 20 \<Longrightarrow> p2pkh h = 0x76 # 0xa9 # 0x14 # h @ [0x88, 0xac]"
  by (simp add: p2pkh_def push_opcode_def push_data_def)

text \<open>A direct push of 2 to 75 bytes is minimal and always executed.\<close>

lemma CheckMinimalPush_direct: "2 \<le> length d \<Longrightarrow> length d \<le> 75 \<Longrightarrow> CheckMinimalPush d (length d) = Some True"
  by (auto simp: CheckMinimalPush_def)

lemma eval_loop_push:
  assumes "2 \<le> length d" and "length d \<le> 75" and "vfExec st = []"
    and "length (stack st) + length (altstack st) < MAX_STACK_SIZE"
  shows "eval_loop env (of_nat (length d) # d @ rest) st = eval_loop env rest (push d st)"
proof -
  have "GetScriptOp (of_nat (length d) # d @ rest) = Inr (rest, length d, d)"
    using GetScriptOp_push [of d rest] assms(2) by (simp add: push_data_def push_opcode_of_def)
  then have "eval_step env (of_nat (length d) # d @ rest) st = Inr (Continue rest (push d st))"
    using assms CheckMinimalPush_direct [OF assms(1,2)]
    by (auto simp: eval_step_def op_prologue_def is_disabled_def script_limits fExec_of_def op_push_def
        size_limit_def push_def)
  then show ?thesis by (simp add: eval_loop.simps [of env "of_nat (length d) # d @ rest"])
qed

lemma eval_loop_op:
  assumes "GetScriptOp pc = Inr (rest, opcode, [])" and "vfExec st = []" and "OP_16 < opcode"
    and "\<not> is_disabled opcode" and "opcode \<noteq> OP_CODESEPARATOR" and "opcode \<notin> {OP_SPEND, OP_CREATE, OP_CALL}"
    and "nOpCount st < int MAX_OPS_PER_SCRIPT"
  shows "eval_loop env pc st =
     bindE (exec_opcode env True opcode rest (st\<lparr>nOpCount := nOpCount st + 1\<rparr>)) (\<lambda>st'.
     bindE (size_limit st') (\<lambda>_. eval_loop env rest st'))"
proof -
  have "pc \<noteq> []" using assms(1) by auto
  then show ?thesis
    using assms
    by (simp add: eval_loop.simps [of env pc] eval_step_def op_prologue_def fExec_of_def bindE_assoc)
qed

lemma eval_loop_plain:
  assumes "OP_16 < unat b" and "vfExec st = []"
    and "\<not> is_disabled (unat b)" and "unat b \<noteq> OP_CODESEPARATOR" and "unat b \<notin> {OP_SPEND, OP_CREATE, OP_CALL}"
    and "nOpCount st < int MAX_OPS_PER_SCRIPT"
  shows "eval_loop env (b # rest) st =
     bindE (exec_opcode env True (unat b) rest (st\<lparr>nOpCount := nOpCount st + 1\<rparr>)) (\<lambda>st'.
     bindE (size_limit st') (\<lambda>_. eval_loop env rest st'))"
  by (rule eval_loop_op) (use assms GetScriptOp_plain [of b rest] in auto)

lemma p2pkh_loop:
  assumes "length h = 20"
  shows "eval_loop env (p2pkh h) (init_state [pubkey, sig] (p2pkh h)) =
    (if Hash160 (crypt env) pubkey = h then
       bindE (op_checksig env OP_CHECKSIG
         (init_state [pubkey, sig] (p2pkh h)\<lparr>nOpCount := 4\<rparr>)) (\<lambda>st.
       bindE (size_limit st) (\<lambda>_. Inr (Continue [] st)))
     else Inl (SErr SCRIPT_ERR_EQUALVERIFY))"
  using eval_loop_push [of h _ env "[0x88, 0xac]"] assms
  by (simp add: p2pkh_eq eval_loop_plain is_disabled_def script_limits init_state_def exec_opcode_def
      op_dup_def need_def stacktop_def push_def size_limit_def op_hash_def op_equal_def bindE_assoc)

section \<open>The signature of a template spend is not part of the script code\<close>

lemma delete_plain_keep:
  assumes "OP_PUSHDATA4 < unat b" and "x \<noteq> b" and "delete_at_boundaries (x # xs) rest = (0, rest)"
  shows "delete_at_boundaries (x # xs) (b # rest) = (0, b # rest)"
  using delete_at_boundaries_keep [of "x # xs" "[b]" rest "unat b" "[]"] assms GetScriptOp_plain [of b rest]
  by (simp add: starts_with_Cons)

lemma delete_push_keep:
  assumes "length d \<le> 75" and "x \<noteq> of_nat (length d)" and "delete_at_boundaries (x # xs) rest = (0, rest)"
  shows "delete_at_boundaries (x # xs) (of_nat (length d) # d @ rest) = (0, of_nat (length d) # d @ rest)"
  using delete_at_boundaries_keep [of "x # xs" "of_nat (length d) # d" rest "length d" d]
    GetScriptOp_push [of d rest] assms
  by (simp add: starts_with_Cons push_data_def push_opcode_of_def)

lemma p2pkh_delete_signature:
  assumes "length h = 20" and "21 \<le> length sig" and "length sig \<le> 75"
  shows "FindAndDelete (p2pkh h) (push_data [] sig) = (0, p2pkh h)"
proof -
  let ?l = "of_nat (length sig) :: byte"
  have b: "push_data [] sig = ?l # sig" using assms by (simp add: push_data_def)
  have ne: "?l \<noteq> w" if "75 < unat w \<or> unat w < 21" for w
  proof
    assume "?l = w"
    then have "unat w = length sig" using assms(3) unat_of_nat_less [of "length sig", where 'a = 8] by simp
    with that assms show False by simp
  qed
  have "delete_at_boundaries (?l # sig) [0x88, 0xac] = (0, [0x88, 0xac])"
    by (intro delete_plain_keep ne) simp_all
  then have "delete_at_boundaries (?l # sig) (of_nat (length h) # h @ [0x88, 0xac]) =
      (0, of_nat (length h) # h @ [0x88, 0xac])"
    by (intro delete_push_keep ne) (simp_all add: assms(1))
  then have "delete_at_boundaries (?l # sig) (p2pkh h) = (0, p2pkh h)"
    unfolding p2pkh_eq [OF assms(1)] using assms(1)
    by (intro delete_plain_keep [where b = "0x76"] delete_plain_keep [where b = "0xa9"] ne) simp_all
  then show ?thesis by (simp add: b FindAndDelete_eq)
qed

section \<open>Pay to pubkey hash\<close>

lemma CastToBool_vchBool [simp]: "CastToBool (vchBool b) = b"
  by (simp add: vchBool_def vchTrue_def vchFalse_def)

text \<open>What it takes for a signature to unlock a key, given the script code it signs.\<close>

definition sig_unlocks :: "eval_env \<Rightarrow> valtype \<Rightarrow> valtype \<Rightarrow> CScript \<Rightarrow> bool" where
  "sig_unlocks env sig pubkey scriptCode \<longleftrightarrow>
     check_encodings env sig pubkey = Inr () \<and>
     CheckSig (checker env) sig pubkey scriptCode (sigversion env)"

lemma op_checksig_two:
  assumes "drop_signature env sig c = Inr c"
  shows "op_checksig env OP_CHECKSIG (st\<lparr>stack := [pubkey, sig], pbegincodehash := c\<rparr>) = Inr st' \<and>
         CastToBool (hd (stack st')) \<longleftrightarrow>
         st' = st\<lparr>stack := [vchTrue], pbegincodehash := c\<rparr> \<and> sig_unlocks env sig pubkey c"
  using assms
  by (auto simp: op_checksig_def Let_def bindE_iffs stacktop_def sig_unlocks_def vchBool_def vchFalse_def
      vchTrue_def split: if_splits)

lemma eval_true_Inr_iff:
  "eval_true env stk script = Inr r \<longleftrightarrow>
     (\<exists>e. EvalScript env stk script = Inr (e, r) \<and> r \<noteq> [] \<and> CastToBool (hd r))"
  unfolding eval_true_def by (cases "EvalScript env stk script") (auto simp: bindE_iffs split: prod.splits if_splits)

lemma p2pkh_eval:
  assumes h: "length h = 20" and d: "drop_signature env sig (p2pkh h) = Inr (p2pkh h)"
  shows "eval_true env [pubkey, sig] (p2pkh h) = Inr s \<longleftrightarrow>
         s = [vchTrue] \<and> Hash160 (crypt env) pubkey = h \<and> sig_unlocks env sig pubkey (p2pkh h)"
proof -
  let ?st = "init_state [pubkey, sig] (p2pkh h)\<lparr>nOpCount := 4\<rparr>"
  have st: "?st = ?st\<lparr>stack := [pubkey, sig], pbegincodehash := p2pkh h\<rparr>" by (simp add: init_state_def)
  note ck = op_checksig_two [OF d, where st = ?st and pubkey = pubkey, folded st]
  have l: "\<not> MAX_SCRIPT_SIZE < length (p2pkh h)" using h by (simp add: p2pkh_eq script_limits)
  show ?thesis
  proof (cases "Hash160 (crypt env) pubkey = h")
    case False
    then show ?thesis
      using l by (simp add: eval_true_Inr_iff EvalScript_def p2pkh_loop [OF h] catch_eval_def)
  next
    case True
    show ?thesis
    proof (cases "op_checksig env OP_CHECKSIG ?st")
      case (Inl e)
      then have "\<not> sig_unlocks env sig pubkey (p2pkh h)" using ck by auto
      with Inl True l show ?thesis
        by (auto simp: eval_true_Inr_iff EvalScript_def p2pkh_loop [OF h] bindE_iffs)
    next
      case (Inr st')
      have "EvalScript env [pubkey, sig] (p2pkh h) = Inr (SCRIPT_ERR_OK, [vchTrue])"
        if "st' = ?st\<lparr>stack := [vchTrue], pbegincodehash := p2pkh h\<rparr>"
        using that Inr True l unfolding EvalScript_def p2pkh_loop [OF h]
        by (simp add: init_state_def size_limit_def script_limits)
      moreover have "r = stack st'" if "EvalScript env [pubkey, sig] (p2pkh h) = Inr (e, r)" for e r
        using that Inr True l
        by (auto simp: EvalScript_def p2pkh_loop [OF h] bindE_iffs split: if_splits)
      ultimately show ?thesis
        using ck [of st'] ck [of "?st\<lparr>stack := [vchTrue], pbegincodehash := p2pkh h\<rparr>"] Inr True
        by (auto simp: eval_true_Inr_iff vchTrue_def)
    qed
  qed
qed

text \<open>The scriptSig of a template spend: the signature and the public key.\<close>

lemma eval_two_pushes:
  assumes "2 \<le> length sig" "length sig \<le> 75" "2 \<le> length pubkey" "length pubkey \<le> 75"
  shows "EvalScript env [] (push_data (push_data [] sig) pubkey) = Inr (SCRIPT_ERR_OK, [pubkey, sig])"
proof -
  let ?s = "of_nat (length sig) # sig @ of_nat (length pubkey) # pubkey @ []"
  have s: "push_data (push_data [] sig) pubkey = ?s" using assms by (simp add: push_data_def)
  have "eval_loop env ?s (init_state [] ?s) = Inr (Continue [] (push pubkey (push sig (init_state [] ?s))))"
    using assms by (subst eval_loop_push; simp add: init_state_def script_limits push_def
        eval_loop_push [where rest = "[]", simplified])
  then show ?thesis
    using assms unfolding s by (simp add: EvalScript_def script_limits init_state_def push_def)
qed

text \<open>C25: a legacy pay-to-pubkey-hash output can be spent with a signature and a public key
  exactly when the key hashes to the committed hash, both encodings pass the active rules and
  the signature is valid for the key over the output script itself, under every allowed set of
  flags.\<close>

theorem VerifyScript_p2pkh:
  assumes "length h = 20" and "21 \<le> length sig" and "length sig \<le> 75"
    and "33 \<le> length pubkey" and "length pubkey \<le> 75" and "flags_ok (flags env)" and "sigversion env = BASE"
  shows "VerifyScript env (push_data (push_data [] sig) pubkey) (p2pkh h) [] = Inr () \<longleftrightarrow>
         Hash160 (crypt env) pubkey = h \<and> sig_unlocks env sig pubkey (p2pkh h)"
proof -
  let ?sig = "push_data (push_data [] sig) pubkey"
  have env: "env\<lparr>sigversion := BASE\<rparr> = env" using assms(7) by simp
  have po: "IsPushOnly ?sig"
    using IsPushOnly_push_data [of sig "push_data [] pubkey"] IsPushOnly_push_data [of pubkey "[]"] assms
    by (simp add: push_data_append [of "push_data [] sig"] IsPushOnly.simps [of "[]"])
  have ev: "EvalScript env [] ?sig = Inr (SCRIPT_ERR_OK, [pubkey, sig])"
    by (rule eval_two_pushes) (use assms in auto)
  have d: "drop_signature env sig (p2pkh h) = Inr (p2pkh h)"
    by (simp add: drop_signature_def p2pkh_delete_signature [OF assms(1-3)])
  have w: "IsWitnessProgram (p2pkh h) = Some None" "\<not> IsPayToScriptHash (p2pkh h)"
    using assms(1) by (simp_all add: p2pkh_eq IsWitnessProgram_def IsPayToScriptHash_def)
  show ?thesis
  proof (cases "eval_true env [pubkey, sig] (p2pkh h)")
    case (Inl e)
    then show ?thesis
      using po ev p2pkh_eval [OF assms(1) d, of pubkey "[vchTrue]"] by (auto simp: VerifyScript_def Let_def env)
  next
    case (Inr s)
    then have s: "s = [vchTrue]" "Hash160 (crypt env) pubkey = h" "sig_unlocks env sig pubkey (p2pkh h)"
      using p2pkh_eval [OF assms(1) d] by auto
    show ?thesis
      using po ev w assms(6) Inr s
      by (simp add: VerifyScript_def Let_def env verify_witness_def verify_p2sh_def flags_ok_def)
  qed
qed

text \<open>The version 0 witness program of 20 bytes runs the same template: two witness elements
  unlock it exactly when the key hashes to the program and the signature is valid for the key
  over the implied script under the segwit signature rules.\<close>

theorem VerifyWitnessProgram_p2wpkh:
  assumes "length h = 20" and "length sig \<le> MAX_SCRIPT_ELEMENT_SIZE" and "length pubkey \<le> MAX_SCRIPT_ELEMENT_SIZE"
  shows "VerifyWitnessProgram env [sig, pubkey] 0 h = Inr () \<longleftrightarrow>
         Hash160 (crypt env) pubkey = h \<and> sig_unlocks (env\<lparr>sigversion := WITNESS_V0\<rparr>) sig pubkey (p2pkh h)"
proof -
  let ?env = "env\<lparr>sigversion := WITNESS_V0\<rparr>"
  have d: "drop_signature ?env sig (p2pkh h) = Inr (p2pkh h)" by (simp add: drop_signature_def)
  have e: "VerifyWitnessProgram env [sig, pubkey] 0 h = Inr () \<longleftrightarrow>
      (\<exists>s. eval_true ?env [pubkey, sig] (p2pkh h) = Inr s \<and> length s = 1)"
    using assms
    by (auto simp: VerifyWitnessProgram_def witness_script_def WITNESS_V0_KEYHASH_SIZE_def
        WITNESS_V0_SCRIPTHASH_SIZE_def p2pkh_def eval_true_Inr_iff bindE_iffs split: if_splits)
  show ?thesis unfolding e p2pkh_eval [OF assms(1) d] by auto
qed

text \<open>An environment whose signature checker accepts everything, to exhibit a spend.\<close>

definition accepting_env :: "u32 \<Rightarrow> eval_env" where
  "accepting_env f = (sample_env f)\<lparr>checker :=
     \<lparr>CheckSig = (\<lambda>scriptSig vchPubKey scriptCode sigversion. scriptSig \<noteq> []),
      CheckLockTime = (\<lambda>nLockTime. False), CheckSequence = (\<lambda>nSequence. False)\<rparr>\<rparr>"

theorem VerifyScript_p2pkh_witness:
  "VerifyScript (accepting_env SCRIPT_VERIFY_P2SH)
     (push_data (push_data [] (replicate 70 1)) (replicate 33 2)) (p2pkh (replicate 20 2)) [] = Inr ()"
proof -
  let ?env = "accepting_env SCRIPT_VERIFY_P2SH"
  have f: "flags_ok (flags ?env)" by code_simp
  have v: "sigversion ?env = BASE" by (simp add: accepting_env_def sample_env_def)
  have "Hash160 (crypt ?env) (replicate 33 2) = replicate 20 2" by code_simp
  moreover have "sig_unlocks ?env (replicate 70 1) (replicate 33 2) (p2pkh (replicate 20 2))"
    unfolding sig_unlocks_def by code_simp
  ultimately show ?thesis
    using VerifyScript_p2pkh [of "replicate 20 2" "replicate 70 1" "replicate 33 2" ?env] f v by simp
qed

theorem VerifyWitnessProgram_p2wpkh_witness:
  "VerifyWitnessProgram (accepting_env SCRIPT_VERIFY_P2SH) [[1], replicate 33 2] 0 (replicate 20 2) = Inr ()"
proof -
  let ?env = "accepting_env SCRIPT_VERIFY_P2SH"
  have "Hash160 (crypt ?env) (replicate 33 2) = replicate 20 2" by code_simp
  moreover have "sig_unlocks (?env\<lparr>sigversion := WITNESS_V0\<rparr>) [1] (replicate 33 2) (p2pkh (replicate 20 2))"
    unfolding sig_unlocks_def by code_simp
  ultimately show ?thesis
    using VerifyWitnessProgram_p2wpkh [of "replicate 20 2" "[1]" "replicate 33 2" ?env]
    by (simp add: script_limits)
qed

end
