(* ===== verification/Script_Multisig.thy ===== *)
theory Script_Multisig
  imports Script_Spend "HOL-Library.Sublist"
begin

unbundle bit_operations_syntax

text \<open>
  \<open>OP_CHECKMULTISIG\<close>: the greedy walk over signatures and keys with its early exit decides
  whether the signatures can be assigned to a subsequence of the keys.
\<close>

section \<open>Greedy matching\<close>

fun greedy :: "('a \<Rightarrow> 'b \<Rightarrow> bool) \<Rightarrow> 'a list \<Rightarrow> 'b list \<Rightarrow> bool" where
  "greedy P [] ks = True"
| "greedy P (s # ss) [] = False"
| "greedy P (s # ss) (k # ks) = (if P s k then greedy P ss ks else greedy P (s # ss) ks)"

definition ordered_match :: "('a \<Rightarrow> 'b \<Rightarrow> bool) \<Rightarrow> 'a list \<Rightarrow> 'b list \<Rightarrow> bool" where
  "ordered_match P ss ks \<longleftrightarrow> (\<exists>ks'. subseq ks' ks \<and> list_all2 P ss ks')"

lemma ordered_match_Nil [simp]: "ordered_match P [] ks"
  by (auto simp: ordered_match_def)

lemma ordered_match_tail: "ordered_match P (s # ss) ks \<Longrightarrow> ordered_match P ss ks"
  by (auto simp: ordered_match_def list_all2_Cons1 dest: subseq_Cons')

lemma ordered_match_Cons:
  "ordered_match P (s # ss) (k # ks) \<longleftrightarrow>
     (P s k \<and> ordered_match P ss ks) \<or> ordered_match P (s # ss) ks"
proof
  assume "ordered_match P (s # ss) (k # ks)"
  then obtain x xs where "subseq (x # xs) (k # ks)" "P s x" "list_all2 P ss xs"
    by (auto simp: ordered_match_def list_all2_Cons1)
  then show "(P s k \<and> ordered_match P ss ks) \<or> ordered_match P (s # ss) ks"
    by (cases "x = k") (auto simp: ordered_match_def list_all2_Cons1)
next
  assume "(P s k \<and> ordered_match P ss ks) \<or> ordered_match P (s # ss) ks"
  then show "ordered_match P (s # ss) (k # ks)"
    by (auto simp: ordered_match_def list_all2_Cons1)
qed

lemma greedy_iff: "greedy P ss ks \<longleftrightarrow> ordered_match P ss ks"
proof (induction P ss ks rule: greedy.induct)
  case (2 P s ss)
  then show ?case by (auto simp: ordered_match_def list_all2_Cons1)
next
  case (3 P s ss k ks)
  then show ?case
    by (auto simp: ordered_match_Cons dest: ordered_match_tail)
qed simp

lemma greedy_length: "greedy P ss ks \<Longrightarrow> length ss \<le> length ks"
  by (induction P ss ks rule: greedy.induct) (auto split: if_splits)

section \<open>The loop\<close>

text \<open>The walk checks the encodings of the pairs it meets, and stops when fewer keys than signatures are
  left.\<close>

fun encodings_walked :: "eval_env \<Rightarrow> CScript \<Rightarrow> valtype list \<Rightarrow> valtype list \<Rightarrow> bool" where
  "encodings_walked env c (s # ss) (k # ks) \<longleftrightarrow>
     (length ss \<le> length ks \<longrightarrow> check_encodings env s k = Inr () \<and>
        encodings_walked env c (if CheckSig (checker env) s k c (sigversion env) then ss else s # ss) ks)"
| "encodings_walked env c ss ks \<longleftrightarrow> True"

text \<open>Positions \<open>isig\<close> and \<open>ikey\<close> point at the remaining signatures and keys on the stack.\<close>

lemma multisig_loop_greedy:
  assumes "take (length ss) (drop (isig - 1) stk) = ss" and "take (length ks) (drop (ikey - 1) stk) = ks"
    and "1 \<le> isig" and "1 \<le> ikey" and "length ss \<le> length ks"
  shows "multisig_loop env stk c isig (int (length ss)) ikey (int (length ks)) True = Inr r \<longleftrightarrow>
    encodings_walked env c ss ks \<and> r = greedy (\<lambda>s k. CheckSig (checker env) s k c (sigversion env)) ss ks"
  using assms
proof (induction "\<lambda>s k. CheckSig (checker env) s k c (sigversion env)" ss ks arbitrary: isig ikey rule: greedy.induct)
  case (1 ks)
  then show ?case by (auto simp: multisig_loop.simps [of env stk c isig])
next
  case (2 s ss)
  then show ?case by simp
next
  case (3 s ss k ks)
  let ?ck = "\<lambda>s k. CheckSig (checker env) s k c (sigversion env)"
  have top: "stacktop stk isig = Inr s" "stacktop stk ikey = Inr k"
  proof -
    have "drop (isig - 1) stk \<noteq> []" "drop (ikey - 1) stk \<noteq> []" using "3.prems"(1,2) by auto
    then have l: "isig - 1 < length stk" "ikey - 1 < length stk" by auto
    moreover have "stk ! (isig - 1) = s" "stk ! (ikey - 1) = k"
      using "3.prems"(1,2) l by (simp_all flip: Cons_nth_drop_Suc)
    ultimately show "stacktop stk isig = Inr s" "stacktop stk ikey = Inr k"
      using "3.prems"(3,4) by (auto simp: stacktop_def)
  qed
  have sl: "take (length ss) (drop isig stk) = ss" "take (length ks) (drop ikey stk) = ks"
  proof -
    have "tl (drop (isig - 1) stk) = drop isig stk" "tl (drop (ikey - 1) stk) = drop ikey stk"
      using "3.prems"(3,4) by (simp_all add: tl_drop flip: drop_Suc)
    with arg_cong [OF "3.prems"(1), of tl] arg_cong [OF "3.prems"(2), of tl]
    show "take (length ss) (drop isig stk) = ss" "take (length ks) (drop ikey stk) = ks"
      by (simp_all add: tl_take)
  qed
  note step = multisig_loop.simps [of env stk c isig "1 + int (length ss)" ikey "1 + int (length ks)" True]
  have le: "length ss \<le> length ks" using "3.prems"(5) by simp
  show ?case
  proof (cases "check_encodings env s k")
    case (Inl e)
    then show ?thesis using top le by (simp add: step Let_def)
  next
    case (Inr u)
    consider "?ck s k" | "\<not> ?ck s k" "length (s # ss) \<le> length ks" | "\<not> ?ck s k" "\<not> length (s # ss) \<le> length ks" by blast
    then show ?thesis
    proof cases
      case 1
      have "multisig_loop env stk c (isig + 1) (int (length ss)) (ikey + 1) (int (length ks)) True = Inr r \<longleftrightarrow>
          encodings_walked env c ss ks \<and> r = greedy ?ck ss ks"
        by (rule "3.hyps"(1)) (use 1 "3.prems" sl le in simp_all)
      with 1 le top Inr show ?thesis by (simp add: step Let_def)
    next
      case 2
      have "multisig_loop env stk c isig (int (length (s # ss))) (ikey + 1) (int (length ks)) True = Inr r \<longleftrightarrow>
          encodings_walked env c (s # ss) ks \<and> r = greedy ?ck (s # ss) ks"
        by (rule "3.hyps"(2)) (use 2 "3.prems" sl in simp_all)
      with 2 le top Inr show ?thesis by (simp add: step Let_def)
    next
      case 3
      then have "\<not> greedy ?ck (s # ss) ks" using greedy_length by blast
      moreover have "encodings_walked env c (s # ss) ks" using 3 by (cases ks) simp_all
      ultimately show ?thesis using 3 le top Inr by (auto simp: step multisig_loop.simps [where fSuccess = False] Let_def)
    qed
  qed
qed

section \<open>The instruction\<close>

lemma multisig_cleanup_iff:
  "i \<le> length stk \<Longrightarrow> multisig_cleanup env f i k stk = Inr s \<longleftrightarrow> s = drop i stk \<and>
     (f \<or> \<not> has_flag (flags env) SCRIPT_VERIFY_NULLFAIL \<or> list_all (\<lambda>v. v = []) (take (i - k) (drop k stk)))"
proof (induction env f i k stk rule: multisig_cleanup.induct)
  case (2 env f i k stk)
  then obtain v stk' where "stk = v # stk'" by (cases stk) simp_all
  with 2 show ?case by (cases k) (auto simp: stacktop_def bindE_iffs guardE_simps)
qed auto

lemma take_drop_shape:
  assumes "n + m + 3 \<le> length stk"
  shows "stk = stk ! 0 # take n (drop 1 stk) @ stk ! (n + 1) # take m (drop (n + 2) stk) @ stk ! (n + m + 2) # drop (n + m + 3) stk"
proof -
  have "stk = stk ! 0 # drop 1 stk" using assms by (cases stk) simp_all
  moreover have "drop 1 stk = take n (drop 1 stk) @ drop (n + 1) stk" by (metis add.commute append_take_drop_id drop_drop)
  moreover have "drop (n + 1) stk = stk ! (n + 1) # drop (n + 2) stk" using assms by (simp add: Cons_nth_drop_Suc)
  moreover have "drop (n + 2) stk = take m (drop (n + 2) stk) @ drop (n + m + 2) stk"
    by (metis add.commute add.left_commute append_take_drop_id drop_drop)
  moreover have "drop (n + m + 2) stk = stk ! (n + m + 2) # drop (n + m + 3) stk" using assms by (simp add: Cons_nth_drop_Suc eval_nat_numeral)
  ultimately show ?thesis by metis
qed

text \<open>A count is read as a number on the stack.\<close>

definition reads_count :: "eval_env \<Rightarrow> valtype \<Rightarrow> nat \<Rightarrow> bool" where
  "reads_count env v n \<longleftrightarrow> (\<exists>num. script_num env v nDefaultMaxNumSize = Inr num \<and> getint num = int n)"

text \<open>What the instruction finds on the stack: the number of keys, the keys, the number of signatures, the
  signatures and one extra element, within the limits on keys and operations; and the script code
  that is signed.\<close>

definition multisig_args :: "eval_env \<Rightarrow> exec_state \<Rightarrow> valtype list \<Rightarrow> valtype list \<Rightarrow> valtype \<Rightarrow> valtype list \<Rightarrow> CScript \<Rightarrow> bool" where
  "multisig_args env st ks ss dummy rest c \<longleftrightarrow>
     (\<exists>nk ns. stack st = nk # ks @ ns # ss @ dummy # rest \<and> reads_count env nk (length ks) \<and> reads_count env ns (length ss)) \<and>
     length ss \<le> length ks \<and> length ks \<le> MAX_PUBKEYS_PER_MULTISIG \<and> nOpCount st + int (length ks) \<le> int MAX_OPS_PER_SCRIPT \<and>
     multisig_drop env (stack st) (3 + length ks) (length ss) (pbegincodehash st) = Inr c"

lemma multisig_args_run:
  assumes "multisig_args env st ks ss dummy rest c"
  shows "op_checkmultisig env OP_CHECKMULTISIG st = Inr st' \<longleftrightarrow>
    (\<exists>m. encodings_walked env c ss ks \<and> m = ordered_match (\<lambda>s k. CheckSig (checker env) s k c (sigversion env)) ss ks \<and>
      (m \<or> \<not> has_flag (flags env) SCRIPT_VERIFY_NULLFAIL \<or> list_all (\<lambda>s. s = []) ss) \<and>
      (\<not> has_flag (flags env) SCRIPT_VERIFY_NULLDUMMY \<or> dummy = []) \<and>
      st' = st\<lparr>stack := vchBool m # rest, nOpCount := nOpCount st + int (length ks)\<rparr>)"
proof -
  obtain nk ns i j where stk: "stack st = nk # ks @ ns # ss @ dummy # rest"
    and num: "script_num env nk nDefaultMaxNumSize = Inr i" "getint i = int (length ks)"
      "script_num env ns nDefaultMaxNumSize = Inr j" "getint j = int (length ss)"
    and le: "length ss \<le> length ks" "length ks \<le> MAX_PUBKEYS_PER_MULTISIG" "nOpCount st + int (length ks) \<le> int MAX_OPS_PER_SCRIPT"
    and c: "multisig_drop env (stack st) (3 + length ks) (length ss) (pbegincodehash st) = Inr c"
    using assms by (auto simp: multisig_args_def reads_count_def)
  have top: "stacktop (stack st) 1 = Inr nk" "stacktop (stack st) (2 + length ks) = Inr ns"
    and len: "length (stack st) = length ks + length ss + length rest + 3"
    by (simp_all add: stk stacktop_def nth_append)
  have loop: "multisig_loop env (stack st) c (3 + length ks) (int (length ss)) 2 (int (length ks)) True = Inr r \<longleftrightarrow>
      encodings_walked env c ss ks \<and> r = ordered_match (\<lambda>s k. CheckSig (checker env) s k c (sigversion env)) ss ks" for r
    unfolding greedy_iff [symmetric] by (rule multisig_loop_greedy) (use le(1) in \<open>simp_all add: stk\<close>)
  have cleanup: "multisig_cleanup env f (2 + length ks + length ss) (2 + length ks) (stack st) = Inr s \<longleftrightarrow> s = dummy # rest \<and>
      (f \<or> \<not> has_flag (flags env) SCRIPT_VERIFY_NULLFAIL \<or> list_all (\<lambda>v. v = []) ss)" for f s
    by (subst multisig_cleanup_iff) (simp_all add: stk)
  show ?thesis
    using top len num le c loop cleanup
    by (auto simp: op_checkmultisig_def Let_def need_def bindE_iffs stacktop_def [of "dummy # _"] numeral_3_eq_3 numeral_2_eq_2 eval_nat_numeral
        del: multisig_cleanup.simps split: if_splits)
qed

lemma multisig_args_needed:
  assumes "op_checkmultisig env OP_CHECKMULTISIG st = Inr st'"
  obtains ks ss dummy rest c where "multisig_args env st ks ss dummy rest c"
proof -
  obtain i j c where run: "script_num env (stack st ! 0) nDefaultMaxNumSize = Inr i" "0 \<le> getint i" "getint i \<le> int MAX_PUBKEYS_PER_MULTISIG"
      "nOpCount st + getint i \<le> int MAX_OPS_PER_SCRIPT"
      "script_num env (stack st ! (nat (getint i) + 1)) nDefaultMaxNumSize = Inr j" "0 \<le> getint j" "getint j \<le> getint i"
      "nat (getint i) + nat (getint j) + 3 \<le> length (stack st)"
      "multisig_drop env (stack st) (3 + nat (getint i)) (nat (getint j)) (pbegincodehash st) = Inr c"
    using assms by (auto simp: op_checkmultisig_def Let_def need_def bindE_iffs stacktop_def numeral_3_eq_3 split: if_splits)
  let ?n = "nat (getint i)" and ?m = "nat (getint j)"
  let ?ks = "take ?n (drop 1 (stack st))" and ?ss = "take ?m (drop (?n + 2) (stack st))"
  have len: "length ?ks = ?n" "length ?ss = ?m" using run(8) by simp_all
  have "multisig_args env st ?ks ?ss (stack st ! (?n + ?m + 2)) (drop (?n + ?m + 3) (stack st)) c"
    unfolding multisig_args_def len reads_count_def
    using take_drop_shape [OF run(8)] run by (intro conjI exI [of _ "stack st ! 0"] exI [of _ "stack st ! (?n + 1)"]) auto
  then show thesis by (rule that)
qed

text \<open>C20: what \<open>OP_CHECKMULTISIG\<close> decides.  It succeeds exactly when the stack holds counts, keys, signatures
  and the extra element within the limits, every encoding it looks at is acceptable, the extra
  element is empty where \<open>NULLDUMMY\<close> is set, and the signatures match or, where \<open>NULLFAIL\<close> is set, are all
  empty.  It then pops exactly these arguments, pushes whether the signatures match a subsequence
  of the keys in order, and adds the number of keys to the operation count.\<close>

theorem op_checkmultisig_match:
  "op_checkmultisig env OP_CHECKMULTISIG st = Inr st' \<longleftrightarrow>
    (\<exists>ks ss dummy rest c m. multisig_args env st ks ss dummy rest c \<and> encodings_walked env c ss ks \<and>
      m = ordered_match (\<lambda>s k. CheckSig (checker env) s k c (sigversion env)) ss ks \<and>
      (m \<or> \<not> has_flag (flags env) SCRIPT_VERIFY_NULLFAIL \<or> list_all (\<lambda>s. s = []) ss) \<and>
      (\<not> has_flag (flags env) SCRIPT_VERIFY_NULLDUMMY \<or> dummy = []) \<and>
      st' = st\<lparr>stack := vchBool m # rest, nOpCount := nOpCount st + int (length ks)\<rparr>)"
    (is "?run \<longleftrightarrow> ?rule")
proof
  assume ?run
  then obtain ks ss dummy rest c where "multisig_args env st ks ss dummy rest c" by (rule multisig_args_needed)
  then show ?rule using \<open>?run\<close> multisig_args_run by blast
next
  assume ?rule
  then show ?run using multisig_args_run by blast
qed

theorem op_checkmultisig_match_witness:
  "op_checkmultisig (accepting_env 0) OP_CHECKMULTISIG (init_state [[2], [1], [2], [1], [5], []] [0xae]) =
     Inr (init_state [vchTrue] [0xae]\<lparr>nOpCount := 2\<rparr>)"
proof -
  let ?env = "accepting_env 0" and ?st = "init_state [[2], [1], [2], [1], [5], []] [0xae]"
  have "script_num ?env [2] nDefaultMaxNumSize = Inr 2" "script_num ?env [1] nDefaultMaxNumSize = Inr 1" "getint 2 = 2" "getint 1 = 1"
    by code_simp+
  then have "reads_count ?env [2] 2" "reads_count ?env [1] 1" by (simp_all add: reads_count_def)
  moreover have "multisig_drop ?env [[2], [1], [2], [1], [5], []] 5 1 [0xae] = Inr [0xae]" by code_simp
  ultimately have args: "multisig_args ?env ?st [[1], [2]] [[5]] [] [] [0xae]"
    by (auto simp: multisig_args_def init_state_def script_limits numeral_2_eq_2)
  moreover have "encodings_walked ?env [0xae] [[5]] [[1], [2]]" by code_simp
  moreover have "ordered_match (\<lambda>s k. CheckSig (checker ?env) s k [0xae] (sigversion ?env)) [[5]] [[1], [2]]"
    unfolding greedy_iff [symmetric] by code_simp
  ultimately show ?thesis
    unfolding op_checkmultisig_match
    by (intro exI [of _ "[[1], [2]]"] exI [of _ "[[5]]"] exI [of _ "[]"] exI [of _ "[0xae]"] exI [of _ True])
      (simp add: init_state_def vchBool_def)
qed

end
