(* ===== verification/Serialize.thy ===== *)
theory Serialize
  imports Prelude
begin

unbundle bit_operations_syntax

text \<open>
  \<open>serialize.h\<close>: the byte encodings of integers, compact sizes, variable-length integers and
  vectors.  Writing returns the bytes; reading consumes a prefix of the stream and returns the
  value and the remaining stream, or the exception.  \<open>Data_Stream\<close> relates this reading of the
  unread bytes to the buffer and the 32-bit position of \<open>CDataStream\<close>.  The locale \<open>codec\<close> is the contract every
  type's pair of functions fulfils.
\<close>

section \<open>Streams\<close>

datatype ser_error =
    EndOfData          \<comment> \<open>\<open>CDataStream::read(): end of data\<close>\<close>
  | NonCanonicalSize   \<comment> \<open>\<open>non-canonical ReadCompactSize()\<close>\<close>
  | SizeTooLarge       \<comment> \<open>\<open>ReadCompactSize(): size too large\<close>\<close>
  | VarIntTooLarge     \<comment> \<open>\<open>ReadVarInt(): size too large\<close>\<close>
  | UnknownTxData      \<comment> \<open>\<open>Unknown transaction optional data\<close>\<close>
  | TooManyUndo        \<comment> \<open>\<open>Too many input undo records\<close>\<close>
  | PubKeyAssert       \<comment> \<open>the assertion of \<open>DecompressScript\<close>\<close>

type_synonym 'a reader = "byte list \<Rightarrow> ser_error + 'a \<times> byte list"

text \<open>Taking bytes from the unread part of a stream.\<close>

definition stream_read :: "nat \<Rightarrow> valtype reader" where
  "stream_read nSize s = (if nSize \<le> length s then Inr (take nSize s, drop nSize s) else Inl EndOfData)"

definition ser_readdata8 :: "byte reader" where
  "ser_readdata8 s = bindE (stream_read 1 s) (\<lambda>(b, r). Inr (hd b, r))"

definition ser_readdata16 :: "u16 reader" where
  "ser_readdata16 s = bindE (stream_read 2 s) (\<lambda>(b, r). Inr (ReadLE16 b, r))"

definition ser_readdata32 :: "u32 reader" where
  "ser_readdata32 s = bindE (stream_read 4 s) (\<lambda>(b, r). Inr (ReadLE32 b, r))"

definition ser_readdata64 :: "u64 reader" where
  "ser_readdata64 s = bindE (stream_read 8 s) (\<lambda>(b, r). Inr (ReadLE64 b, r))"

section \<open>Compact sizes\<close>

definition MAX_SIZE :: nat where
  "MAX_SIZE = 0x10000000"

definition GetSizeOfCompactSize :: "u64 \<Rightarrow> nat" where
  "GetSizeOfCompactSize nSize =
     (if nSize < 253 then 1 else if nSize \<le> 0xffff then 1 + 2 else if nSize \<le> 0xffffffff then 1 + 4 else 1 + 8)"

definition WriteCompactSize :: "u64 \<Rightarrow> byte list" where
  "WriteCompactSize nSize =
     (if nSize < 253 then [ucast nSize]
      else if nSize \<le> 0xffff then 253 # WriteLE16 (ucast nSize)
      else if nSize \<le> 0xffffffff then 254 # WriteLE32 (ucast nSize)
      else 255 # WriteLE64 nSize)"

definition ReadCompactSize :: "u64 reader" where
  "ReadCompactSize is =
     bindE (ser_readdata8 is) (\<lambda>(chSize, is).
     bindE (if chSize < 253 then Inr (ucast chSize, is)
            else if chSize = 253 then
              bindE (ser_readdata16 is) (\<lambda>(n, is).
              bindE (guardE (\<not> n < 253) NonCanonicalSize) (\<lambda>_. Inr (ucast n, is)))
            else if chSize = 254 then
              bindE (ser_readdata32 is) (\<lambda>(n, is).
              bindE (guardE (\<not> n < 0x10000) NonCanonicalSize) (\<lambda>_. Inr (ucast n, is)))
            else
              bindE (ser_readdata64 is) (\<lambda>(n, is).
              bindE (guardE (\<not> n < 0x100000000) NonCanonicalSize) (\<lambda>_. Inr (n, is))))
       (\<lambda>(nSizeRet, is).
     bindE (guardE (\<not> unat nSizeRet > MAX_SIZE) SizeTooLarge) (\<lambda>_.
     Inr (nSizeRet, is))))"

section \<open>Variable-length integers\<close>

text \<open>The digits of \<open>WriteVarInt\<close> in the order they enter \<open>tmp\<close>; the flag says \<open>len\<close> is not 0.\<close>

function varint_tmp :: "bool \<Rightarrow> u64 \<Rightarrow> byte list" where
  "varint_tmp len n =
     (let d = ucast (n AND 0x7F) OR (if len then 0x80 else 0x00) in
      if n \<le> 0x7F then [d] else d # varint_tmp True (drop_bit 7 n - 1))"
  by pat_completeness auto
termination
proof (relation "measure (\<lambda>(_, n). unat n)", goal_cases)
  case (2 len n d)
  then have n: "0x7F < unat n" by (simp add: word_le_nat_alt)
  have d: "unat (drop_bit 7 n) = unat n div 2 ^ 7" unfolding unat_drop_bit_eq by (simp add: drop_bit_eq_div)
  then have "drop_bit 7 n \<noteq> 0" using n by (auto simp: unat_0_iff [symmetric] div_eq_0_iff)
  then have "unat (drop_bit 7 n - 1) = unat (drop_bit 7 n) - 1" by (simp add: unat_minus_one)
  with d n show ?case by simp
qed simp

declare varint_tmp.simps [simp del]

definition WriteVarInt :: "u64 \<Rightarrow> byte list" where
  "WriteVarInt n = rev (varint_tmp False n)"

fun read_varint_loop :: "u64 \<Rightarrow> u64 reader" where
  "read_varint_loop n [] = Inl EndOfData"
| "read_varint_loop n (chData # is) =
     (if n > drop_bit 7 (- 1) then Inl VarIntTooLarge
      else let n = push_bit 7 n OR ucast (chData AND 0x7F) in
        if chData AND 0x80 \<noteq> 0 then
          (if n = - 1 then Inl VarIntTooLarge else read_varint_loop (n + 1) is)
        else Inr (n, is))"

definition ReadVarInt :: "u64 reader" where
  "ReadVarInt is = read_varint_loop 0 is"

section \<open>Vectors\<close>

text \<open>A vector of bytes is read in blocks of 5000000.\<close>

function read_blocks :: "nat \<Rightarrow> nat \<Rightarrow> valtype \<Rightarrow> valtype reader" where
  "read_blocks nSize i v is =
     (if i < nSize then
        let blk = min (nSize - i) (1 + 4999999) in
        bindE (stream_read blk is) (\<lambda>(b, is). read_blocks nSize (i + blk) (v @ b) is)
      else Inr (v, is))"
  by pat_completeness auto
termination by (relation "measure (\<lambda>(nSize, i, _, _). nSize - i)") auto

declare read_blocks.simps [simp del]

definition ser_bytes :: "valtype \<Rightarrow> byte list" where
  "ser_bytes v = WriteCompactSize (of_nat (length v)) @ v"

definition unser_bytes :: "valtype reader" where
  "unser_bytes is = bindE (ReadCompactSize is) (\<lambda>(nSize, is). read_blocks (unat nSize) 0 [] is)"

text \<open>Other vectors are read element by element; the batches of the source only limit how much
  is allocated ahead.\<close>

fun read_many :: "'a reader \<Rightarrow> nat \<Rightarrow> 'a list reader" where
  "read_many unser 0 is = Inr ([], is)"
| "read_many unser (Suc n) is =
     bindE (unser is) (\<lambda>(a, is). bindE (read_many unser n is) (\<lambda>(as, is). Inr (a # as, is)))"

definition ser_vector :: "('a \<Rightarrow> byte list) \<Rightarrow> 'a list \<Rightarrow> byte list" where
  "ser_vector ser v = WriteCompactSize (of_nat (length v)) @ concat (map ser v)"

definition unser_vector :: "'a reader \<Rightarrow> 'a list reader" where
  "unser_vector unser is = bindE (ReadCompactSize is) (\<lambda>(nSize, is). read_many unser (unat nSize) is)"

section \<open>The contract of an encoding\<close>

text \<open>
  \<open>ok\<close> are the values the type can hold.  A \<open>decoder\<close> gives back the value that was written and
  leaves the rest of the stream; a \<open>codec\<close> moreover accepts nothing but what the writer writes.
\<close>

locale decoder =
  fixes ser :: "'a \<Rightarrow> byte list" and unser :: "'a reader" and ok :: "'a \<Rightarrow> bool"
  assumes unser_ser: "ok a \<Longrightarrow> unser (ser a @ r) = Inr (a, r)"
begin

lemma prefix_free: "ok a \<Longrightarrow> ok b \<Longrightarrow> ser a @ r = ser b @ r' \<Longrightarrow> a = b \<and> r = r'"
  by (metis Pair_inject sum.inject(2) unser_ser)

lemma unser_ser_nil: "ok a \<Longrightarrow> unser (ser a) = Inr (a, [])"
  using unser_ser [of a "[]"] by simp

lemma read_many_concat:
  "(\<And>a. a \<in> set v \<Longrightarrow> ok a) \<Longrightarrow> read_many unser (length v) (concat (map ser v) @ r) = Inr (v, r)"
  by (induction v) (simp_all add: unser_ser)

end

locale codec = decoder +
  assumes ser_unser: "unser s = Inr (a, r) \<Longrightarrow> ok a \<and> s = ser a @ r"
begin

lemma concat_read_many:
  "read_many unser n s = Inr (v, r) \<Longrightarrow>
   length v = n \<and> (\<forall>a\<in>set v. ok a) \<and> s = concat (map ser v) @ r"
proof (induction n arbitrary: s v)
  case 0
  then show ?case by simp
next
  case (Suc n)
  from Suc.prems obtain a s1 as where a: "unser s = Inr (a, s1)"
    and as: "read_many unser n s1 = Inr (as, r)" and v: "v = a # as"
    by (auto simp: bindE_iffs)
  from Suc.IH [OF as] ser_unser [OF a] v show ?case by simp
qed

end

section \<open>Integers\<close>

lemma stream_read_append: "length b = n \<Longrightarrow> stream_read n (b @ r) = Inr (b, r)"
  by (auto simp: stream_read_def)

lemma stream_read_Inr: "stream_read n s = Inr (b, r) \<longleftrightarrow> length b = n \<and> s = b @ r"
  by (auto simp: stream_read_def)

interpretation u8: codec "\<lambda>a. [a]" ser_readdata8 "\<lambda>_. True"
proof unfold_locales
  fix s a r
  show "ser_readdata8 s = Inr (a, r) \<Longrightarrow> True \<and> s = [a] @ r"
    by (auto simp: ser_readdata8_def bindE_iffs stream_read_Inr length_Suc_conv)
qed (simp add: ser_readdata8_def stream_read_def)

interpretation u16: codec WriteLE16 ser_readdata16 "\<lambda>_. True"
proof unfold_locales
  fix a r
  show "ser_readdata16 (WriteLE16 a @ r) = Inr (a, r)"
    using ReadLE16_WriteLE16 [of a "[]"] by (simp add: ser_readdata16_def stream_read_append)
next
  fix s a r
  show "ser_readdata16 s = Inr (a, r) \<Longrightarrow> True \<and> s = WriteLE16 a @ r"
    by (auto simp: ser_readdata16_def bindE_iffs stream_read_Inr WriteLE_ReadLE)
qed

interpretation u32: codec WriteLE32 ser_readdata32 "\<lambda>_. True"
proof unfold_locales
  fix a r
  show "ser_readdata32 (WriteLE32 a @ r) = Inr (a, r)"
    using ReadLE32_WriteLE32 [of a "[]"] by (simp add: ser_readdata32_def stream_read_append)
next
  fix s a r
  show "ser_readdata32 s = Inr (a, r) \<Longrightarrow> True \<and> s = WriteLE32 a @ r"
    by (auto simp: ser_readdata32_def bindE_iffs stream_read_Inr WriteLE_ReadLE)
qed

interpretation u64: codec WriteLE64 ser_readdata64 "\<lambda>_. True"
proof unfold_locales
  fix a r
  show "ser_readdata64 (WriteLE64 a @ r) = Inr (a, r)"
    using ReadLE64_WriteLE64 [of a "[]"] by (simp add: ser_readdata64_def stream_read_append)
next
  fix s a r
  show "ser_readdata64 s = Inr (a, r) \<Longrightarrow> True \<and> s = WriteLE64 a @ r"
    by (auto simp: ser_readdata64_def bindE_iffs stream_read_Inr WriteLE_ReadLE)
qed

section \<open>Compact sizes\<close>

lemma ucast_inverse:
  fixes n :: u64
  shows "n \<le> 0xff \<Longrightarrow> ucast (ucast n :: byte) = n"
    and "n \<le> 0xffff \<Longrightarrow> ucast (ucast n :: u16) = n"
    and "n \<le> 0xffffffff \<Longrightarrow> ucast (ucast n :: u32) = n"
  by (auto simp: word_unat_eq_iff word_le_nat_alt unat_ucast)

lemma ucast_u64_inverse:
  "ucast (ucast (b :: byte) :: u64) = b" "ucast (ucast (h :: u16) :: u64) = h"
  "ucast (ucast (w :: u32) :: u64) = w"
  using unat_lt2p [of b] unat_lt2p [of h] unat_lt2p [of w] by (simp_all add: word_unat_eq_iff unat_ucast)

lemma ucast_u64_bounds:
  "unat (ucast (b :: byte) :: u64) = unat b" "unat (ucast (h :: u16) :: u64) = unat h"
  "unat (ucast (w :: u32) :: u64) = unat w"
  using unat_lt2p [of b] unat_lt2p [of h] unat_lt2p [of w] by (simp_all add: unat_ucast)

lemma ucast_small:
  fixes n :: u64
  shows "n < 253 \<Longrightarrow> (ucast n :: byte) < 253"
    and "\<not> n < 253 \<Longrightarrow> n \<le> 0xffff \<Longrightarrow> \<not> (ucast n :: u16) < 253"
    and "\<not> n \<le> 0xffff \<Longrightarrow> n \<le> 0xffffffff \<Longrightarrow> \<not> (ucast n :: u32) < 0x10000"
  by (auto simp: word_less_nat_alt word_le_nat_alt unat_ucast)

lemma ReadCompactSize_Write: "unat n \<le> MAX_SIZE \<Longrightarrow> ReadCompactSize (WriteCompactSize n @ r) = Inr (n, r)"
proof -
  assume n: "unat n \<le> MAX_SIZE"
  consider "n < 253" | "\<not> n < 253" "n \<le> 0xffff" | "\<not> n \<le> 0xffff" "n \<le> 0xffffffff" | "\<not> n \<le> 0xffffffff"
    by blast
  then show ?thesis
  proof cases
    case 1
    then have "n \<le> 0xff" by (simp add: word_less_nat_alt word_le_nat_alt)
    then show ?thesis using 1 n u8.unser_ser [of "ucast n" r]
      by (simp add: ReadCompactSize_def WriteCompactSize_def ucast_small ucast_inverse)
  next
    case 2
    then show ?thesis using n u8.unser_ser [of 253] u16.unser_ser [of "ucast n" r]
      by (simp add: ReadCompactSize_def WriteCompactSize_def ucast_small ucast_inverse)
  next
    case 3
    then have "\<not> n < 253" by (simp add: word_less_nat_alt word_le_nat_alt)
    then show ?thesis using 3 n u8.unser_ser [of 254] u32.unser_ser [of "ucast n" r]
      by (simp add: ReadCompactSize_def WriteCompactSize_def ucast_small ucast_inverse)
  next
    case 4
    then have "\<not> n < 253" "\<not> n \<le> 0xffff" "\<not> n < 0x100000000"
      by (simp_all add: word_less_nat_alt word_le_nat_alt)
    then show ?thesis using 4 n u8.unser_ser [of 255] u64.unser_ser [of "n" r]
      by (simp add: ReadCompactSize_def WriteCompactSize_def)
  qed
qed

lemma WriteCompactSize_Read:
  assumes "ReadCompactSize s = Inr (n, r)"
  shows "unat n \<le> MAX_SIZE \<and> s = WriteCompactSize n @ r"
proof -
  from assms obtain c s1 where c: "s = [c] @ s1" and n: "unat n \<le> MAX_SIZE"
    and rd: "(if c < 253 then Inr (ucast c, s1)
       else if c = 253 then
         bindE (ser_readdata16 s1) (\<lambda>(n, is). bindE (guardE (\<not> n < 253) NonCanonicalSize) (\<lambda>_. Inr (ucast n, is)))
       else if c = 254 then
         bindE (ser_readdata32 s1) (\<lambda>(n, is). bindE (guardE (\<not> n < 0x10000) NonCanonicalSize) (\<lambda>_. Inr (ucast n, is)))
       else
         bindE (ser_readdata64 s1) (\<lambda>(n, is). bindE (guardE (\<not> n < 0x100000000) NonCanonicalSize) (\<lambda>_. Inr (n, is))))
       = Inr (n, r)"
    unfolding ReadCompactSize_def by (auto simp: bindE_Inr_iff simp del: bindE_guardE dest!: u8.ser_unser split: prod.splits)
  consider "c < 253" | "c = 253" | "c = 254" | "c = 255"
  proof -
    have "unat c < 256" using unat_lt2p [of c] by simp
    then have "unat c < 253 \<or> unat c = 253 \<or> unat c = 254 \<or> unat c = 255" by arith
    then show ?thesis using that by (auto simp: word_less_nat_alt word_unat_eq_iff)
  qed
  then show ?thesis
  proof cases
    case 1
    then have "n = ucast c" "n < 253" using rd by (auto simp: word_less_nat_alt ucast_u64_bounds)
    with 1 c n rd show ?thesis by (simp add: WriteCompactSize_def ucast_u64_inverse)
  next
    case 2
    with rd obtain m where m: "ser_readdata16 s1 = Inr (m, r)" "\<not> m < 253" "n = ucast m"
      by (auto simp: bindE_Inr_iff split: if_splits)
    then have "\<not> n < 253" "n \<le> 0xffff" using unat_lt2p [of m]
      by (simp_all add: word_less_nat_alt word_le_nat_alt ucast_u64_bounds)
    with 2 c n m u16.ser_unser [OF m(1)] show ?thesis by (simp add: WriteCompactSize_def ucast_u64_inverse)
  next
    case 3
    with rd obtain m where m: "ser_readdata32 s1 = Inr (m, r)" "\<not> m < 0x10000" "n = ucast m"
      by (auto simp: bindE_Inr_iff split: if_splits)
    then have "\<not> n < 253" "\<not> n \<le> 0xffff" "n \<le> 0xffffffff" using unat_lt2p [of m]
      by (simp_all add: word_less_nat_alt word_le_nat_alt ucast_u64_bounds)
    with 3 c n m u32.ser_unser [OF m(1)] show ?thesis by (simp add: WriteCompactSize_def ucast_u64_inverse)
  next
    case 4
    with rd have m: "ser_readdata64 s1 = Inr (n, r)" "\<not> n < 0x100000000"
      by (auto simp: bindE_Inr_iff split: if_splits)
    then have "\<not> n < 253" "\<not> n \<le> 0xffff" "\<not> n \<le> 0xffffffff"
      by (simp_all add: word_less_nat_alt word_le_nat_alt)
    with 4 c n u64.ser_unser [OF m(1)] show ?thesis by (simp add: WriteCompactSize_def)
  qed
qed

interpretation csize: codec WriteCompactSize ReadCompactSize "\<lambda>n. unat n \<le> MAX_SIZE"
  by unfold_locales (fact ReadCompactSize_Write, rule WriteCompactSize_Read)

lemma length_WriteCompactSize: "length (WriteCompactSize n) = GetSizeOfCompactSize n"
  by (simp add: WriteCompactSize_def GetSizeOfCompactSize_def)

section \<open>Vectors\<close>

lemma read_blocks_step:
  assumes "i < nSize"
  obtains blk where "0 < blk" "blk \<le> nSize - i"
    "read_blocks nSize i v s = bindE (stream_read blk s) (\<lambda>(b, s). read_blocks nSize (i + blk) (v @ b) s)"
proof -
  define blk where "blk = min (nSize - i) (1 + 4999999)"
  have "read_blocks nSize i v s = bindE (stream_read blk s) (\<lambda>(b, s). read_blocks nSize (i + blk) (v @ b) s)"
    using assms by (subst read_blocks.simps) (simp only: if_True Let_def blk_def)
  moreover have "0 < blk" "blk \<le> nSize - i" using assms by (simp_all add: blk_def)
  ultimately show ?thesis using that by blast
qed

lemma read_blocks_eq:
  "i \<le> nSize \<Longrightarrow> read_blocks nSize i v s =
   (if nSize - i \<le> length s then Inr (v @ take (nSize - i) s, drop (nSize - i) s) else Inl EndOfData)"
proof (induction "nSize - i" arbitrary: i v s rule: less_induct)
  case less
  show ?case
  proof (cases "i < nSize")
    case True
    then obtain blk where blk: "0 < blk" "blk \<le> nSize - i"
      and step: "read_blocks nSize i v s = bindE (stream_read blk s) (\<lambda>(b, s). read_blocks nSize (i + blk) (v @ b) s)"
      by (rule read_blocks_step)
    have d: "nSize - i = blk + (nSize - (i + blk))" using blk by simp
    show ?thesis
    proof (cases "blk \<le> length s")
      case True
      then have "read_blocks nSize i v s = read_blocks nSize (i + blk) (v @ take blk s) (drop blk s)"
        by (simp add: step stream_read_def)
      also have "\<dots> = (if nSize - (i + blk) \<le> length (drop blk s)
          then Inr ((v @ take blk s) @ take (nSize - (i + blk)) (drop blk s), drop (nSize - (i + blk)) (drop blk s))
          else Inl EndOfData)"
        using blk by (intro less) auto
      finally have "read_blocks nSize i v s = (if nSize - (i + blk) \<le> length s - blk
          then Inr (v @ take (blk + (nSize - (i + blk))) s, drop (blk + (nSize - (i + blk))) s)
          else Inl EndOfData)"
        by (simp only: take_add append_assoc drop_drop length_drop add.commute)
      moreover have "nSize - (i + blk) \<le> length s - blk \<longleftrightarrow> nSize - i \<le> length s" using True blk by linarith
      ultimately show ?thesis unfolding d [symmetric] by simp
    next
      case False
      moreover from False blk have "\<not> nSize - i \<le> length s" by linarith
      ultimately show ?thesis by (simp add: step stream_read_def)
    qed
  next
    case False
    with less.prems have "i = nSize" by simp
    then show ?thesis by (subst read_blocks.simps) simp
  qed
qed

text \<open>Reading in blocks is one read of the whole size.\<close>

lemma read_blocks_stream_read: "read_blocks nSize 0 [] s = stream_read nSize s"
  by (simp add: read_blocks_eq stream_read_def)

lemma unat_of_nat_MAX_SIZE: "n \<le> MAX_SIZE \<Longrightarrow> unat (of_nat n :: u64) = n"
  by (simp add: unat_of_nat MAX_SIZE_def)

interpretation bytes: codec ser_bytes unser_bytes "\<lambda>v. length v \<le> MAX_SIZE"
proof unfold_locales
  fix v r
  show "length v \<le> MAX_SIZE \<Longrightarrow> unser_bytes (ser_bytes v @ r) = Inr (v, r)"
    using csize.unser_ser [of "of_nat (length v)" "v @ r"]
    by (simp add: unser_bytes_def ser_bytes_def unat_of_nat_MAX_SIZE read_blocks_stream_read stream_read_append)
next
  fix s v r
  assume "unser_bytes s = Inr (v, r)"
  then obtain n s1 where n: "ReadCompactSize s = Inr (n, s1)" and v: "stream_read (unat n) s1 = Inr (v, r)"
    by (auto simp: unser_bytes_def bindE_iffs read_blocks_stream_read)
  then show "length v \<le> MAX_SIZE \<and> s = ser_bytes v @ r"
    using csize.ser_unser [OF n] by (auto simp: ser_bytes_def stream_read_Inr)
qed

lemma decoder_vector:
  assumes "decoder ser unser ok"
  shows "decoder (ser_vector ser) (unser_vector unser) (\<lambda>v. length v \<le> MAX_SIZE \<and> (\<forall>a\<in>set v. ok a))"
proof
  fix v r
  assume "length v \<le> MAX_SIZE \<and> (\<forall>a\<in>set v. ok a)"
  then show "unser_vector unser (ser_vector ser v @ r) = Inr (v, r)"
    using csize.unser_ser [of "of_nat (length v)" "concat (map ser v) @ r"]
      decoder.read_many_concat [OF assms, of v r]
    by (simp add: unser_vector_def ser_vector_def unat_of_nat_MAX_SIZE)
qed

lemma codec_vector:
  assumes "codec ser unser ok"
  shows "codec (ser_vector ser) (unser_vector unser) (\<lambda>v. length v \<le> MAX_SIZE \<and> (\<forall>a\<in>set v. ok a))"
proof (intro codec.intro codec_axioms.intro decoder_vector)
  show "decoder ser unser ok" using assms by (rule codec.axioms)
next
  fix s v r
  assume "unser_vector unser s = Inr (v, r)"
  then obtain n s1 where n: "ReadCompactSize s = Inr (n, s1)" and v: "read_many unser (unat n) s1 = Inr (v, r)"
    by (auto simp: unser_vector_def bindE_iffs)
  then show "(length v \<le> MAX_SIZE \<and> (\<forall>a\<in>set v. ok a)) \<and> s = ser_vector ser v @ r"
    using csize.ser_unser [OF n] codec.concat_read_many [OF assms v] by (auto simp: ser_vector_def)
qed

section \<open>Variable-length integers\<close>

text \<open>The bytes already read when the loop holds \<open>a\<close>: every digit but the last is stored minus one.\<close>

definition varint_prefix :: "u64 \<Rightarrow> byte list" where
  "varint_prefix a = (if a = 0 then [] else rev (varint_tmp True (a - 1)))"

lemma drop_bit_7_eq_0_iff: "drop_bit 7 (n :: u64) = 0 \<longleftrightarrow> n \<le> 0x7F"
proof -
  have "unat (drop_bit 7 n) = unat n div 2 ^ 7" unfolding unat_drop_bit_eq by (simp add: drop_bit_eq_div)
  then show ?thesis by (auto simp: unat_eq_zero [symmetric] word_le_nat_alt div_eq_0_iff)
qed

lemma rev_varint_tmp:
  "rev (varint_tmp len n) = varint_prefix (drop_bit 7 n) @ [ucast (n AND 0x7F) OR (if len then 0x80 else 0x00)]"
  by (subst varint_tmp.simps) (simp add: Let_def varint_prefix_def drop_bit_7_eq_0_iff)

lemma varint_masks:
  "(0x7F :: 'a :: len word) = mask 7" "(0x80 :: 'a :: len word) = 2 ^ 7"
  by (simp_all add: mask_eq_exp_minus_1)

lemma varint_bits:
  fixes c d :: byte and n a :: u64
  shows varint_join: "d = 0x80 \<or> d = 0 \<Longrightarrow>
      push_bit 7 (drop_bit 7 n) OR ucast ((ucast (n AND 0x7F) OR d) AND 0x7F :: byte) = n"
    and varint_top: "(ucast (n AND 0x7F) OR 0x80 :: byte) AND 0x80 = 0x80" "(ucast (n AND 0x7F) OR 0 :: byte) AND 0x80 = 0"
    and varint_high: "a \<le> drop_bit 7 (- 1) \<Longrightarrow> drop_bit 7 (push_bit 7 a OR ucast (c AND 0x7F)) = a"
    and varint_low: "ucast ((push_bit 7 a OR ucast (c AND 0x7F)) AND 0x7F) OR (if c AND 0x80 \<noteq> 0 then 0x80 else 0x00) = c"
    and varint_drop: "drop_bit 7 n \<le> drop_bit 7 (- 1)"
proof -
  show "push_bit 7 (drop_bit 7 n) OR ucast ((ucast (n AND 0x7F) OR d) AND 0x7F :: byte) = n"
    if "d = 0x80 \<or> d = 0"
  proof (rule bit_word_eqI)
    fix i :: nat
    assume "i < LENGTH(64)"
    moreover from that have "d = 2 ^ 7 \<or> d = 0" by simp
    ultimately show "bit (push_bit 7 (drop_bit 7 n) OR ucast ((ucast (n AND 0x7F) OR d) AND 0x7F :: byte)) i \<longleftrightarrow> bit n i"
      unfolding varint_masks by (cases "i < 7") (auto simp: bit_simps simp del: power_numeral)
  qed
  show "(ucast (n AND 0x7F) OR 0x80 :: byte) AND 0x80 = 0x80" "(ucast (n AND 0x7F) OR 0 :: byte) AND 0x80 = 0"
    unfolding varint_masks by (rule bit_word_eqI; auto simp: bit_simps simp del: power_numeral)+
  show "drop_bit 7 (push_bit 7 a OR ucast (c AND 0x7F)) = a" if "a \<le> drop_bit 7 (- 1)"
  proof (rule bit_word_eqI)
    fix i :: nat
    assume i: "i < LENGTH(64)"
    have "a < 2 ^ 57" using that by (simp add: word_le_nat_alt word_less_nat_alt mask_eq_exp_minus_1)
    then have "unat (drop_bit 57 a) = 0"
      unfolding unat_drop_bit_eq by (simp add: drop_bit_eq_div word_less_nat_alt)
    then have "take_bit 57 a = a" by (simp add: take_bit_eq_self_iff_drop_bit_eq_0 unat_eq_zero)
    then have "bit a i \<Longrightarrow> i < 57" by (metis bit_take_bit_iff)
    with i show "bit (drop_bit 7 (push_bit 7 a OR ucast (c AND 0x7F))) i \<longleftrightarrow> bit a i"
      unfolding varint_masks by (auto simp: bit_simps)
  qed
  show "ucast ((push_bit 7 a OR ucast (c AND 0x7F)) AND 0x7F) OR (if c AND 0x80 \<noteq> 0 then 0x80 else 0x00) = c"
  proof (rule bit_word_eqI)
    fix i :: nat
    assume i: "i < LENGTH(8)"
    have "c AND 0x80 \<noteq> 0 \<longleftrightarrow> bit c 7" unfolding varint_masks by (simp add: and_exp_eq_0_iff_not_bit del: power_numeral)
    moreover have "i < 7 \<or> i = 7" using i by auto
    ultimately show "bit (ucast ((push_bit 7 a OR ucast (c AND 0x7F)) AND 0x7F) OR (if c AND 0x80 \<noteq> 0 then 0x80 else 0x00) :: byte) i
        \<longleftrightarrow> bit c i"
      unfolding varint_masks by (auto simp: bit_simps simp del: power_numeral)
  qed
  show "drop_bit 7 n \<le> drop_bit 7 (- 1)"
  proof -
    have "unat (drop_bit 7 n) = unat n div 128" unfolding unat_drop_bit_eq by (simp add: drop_bit_eq_div)
    moreover have "unat (drop_bit 7 (- 1 :: u64)) = 2 ^ 57 - 1" by (simp add: mask_eq_exp_minus_1)
    ultimately show ?thesis using unat_lt2p [of n] unfolding word_le_nat_alt by simp
  qed
qed

lemma read_varint_prefix:
  "n \<noteq> - 1 \<Longrightarrow> read_varint_loop 0 (rev (varint_tmp True n) @ s) = read_varint_loop (n + 1) s"
proof (induction "True" n arbitrary: s rule: varint_tmp.induct)
  case (1 n)
  have pre: "read_varint_loop 0 (varint_prefix (drop_bit 7 n) @ t) = read_varint_loop (drop_bit 7 n) t" for t
  proof (cases "n \<le> 0x7F")
    case True
    then have "drop_bit 7 n = 0" by (simp add: drop_bit_7_eq_0_iff)
    then show ?thesis by (simp add: varint_prefix_def)
  next
    case False
    then have "drop_bit 7 n \<noteq> 0" by (simp add: drop_bit_7_eq_0_iff)
    moreover from this have "drop_bit 7 n - 1 \<noteq> - 1" by (simp add: diff_eq_eq)
    ultimately show ?thesis using "1.hyps" [OF refl False, of t] by (simp add: varint_prefix_def)
  qed
  show ?case
    unfolding rev_varint_tmp append_assoc pre append_Cons append_Nil read_varint_loop.simps
    using "1.prems" varint_drop [of n, folded not_less] by (simp add: varint_join varint_top)
qed

lemma read_varint_prefix_digit:
  "read_varint_loop 0 (varint_prefix a @ s) = read_varint_loop a s"
  using read_varint_prefix [of "a - 1" s] by (auto simp: varint_prefix_def diff_eq_eq)

lemma ReadVarInt_Write: "ReadVarInt (WriteVarInt n @ r) = Inr (n, r)"
  unfolding ReadVarInt_def WriteVarInt_def rev_varint_tmp append_assoc read_varint_prefix_digit
    append_Cons append_Nil read_varint_loop.simps
  using varint_drop [of n, folded not_less] varint_join [of 0 n] varint_top(2) [of n] by simp

lemma read_varint_loop_sound:
  "read_varint_loop a s = Inr (n, r) \<Longrightarrow> varint_prefix a @ s = WriteVarInt n @ r"
proof (induction a s rule: read_varint_loop.induct)
  case (2 a c s)
  let ?m = "push_bit 7 a OR ucast (c AND 0x7F)"
  have a: "a \<le> drop_bit 7 (- 1)"
  proof (rule ccontr)
    assume "\<not> a \<le> drop_bit 7 (- 1)"
    then show False using "2.prems" by (simp add: not_le)
  qed
  have m: "rev (varint_tmp (c AND 0x80 \<noteq> 0) ?m) = varint_prefix a @ [c]"
    unfolding rev_varint_tmp varint_high [OF a] varint_low ..
  show ?case
  proof (cases "c AND 0x80 = 0")
    case True
    then have "n = ?m" "r = s" using "2.prems" a by (simp_all add: not_less [symmetric] Let_def)
    then show ?thesis using m True by (simp add: WriteVarInt_def)
  next
    case False
    then have top: "?m \<noteq> - 1" and rd: "read_varint_loop (?m + 1) s = Inr (n, r)"
      using "2.prems" a by (simp_all add: not_less [symmetric] Let_def split: if_splits)
    have "varint_prefix (?m + 1) @ s = WriteVarInt n @ r"
      using "2.IH" [OF _ refl False top rd] a by (simp add: not_less)
    moreover have "varint_prefix (?m + 1) = varint_prefix a @ [c]"
      using m False top by (simp add: varint_prefix_def add_eq_0_iff2)
    ultimately show ?thesis by simp
  qed
qed simp

interpretation varint: codec WriteVarInt ReadVarInt "\<lambda>_. True"
proof unfold_locales
  fix s n r
  show "ReadVarInt s = Inr (n, r) \<Longrightarrow> True \<and> s = WriteVarInt n @ r"
    using read_varint_loop_sound [of 0 s n r] by (simp add: ReadVarInt_def varint_prefix_def)
qed (rule ReadVarInt_Write)

lemma length_varint_tmp: "unat n < 128 ^ k \<Longrightarrow> 0 < k \<Longrightarrow> length (varint_tmp len n) \<le> k"
proof (induction len n arbitrary: k rule: varint_tmp.induct)
  case (1 len n)
  show ?case
  proof (cases "n \<le> 0x7F")
    case False
    have "k \<noteq> 1" using "1.prems" False by (auto simp: word_le_nat_alt)
    then obtain j where k: "k = Suc j" "0 < j" using "1.prems" by (cases k) auto
    have d: "unat (drop_bit 7 n) = unat n div 128" unfolding unat_drop_bit_eq by (simp add: drop_bit_eq_div)
    have "drop_bit 7 n \<noteq> 0" using False by (simp add: drop_bit_7_eq_0_iff)
    then have "unat (drop_bit 7 n - 1) = unat n div 128 - 1" "unat n div 128 \<noteq> 0"
      using d by (simp_all add: unat_minus_one flip: unat_eq_zero)
    then have "unat (drop_bit 7 n - 1) < unat n div 128" by simp
    also have "\<dots> \<le> 128 ^ j" using "1.prems" k by (simp add: less_mult_imp_div_less less_imp_le mult.commute)
    finally have "length (varint_tmp True (drop_bit 7 n - 1)) \<le> j" by (rule "1.IH" [OF refl False _ k(2)])
    then show ?thesis using False k by (subst varint_tmp.simps) (simp add: Let_def)
  qed (use "1.prems" in \<open>subst varint_tmp.simps, simp add: Let_def\<close>)
qed

text \<open>C19: a variable-length integer has exactly one encoding.  The reader accepts a stream and
  returns \<open>n\<close> exactly when the stream starts with the bytes the writer produces for \<open>n\<close>;
  these are at most ten, the size of the writer's buffer, so the buffer is never overrun.\<close>

theorem VarInt_unique:
  "(ReadVarInt s = Inr (n, r) \<longleftrightarrow> s = WriteVarInt n @ r) \<and> length (varint_tmp False n) \<le> (8 * 8 + 6) div 7"
  using varint.ser_unser [of s n r] varint.unser_ser [of n r] length_varint_tmp [of n 10 False] unat_lt2p [of n]
  by auto

text \<open>Compact sizes are canonical.  The reader accepts a stream and returns \<open>n\<close> exactly when
  \<open>n\<close> is at most \<open>MAX_SIZE\<close> and the stream starts with the bytes the writer produces for \<open>n\<close>,
  whose number is what \<open>GetSizeOfCompactSize\<close> says: no second encoding of a size is accepted.\<close>

theorem CompactSize_canonical:
  "(ReadCompactSize s = Inr (n, r) \<longleftrightarrow> unat n \<le> MAX_SIZE \<and> s = WriteCompactSize n @ r) \<and>
   length (WriteCompactSize n) = GetSizeOfCompactSize n"
  using csize.ser_unser [of s n r] csize.unser_ser [of n r] by (auto simp: length_WriteCompactSize)

end
