(* ===== verification/Transaction.thy ===== *)
theory Transaction
  imports Serialize Script
begin

unbundle bit_operations_syntax

text \<open>
  \<open>primitives/transaction.h\<close>, \<open>primitives/transaction.cpp\<close> and \<open>amount.h\<close>: outpoints, inputs,
  outputs and transactions, their two serialisation formats, and the sum of the outputs.  The hash
  function is a parameter.
\<close>

section \<open>Data\<close>

record COutPoint =
  op_hash :: uint256
  op_n :: u32

definition uint256_IsNull :: "uint256 \<Rightarrow> bool" where
  "uint256_IsNull h = list_all (\<lambda>b. b = 0) h"

definition uint256_zero :: uint256 where
  "uint256_zero = replicate 32 0"

definition COutPoint_SetNull :: COutPoint where
  "COutPoint_SetNull = \<lparr>op_hash = uint256_zero, op_n = - 1\<rparr>"

definition COutPoint_IsNull :: "COutPoint \<Rightarrow> bool" where
  "COutPoint_IsNull p = (uint256_IsNull (op_hash p) \<and> op_n p = - 1)"

record CTxIn =
  prevout :: COutPoint
  scriptSig :: CScript
  nSequence :: u32
  scriptWitness :: "valtype list"

definition SEQUENCE_FINAL :: u32 where
  "SEQUENCE_FINAL = 0xffffffff"

type_synonym CAmount = int

record CTxOut =
  nValue :: CAmount
  scriptPubKey :: CScript

definition CTxOut_SetNull :: CTxOut where
  "CTxOut_SetNull = \<lparr>nValue = - 1, scriptPubKey = []\<rparr>"

definition CTxOut_IsNull :: "CTxOut \<Rightarrow> bool" where
  "CTxOut_IsNull out = (nValue out = - 1)"

definition CTxOut_IsEmpty :: "CTxOut \<Rightarrow> bool" where
  "CTxOut_IsEmpty out = (nValue out = 0 \<and> scriptPubKey out = [])"

record CTransaction =
  vin :: "CTxIn list"
  vout :: "CTxOut list"
  nVersion :: int
  nLockTime :: u32

definition IsCoinBase :: "CTransaction \<Rightarrow> bool" where
  "IsCoinBase tx = (length (vin tx) = 1 \<and> COutPoint_IsNull (prevout (vin tx ! 0)) \<and> length (vout tx) \<ge> 1)"

definition IsCoinStake :: "CTransaction \<Rightarrow> bool" where
  "IsCoinStake tx =
     (length (vin tx) > 0 \<and> \<not> COutPoint_IsNull (prevout (vin tx ! 0)) \<and> length (vout tx) \<ge> 2 \<and>
      CTxOut_IsEmpty (vout tx ! 0))"

definition IsNormalTx :: "CTransaction \<Rightarrow> bool" where
  "IsNormalTx tx = (\<not> IsCoinBase tx \<and> \<not> IsCoinStake tx)"

definition HasWitness :: "CTransaction \<Rightarrow> bool" where
  "HasWitness tx = list_ex (\<lambda>txin. scriptWitness txin \<noteq> []) (vin tx)"

definition HasCreateOrCall :: "CTransaction \<Rightarrow> bool" where
  "HasCreateOrCall tx = list_ex (\<lambda>v. HasOpCreate (scriptPubKey v) \<or> HasOpCall (scriptPubKey v)) (vout tx)"

definition tx_HasOpSpend :: "CTransaction \<Rightarrow> bool" where
  "tx_HasOpSpend tx = list_ex (\<lambda>i. HasOpSpend (scriptSig i)) (vin tx)"

definition tx_HasOpCreate :: "CTransaction \<Rightarrow> bool" where
  "tx_HasOpCreate tx = list_ex (\<lambda>v. HasOpCreate (scriptPubKey v)) (vout tx)"

definition tx_HasOpCall :: "CTransaction \<Rightarrow> bool" where
  "tx_HasOpCall tx = list_ex (\<lambda>v. HasOpCall (scriptPubKey v)) (vout tx)"

definition GetCreateOrCall :: "CTransaction \<Rightarrow> nat" where
  "GetCreateOrCall tx = (if tx_HasOpCall tx then 1 else 0) + (if tx_HasOpCreate tx then 2 else 0)"

section \<open>Amounts\<close>

definition COIN :: CAmount where "COIN = 100000000"
definition CENT :: CAmount where "CENT = 1000000"

definition MAX_MONEY :: CAmount where
  "MAX_MONEY = 107822406 * COIN + 25 * CENT"

definition MoneyRange :: "CAmount \<Rightarrow> bool" where
  "MoneyRange v = (v \<ge> 0 \<and> v \<le> MAX_MONEY)"

text \<open>Signed 64-bit addition is undefined on overflow, which is the value \<open>Inl AmountOverflow\<close>.\<close>

datatype amount_error = ValueOutOfRange | AmountOverflow

definition amount_add :: "CAmount \<Rightarrow> CAmount \<Rightarrow> amount_error + CAmount" where
  "amount_add a b = (if - (2 ^ 63) \<le> a + b \<and> a + b < 2 ^ 63 then Inr (a + b) else Inl AmountOverflow)"

fun value_out_loop :: "CAmount \<Rightarrow> CTxOut list \<Rightarrow> amount_error + CAmount" where
  "value_out_loop nValueOut [] = Inr nValueOut"
| "value_out_loop nValueOut (tx_out # outs) =
     bindE (amount_add nValueOut (nValue tx_out)) (\<lambda>nValueOut.
     bindE (guardE (\<not> (\<not> MoneyRange (nValue tx_out) \<or> \<not> MoneyRange nValueOut)) ValueOutOfRange) (\<lambda>_.
     value_out_loop nValueOut outs))"

definition GetValueOut :: "CTransaction \<Rightarrow> amount_error + CAmount" where
  "GetValueOut tx = value_out_loop 0 (vout tx)"

section \<open>Serialisation\<close>

definition ser_i32 :: "int \<Rightarrow> byte list" where
  "ser_i32 v = WriteLE32 (word_of_int v)"

definition unser_i32 :: "int reader" where
  "unser_i32 s = bindE (ser_readdata32 s) (\<lambda>(w, s). Inr (sint w, s))"

definition ser_i64 :: "int \<Rightarrow> byte list" where
  "ser_i64 v = WriteLE64 (word_of_int v)"

definition unser_i64 :: "int reader" where
  "unser_i64 s = bindE (ser_readdata64 s) (\<lambda>(w, s). Inr (sint w, s))"

definition ser_outpoint :: "COutPoint \<Rightarrow> byte list" where
  "ser_outpoint p = op_hash p @ WriteLE32 (op_n p)"

definition unser_outpoint :: "COutPoint reader" where
  "unser_outpoint s =
     bindE (stream_read 32 s) (\<lambda>(h, s).
     bindE (ser_readdata32 s) (\<lambda>(n, s). Inr (\<lparr>op_hash = h, op_n = n\<rparr>, s)))"

definition ser_txin :: "CTxIn \<Rightarrow> byte list" where
  "ser_txin i = ser_outpoint (prevout i) @ ser_bytes (scriptSig i) @ WriteLE32 (nSequence i)"

definition unser_txin :: "CTxIn reader" where
  "unser_txin s =
     bindE (unser_outpoint s) (\<lambda>(p, s).
     bindE (unser_bytes s) (\<lambda>(sc, s).
     bindE (ser_readdata32 s) (\<lambda>(n, s).
     Inr (\<lparr>prevout = p, scriptSig = sc, nSequence = n, scriptWitness = []\<rparr>, s))))"

definition ser_txout :: "CTxOut \<Rightarrow> byte list" where
  "ser_txout out = ser_i64 (nValue out) @ ser_bytes (scriptPubKey out)"

definition unser_txout :: "CTxOut reader" where
  "unser_txout s =
     bindE (unser_i64 s) (\<lambda>(v, s).
     bindE (unser_bytes s) (\<lambda>(sc, s). Inr (\<lparr>nValue = v, scriptPubKey = sc\<rparr>, s)))"

definition ser_witness :: "valtype list \<Rightarrow> byte list" where
  "ser_witness = ser_vector ser_bytes"

definition unser_witness :: "valtype list reader" where
  "unser_witness = unser_vector unser_bytes"

definition SerializeTransaction :: "bool \<Rightarrow> CTransaction \<Rightarrow> byte list" where
  "SerializeTransaction fAllowWitness tx =
     (let flags :: byte = (if fAllowWitness \<and> HasWitness tx then 1 else 0) in
      ser_i32 (nVersion tx) @
      (if flags \<noteq> 0 then ser_vector ser_txin [] @ [flags] else []) @
      ser_vector ser_txin (vin tx) @
      ser_vector ser_txout (vout tx) @
      (if flags AND 1 \<noteq> 0 then concat (map (\<lambda>i. ser_witness (scriptWitness i)) (vin tx)) else []) @
      WriteLE32 (nLockTime tx))"

fun read_witnesses :: "CTxIn list \<Rightarrow> CTxIn list reader" where
  "read_witnesses [] s = Inr ([], s)"
| "read_witnesses (i # is) s =
     bindE (unser_witness s) (\<lambda>(w, s).
     bindE (read_witnesses is s) (\<lambda>(is, s). Inr (i\<lparr>scriptWitness := w\<rparr> # is, s)))"

text \<open>The inputs and outputs, after the flag byte where there is one; the witnesses the flags announce.\<close>

definition unser_ins_outs :: "bool \<Rightarrow> (byte \<times> CTxIn list \<times> CTxOut list) reader" where
  "unser_ins_outs fAllowWitness s =
     bindE (unser_vector unser_txin s) (\<lambda>(ins, s).
     if length ins = 0 \<and> fAllowWitness then
       bindE (ser_readdata8 s) (\<lambda>(flags, s).
       if flags \<noteq> 0 then
         bindE (unser_vector unser_txin s) (\<lambda>(ins, s).
         bindE (unser_vector unser_txout s) (\<lambda>(outs, s). Inr ((flags, ins, outs), s)))
       else Inr ((flags, ins, []), s))
     else bindE (unser_vector unser_txout s) (\<lambda>(outs, s). Inr ((0, ins, outs), s)))"

definition unser_witnesses :: "bool \<Rightarrow> byte \<Rightarrow> CTxIn list \<Rightarrow> (byte \<times> CTxIn list) reader" where
  "unser_witnesses fAllowWitness flags ins s =
     (if flags AND 1 \<noteq> 0 \<and> fAllowWitness then
        bindE (read_witnesses ins s) (\<lambda>(ins, s). Inr ((flags XOR 1, ins), s))
      else Inr ((flags, ins), s))"

definition UnserializeTransaction :: "bool \<Rightarrow> CTransaction reader" where
  "UnserializeTransaction fAllowWitness s =
     bindE (unser_i32 s) (\<lambda>(ver, s).
     bindE (unser_ins_outs fAllowWitness s) (\<lambda>((flags, ins, outs), s).
     bindE (unser_witnesses fAllowWitness flags ins s) (\<lambda>((flags, ins), s).
     bindE (guardE (flags = 0) UnknownTxData) (\<lambda>_.
     bindE (ser_readdata32 s) (\<lambda>(lt, s).
     Inr (\<lparr>vin = ins, vout = outs, nVersion = ver, nLockTime = lt\<rparr>, s))))))"

definition ComputeHash :: "(byte list \<Rightarrow> uint256) \<Rightarrow> CTransaction \<Rightarrow> uint256" where
  "ComputeHash H tx = H (SerializeTransaction False tx)"

definition ComputeWitnessHash :: "(byte list \<Rightarrow> uint256) \<Rightarrow> CTransaction \<Rightarrow> uint256" where
  "ComputeWitnessHash H tx = (if \<not> HasWitness tx then ComputeHash H tx else H (SerializeTransaction True tx))"

definition GetTotalSize :: "CTransaction \<Rightarrow> nat" where
  "GetTotalSize tx = length (SerializeTransaction True tx)"

section \<open>Encodings are codecs\<close>

interpretation si32: codec ser_i32 unser_i32 "\<lambda>v. - (2 ^ 31) \<le> v \<and> v < 2 ^ 31"
proof unfold_locales
  fix v :: int and r
  assume "- (2 ^ 31) \<le> v \<and> v < 2 ^ 31"
  then have "sint (word_of_int v :: u32) = v" by (simp add: sint_sbintrunc' signed_take_bit_int_eq_self)
  then show "unser_i32 (ser_i32 v @ r) = Inr (v, r)"
    by (simp add: unser_i32_def ser_i32_def u32.unser_ser)
next
  fix s v r
  assume "unser_i32 s = Inr (v, r)"
  then obtain w where "ser_readdata32 s = Inr (w, r)" "v = sint w" by (auto simp: unser_i32_def bindE_iffs)
  then show "(- (2 ^ 31) \<le> v \<and> v < 2 ^ 31) \<and> s = ser_i32 v @ r"
    using u32.ser_unser [of s w r] sint_ge [of w] sint_lt [of w] by (auto simp: ser_i32_def)
qed

interpretation si64: codec ser_i64 unser_i64 "\<lambda>v. - (2 ^ 63) \<le> v \<and> v < 2 ^ 63"
proof unfold_locales
  fix v :: int and r
  assume "- (2 ^ 63) \<le> v \<and> v < 2 ^ 63"
  then have "sint (word_of_int v :: u64) = v" by (simp add: sint_sbintrunc' signed_take_bit_int_eq_self)
  then show "unser_i64 (ser_i64 v @ r) = Inr (v, r)"
    by (simp add: unser_i64_def ser_i64_def u64.unser_ser)
next
  fix s v r
  assume "unser_i64 s = Inr (v, r)"
  then obtain w where "ser_readdata64 s = Inr (w, r)" "v = sint w" by (auto simp: unser_i64_def bindE_iffs)
  then show "(- (2 ^ 63) \<le> v \<and> v < 2 ^ 63) \<and> s = ser_i64 v @ r"
    using u64.ser_unser [of s w r] sint_ge [of w] sint_lt [of w] by (auto simp: ser_i64_def)
qed

definition ok_outpoint :: "COutPoint \<Rightarrow> bool" where
  "ok_outpoint p = (length (op_hash p) = 32)"

definition ok_txin :: "CTxIn \<Rightarrow> bool" where
  "ok_txin i = (ok_outpoint (prevout i) \<and> length (scriptSig i) \<le> MAX_SIZE)"

definition ok_txout :: "CTxOut \<Rightarrow> bool" where
  "ok_txout out = (- (2 ^ 63) \<le> nValue out \<and> nValue out < 2 ^ 63 \<and> length (scriptPubKey out) \<le> MAX_SIZE)"

definition ok_witness :: "valtype list \<Rightarrow> bool" where
  "ok_witness w = (length w \<le> MAX_SIZE \<and> (\<forall>v\<in>set w. length v \<le> MAX_SIZE))"

lemma stream_read_hash: "length h = 32 \<Longrightarrow> stream_read 32 (h @ r) = Inr (h, r)"
  by (rule stream_read_append)

interpretation outpoint: codec ser_outpoint unser_outpoint ok_outpoint
proof unfold_locales
  show "ok_outpoint p \<Longrightarrow> unser_outpoint (ser_outpoint p @ r) = Inr (p, r)" for p r
    by (simp add: unser_outpoint_def ser_outpoint_def ok_outpoint_def stream_read_hash u32.unser_ser)
  show "unser_outpoint s = Inr (p, r) \<Longrightarrow> ok_outpoint p \<and> s = ser_outpoint p @ r" for s p r
    by (auto simp: unser_outpoint_def ser_outpoint_def ok_outpoint_def bindE_iffs stream_read_Inr dest!: u32.ser_unser)
qed

interpretation txin: codec ser_txin unser_txin "\<lambda>i. ok_txin i \<and> scriptWitness i = []"
proof unfold_locales
  show "ok_txin i \<and> scriptWitness i = [] \<Longrightarrow> unser_txin (ser_txin i @ r) = Inr (i, r)" for i r
    by (simp add: unser_txin_def ser_txin_def ok_txin_def u32.unser_ser outpoint.unser_ser bytes.unser_ser)
  show "unser_txin s = Inr (i, r) \<Longrightarrow> (ok_txin i \<and> scriptWitness i = []) \<and> s = ser_txin i @ r" for s i r
    by (auto simp: unser_txin_def ser_txin_def ok_txin_def bindE_iffs
        dest!: u32.ser_unser outpoint.ser_unser bytes.ser_unser)
qed

interpretation txout: codec ser_txout unser_txout ok_txout
proof unfold_locales
  show "ok_txout p \<Longrightarrow> unser_txout (ser_txout p @ r) = Inr (p, r)" for p r
    by (simp add: unser_txout_def ser_txout_def ok_txout_def si64.unser_ser bytes.unser_ser)
  show "unser_txout s = Inr (p, r) \<Longrightarrow> ok_txout p \<and> s = ser_txout p @ r" for s p r
    by (auto simp: unser_txout_def ser_txout_def ok_txout_def bindE_iffs dest!: si64.ser_unser bytes.ser_unser)
qed

interpretation witness: codec ser_witness unser_witness ok_witness
  using codec_vector [OF bytes.codec_axioms]
  unfolding ser_witness_def unser_witness_def ok_witness_def [abs_def] .

interpretation ins: codec "ser_vector ser_txin" "unser_vector unser_txin"
    "\<lambda>v. length v \<le> MAX_SIZE \<and> (\<forall>i\<in>set v. ok_txin i \<and> scriptWitness i = [])"
  by (rule codec_vector) (rule txin.codec_axioms)

interpretation outs: codec "ser_vector ser_txout" "unser_vector unser_txout"
    "\<lambda>v. length v \<le> MAX_SIZE \<and> (\<forall>out\<in>set v. ok_txout out)"
  by (rule codec_vector) (rule txout.codec_axioms)

section \<open>Transactions\<close>

definition strip_txin :: "CTxIn \<Rightarrow> CTxIn" where
  "strip_txin i = i\<lparr>scriptWitness := []\<rparr>"

definition strip_witness :: "CTransaction \<Rightarrow> CTransaction" where
  "strip_witness tx = tx\<lparr>vin := map strip_txin (vin tx)\<rparr>"

definition wf_tx :: "CTransaction \<Rightarrow> bool" where
  "wf_tx tx = (- (2 ^ 31) \<le> nVersion tx \<and> nVersion tx < 2 ^ 31 \<and>
     length (vin tx) \<le> MAX_SIZE \<and> (\<forall>i\<in>set (vin tx). ok_txin i \<and> ok_witness (scriptWitness i)) \<and>
     length (vout tx) \<le> MAX_SIZE \<and> (\<forall>out\<in>set (vout tx). ok_txout out))"

lemma strip_txin_simps [simp]:
  "scriptWitness (strip_txin i) = []" "ok_txin (strip_txin i) = ok_txin i" "ser_txin (strip_txin i) = ser_txin i"
  by (simp_all add: strip_txin_def ok_txin_def ser_txin_def)

lemma strip_txin_restore [simp]: "(strip_txin i)\<lparr>scriptWitness := scriptWitness i\<rparr> = i"
  by (simp add: strip_txin_def)

lemma strip_txin_id: "scriptWitness i = [] \<Longrightarrow> strip_txin i = i"
  by (simp add: strip_txin_def)

lemma ser_ins_strip: "ser_vector ser_txin (map strip_txin is) = ser_vector ser_txin is"
  by (simp add: ser_vector_def comp_def)

lemma unser_ins_strip:
  "length is \<le> MAX_SIZE \<Longrightarrow> (\<forall>i\<in>set is. ok_txin i) \<Longrightarrow>
   unser_vector unser_txin (ser_vector ser_txin is @ r) = Inr (map strip_txin is, r)"
  using ins.unser_ser [of "map strip_txin is" r] by (simp add: ser_ins_strip)

lemma read_witnesses_concat:
  "(\<forall>i\<in>set is. ok_witness (scriptWitness i)) \<Longrightarrow>
   read_witnesses (map strip_txin is) (concat (map (\<lambda>i. ser_witness (scriptWitness i)) is) @ r) = Inr (is, r)"
  by (induction "is") (simp_all add: witness.unser_ser)

lemma concat_read_witnesses:
  "read_witnesses is s = Inr (is', r) \<Longrightarrow> (\<forall>i\<in>set is. scriptWitness i = []) \<Longrightarrow>
   map strip_txin is' = is \<and> (\<forall>i\<in>set is'. ok_witness (scriptWitness i)) \<and>
   s = concat (map (\<lambda>i. ser_witness (scriptWitness i)) is') @ r"
proof (induction "is" arbitrary: s is')
  case (Cons i "is")
  from Cons.prems obtain w s1 is1 where w: "unser_witness s = Inr (w, s1)"
    and is1: "read_witnesses is s1 = Inr (is1, r)" and is': "is' = i\<lparr>scriptWitness := w\<rparr> # is1"
    by (auto simp: bindE_iffs)
  from Cons.IH [OF is1] Cons.prems(2) witness.ser_unser [OF w] show ?case
    by (auto simp: is' strip_txin_def)
qed simp

lemma not_HasWitness_strip: "\<not> HasWitness tx \<longleftrightarrow> map strip_txin (vin tx) = vin tx"
proof
  assume "map strip_txin (vin tx) = vin tx"
  then have "\<forall>i\<in>set (vin tx). strip_txin i = i" by (metis in_set_conv_nth nth_map)
  then show "\<not> HasWitness tx" by (auto simp: HasWitness_def list_ex_iff) (metis strip_txin_simps(1))
qed (auto simp: HasWitness_def list_ex_iff intro!: map_idI strip_txin_id)

text \<open>The bytes of the two formats, without the decision which of them is used.\<close>

definition tx_basic :: "CTransaction \<Rightarrow> byte list" where
  "tx_basic tx = ser_i32 (nVersion tx) @ ser_vector ser_txin (vin tx) @ ser_vector ser_txout (vout tx) @
     WriteLE32 (nLockTime tx)"

definition tx_extended :: "CTransaction \<Rightarrow> byte list" where
  "tx_extended tx = ser_i32 (nVersion tx) @ ser_vector ser_txin [] @ [1] @ ser_vector ser_txin (vin tx) @
     ser_vector ser_txout (vout tx) @ concat (map (\<lambda>i. ser_witness (scriptWitness i)) (vin tx)) @
     WriteLE32 (nLockTime tx)"

lemma SerializeTransaction_format:
  "SerializeTransaction fAllowWitness tx =
     (if fAllowWitness \<and> HasWitness tx then tx_extended tx else tx_basic tx)"
  by (simp add: SerializeTransaction_def tx_extended_def tx_basic_def)

lemma unser_vector_nil: "unser_vector unser (WriteCompactSize 0 @ r) = Inr ([], r)"
  using csize.unser_ser [of 0 r] by (simp add: unser_vector_def)

lemma ser_vector_nil: "ser_vector ser [] = [0]"
  by (simp add: ser_vector_def WriteCompactSize_def)

lemma unser_extended:
  assumes "wf_tx tx"
  shows "UnserializeTransaction True (tx_extended tx @ r) = Inr (tx, r)"
proof -
  have dummy: "unser_vector unser_txin (ser_vector ser_txin [] @ t) = Inr ([], t)" for t
    using ins.unser_ser [of "[]" t] by simp
  show ?thesis
    using assms
    unfolding UnserializeTransaction_def unser_ins_outs_def unser_witnesses_def tx_extended_def wf_tx_def append_assoc
    by (simp add: si32.unser_ser dummy u8.unser_ser [simplified] unser_ins_strip outs.unser_ser
        read_witnesses_concat u32.unser_ser)
qed

lemma unser_basic:
  assumes "wf_tx tx" and "fAllowWitness \<Longrightarrow> vin tx \<noteq> [] \<or> vout tx = []"
  shows "UnserializeTransaction fAllowWitness (tx_basic tx @ r) = Inr (strip_witness tx, r)"
proof (cases "vin tx = [] \<and> fAllowWitness")
  case True
  then have "vout tx = []" using assms(2) by simp
  moreover have "unser_vector unser_txin (0 # t) = Inr ([], t)" for t
    using unser_vector_nil [of unser_txin t] by (simp add: WriteCompactSize_def)
  ultimately show ?thesis using True assms(1)
    unfolding UnserializeTransaction_def unser_ins_outs_def unser_witnesses_def tx_basic_def wf_tx_def append_assoc
    by (simp add: si32.unser_ser ser_vector_nil u8.unser_ser [simplified] u32.unser_ser strip_witness_def)
next
  case False
  then show ?thesis using assms(1)
    unfolding UnserializeTransaction_def unser_ins_outs_def unser_witnesses_def tx_basic_def wf_tx_def append_assoc
    by (auto simp: si32.unser_ser unser_ins_strip outs.unser_ser u32.unser_ser strip_witness_def)
qed

lemma strip_witness_id: "\<not> HasWitness tx \<Longrightarrow> strip_witness tx = tx"
  by (simp add: strip_witness_def not_HasWitness_strip)

lemma Unserialize_Serialize:
  assumes "wf_tx tx" and "fAllowWitness \<Longrightarrow> vin tx \<noteq> [] \<or> vout tx = []"
  shows "UnserializeTransaction fAllowWitness (SerializeTransaction fAllowWitness tx @ r) =
    Inr (if fAllowWitness then tx else strip_witness tx, r)"
  using assms unser_extended [of tx r] unser_basic [of tx fAllowWitness r]
  by (auto simp: SerializeTransaction_format strip_witness_id)

lemma unser_cases:
  assumes "UnserializeTransaction fAllowWitness s = Inr (tx, r)"
  shows "wf_tx tx \<and> (s = tx_basic tx @ r \<and> \<not> HasWitness tx \<or> fAllowWitness \<and> s = tx_extended tx @ r)"
proof -
  from assms obtain ver s1 flags is1 outs s3 is2 s4 lt where
    ver: "unser_i32 s = Inr (ver, s1)" and body: "unser_ins_outs fAllowWitness s1 = Inr ((flags, is1, outs), s3)" and
    wits: "unser_witnesses fAllowWitness flags is1 s3 = Inr ((0, is2), s4)" and
    lt: "ser_readdata32 s4 = Inr (lt, r)" and
    tx: "tx = \<lparr>vin = is2, vout = outs, nVersion = ver, nLockTime = lt\<rparr>"
    by (auto simp: UnserializeTransaction_def bindE_iffs split: if_splits)
  from body obtain is0 s2 where is0: "unser_vector unser_txin s1 = Inr (is0, s2)"
    and body: "(if is0 = [] \<and> fAllowWitness then
       bindE (ser_readdata8 s2) (\<lambda>(flags, s).
       if flags \<noteq> 0 then
         bindE (unser_vector unser_txin s) (\<lambda>(ins, s).
         bindE (unser_vector unser_txout s) (\<lambda>(outs, s). Inr ((flags, ins, outs), s)))
       else Inr ((flags, is0, []), s))
     else bindE (unser_vector unser_txout s2) (\<lambda>(outs, s). Inr ((0, is0, outs), s))) = Inr ((flags, is1, outs), s3)"
    by (auto simp: unser_ins_outs_def bindE_Inr_iff [of "unser_vector unser_txin s1"])
  note ver = si32.ser_unser [OF ver] and is0 = ins.ser_unser [OF is0] and lt = u32.ser_unser [OF lt]
  show ?thesis
  proof (cases "is0 = [] \<and> fAllowWitness")
    case True
    with body obtain f t where f: "s2 = [f] @ t"
      and rest: "(if f \<noteq> 0 then
                bindE (unser_vector unser_txin t) (\<lambda>(ins, s).
                bindE (unser_vector unser_txout s) (\<lambda>(outs, s). Inr ((f, ins, outs), s)))
              else Inr ((f, is0, []), t)) = Inr ((flags, is1, outs), s3)"
      by (auto simp: bindE_Inr_iff [of "ser_readdata8 s2"] dest!: u8.ser_unser)
    show ?thesis
    proof (cases "f = 0")
      case False
      with rest obtain t1 where is1: "unser_vector unser_txin t = Inr (is1, t1)"
        and outs: "unser_vector unser_txout t1 = Inr (outs, s3)" and ff: "f = flags"
        by (auto simp: bindE_Inr_iff)
      from False ff wits True have "flags AND 1 \<noteq> 0" by (auto simp: unser_witnesses_def split: if_splits)
      with wits True obtain w: "read_witnesses is1 s3 = Inr (is2, s4)" and f1: "flags XOR 1 = 0"
        by (auto simp: unser_witnesses_def bindE_Inr_iff)
      from f1 have f1: "flags = 1" by (metis xor.right_neutral xor_self_eq xor.assoc xor.left_neutral)
      from ins.ser_unser [OF is1] have "\<forall>i\<in>set is1. scriptWitness i = []" by simp
      with concat_read_witnesses [OF w]
      have w: "is1 = map strip_txin is2" "\<forall>i\<in>set is2. ok_witness (scriptWitness i)"
        "s3 = concat (map (\<lambda>i. ser_witness (scriptWitness i)) is2) @ s4" by simp_all
      have "s = tx_extended tx @ r"
        using ver is0 True f ff f1 ins.ser_unser [OF is1] outs.ser_unser [OF outs] lt w
        by (simp add: tx tx_extended_def ser_ins_strip)
      then show ?thesis
        using ver True ins.ser_unser [OF is1] outs.ser_unser [OF outs] w by (simp add: tx wf_tx_def)
    next
      case f0: True
      with rest True wits have "flags = 0" "is2 = []" "outs = []" "s4 = t" by (auto simp: unser_witnesses_def)
      then show ?thesis using ver is0 True f f0 lt
        by (simp add: tx wf_tx_def tx_basic_def HasWitness_def ser_vector_nil MAX_SIZE_def)
    qed
  next
    case False
    with body have outs: "unser_vector unser_txout s2 = Inr (outs, s3)" and "flags = 0" "is1 = is0"
      by (auto simp: bindE_Inr_iff split: if_splits)
    with wits have "is2 = is0" "s4 = s3" by (auto simp: unser_witnesses_def)
    then show ?thesis using ver is0 lt outs.ser_unser [OF outs]
      by (auto simp: tx wf_tx_def tx_basic_def HasWitness_def list_ex_iff ok_witness_def)
  qed
qed

section \<open>Properties\<close>

text \<open>C27: reading back a serialised transaction gives the transaction, with the rest of the stream
  untouched: with all witnesses in the extended format, and with the witnesses removed in the
  basic format.  An empty input list is ambiguous in a stream with witnesses, and there only a
  transaction with neither inputs nor outputs survives.\<close>

theorem UnserializeTransaction_Serialize:
  assumes "wf_tx tx" and "fAllowWitness \<longrightarrow> vin tx \<noteq> [] \<or> vout tx = []"
  shows "UnserializeTransaction fAllowWitness (SerializeTransaction fAllowWitness tx @ r) =
    Inr (if fAllowWitness then tx else strip_witness tx, r)"
  using Unserialize_Serialize assms by blast

definition sample_txin :: CTxIn where
  "sample_txin = \<lparr>prevout = \<lparr>op_hash = replicate 32 7, op_n = 1\<rparr>, scriptSig = [0x51], nSequence = 5,
     scriptWitness = [[1, 2], []]\<rparr>"

definition sample_tx :: CTransaction where
  "sample_tx = \<lparr>vin = [sample_txin], vout = [\<lparr>nValue = 50, scriptPubKey = [0x51]\<rparr>], nVersion = 2,
     nLockTime = 9\<rparr>"

lemma wf_sample_tx: "wf_tx sample_tx"
  by (simp add: wf_tx_def sample_tx_def sample_txin_def ok_txin_def ok_outpoint_def ok_txout_def ok_witness_def MAX_SIZE_def)

theorem UnserializeTransaction_Serialize_witness:
  "wf_tx sample_tx \<and> vin sample_tx \<noteq> [] \<and>
   UnserializeTransaction True (SerializeTransaction True sample_tx @ [1]) = Inr (sample_tx, [1])"
  using UnserializeTransaction_Serialize [of sample_tx True "[1]"] wf_sample_tx
  by (simp add: sample_tx_def)

text \<open>C28: what the reader accepts.  An accepted stream yields a well-formed transaction and is the
  serialisation of that transaction followed by the rest, with one exception: a stream in the
  extended format whose witnesses are all empty, which is not the serialisation of any
  transaction and is written back in the basic format.\<close>

theorem UnserializeTransaction_accepts:
  assumes "UnserializeTransaction fAllowWitness s = Inr (tx, r)"
  shows "wf_tx tx \<and> (s = SerializeTransaction fAllowWitness tx @ r \<or>
    (fAllowWitness \<and> \<not> HasWitness tx \<and> s = tx_extended tx @ r))"
  using unser_cases [OF assms] by (auto simp: SerializeTransaction_format)

definition sample_bare_tx :: CTransaction where
  "sample_bare_tx = strip_witness sample_tx"

lemma wf_sample_bare_tx: "wf_tx sample_bare_tx"
  by (simp add: sample_bare_tx_def strip_witness_def wf_tx_def sample_tx_def sample_txin_def strip_txin_def ok_txin_def ok_outpoint_def ok_txout_def
      ok_witness_def MAX_SIZE_def)

theorem UnserializeTransaction_accepts_witness:
  "UnserializeTransaction True (tx_extended sample_bare_tx) = Inr (sample_bare_tx, []) \<and>
   tx_extended sample_bare_tx \<noteq> SerializeTransaction True sample_bare_tx \<and>
   \<not> HasWitness sample_bare_tx"
proof -
  have rd: "UnserializeTransaction True (tx_extended sample_bare_tx) = Inr (sample_bare_tx, [])"
    using unser_extended [OF wf_sample_bare_tx, of "[]"] by simp
  have hw: "\<not> HasWitness sample_bare_tx"
    by (simp add: HasWitness_def sample_bare_tx_def strip_witness_def sample_tx_def)
  then have "SerializeTransaction True sample_bare_tx = tx_basic sample_bare_tx"
    by (simp add: SerializeTransaction_format)
  also have "length \<dots> < length (tx_extended sample_bare_tx)"
    by (simp add: tx_basic_def tx_extended_def)
  finally have "tx_extended sample_bare_tx \<noteq> SerializeTransaction True sample_bare_tx" by auto
  with rd hw UnserializeTransaction_accepts [OF rd] show ?thesis by simp
qed

lemma tx_basic_inj:
  assumes "wf_tx tx" "wf_tx tx'" "tx_basic tx = tx_basic tx'"
  shows "strip_witness tx = strip_witness tx'"
  using unser_basic [OF assms(1), of False "[]"] unser_basic [OF assms(2), of False "[]"] assms(3) by simp

text \<open>The transaction id commits to everything but the witnesses, and the witness id to
  everything: two well-formed transactions with the same id agree up to their witnesses unless
  their serialisations are a collision of the hash function, and two with the same witness id that
  both carry witnesses are equal unless there is a collision.\<close>

theorem ComputeHash_commits:
  assumes "wf_tx tx" and "wf_tx tx'"
  shows "(ComputeHash H tx = ComputeHash H tx' \<longrightarrow> strip_witness tx = strip_witness tx' \<or>
      SerializeTransaction False tx \<noteq> SerializeTransaction False tx' \<and>
      H (SerializeTransaction False tx) = H (SerializeTransaction False tx')) \<and>
    (ComputeWitnessHash H tx = ComputeWitnessHash H tx' \<longrightarrow> HasWitness tx \<longrightarrow> HasWitness tx' \<longrightarrow> tx = tx' \<or>
      SerializeTransaction True tx \<noteq> SerializeTransaction True tx' \<and>
      H (SerializeTransaction True tx) = H (SerializeTransaction True tx'))"
proof (intro conjI impI)
  assume "ComputeHash H tx = ComputeHash H tx'"
  then show "strip_witness tx = strip_witness tx' \<or> SerializeTransaction False tx \<noteq> SerializeTransaction False tx' \<and>
      H (SerializeTransaction False tx) = H (SerializeTransaction False tx')"
    using tx_basic_inj [OF assms] by (auto simp: ComputeHash_def SerializeTransaction_format)
next
  assume "ComputeWitnessHash H tx = ComputeWitnessHash H tx'" and w: "HasWitness tx" "HasWitness tx'"
  then show "tx = tx' \<or> SerializeTransaction True tx \<noteq> SerializeTransaction True tx' \<and>
      H (SerializeTransaction True tx) = H (SerializeTransaction True tx')"
    using unser_extended [OF assms(1), of "[]"] unser_extended [OF assms(2), of "[]"]
    by (auto simp: ComputeWitnessHash_def SerializeTransaction_format)
qed

theorem ComputeHash_commits_witness:
  "wf_tx sample_tx \<and> wf_tx sample_bare_tx \<and>
   ComputeHash (\<lambda>b. b) sample_tx = ComputeHash (\<lambda>b. b) sample_bare_tx \<and>
   strip_witness sample_tx = strip_witness sample_bare_tx"
proof -
  have "ComputeHash (\<lambda>b. b) sample_tx = ComputeHash (\<lambda>b. b) sample_bare_tx"
    by (simp add: ComputeHash_def SerializeTransaction_format tx_basic_def sample_bare_tx_def strip_witness_def ser_ins_strip)
  then show ?thesis
    using ComputeHash_commits [OF wf_sample_tx wf_sample_bare_tx, of "\<lambda>b. b"] wf_sample_tx wf_sample_bare_tx by blast
qed

section \<open>Sums of outputs\<close>

lemma value_out_loop_sum:
  "MoneyRange a \<Longrightarrow> \<forall>out\<in>set outs. MoneyRange (nValue out) \<Longrightarrow> MoneyRange (a + sum_list (map nValue outs)) \<Longrightarrow>
   value_out_loop a outs = Inr (a + sum_list (map nValue outs))"
proof (induction outs arbitrary: a)
  case (Cons out outs)
  have nn: "0 \<le> sum_list (map nValue outs)" using Cons.prems by (auto intro!: sum_list_nonneg simp: MoneyRange_def)
  then have "MoneyRange (a + nValue out)" using Cons.prems by (auto simp: MoneyRange_def)
  moreover from this have "amount_add a (nValue out) = Inr (a + nValue out)"
    by (simp add: amount_add_def MoneyRange_def MAX_MONEY_def COIN_def CENT_def)
  ultimately show ?case using Cons by (simp add: add.assoc)
qed simp

lemma value_out_loop_Inr:
  "value_out_loop a outs = Inr v \<Longrightarrow> MoneyRange a \<Longrightarrow>
   v = a + sum_list (map nValue outs) \<and> MoneyRange v \<and> (\<forall>out\<in>set outs. MoneyRange (nValue out))"
proof (induction outs arbitrary: a)
  case (Cons out outs)
  from Cons.prems have "value_out_loop (a + nValue out) outs = Inr v" "MoneyRange (a + nValue out)"
    "MoneyRange (nValue out)"
    by (auto simp: bindE_iffs amount_add_def split: if_splits)
  with Cons.IH [of "a + nValue out"] show ?case by auto
qed simp

lemma value_out_loop_no_overflow:
  "MoneyRange a \<Longrightarrow> \<forall>out\<in>set outs. nValue out < 2 ^ 63 - MAX_MONEY \<and> - (2 ^ 63) \<le> nValue out \<Longrightarrow>
   value_out_loop a outs \<noteq> Inl AmountOverflow"
proof (induction outs arbitrary: a)
  case (Cons out outs)
  then show ?case by (auto simp: bindE_iffs amount_add_def MoneyRange_def split: if_splits)
qed simp

end
