(* ===== verification/Block.thy ===== *)
theory Block
  imports Transaction
begin

text \<open>
  \<open>primitives/block.h\<close> and \<open>primitives/block.cpp\<close>: block headers, blocks and block locators, their
  serialisation and hashes.
\<close>

section \<open>Headers and blocks\<close>

record CBlockHeader =
  hdr_nVersion :: int
  hdr_hashPrevBlock :: uint256
  hdr_hashMerkleRoot :: uint256
  hdr_nTime :: u32
  hdr_nBits :: u32
  hdr_nNonce :: u32
  hdr_hashStateRoot :: uint256
  hdr_hashUTXORoot :: uint256
  hdr_prevoutStake :: COutPoint
  hdr_vchBlockSig :: valtype

definition CBlockHeader_SetNull :: CBlockHeader where
  "CBlockHeader_SetNull =
     \<lparr>hdr_nVersion = 0, hdr_hashPrevBlock = uint256_zero, hdr_hashMerkleRoot = uint256_zero, hdr_nTime = 0,
      hdr_nBits = 0, hdr_nNonce = 0, hdr_hashStateRoot = uint256_zero, hdr_hashUTXORoot = uint256_zero,
      hdr_prevoutStake = COutPoint_SetNull, hdr_vchBlockSig = []\<rparr>"

definition CBlockHeader_IsNull :: "CBlockHeader \<Rightarrow> bool" where
  "CBlockHeader_IsNull h = (hdr_nBits h = 0)"

definition hdr_GetBlockTime :: "'a CBlockHeader_scheme \<Rightarrow> int" where
  "hdr_GetBlockTime h = uint (hdr_nTime h)"

definition hdr_IsProofOfStake :: "'a CBlockHeader_scheme \<Rightarrow> bool" where
  "hdr_IsProofOfStake h = (\<not> COutPoint_IsNull (hdr_prevoutStake h))"

definition hdr_IsProofOfWork :: "'a CBlockHeader_scheme \<Rightarrow> bool" where
  "hdr_IsProofOfWork h = (\<not> hdr_IsProofOfStake h)"

definition StakeTime :: "CBlockHeader \<Rightarrow> u32" where
  "StakeTime h = (if hdr_IsProofOfStake h then hdr_nTime h else 0)"

record CBlock = CBlockHeader +
  vtx :: "CTransaction list"
  fChecked :: bool

definition GetBlockHeader :: "CBlock \<Rightarrow> CBlockHeader" where
  "GetBlockHeader b = CBlockHeader.truncate b"

definition CBlock_of_header :: "CBlockHeader \<Rightarrow> CBlock" where
  "CBlock_of_header h = CBlockHeader.extend h (CBlock.fields [] False)"

definition GetProofOfStake :: "CBlock \<Rightarrow> COutPoint \<times> u32" where
  "GetProofOfStake b = (if hdr_IsProofOfStake b then (hdr_prevoutStake b, hdr_nTime b) else (COutPoint_SetNull, 0))"

section \<open>Serialisation\<close>

text \<open>The part of a header before the signature.\<close>

definition ser_header_body :: "CBlockHeader \<Rightarrow> byte list" where
  "ser_header_body h =
     ser_i32 (hdr_nVersion h) @ hdr_hashPrevBlock h @ hdr_hashMerkleRoot h @ WriteLE32 (hdr_nTime h) @
     WriteLE32 (hdr_nBits h) @ WriteLE32 (hdr_nNonce h) @ hdr_hashStateRoot h @ hdr_hashUTXORoot h @
     ser_outpoint (hdr_prevoutStake h)"

definition ser_header :: "bool \<Rightarrow> CBlockHeader \<Rightarrow> byte list" where
  "ser_header withoutSignature h =
     ser_header_body h @ (if \<not> withoutSignature then ser_bytes (hdr_vchBlockSig h) else [])"

definition unser_header :: "CBlockHeader reader" where
  "unser_header s =
     bindE (unser_i32 s) (\<lambda>(ver, s).
     bindE (stream_read 32 s) (\<lambda>(prev, s).
     bindE (stream_read 32 s) (\<lambda>(merkle, s).
     bindE (ser_readdata32 s) (\<lambda>(time, s).
     bindE (ser_readdata32 s) (\<lambda>(nbits, s).
     bindE (ser_readdata32 s) (\<lambda>(nonce, s).
     bindE (stream_read 32 s) (\<lambda>(state, s).
     bindE (stream_read 32 s) (\<lambda>(utxo, s).
     bindE (unser_outpoint s) (\<lambda>(stake, s).
     bindE (unser_bytes s) (\<lambda>(sig, s).
     Inr (\<lparr>hdr_nVersion = ver, hdr_hashPrevBlock = prev, hdr_hashMerkleRoot = merkle, hdr_nTime = time,
       hdr_nBits = nbits, hdr_nNonce = nonce, hdr_hashStateRoot = state, hdr_hashUTXORoot = utxo,
       hdr_prevoutStake = stake, hdr_vchBlockSig = sig\<rparr>, s)))))))))))"

definition ser_block :: "CBlock \<Rightarrow> byte list" where
  "ser_block b = ser_header False (GetBlockHeader b) @ ser_vector (SerializeTransaction True) (vtx b)"

definition unser_block :: "CBlock reader" where
  "unser_block s =
     bindE (unser_header s) (\<lambda>(h, s).
     bindE (unser_vector (UnserializeTransaction True) s) (\<lambda>(txs, s).
     Inr ((CBlock_of_header h)\<lparr>vtx := txs\<rparr>, s)))"

definition GetHash :: "(byte list \<Rightarrow> uint256) \<Rightarrow> CBlockHeader \<Rightarrow> uint256" where
  "GetHash H h = H (ser_header False h)"

definition GetHashWithoutSign :: "(byte list \<Rightarrow> uint256) \<Rightarrow> CBlockHeader \<Rightarrow> uint256" where
  "GetHashWithoutSign H h = H (ser_header True h)"

text \<open>A locator carries a version number outside of hashes, which the reader ignores.\<close>

definition ser_locator :: "int \<Rightarrow> uint256 list \<Rightarrow> byte list" where
  "ser_locator version vHave = ser_i32 version @ ser_vector (\<lambda>h. h) vHave"

definition unser_locator :: "uint256 list reader" where
  "unser_locator s = bindE (unser_i32 s) (\<lambda>(_, s). unser_vector (stream_read 32) s)"

section \<open>Encodings\<close>

definition ok_header :: "CBlockHeader \<Rightarrow> bool" where
  "ok_header h = (- (2 ^ 31) \<le> hdr_nVersion h \<and> hdr_nVersion h < 2 ^ 31 \<and>
     length (hdr_hashPrevBlock h) = 32 \<and> length (hdr_hashMerkleRoot h) = 32 \<and>
     length (hdr_hashStateRoot h) = 32 \<and> length (hdr_hashUTXORoot h) = 32 \<and>
     ok_outpoint (hdr_prevoutStake h) \<and> length (hdr_vchBlockSig h) \<le> MAX_SIZE)"

interpretation hash256: codec "\<lambda>h. h" "stream_read 32" "\<lambda>h. length h = 32"
  by unfold_locales (auto simp: stream_read_append stream_read_Inr)

interpretation header: codec "ser_header False" unser_header ok_header
proof unfold_locales
  show "ok_header h \<Longrightarrow> unser_header (ser_header False h @ r) = Inr (h, r)" for h r
    by (simp add: unser_header_def ser_header_def ser_header_body_def ok_header_def si32.unser_ser stream_read_hash
        u32.unser_ser outpoint.unser_ser bytes.unser_ser)
  show "unser_header s = Inr (h, r) \<Longrightarrow> ok_header h \<and> s = ser_header False h @ r" for s h r
    by (auto simp: unser_header_def ser_header_def ser_header_body_def ok_header_def bindE_iffs
        dest!: si32.ser_unser hash256.ser_unser u32.ser_unser outpoint.ser_unser bytes.ser_unser)
qed

interpretation hashes: codec "ser_vector (\<lambda>h. h)" "unser_vector (stream_read 32)"
    "\<lambda>v. length v \<le> MAX_SIZE \<and> (\<forall>h\<in>set v. length h = 32)"
  by (rule codec_vector) (rule hash256.codec_axioms)

interpretation txs: decoder "SerializeTransaction True" "UnserializeTransaction True"
    "\<lambda>tx. wf_tx tx \<and> (vin tx \<noteq> [] \<or> vout tx = [])"
  by unfold_locales (simp add: Unserialize_Serialize)

definition ok_block :: "CBlock \<Rightarrow> bool" where
  "ok_block b = (ok_header (GetBlockHeader b) \<and> length (vtx b) \<le> MAX_SIZE \<and> \<not> fChecked b \<and>
     (\<forall>tx\<in>set (vtx b). wf_tx tx \<and> (vin tx \<noteq> [] \<or> vout tx = [])))"

lemma CBlock_of_header_GetBlockHeader: "\<not> fChecked b \<Longrightarrow> (CBlock_of_header (GetBlockHeader b))\<lparr>vtx := vtx b\<rparr> = b"
  by (simp add: CBlock_of_header_def GetBlockHeader_def CBlockHeader.defs CBlock.defs)

interpretation block: decoder ser_block unser_block ok_block
proof unfold_locales
  fix b r
  assume b: "ok_block b"
  have "unser_vector (UnserializeTransaction True) (ser_vector (SerializeTransaction True) (vtx b) @ r) = Inr (vtx b, r)"
    using b by (intro decoder.unser_ser [OF decoder_vector [OF txs.decoder_axioms]]) (simp add: ok_block_def)
  then show "unser_block (ser_block b @ r) = Inr (b, r)"
    using b by (simp add: unser_block_def ser_block_def ok_block_def header.unser_ser CBlock_of_header_GetBlockHeader)
qed

text \<open>C29: a block survives its serialisation: reading back what was written for a block with
  well-formed header and transactions returns the same header, signature and transactions with
  their witnesses, and the rest of the stream.\<close>

theorem unser_block_ser_block:
  assumes "ok_block b"
  shows "unser_block (ser_block b @ r) = Inr (b, r)"
  using assms by (rule block.unser_ser)

definition sample_block :: CBlock where
  "sample_block = (CBlock_of_header CBlockHeader_SetNull)\<lparr>hdr_nTime := 5, hdr_vchBlockSig := [1, 2], vtx := [sample_tx]\<rparr>"

theorem unser_block_ser_block_witness:
  "ok_block sample_block \<and> unser_block (ser_block sample_block @ [7]) = Inr (sample_block, [7])"
proof -
  have "ok_block sample_block"
    using wf_sample_tx
    by (simp add: ok_block_def sample_block_def CBlock_of_header_def GetBlockHeader_def CBlockHeader_SetNull_def ok_header_def
        CBlockHeader.defs CBlock.defs uint256_zero_def COutPoint_SetNull_def ok_outpoint_def MAX_SIZE_def) (simp add: sample_tx_def)
  then show ?thesis using unser_block_ser_block by blast
qed

lemma ser_header_body_inj:
  assumes "ok_header h" "ok_header h'" "ser_header_body h = ser_header_body h'"
  shows "h\<lparr>hdr_vchBlockSig := []\<rparr> = h'\<lparr>hdr_vchBlockSig := []\<rparr>"
proof -
  have "ok_header (h\<lparr>hdr_vchBlockSig := []\<rparr>)" "ok_header (h'\<lparr>hdr_vchBlockSig := []\<rparr>)"
    using assms by (simp_all add: ok_header_def)
  moreover have "ser_header False (h\<lparr>hdr_vchBlockSig := []\<rparr>) = ser_header False (h'\<lparr>hdr_vchBlockSig := []\<rparr>)"
    using assms(3) by (simp add: ser_header_def ser_header_body_def)
  ultimately show ?thesis using header.prefix_free [of _ _ "[]" "[]"] by simp
qed

text \<open>What the two block hashes commit to.  Equal \<open>GetHash\<close> means equal headers, signature
  included, and equal \<open>GetHashWithoutSign\<close> means headers equal but for the signature, unless the
  serialised headers are a collision of the hash function.\<close>

theorem GetHash_commits:
  assumes "ok_header h" and "ok_header h'"
  shows "(GetHash H h = GetHash H h' \<longrightarrow> h = h' \<or>
      ser_header False h \<noteq> ser_header False h' \<and> H (ser_header False h) = H (ser_header False h')) \<and>
    (GetHashWithoutSign H h = GetHashWithoutSign H h' \<longrightarrow> h\<lparr>hdr_vchBlockSig := []\<rparr> = h'\<lparr>hdr_vchBlockSig := []\<rparr> \<or>
      ser_header True h \<noteq> ser_header True h' \<and> H (ser_header True h) = H (ser_header True h'))"
  using header.prefix_free [OF assms, of "[]" "[]"] ser_header_body_inj [OF assms]
  by (auto simp: GetHash_def GetHashWithoutSign_def ser_header_def)

theorem GetHash_commits_witness:
  "ok_header CBlockHeader_SetNull \<and>
   GetHashWithoutSign (\<lambda>b. b) CBlockHeader_SetNull = GetHashWithoutSign (\<lambda>b. b) (CBlockHeader_SetNull\<lparr>hdr_vchBlockSig := [1]\<rparr>) \<and>
   GetHash (\<lambda>b. b) CBlockHeader_SetNull \<noteq> GetHash (\<lambda>b. b) (CBlockHeader_SetNull\<lparr>hdr_vchBlockSig := [1]\<rparr>)"
proof -
  let ?h = "CBlockHeader_SetNull" and ?h' = "CBlockHeader_SetNull\<lparr>hdr_vchBlockSig := [1]\<rparr>"
  have ok: "ok_header ?h" "ok_header ?h'"
    by (simp_all add: ok_header_def CBlockHeader_SetNull_def uint256_zero_def COutPoint_SetNull_def ok_outpoint_def MAX_SIZE_def)
  have "?h \<noteq> ?h'" by (simp add: CBlockHeader_SetNull_def)
  moreover have "GetHashWithoutSign (\<lambda>b. b) ?h = GetHashWithoutSign (\<lambda>b. b) ?h'"
    by (simp add: GetHashWithoutSign_def ser_header_def ser_header_body_def)
  ultimately show ?thesis using GetHash_commits [OF ok, of "\<lambda>b. b"] ok by blast
qed

end
