(* ===== verification/Arith_Uint256.thy ===== *)
theory Arith_Uint256
  imports Prelude
begin

unbundle bit_operations_syntax

text \<open>
  \<open>arith_uint256.h\<close> and \<open>arith_uint256.cpp\<close>: the 256-bit unsigned integers of the proof-of-work
  and chain-work computations.  A \<open>base_uint\<close> is its array \<open>pn\<close> of 32-bit limbs, least
  significant first; every operator is the loop of the source over the limbs, with 64-bit
  intermediate values.  \<open>limbs\<close> reads an array as a natural number, and each operator is
  shown to compute the corresponding operation modulo \<open>2 ^ 256\<close>.
\<close>

section \<open>Representation\<close>

type_synonym base_uint = "u32 list"

definition WIDTH :: nat where
  "WIDTH = 256 div 32"

definition wf_uint :: "base_uint \<Rightarrow> bool" where
  "wf_uint a \<longleftrightarrow> length a = WIDTH"

fun limbs :: "base_uint \<Rightarrow> nat" where
  "limbs [] = 0"
| "limbs (x # xs) = unat x + 2 ^ 32 * limbs xs"

section \<open>The code\<close>

definition base_uint_zero :: base_uint where
  "base_uint_zero = replicate WIDTH 0"

definition base_uint_u64 :: "u64 \<Rightarrow> base_uint" where
  "base_uint_u64 b = [ucast b, ucast (drop_bit 32 b)] @ replicate (WIDTH - 2) 0"

definition uint_not :: "base_uint \<Rightarrow> base_uint" where
  "uint_not pn = map not pn"

definition uint_xor :: "base_uint \<Rightarrow> base_uint \<Rightarrow> base_uint" where
  "uint_xor pn b = map2 xor pn b"

definition uint_and :: "base_uint \<Rightarrow> base_uint \<Rightarrow> base_uint" where
  "uint_and pn b = map2 and pn b"

definition uint_or :: "base_uint \<Rightarrow> base_uint \<Rightarrow> base_uint" where
  "uint_or pn b = map2 or pn b"

text \<open>\<open>operator++\<close> and \<open>operator--\<close>: the carry runs while a limb wraps around.\<close>

fun uint_inc :: "base_uint \<Rightarrow> base_uint" where
  "uint_inc [] = []"
| "uint_inc (x # xs) = (let x' = x + 1 in if x' = 0 then x' # uint_inc xs else x' # xs)"

fun uint_dec :: "base_uint \<Rightarrow> base_uint" where
  "uint_dec [] = []"
| "uint_dec (x # xs) = (let x' = x - 1 in if x' = - 1 then x' # uint_dec xs else x' # xs)"

definition uint_neg :: "base_uint \<Rightarrow> base_uint" where
  "uint_neg pn = uint_inc (uint_not pn)"

fun add_loop :: "u64 \<Rightarrow> base_uint \<Rightarrow> base_uint \<Rightarrow> base_uint" where
  "add_loop carry (x # xs) (y # ys) =
     (let n = carry + ucast x + ucast y in ucast (n AND 0xffffffff) # add_loop (drop_bit 32 n) xs ys)"
| "add_loop carry _ _ = []"

definition uint_add :: "base_uint \<Rightarrow> base_uint \<Rightarrow> base_uint" where
  "uint_add pn b = add_loop 0 pn b"

definition uint_sub :: "base_uint \<Rightarrow> base_uint \<Rightarrow> base_uint" where
  "uint_sub pn b = uint_add pn (uint_neg b)"

fun mul32_loop :: "u64 \<Rightarrow> u32 \<Rightarrow> base_uint \<Rightarrow> base_uint" where
  "mul32_loop carry b32 [] = []"
| "mul32_loop carry b32 (x # xs) =
     (let n = carry + ucast b32 * ucast x in ucast (n AND 0xffffffff) # mul32_loop (drop_bit 32 n) b32 xs)"

definition uint_mul32 :: "base_uint \<Rightarrow> u32 \<Rightarrow> base_uint" where
  "uint_mul32 pn b32 = mul32_loop 0 b32 pn"

text \<open>The inner loop of \<open>operator*=\<close> for one limb \<open>x = pn[j]\<close>: \<open>as\<close> are the limbs of the result
  from position \<open>j\<close> on.\<close>

fun mul_row :: "u64 \<Rightarrow> u32 \<Rightarrow> base_uint \<Rightarrow> base_uint \<Rightarrow> base_uint" where
  "mul_row carry x (a # as) (b # bs) =
     (let n = carry + ucast a + ucast x * ucast b in
      ucast (n AND 0xffffffff) # mul_row (drop_bit 32 n) x as bs)"
| "mul_row carry x as bs = []"

definition uint_mul :: "base_uint \<Rightarrow> base_uint \<Rightarrow> base_uint" where
  "uint_mul pn b =
     foldl (\<lambda>a j. take j a @ mul_row 0 (pn ! j) (drop j a) b) (replicate (length pn) 0) [0..<length pn]"

definition or_at :: "base_uint \<Rightarrow> nat \<Rightarrow> u32 \<Rightarrow> base_uint" where
  "or_at pn i w = pn[i := pn ! i OR w]"

definition shl_step :: "base_uint \<Rightarrow> nat \<Rightarrow> nat \<Rightarrow> base_uint \<Rightarrow> nat \<Rightarrow> base_uint" where
  "shl_step a k shift pn i =
     (let pn1 = (if i + k + 1 < length a \<and> shift \<noteq> 0
                 then or_at pn (i + k + 1) (drop_bit (32 - shift) (a ! i)) else pn) in
      if i + k < length a then or_at pn1 (i + k) (push_bit shift (a ! i)) else pn1)"

definition uint_shl :: "base_uint \<Rightarrow> nat \<Rightarrow> base_uint" where
  "uint_shl a shift =
     foldl (shl_step a (shift div 32) (shift mod 32)) (replicate (length a) 0) [0..<length a]"

definition shr_step :: "base_uint \<Rightarrow> nat \<Rightarrow> nat \<Rightarrow> base_uint \<Rightarrow> nat \<Rightarrow> base_uint" where
  "shr_step a k shift pn i =
     (let pn1 = (if k + 1 \<le> i \<and> shift \<noteq> 0
                 then or_at pn (i - k - 1) (push_bit (32 - shift) (a ! i)) else pn) in
      if k \<le> i then or_at pn1 (i - k) (drop_bit shift (a ! i)) else pn1)"

definition uint_shr :: "base_uint \<Rightarrow> nat \<Rightarrow> base_uint" where
  "uint_shr a shift =
     foldl (shr_step a (shift div 32) (shift mod 32)) (replicate (length a) 0) [0..<length a]"

text \<open>\<open>CompareTo\<close> scans from the most significant limb.\<close>

fun compare_from_top :: "base_uint \<Rightarrow> base_uint \<Rightarrow> int" where
  "compare_from_top (x # xs) (y # ys) =
     (if x < y then - 1 else if x > y then 1 else compare_from_top xs ys)"
| "compare_from_top _ _ = 0"

definition CompareTo :: "base_uint \<Rightarrow> base_uint \<Rightarrow> int" where
  "CompareTo a b = compare_from_top (rev a) (rev b)"

definition EqualTo :: "base_uint \<Rightarrow> u64 \<Rightarrow> bool" where
  "EqualTo pn b \<longleftrightarrow>
     list_all (\<lambda>x. x = 0) (drop 2 pn) \<and> ucast (pn ! 1) = drop_bit 32 b \<and> ucast (pn ! 0) = b AND 0xffffffff"

text \<open>\<open>bits\<close>: position of the highest set bit plus one; the scan inside a limb stops at bit 1.\<close>

fun high_bit :: "u32 \<Rightarrow> nat \<Rightarrow> nat" where
  "high_bit w 0 = 1"
| "high_bit w (Suc nbits) = (if w AND push_bit (Suc nbits) 1 \<noteq> 0 then Suc nbits + 1 else high_bit w nbits)"

fun bits_from_top :: "base_uint \<Rightarrow> nat" where
  "bits_from_top [] = 0"
| "bits_from_top (x # xs) = (if x \<noteq> 0 then 32 * length xs + high_bit x 31 else bits_from_top xs)"

definition bits :: "base_uint \<Rightarrow> nat" where
  "bits pn = bits_from_top (rev pn)"

text \<open>The \<open>while\<close> loop of \<open>operator/=\<close>; its first argument is \<open>shift + 1\<close>.  The result is the
  quotient and the remainder left in \<open>num\<close>.\<close>

fun div_loop :: "nat \<Rightarrow> base_uint \<Rightarrow> base_uint \<Rightarrow> base_uint \<Rightarrow> base_uint \<times> base_uint" where
  "div_loop 0 num dv pn = (pn, num)"
| "div_loop (Suc shift) num dv pn =
     (let ge = CompareTo num dv \<ge> 0;
          num' = (if ge then uint_sub num dv else num);
          pn' = (if ge then or_at pn (shift div 32) (push_bit (shift mod 32) 1) else pn) in
      div_loop shift num' (uint_shr dv 1) pn')"

text \<open>\<open>None\<close>: \<open>uint_error("Division by zero")\<close>.\<close>

definition uint_div :: "base_uint \<Rightarrow> base_uint \<Rightarrow> base_uint option" where
  "uint_div a b =
     (let num_bits = bits a; div_bits = bits b in
      if div_bits = 0 then None
      else if div_bits > num_bits then Some (replicate (length a) 0)
      else let shift = num_bits - div_bits in
        Some (fst (div_loop (Suc shift) a (uint_shl b shift) (replicate (length a) 0))))"

definition GetLow64 :: "base_uint \<Rightarrow> u64" where
  "GetLow64 pn = ucast (pn ! 0) OR push_bit 32 (ucast (pn ! 1))"

text \<open>\<open>SetCompact\<close> returns the number and the flags \<open>*pfNegative\<close>, \<open>*pfOverflow\<close>.\<close>

definition SetCompact :: "u32 \<Rightarrow> base_uint \<times> bool \<times> bool" where
  "SetCompact nCompact =
     (let nSize = unat (drop_bit 24 nCompact);
          w = nCompact AND 0x007fffff;
          nWord = (if nSize \<le> 3 then drop_bit (8 * (3 - nSize)) w else w);
          bn = (if nSize \<le> 3 then base_uint_u64 (ucast nWord)
                else uint_shl (base_uint_u64 (ucast nWord)) (8 * (nSize - 3))) in
      (bn,
       nWord \<noteq> 0 \<and> nCompact AND 0x00800000 \<noteq> 0,
       nWord \<noteq> 0 \<and> (nSize > 34 \<or> (nWord > 0xff \<and> nSize > 33) \<or> (nWord > 0xffff \<and> nSize > 32))))"

text \<open>\<open>GetCompact\<close>; \<open>None\<close>: an assertion failed.\<close>

definition GetCompact :: "base_uint \<Rightarrow> bool \<Rightarrow> u32 option" where
  "GetCompact a fNegative =
     (let nSize = (bits a + 7) div 8;
          nCompact = (if nSize \<le> 3 then ucast (push_bit (8 * (3 - nSize)) (GetLow64 a))
                      else ucast (GetLow64 (uint_shr a (8 * (nSize - 3))))) :: u32;
          carry = (nCompact AND 0x00800000 \<noteq> 0);
          nCompact = (if carry then drop_bit 8 nCompact else nCompact);
          nSize = (if carry then nSize + 1 else nSize) in
      if nCompact AND NOT 0x007fffff \<noteq> 0 \<or> \<not> nSize < 256 then None
      else let nCompact = nCompact OR push_bit 24 (of_nat nSize) in
        Some (nCompact OR (if fNegative \<and> nCompact AND 0x007fffff \<noteq> 0 then 0x00800000 else 0)))"

text \<open>A \<open>uint256\<close> as its 32 bytes in memory order.\<close>

definition ArithToUint256 :: "base_uint \<Rightarrow> byte list" where
  "ArithToUint256 a = concat (map WriteLE32 a)"

definition UintToArith256 :: "byte list \<Rightarrow> base_uint" where
  "UintToArith256 b = map (\<lambda>x. ReadLE32 (drop (x * 4) b)) [0..<WIDTH]"

section \<open>Arithmetic modulo the width\<close>

lemma limbs_bound: "limbs xs < 2 ^ (32 * length xs)"
proof (induction xs)
  case (Cons x xs)
  have "unat x + 2 ^ 32 * limbs xs < 2 ^ 32 * (limbs xs + 1)" using unat_lt2p [of x] by simp
  also have "\<dots> \<le> 2 ^ 32 * 2 ^ (32 * length xs)" using Cons.IH by (intro mult_le_mono) simp_all
  finally show ?case by (simp add: power_add)
qed simp

lemma limbs_append: "limbs (xs @ ys) = limbs xs + 2 ^ (32 * length xs) * limbs ys"
  by (induction xs) (simp_all add: power_add algebra_simps)

lemma limbs_replicate_0 [simp]: "limbs (replicate n 0) = 0"
  by (induction n) simp_all

lemma limbs_inj: "limbs xs = limbs ys \<Longrightarrow> length xs = length ys \<Longrightarrow> xs = ys"
proof (induction xs ys rule: list_induct2')
  case (4 x xs y ys)
  have "unat x = (unat x + 2 ^ 32 * limbs xs) mod 2 ^ 32" using unat_lt2p [of x] by simp
  also have "\<dots> = unat y" using 4 unat_lt2p [of y] by simp
  finally have "unat x = unat y" .
  with 4 show ?case by (simp add: unsigned_word_eqI)
qed simp_all

text \<open>Splitting a 64-bit accumulator into the limb written and the carry.\<close>

lemma unat_low32: "unat (ucast (n AND 0xffffffff) :: u32) = unat n mod 2 ^ 32" for n :: u64
proof -
  have "n AND 0xffffffff = take_bit 32 n" unfolding take_bit_eq_mask by (simp add: mask_eq_exp_minus_1)
  then have "unat (ucast (n AND 0xffffffff) :: u32) = take_bit 32 (unat n) mod 2 ^ 32"
    by (simp only: unat_ucast unsigned_take_bit_eq) (simp add: take_bit_eq_mod)
  then show ?thesis by (simp add: take_bit_eq_mod)
qed

lemma unat_carry: "unat (drop_bit 32 n) = unat n div 2 ^ 32" for n :: u64
  unfolding unat_drop_bit_eq by (simp add: drop_bit_eq_div)

lemma unat_u32_less: "unat x < 4294967296" for x :: u32
  using unat_lt2p [of x] by simp

lemma unat_ucast64 [simp]: "unat (ucast x :: u64) = unat x" for x :: u32
  using unat_u32_less [of x] by (simp add: unat_ucast)

text \<open>One limb of a loop: with the exact accumulator \<open>N\<close>, the low half and the carry continue the
  computation on the remaining limbs.\<close>

lemma limb_step: "N mod 2 ^ 32 + 2 ^ 32 * ((N div 2 ^ 32 + r) mod 2 ^ k) = (N + 2 ^ 32 * r) mod 2 ^ (32 + k)"
  for N :: nat
proof -
  have "(N + 2 ^ 32 * r) div 2 ^ 32 = N div 2 ^ 32 + r" by simp
  then show ?thesis
    using mod_mult2_eq [of "N + 2 ^ 32 * r" "2 ^ 32" "2 ^ k"] by (simp add: power_add ac_simps)
qed

lemma limbs_add_loop:
  "length xs = length ys \<Longrightarrow> unat c < 2 ^ 32 \<Longrightarrow>
   limbs (add_loop c xs ys) = (unat c + limbs xs + limbs ys) mod 2 ^ (32 * length xs)"
proof (induction c xs ys rule: add_loop.induct)
  case (1 c x xs y ys)
  let ?n = "c + ucast x + ucast y"
  have n: "unat ?n = unat c + unat x + unat y"
    using 1(3) unat_u32_less [of x] unat_u32_less [of y] by (simp add: unat_word_ariths)
  have c: "unat (drop_bit 32 ?n) < 2 ^ 32"
    using 1(3) unat_u32_less [of x] unat_u32_less [of y] by (simp add: unat_carry n less_mult_imp_div_less)
  have "limbs (add_loop c (x # xs) (y # ys)) =
      unat ?n mod 2 ^ 32 + 2 ^ 32 * ((unat ?n div 2 ^ 32 + (limbs xs + limbs ys)) mod 2 ^ (32 * length xs))"
    using 1 c by (simp add: Let_def unat_low32 unat_carry add.assoc)
  also have "\<dots> = (unat ?n + 2 ^ 32 * (limbs xs + limbs ys)) mod 2 ^ (32 + 32 * length xs)"
    by (rule limb_step)
  also have "\<dots> = (unat c + limbs (x # xs) + limbs (y # ys)) mod 2 ^ (32 * length (x # xs))"
    unfolding n by (simp add: algebra_simps)
  finally show ?case .
qed simp_all

lemma length_add_loop [simp]: "length (add_loop c xs ys) = min (length xs) (length ys)"
  by (induction c xs ys rule: add_loop.induct) (simp_all add: Let_def)

lemma unat_minus1_32: "unat (- 1 :: u32) = 2 ^ 32 - 1"
  by (simp add: unsigned_minus_1_eq_mask mask_eq_exp_minus_1)

lemma limbs_inc: "limbs (uint_inc xs) = (limbs xs + 1) mod 2 ^ (32 * length xs)"
proof (induction xs)
  case (Cons x xs)
  show ?case
  proof (cases "x + 1 = 0")
    case True
    then have "x = - 1" by (simp add: eq_neg_iff_add_eq_0)
    then have x: "unat x = 2 ^ 32 - 1" by (simp only: unat_minus1_32)
    have "limbs (uint_inc (x # xs)) = (unat x + 1) mod 2 ^ 32 +
        2 ^ 32 * (((unat x + 1) div 2 ^ 32 + limbs xs) mod 2 ^ (32 * length xs))"
      using Cons True x by (simp add: Let_def add.commute)
    also have "\<dots> = (unat x + 1 + 2 ^ 32 * limbs xs) mod 2 ^ (32 + 32 * length xs)" by (rule limb_step)
    finally show ?thesis by (simp add: algebra_simps)
  next
    case False
    then have "unat (x + 1) = unat x + 1" using unatSuc [of x] by (simp add: add.commute)
    moreover have "limbs ((x + 1) # xs) < 2 ^ (32 * length (x # xs))"
      using limbs_bound [of "(x + 1) # xs"] by simp
    ultimately show ?thesis using False by (simp add: Let_def)
  qed
qed simp

lemma length_inc [simp]: "length (uint_inc xs) = length xs"
  by (induction xs) (simp_all add: Let_def)

lemma unat_not32: "unat (NOT x) = 2 ^ 32 - 1 - unat x" for x :: u32
proof -
  have "NOT x = - 1 - x" by (simp add: not_eq_complement)
  moreover have "x \<le> - 1" by simp
  ultimately show ?thesis using unat_sub [of x "- 1"] by (simp only: unat_minus1_32)
qed

lemma limbs_not: "limbs (uint_not xs) = 2 ^ (32 * length xs) - 1 - limbs xs"
proof (induction xs)
  case (Cons x xs)
  have "unat (NOT x) + unat x = 2 ^ 32 - 1" using unat_u32_less [of x] by (simp add: unat_not32)
  moreover have "2 ^ (32 * length xs) = limbs (uint_not xs) + limbs xs + 1"
    using Cons limbs_bound [of xs] by simp
  moreover have "2 ^ (32 * length (x # xs)) = 2 ^ 32 * (2 :: nat) ^ (32 * length xs)"
    by (simp add: power_add)
  ultimately have "limbs (uint_not (x # xs)) + limbs (x # xs) + 1 = 2 ^ (32 * length (x # xs))"
    by (simp add: uint_not_def)
  then show ?case by simp
qed (simp add: uint_not_def)

lemma length_not [simp]: "length (uint_not xs) = length xs"
  by (simp add: uint_not_def)

lemma limbs_neg: "limbs (uint_neg xs) = (2 ^ (32 * length xs) - limbs xs) mod 2 ^ (32 * length xs)"
  using limbs_bound [of xs] by (simp add: uint_neg_def limbs_inc limbs_not Suc_diff_Suc)

lemma limbs_add: "length xs = length ys \<Longrightarrow> limbs (uint_add xs ys) = (limbs xs + limbs ys) mod 2 ^ (32 * length xs)"
  by (simp add: uint_add_def limbs_add_loop)

lemma length_add [simp]: "length (uint_add xs ys) = min (length xs) (length ys)"
  by (simp add: uint_add_def)

lemma length_neg [simp]: "length (uint_neg xs) = length xs"
  by (simp add: uint_neg_def)

lemma limbs_sub:
  assumes "length xs = length ys"
  shows "limbs (uint_sub xs ys) = (limbs xs + 2 ^ (32 * length xs) - limbs ys) mod 2 ^ (32 * length xs)"
  using limbs_bound [of ys] assms by (simp add: uint_sub_def limbs_add limbs_neg mod_add_right_eq)

lemma length_sub [simp]: "length xs = length ys \<Longrightarrow> length (uint_sub xs ys) = length ys"
  by (simp add: uint_sub_def)

lemma limbs_sub_ge:
  assumes "length xs = length ys" and "limbs ys \<le> limbs xs"
  shows "limbs (uint_sub xs ys) = limbs xs - limbs ys"
proof -
  have e: "limbs xs + 2 ^ (32 * length xs) - limbs ys = (limbs xs - limbs ys) + 2 ^ (32 * length xs)"
    using assms by simp
  show ?thesis
    unfolding limbs_sub [OF assms(1)] e using limbs_bound [of xs] by simp
qed

lemma limbs_mul32_loop:
  "unat c < 2 ^ 32 \<Longrightarrow> limbs (mul32_loop c b xs) = (unat c + unat b * limbs xs) mod 2 ^ (32 * length xs)"
proof (induction c b xs rule: mul32_loop.induct)
  case (2 c b x xs)
  let ?n = "c + ucast b * ucast x"
  have "unat b * unat x \<le> (2 ^ 32 - 1) * (2 ^ 32 - 1)"
    using unat_u32_less [of b] unat_u32_less [of x] by (intro mult_le_mono) simp_all
  with 2(2) have l: "unat c + unat b * unat x < 2 ^ 64" by simp
  then have n: "unat ?n = unat c + unat b * unat x" by (simp add: unat_word_ariths)
  have c: "unat (drop_bit 32 ?n) < 2 ^ 32" using l by (simp add: unat_carry n less_mult_imp_div_less)
  have "limbs (mul32_loop c b (x # xs)) =
      unat ?n mod 2 ^ 32 + 2 ^ 32 * ((unat ?n div 2 ^ 32 + unat b * limbs xs) mod 2 ^ (32 * length xs))"
    using 2 c by (simp add: Let_def unat_low32 unat_carry)
  also have "\<dots> = (unat ?n + 2 ^ 32 * (unat b * limbs xs)) mod 2 ^ (32 + 32 * length xs)" by (rule limb_step)
  also have "\<dots> = (unat c + unat b * limbs (x # xs)) mod 2 ^ (32 * length (x # xs))"
    unfolding n by (simp add: algebra_simps)
  finally show ?case .
qed simp

lemma limbs_mul32: "limbs (uint_mul32 xs b) = (limbs xs * unat b) mod 2 ^ (32 * length xs)"
  by (simp add: uint_mul32_def limbs_mul32_loop mult.commute)

lemma length_mul32 [simp]: "length (uint_mul32 xs b) = length xs"
proof -
  have "length (mul32_loop c b xs) = length xs" for c by (induction xs arbitrary: c) (simp_all add: Let_def)
  then show ?thesis by (simp add: uint_mul32_def)
qed

lemma limbs_mul_row:
  "unat c < 2 ^ 32 \<Longrightarrow> length as \<le> length bs \<Longrightarrow>
   limbs (mul_row c x as bs) = (unat c + limbs as + unat x * limbs bs) mod 2 ^ (32 * length as)
   \<and> length (mul_row c x as bs) = length as"
proof (induction c x as bs rule: mul_row.induct)
  case (1 c x a as b bs)
  let ?n = "c + ucast a + ucast x * ucast b"
  have "unat x * unat b \<le> (2 ^ 32 - 1) * (2 ^ 32 - 1)"
    using unat_u32_less [of b] unat_u32_less [of x] by (intro mult_le_mono) simp_all
  with 1(2) have l: "unat c + unat a + unat x * unat b < 2 ^ 64" using unat_u32_less [of a] by simp
  then have n: "unat ?n = unat c + unat a + unat x * unat b" by (simp add: unat_word_ariths mod_simps)
  have c: "unat (drop_bit 32 ?n) < 2 ^ 32" using l by (simp add: unat_carry n less_mult_imp_div_less)
  have "limbs (mul_row c x (a # as) (b # bs)) =
      unat ?n mod 2 ^ 32 + 2 ^ 32 * ((unat ?n div 2 ^ 32 + (limbs as + unat x * limbs bs)) mod 2 ^ (32 * length as))"
    using 1 c by (simp add: Let_def unat_low32 unat_carry add.assoc)
  also have "\<dots> = (unat ?n + 2 ^ 32 * (limbs as + unat x * limbs bs)) mod 2 ^ (32 + 32 * length as)" by (rule limb_step)
  also have "\<dots> = (unat c + limbs (a # as) + unat x * limbs (b # bs)) mod 2 ^ (32 * length (a # as))"
    unfolding n by (simp add: algebra_simps)
  finally show ?case using 1 c by (simp add: Let_def)
qed simp_all

lemma mul_fold:
  assumes "length pn = length b" and "n \<le> length pn"
  shows "limbs (foldl (\<lambda>a j. take j a @ mul_row 0 (pn ! j) (drop j a) b) (replicate (length pn) 0) [0..<n]) =
           (limbs (take n pn) * limbs b) mod 2 ^ (32 * length pn)
         \<and> length (foldl (\<lambda>a j. take j a @ mul_row 0 (pn ! j) (drop j a) b) (replicate (length pn) 0) [0..<n]) =
           length pn"
  using assms(2)
proof (induction n)
  case (Suc n)
  let ?a = "foldl (\<lambda>a j. take j a @ mul_row 0 (pn ! j) (drop j a) b) (replicate (length pn) 0) [0..<n]"
  let ?W = "length pn" and ?r = "mul_row 0 (pn ! n) (drop n ?a) b"
  have ih: "limbs ?a = (limbs (take n pn) * limbs b) mod 2 ^ (32 * ?W)" "length ?a = ?W" using Suc by simp_all
  have r: "limbs ?r = (limbs (drop n ?a) + unat (pn ! n) * limbs b) mod 2 ^ (32 * (?W - n))" "length ?r = ?W - n"
    using limbs_mul_row [of 0 "drop n ?a" b "pn ! n"] ih(2) assms(1) by simp_all
  have a: "limbs ?a = limbs (take n ?a) + 2 ^ (32 * n) * limbs (drop n ?a)"
    using limbs_append [of "take n ?a" "drop n ?a"] ih(2) Suc.prems by simp
  have lo: "limbs (take n ?a) < 2 ^ (32 * n)" using limbs_bound [of "take n ?a"] ih(2) Suc.prems by simp
  have w: "2 ^ (32 * ?W) = 2 ^ (32 * n) * (2 :: nat) ^ (32 * (?W - n))"
    using Suc.prems by (simp flip: power_add)
  have t: "limbs (take (Suc n) pn) = limbs (take n pn) + 2 ^ (32 * n) * unat (pn ! n)"
    using Suc.prems by (simp add: take_Suc_conv_app_nth limbs_append)
  let ?h = "limbs (drop n ?a) + unat (pn ! n) * limbs b"
  have "limbs (take n ?a @ ?r) = limbs (take n ?a) + 2 ^ (32 * n) * (?h mod 2 ^ (32 * (?W - n)))"
    using ih(2) Suc.prems by (simp add: limbs_append r)
  also have "\<dots> = (limbs (take n ?a) + 2 ^ (32 * n) * ?h) mod 2 ^ (32 * ?W)"
    unfolding w using mod_mult2_eq [of "limbs (take n ?a) + 2 ^ (32 * n) * ?h" "2 ^ (32 * n)"] lo by simp
  also have "\<dots> = (limbs ?a + 2 ^ (32 * n) * unat (pn ! n) * limbs b) mod 2 ^ (32 * ?W)"
    unfolding a by (simp add: algebra_simps)
  also have "\<dots> = (limbs (take (Suc n) pn) * limbs b) mod 2 ^ (32 * ?W)"
    unfolding ih(1) t by (simp add: mod_simps algebra_simps)
  finally show ?case using r ih(2) Suc.prems by simp
qed simp

lemma limbs_mul:
  "length xs = length ys \<Longrightarrow> limbs (uint_mul xs ys) = (limbs xs * limbs ys) mod 2 ^ (32 * length xs)"
  using mul_fold [of xs ys "length xs"] by (simp add: uint_mul_def)

lemma length_mul [simp]: "length xs = length ys \<Longrightarrow> length (uint_mul xs ys) = length ys"
  using mul_fold [of xs ys "length xs"] by (simp add: uint_mul_def)

section \<open>Comparison\<close>

lemma limbs_snoc: "limbs (xs @ [x]) = limbs xs + 2 ^ (32 * length xs) * unat x"
  by (simp add: limbs_append)

lemma limbs_snoc_less:
  assumes "length xs = length ys" and "unat x < unat y"
  shows "limbs (xs @ [x]) < limbs (ys @ [y])"
proof -
  have "limbs (xs @ [x]) < 2 ^ (32 * length xs) * (unat x + 1)"
    using limbs_bound [of xs] by (simp add: limbs_snoc)
  also have "\<dots> \<le> 2 ^ (32 * length xs) * unat y" using assms(2) by (intro mult_le_mono) simp_all
  also have "\<dots> \<le> limbs (ys @ [y])" using assms(1) by (simp add: limbs_snoc)
  finally show ?thesis .
qed

lemma CompareTo_limbs:
  "length xs = length ys \<Longrightarrow>
   CompareTo xs ys = (if limbs xs < limbs ys then - 1 else if limbs xs > limbs ys then 1 else 0)"
proof (induction xs arbitrary: ys rule: rev_induct)
  case Nil
  then show ?case by (simp add: CompareTo_def)
next
  case (snoc x xs)
  then obtain y zs where ys: "ys = zs @ [y]" "length xs = length zs"
    by (cases ys rule: rev_cases) auto
  consider "x < y" | "y < x" | "x = y" by (rule linorder_cases)
  then show ?case
  proof cases
    case 1
    then show ?thesis using limbs_snoc_less [of xs zs x y] ys by (simp add: CompareTo_def word_less_nat_alt)
  next
    case 2
    then show ?thesis using limbs_snoc_less [of zs xs y x] ys by (simp add: CompareTo_def word_less_nat_alt)
  next
    case 3
    then show ?thesis using snoc ys by (simp add: CompareTo_def limbs_snoc)
  qed
qed

section \<open>Bits and shifts\<close>

lemma bit_unat: "bit (unat x) n \<longleftrightarrow> bit x n"
  by (simp add: bit_unsigned_iff)

lemma bit_u32_less: "bit x n \<Longrightarrow> n < 32" for x :: u32
  using bit_imp_le_length [of x n] by simp

lemma bit_limbs: "bit (limbs xs) n \<longleftrightarrow> n div 32 < length xs \<and> bit (xs ! (n div 32)) (n mod 32)"
proof (induction xs arbitrary: n)
  case (Cons x xs)
  have eq: "limbs (x # xs) = unat x + push_bit 32 (limbs xs)" by (simp add: push_bit_eq_mult)
  have "\<not> bit (unat x) m \<or> \<not> bit (push_bit 32 (limbs xs)) m" for m
    using bit_u32_less [of x m] by (auto simp: bit_unat bit_push_bit_iff)
  then have b: "bit (limbs (x # xs)) n \<longleftrightarrow> bit x n \<or> (32 \<le> n \<and> bit (limbs xs) (n - 32))"
    unfolding eq by (subst bit_disjunctive_add_iff) (auto simp: bit_unat bit_push_bit_iff)
  show ?case
  proof (cases "n < 32")
    case True
    with b show ?thesis by simp
  next
    case False
    then have "n div 32 = Suc ((n - 32) div 32)" "n mod 32 = (n - 32) mod 32"
      by (simp_all add: div_if mod_if)
    with False b Cons bit_u32_less [of x n] show ?thesis by auto
  qed
qed simp

lemma limbs_eqI:
  assumes "length xs = length ys" and "\<And>n. n < 32 * length xs \<Longrightarrow> bit (limbs xs) n \<longleftrightarrow> bit (limbs ys) n"
  shows "limbs xs = limbs ys"
proof (rule bit_eqI)
  fix n
  show "bit (limbs xs) n \<longleftrightarrow> bit (limbs ys) n"
  proof (cases "n < 32 * length xs")
    case False
    then have "length xs \<le> n div 32" by (simp add: less_eq_div_iff_mult_less_eq mult.commute)
    then show ?thesis using assms(1) by (simp add: bit_limbs)
  qed (rule assms(2))
qed

lemma length_or_at [simp]: "length (or_at pn i w) = length pn"
  by (simp add: or_at_def)

lemma nth_or_at: "i < length pn \<Longrightarrow> or_at pn j w ! i = (if i = j then pn ! i OR w else pn ! i)"
  by (simp add: or_at_def nth_list_update)

text \<open>After the first \<open>n\<close> iterations of the left shift, a limb holds the bits that those
  iterations contributed to it.\<close>

lemma shl_fold:
  assumes "n \<le> length a"
  shows "length (foldl (shl_step a k s) (replicate (length a) 0) [0..<n]) = length a"
    and "m < length a \<Longrightarrow>
         bit (foldl (shl_step a k s) (replicate (length a) 0) [0..<n] ! m) q \<longleftrightarrow>
           (\<exists>i < n. (m = i + k + 1 \<and> s \<noteq> 0 \<and> bit (drop_bit (32 - s) (a ! i)) q) \<or>
                    (m = i + k \<and> bit (push_bit s (a ! i)) q))"
  using assms
proof (induction n)
  case (Suc n)
  let ?p = "foldl (shl_step a k s) (replicate (length a) 0) [0..<n]"
  {
    case 1
    with Suc show ?case by (simp add: shl_step_def Let_def)
  next
    case 2
    have l: "length ?p = length a" using Suc.IH(1) 2 by simp
    have ih: "bit (?p ! m) q \<longleftrightarrow> (\<exists>i < n. (m = i + k + 1 \<and> s \<noteq> 0 \<and> bit (drop_bit (32 - s) (a ! i)) q) \<or>
                    (m = i + k \<and> bit (push_bit s (a ! i)) q))"
      using Suc.IH(2) 2 by simp
    have "bit (shl_step a k s ?p n ! m) q \<longleftrightarrow> bit (?p ! m) q \<or>
        (m = n + k + 1 \<and> s \<noteq> 0 \<and> bit (drop_bit (32 - s) (a ! n)) q) \<or>
        (m = n + k \<and> bit (push_bit s (a ! n)) q)"
      using 2 l by (auto simp: shl_step_def Let_def nth_or_at bit_or_iff)
    then show ?case using ih by (auto simp: less_Suc_eq)
  }
qed simp_all

lemma length_shl [simp]: "length (uint_shl a shift) = length a"
  using shl_fold(1) [of "length a" a] by (simp add: uint_shl_def)

lemma bit_shl:
  assumes "m < length a" and "q < 32" and s: "s < 32"
  shows "bit (uint_shl a (32 * k + s) ! m) q \<longleftrightarrow>
     (if s \<le> q then k \<le> m \<and> bit (a ! (m - k)) (q - s)
      else k + 1 \<le> m \<and> bit (a ! (m - k - 1)) (q + 32 - s))"
proof -
  have "bit (uint_shl a (32 * k + s) ! m) q \<longleftrightarrow>
      (\<exists>i < length a. (m = i + k + 1 \<and> s \<noteq> 0 \<and> bit (drop_bit (32 - s) (a ! i)) q) \<or>
                    (m = i + k \<and> bit (push_bit s (a ! i)) q))"
    using shl_fold(2) [of "length a" a m k s q] assms by (simp add: uint_shl_def)
  also have "\<dots> \<longleftrightarrow> (k + 1 \<le> m \<and> s \<noteq> 0 \<and> bit (drop_bit (32 - s) (a ! (m - k - 1))) q) \<or>
      (k \<le> m \<and> bit (push_bit s (a ! (m - k))) q)"
    using assms(1) by (auto intro: exI [of _ "m - k - 1"] exI [of _ "m - k"])
  also have "\<dots> \<longleftrightarrow> (if s \<le> q then k \<le> m \<and> bit (a ! (m - k)) (q - s)
      else k + 1 \<le> m \<and> bit (a ! (m - k - 1)) (q + 32 - s))"
  proof (cases "s \<le> q")
    case True
    then have "\<not> bit (drop_bit (32 - s) (a ! (m - k - 1))) q" if "s \<noteq> 0"
      using bit_u32_less [of "a ! (m - k - 1)" "32 - s + q"] s that by (auto simp: bit_drop_bit_eq)
    then show ?thesis using True assms(2) by (auto simp: bit_push_bit_iff)
  next
    case False
    then show ?thesis using s by (auto simp: bit_push_bit_iff bit_drop_bit_eq add.commute)
  qed
  finally show ?thesis .
qed

lemma div_mod_32I: "n = 32 * d + r \<Longrightarrow> r < 32 \<Longrightarrow> n div 32 = d \<and> n mod 32 = r" for n :: nat
  by simp

lemma limbs_shl: "limbs (uint_shl a shift) = (limbs a * 2 ^ shift) mod 2 ^ (32 * length a)"
proof -
  define k s where "k = shift div 32" and "s = shift mod 32"
  have sh: "shift = 32 * k + s" and s: "s < 32" by (simp_all add: k_def s_def)
  have "limbs (uint_shl a shift) = take_bit (32 * length a) (push_bit shift (limbs a))"
  proof (rule bit_eqI)
    fix n :: nat
    define m q where "m = n div 32" and "q = n mod 32"
    have n: "n = 32 * m + q" "q < 32" by (simp_all add: m_def q_def)
    show "bit (limbs (uint_shl a shift)) n \<longleftrightarrow> bit (take_bit (32 * length a) (push_bit shift (limbs a))) n"
    proof (cases "m < length a")
      case True
      have l: "n < 32 * length a" using True n by simp
      have "bit (limbs (uint_shl a shift)) n \<longleftrightarrow> bit (uint_shl a shift ! m) q"
        using True by (simp add: bit_limbs m_def q_def)
      also have "\<dots> \<longleftrightarrow> shift \<le> n \<and> bit (limbs a) (n - shift)"
      proof (cases "s \<le> q")
        case le: True
        have "(n - shift) div 32 = m - k \<and> (n - shift) mod 32 = q - s" if "k \<le> m"
          by (rule div_mod_32I) (use that le n sh in auto)
        moreover have "shift \<le> n \<longleftrightarrow> k \<le> m" using le n sh s by auto
        ultimately show ?thesis
          using bit_shl [OF True n(2) s, of k] le s True n(2) sh by (auto simp: bit_limbs)
      next
        case gt: False
        have "(n - shift) div 32 = m - k - 1 \<and> (n - shift) mod 32 = q + 32 - s" if "k + 1 \<le> m"
          by (rule div_mod_32I) (use that gt n sh s in auto)
        moreover have "shift \<le> n \<longleftrightarrow> k + 1 \<le> m" using gt n sh s by auto
        ultimately show ?thesis
          using bit_shl [OF True n(2) s, of k] gt s True sh by (auto simp: bit_limbs)
      qed
      finally show ?thesis using l by (simp add: bit_take_bit_iff bit_push_bit_iff)
    next
      case False
      then have "\<not> n < 32 * length a" using n by simp
      with False show ?thesis by (simp add: bit_limbs m_def bit_take_bit_iff)
    qed
  qed
  then show ?thesis by (simp add: take_bit_eq_mod push_bit_eq_mult)
qed

lemma shr_fold:
  assumes "n \<le> length a"
  shows "length (foldl (shr_step a k s) (replicate (length a) 0) [0..<n]) = length a"
    and "m < length a \<Longrightarrow>
         bit (foldl (shr_step a k s) (replicate (length a) 0) [0..<n] ! m) q \<longleftrightarrow>
           (\<exists>i < n. (i = m + k + 1 \<and> s \<noteq> 0 \<and> bit (push_bit (32 - s) (a ! i)) q) \<or>
                    (i = m + k \<and> bit (drop_bit s (a ! i)) q))"
  using assms
proof (induction n)
  case (Suc n)
  let ?p = "foldl (shr_step a k s) (replicate (length a) 0) [0..<n]"
  {
    case 1
    with Suc show ?case by (simp add: shr_step_def Let_def)
  next
    case 2
    have l: "length ?p = length a" using Suc.IH(1) 2 by simp
    have ih: "bit (?p ! m) q \<longleftrightarrow> (\<exists>i < n. (i = m + k + 1 \<and> s \<noteq> 0 \<and> bit (push_bit (32 - s) (a ! i)) q) \<or>
                    (i = m + k \<and> bit (drop_bit s (a ! i)) q))"
      using Suc.IH(2) 2 by simp
    have "bit (shr_step a k s ?p n ! m) q \<longleftrightarrow> bit (?p ! m) q \<or>
        (n = m + k + 1 \<and> s \<noteq> 0 \<and> bit (push_bit (32 - s) (a ! n)) q) \<or>
        (n = m + k \<and> bit (drop_bit s (a ! n)) q)"
      using 2 l by (auto simp: shr_step_def Let_def nth_or_at bit_or_iff)
    then show ?case using ih by (auto simp: less_Suc_eq)
  }
qed simp_all

lemma length_shr [simp]: "length (uint_shr a shift) = length a"
  using shr_fold(1) [of "length a" a] by (simp add: uint_shr_def)

lemma bit_shr:
  assumes "m < length a" and "q < 32" and s: "s < 32"
  shows "bit (uint_shr a (32 * k + s) ! m) q \<longleftrightarrow>
     (if q + s < 32 then m + k < length a \<and> bit (a ! (m + k)) (q + s)
      else m + k + 1 < length a \<and> bit (a ! (m + k + 1)) (q + s - 32))"
proof -
  have "bit (uint_shr a (32 * k + s) ! m) q \<longleftrightarrow>
      (m + k + 1 < length a \<and> s \<noteq> 0 \<and> bit (push_bit (32 - s) (a ! (m + k + 1))) q) \<or>
      (m + k < length a \<and> bit (drop_bit s (a ! (m + k))) q)"
    using shr_fold(2) [of "length a" a m k s q] assms by (auto simp: uint_shr_def)
  also have "\<dots> \<longleftrightarrow> (if q + s < 32 then m + k < length a \<and> bit (a ! (m + k)) (q + s)
      else m + k + 1 < length a \<and> bit (a ! (m + k + 1)) (q + s - 32))"
    using assms bit_u32_less [of "a ! (m + k)" "q + s"]
    by (auto simp: bit_push_bit_iff bit_drop_bit_eq add.commute)
  finally show ?thesis .
qed

lemma limbs_shr: "limbs (uint_shr a shift) = limbs a div 2 ^ shift"
proof -
  define k s where "k = shift div 32" and "s = shift mod 32"
  have sh: "shift = 32 * k + s" and s: "s < 32" by (simp_all add: k_def s_def)
  have "limbs (uint_shr a shift) = drop_bit shift (limbs a)"
  proof (rule bit_eqI)
    fix n :: nat
    define m q where "m = n div 32" and "q = n mod 32"
    have n: "n = 32 * m + q" "q < 32" by (simp_all add: m_def q_def)
    have "(n + shift) div 32 = m + k \<and> (n + shift) mod 32 = q + s" if "q + s < 32"
      by (rule div_mod_32I) (use that n sh in auto)
    moreover have "(n + shift) div 32 = m + k + 1 \<and> (n + shift) mod 32 = q + s - 32" if "\<not> q + s < 32"
      by (rule div_mod_32I) (use that n sh s in auto)
    moreover have "bit (limbs (uint_shr a shift)) n \<longleftrightarrow> m < length a \<and> bit (uint_shr a shift ! m) q"
      by (simp add: bit_limbs m_def q_def)
    ultimately show "bit (limbs (uint_shr a shift)) n \<longleftrightarrow> bit (drop_bit shift (limbs a)) n"
      using bit_shr [OF _ n(2) s, of m a k] sh
      by (cases "q + s < 32") (auto simp: bit_drop_bit_eq bit_limbs add.commute)
  qed
  then show ?thesis by (simp add: drop_bit_eq_div)
qed

section \<open>The highest bit\<close>

lemma bit_top_iff:
  assumes "unat w < 2 ^ Suc k"
  shows "bit w k \<longleftrightarrow> 2 ^ k \<le> unat w"
proof -
  have "unat w div 2 ^ k = (if 2 ^ k \<le> unat w then 1 else 0)"
    using assms by (auto intro!: div_nat_eqI)
  then have "bit (unat w) k \<longleftrightarrow> 2 ^ k \<le> unat w" by (simp add: bit_iff_odd)
  then show ?thesis by (simp add: bit_unat)
qed

lemma high_bit_spec:
  assumes "unat w < 2 ^ Suc n" and "w \<noteq> 0"
  shows "unat w < 2 ^ high_bit w n \<and> 2 ^ (high_bit w n - 1) \<le> unat w \<and> 1 \<le> high_bit w n"
  using assms
proof (induction w n rule: high_bit.induct)
  case (1 w)
  then show ?case by (simp add: unat_gt_0 Suc_le_eq)
next
  case (2 w n)
  then show ?case
    using bit_top_iff [of w "Suc n"] and_mask_eq_0_iff_bit [of w "Suc n"]
    by (cases "bit w (Suc n)") auto
qed

lemma bits_spec: "limbs xs < 2 ^ bits xs \<and> (limbs xs \<noteq> 0 \<longrightarrow> 2 ^ (bits xs - 1) \<le> limbs xs \<and> 1 \<le> bits xs)"
proof (induction xs rule: rev_induct)
  case (snoc x xs)
  show ?case
  proof (cases "x = 0")
    case True
    with snoc show ?thesis by (simp add: bits_def limbs_snoc)
  next
    case False
    let ?h = "high_bit x 31" and ?P = "2 ^ (32 * length xs) :: nat"
    have h: "unat x < 2 ^ ?h" "2 ^ (?h - 1) \<le> unat x" "1 \<le> ?h"
      using high_bit_spec [of x 31] unat_u32_less [of x] False by simp_all
    have b: "bits (xs @ [x]) = 32 * length xs + ?h" using False by (simp add: bits_def)
    have "limbs (xs @ [x]) < ?P * (unat x + 1)" using limbs_bound [of xs] by (simp add: limbs_snoc)
    also have "\<dots> \<le> ?P * 2 ^ ?h" using h(1) by (intro mult_le_mono) simp_all
    finally have "limbs (xs @ [x]) < 2 ^ bits (xs @ [x])" by (simp add: b power_add)
    moreover have "2 ^ (bits (xs @ [x]) - 1) \<le> limbs (xs @ [x])"
    proof -
      have "2 ^ (bits (xs @ [x]) - 1) = ?P * 2 ^ (?h - 1)" using h(3) by (simp add: b flip: power_add)
      also have "\<dots> \<le> ?P * unat x" using h(2) by simp
      finally show ?thesis by (simp add: limbs_snoc)
    qed
    ultimately show ?thesis using b h(3) by simp
  qed
qed (simp add: bits_def)

lemma bits_eq_0_iff: "bits xs = 0 \<longleftrightarrow> limbs xs = 0"
proof
  show "limbs xs = 0 \<Longrightarrow> bits xs = 0"
    by (induction xs rule: rev_induct) (simp_all add: bits_def limbs_snoc unat_0_iff)
qed (use bits_spec [of xs] in auto)

lemma bits_le: "bits xs \<le> 32 * length xs"
proof (rule ccontr)
  assume "\<not> bits xs \<le> 32 * length xs"
  then have "2 ^ (32 * length xs) \<le> (2 :: nat) ^ (bits xs - 1)" and "bits xs \<noteq> 0"
    by (auto intro!: power_increasing)
  moreover from this(2) have "2 ^ (bits xs - 1) \<le> limbs xs" using bits_spec [of xs] bits_eq_0_iff [of xs] by presburger
  ultimately show False using limbs_bound [of xs] by linarith
qed

section \<open>Division\<close>

lemma limbs_set_bit:
  assumes "2 ^ Suc n dvd limbs xs" and "n < 32 * length xs"
  shows "limbs (or_at xs (n div 32) (push_bit (n mod 32) 1)) = limbs xs + 2 ^ n"
proof -
  have nb: "\<not> bit (limbs xs) n"
    using assms(1) by (auto simp: bit_iff_odd elim!: dvdE)
  have l: "n div 32 < length xs" using assms(2) by (simp add: less_mult_imp_div_less mult.commute)
  have "limbs (or_at xs (n div 32) (push_bit (n mod 32) 1)) = limbs xs OR 2 ^ n"
  proof (rule bit_eqI)
    fix m :: nat
    have "m div 32 = n div 32 \<and> m mod 32 = n mod 32 \<longleftrightarrow> m = n" by (metis mult_div_mod_eq)
    then show "bit (limbs (or_at xs (n div 32) (push_bit (n mod 32) 1))) m \<longleftrightarrow> bit (limbs xs OR 2 ^ n) m"
      using l by (auto simp: bit_limbs nth_or_at bit_or_iff bit_push_bit_iff bit_exp_iff bit_1_iff split: if_splits)
  qed
  also have "\<dots> = limbs xs + 2 ^ n"
    by (rule disjunctive_add [symmetric]) (use nb in \<open>auto simp: bit_exp_iff\<close>)
  finally show ?thesis .
qed

text \<open>The loop invariant of \<open>operator/=\<close>: \<open>dv\<close> is the divisor shifted by the current \<open>shift\<close>, the
  remainder is below twice that, and the quotient so far is a multiple of \<open>2 ^ (shift + 1)\<close>.\<close>

definition div_inv :: "nat \<Rightarrow> nat \<Rightarrow> nat \<Rightarrow> base_uint \<Rightarrow> base_uint \<Rightarrow> base_uint \<Rightarrow> bool" where
  "div_inv d w n num dv pn \<longleftrightarrow>
     length num = w \<and> length dv = w \<and> length pn = w \<and> 0 < d \<and> n \<le> 32 * w \<and>
     (n \<noteq> 0 \<longrightarrow> limbs dv = d * 2 ^ (n - 1)) \<and> limbs num < d * 2 ^ n \<and> 2 ^ n dvd limbs pn"

lemma div_step:
  assumes inv: "div_inv d w (Suc n) num dv pn" and ge: "ge \<longleftrightarrow> CompareTo num dv \<ge> 0"
    and num': "num' = (if ge then uint_sub num dv else num)"
    and pn': "pn' = (if ge then or_at pn (n div 32) (push_bit (n mod 32) 1) else pn)"
  shows "div_inv d w n num' (uint_shr dv 1) pn'"
    and "limbs pn' * d + limbs num' = limbs pn * d + limbs num"
proof -
  have l: "length num = w" "length dv = w" "length pn = w" and dv: "limbs dv = d * 2 ^ n"
    and lt: "limbs num < d * 2 ^ Suc n" and n: "Suc n \<le> 32 * w" and dvd: "2 ^ Suc n dvd limbs pn"
    and d: "0 < d"
    using inv by (auto simp: div_inv_def)
  have ge': "ge \<longleftrightarrow> d * 2 ^ n \<le> limbs num"
    using CompareTo_limbs [of num dv] l dv ge by auto
  have num: "limbs num' < d * 2 ^ n" "limbs num = limbs num' + (if ge then d * 2 ^ n else 0)"
    unfolding num' using ge' lt limbs_sub_ge [of num dv] l dv by (auto simp: algebra_simps)
  have pn: "limbs pn' = limbs pn + (if ge then 2 ^ n else 0)"
    unfolding pn' using limbs_set_bit [of n pn] dvd n l by simp
  have "2 ^ n dvd limbs pn'"
    using dvd unfolding pn by (auto intro: dvd_add dvd_trans [OF le_imp_power_dvd])
  moreover have "n \<noteq> 0 \<longrightarrow> limbs (uint_shr dv 1) = d * 2 ^ (n - 1)"
    using dv by (cases n) (simp_all add: limbs_shr)
  moreover have "length num' = w" "length pn' = w" using l by (simp_all add: num' pn')
  ultimately show "div_inv d w n num' (uint_shr dv 1) pn'"
    using num(1) n l d by (simp add: div_inv_def)
  show "limbs pn' * d + limbs num' = limbs pn * d + limbs num"
    unfolding pn num(2) by (simp add: algebra_simps)
qed

lemma div_loop_spec:
  assumes "div_inv d w n num dv pn" and "div_loop n num dv pn = (q, r)"
  shows "limbs q * d + limbs r = limbs pn * d + limbs num \<and> limbs r < d \<and> length q = w"
  using assms
proof (induction n num dv pn rule: div_loop.induct)
  case (1 num dv pn)
  then show ?case by (simp add: div_inv_def)
next
  case (2 n num dv pn)
  let ?ge = "CompareTo num dv \<ge> 0"
  let ?num = "if ?ge then uint_sub num dv else num"
  let ?pn = "if ?ge then or_at pn (n div 32) (push_bit (n mod 32) 1) else pn"
  note st = div_step [OF "2.prems"(1) refl refl refl]
  have "div_loop n ?num (uint_shr dv 1) ?pn = (q, r)" using "2.prems"(2) by (simp only: div_loop.simps Let_def)
  from "2.IH" [OF refl refl refl st(1) this] st(2) show ?case by linarith
qed

lemma limbs_div:
  assumes "length xs = w" and "length ys = w" and "limbs ys \<noteq> 0"
  shows "\<exists>q. uint_div xs ys = Some q \<and> length q = w \<and> limbs q = limbs xs div limbs ys"
proof (cases "bits ys > bits xs")
  case True
  have "limbs xs < 2 ^ bits xs" using bits_spec by blast
  also have "\<dots> \<le> 2 ^ (bits ys - 1)" using True by (intro power_increasing) auto
  also have "\<dots> \<le> limbs ys" using bits_spec assms(3) by blast
  finally show ?thesis
    using True assms by (simp add: uint_div_def Let_def bits_eq_0_iff)
next
  case False
  define sh where "sh = bits xs - bits ys"
  have b: "limbs ys < 2 ^ bits ys" "2 ^ (bits ys - 1) \<le> limbs ys" "1 \<le> bits ys"
    using bits_spec [of ys] assms(3) by auto
  have "limbs ys * 2 ^ sh < 2 ^ bits ys * 2 ^ sh" using b(1) by simp
  also have "\<dots> = 2 ^ bits xs" using False by (simp add: sh_def flip: power_add)
  also have "\<dots> \<le> 2 ^ (32 * w)" using bits_le [of xs] assms(1) by (intro power_increasing) auto
  finally have dv: "limbs (uint_shl ys sh) = limbs ys * 2 ^ sh" using assms(2) by (simp add: limbs_shl)
  have "limbs xs < 2 ^ bits xs" using bits_spec by blast
  also have "\<dots> = 2 ^ (bits ys - 1) * 2 ^ Suc sh" using False b(3) by (simp add: sh_def flip: power_add power_Suc)
  also have "\<dots> \<le> limbs ys * 2 ^ Suc sh" using b(2) by simp
  finally have lt: "limbs xs < limbs ys * 2 ^ Suc sh" .
  have "sh < 32 * w" using bits_le [of xs] assms(1) b(3) False by (simp add: sh_def)
  then have inv: "div_inv (limbs ys) w (Suc sh) xs (uint_shl ys sh) (replicate (length xs) 0)"
    using assms dv lt by (simp add: div_inv_def)
  obtain q r where qr: "div_loop (Suc sh) xs (uint_shl ys sh) (replicate (length xs) 0) = (q, r)" by fastforce
  have s: "limbs q * limbs ys + limbs r = limbs xs" "limbs r < limbs ys" "length q = w"
    using div_loop_spec [OF inv qr] by simp_all
  have "limbs q = limbs xs div limbs ys"
    using s(1,2) by (metis div_nat_eqI le_add1 add.commute mult.commute mult_Suc nat_add_left_cancel_less)
  then show ?thesis
    using False s(3) qr assms(3) by (simp add: uint_div_def Let_def bits_eq_0_iff sh_def del: div_loop.simps)
qed

end
