(* ===== verification/Compact.thy ===== *)
theory Compact
  imports Arith_Uint256
begin

unbundle bit_operations_syntax

text \<open>
  The "compact" encoding of difficulty targets (\<open>nBits\<close>): what \<open>SetCompact\<close> and \<open>GetCompact\<close>
  compute on numbers, and how they invert each other.
\<close>

section \<open>Decoding\<close>

definition compact_size :: "u32 \<Rightarrow> nat" where
  "compact_size c = unat c div 2 ^ 24"

definition compact_mantissa :: "u32 \<Rightarrow> nat" where
  "compact_mantissa c = unat c mod 2 ^ 23"

text \<open>The number a compact value denotes, before any 256-bit limit.\<close>

definition compact_value :: "u32 \<Rightarrow> nat" where
  "compact_value c = compact_mantissa c * 256 ^ compact_size c div 256 ^ 3"

lemma compact_mantissa_less: "compact_mantissa c < 2 ^ 23"
  by (simp add: compact_mantissa_def)

lemma compact_value_small:
  assumes "compact_size c \<le> 3"
  shows "compact_value c = compact_mantissa c div 2 ^ (8 * (3 - compact_size c))"
proof -
  have e: "(256 :: nat) ^ 3 = 256 ^ compact_size c * 256 ^ (3 - compact_size c)"
    using assms by (simp flip: power_add)
  show ?thesis
    unfolding compact_value_def e by (simp add: mult.commute [of "compact_mantissa c"] power_mult)
qed

lemma compact_value_large:
  assumes "3 < compact_size c"
  shows "compact_value c = compact_mantissa c * 2 ^ (8 * (compact_size c - 3))"
proof -
  have "(256 :: nat) ^ compact_size c = 256 ^ (compact_size c - 3) * 256 ^ 3"
    using assms power_add [of "256 :: nat" "compact_size c - 3" 3] by simp
  then have "compact_value c = compact_mantissa c * 256 ^ (compact_size c - 3)"
    by (simp add: compact_value_def flip: mult.assoc)
  then show ?thesis by (simp add: power_mult)
qed

lemma limbs_u64: "limbs (base_uint_u64 b) = unat b" and length_u64: "length (base_uint_u64 b) = WIDTH"
proof -
  have "unat (ucast b :: u32) = unat b mod 2 ^ 32" by (simp add: unat_ucast)
  moreover have "unat (ucast (drop_bit 32 b) :: u32) = unat b div 2 ^ 32"
    using unat_lt2p [of b] by (simp add: unat_ucast unat_carry less_mult_imp_div_less)
  ultimately show "limbs (base_uint_u64 b) = unat b" by (simp add: base_uint_u64_def)
  show "length (base_uint_u64 b) = WIDTH" by (simp add: base_uint_u64_def WIDTH_def)
qed

lemma unat_mantissa: "unat (c AND 0x007fffff) = compact_mantissa c" for c :: u32
proof -
  have "c AND 0x007fffff = take_bit 23 c" unfolding take_bit_eq_mask by (simp add: mask_eq_exp_minus_1)
  then show ?thesis
    by (simp only: unsigned_take_bit_eq) (simp add: take_bit_eq_mod compact_mantissa_def)
qed

lemma unat_drop_bit: "unat (drop_bit n w) = unat w div 2 ^ n"
  unfolding unat_drop_bit_eq by (simp add: drop_bit_eq_div)

lemma unat_size: "unat (drop_bit 24 c) = compact_size c" for c :: u32
  unfolding unat_drop_bit_eq by (simp add: drop_bit_eq_div compact_size_def)

lemma sign_bit: "c AND 0x00800000 \<noteq> 0 \<longleftrightarrow> bit c 23" for c :: u32
  using and_mask_eq_0_iff_bit [of c 23] by simp

lemma SetCompact_eq:
  fixes c :: u32
  defines "w \<equiv> (if compact_size c \<le> 3 then compact_value c else compact_mantissa c)"
  obtains t where "SetCompact c =
      (t, w \<noteq> 0 \<and> bit c 23,
       w \<noteq> 0 \<and> (compact_size c > 34 \<or> (w > 0xff \<and> compact_size c > 33) \<or> (w > 0xffff \<and> compact_size c > 32)))"
    and "wf_uint t" and "limbs t = compact_value c mod 2 ^ 256"
proof -
  let ?nw = "if compact_size c \<le> 3 then drop_bit (8 * (3 - compact_size c)) (c AND 0x007fffff) else c AND 0x007fffff"
  have nw: "unat ?nw = w"
    by (cases "compact_size c \<le> 3")
       (simp_all only: w_def if_True if_False unat_drop_bit compact_value_small unat_mantissa)
  define t where "t = (if compact_size c \<le> 3 then base_uint_u64 (ucast ?nw)
                else uint_shl (base_uint_u64 (ucast ?nw)) (8 * (compact_size c - 3)))"
  have cmp: "?nw \<noteq> 0 \<longleftrightarrow> w \<noteq> 0" "?nw > 0xff \<longleftrightarrow> w > 0xff" "?nw > 0xffff \<longleftrightarrow> w > 0xffff"
    unfolding nw [symmetric] by (simp_all only: word_less_nat_alt unat_0_iff) simp_all
  have "SetCompact c =
      (t, w \<noteq> 0 \<and> bit c 23,
       w \<noteq> 0 \<and> (compact_size c > 34 \<or> (w > 0xff \<and> compact_size c > 33) \<or> (w > 0xffff \<and> compact_size c > 32)))"
    unfolding SetCompact_def Let_def unat_size cmp [symmetric] sign_bit t_def by simp
  moreover have "wf_uint t" by (simp add: t_def wf_uint_def length_u64)
  moreover have "limbs t = compact_value c mod 2 ^ 256"
  proof (cases "compact_size c \<le> 3")
    case True
    have "compact_value c \<le> compact_mantissa c" using True by (simp add: compact_value_small)
    then have "compact_value c < 2 ^ 23" using compact_mantissa_less [of c] by linarith
    then show ?thesis using True nw by (simp add: t_def limbs_u64 w_def)
  next
    case False
    then show ?thesis
      using nw by (simp add: t_def limbs_shl limbs_u64 length_u64 WIDTH_def compact_value_large w_def)
  qed
  ultimately show thesis by (rule that)
qed

text \<open>The overflow flag is exact: it is set exactly when the denoted number does not fit.\<close>

lemma compact_overflow_iff:
  fixes c :: u32
  defines "w \<equiv> (if compact_size c \<le> 3 then compact_value c else compact_mantissa c)"
  shows "w \<noteq> 0 \<and> (compact_size c > 34 \<or> (w > 0xff \<and> compact_size c > 33) \<or> (w > 0xffff \<and> compact_size c > 32))
     \<longleftrightarrow> 2 ^ 256 \<le> compact_value c"
proof -
  note m = compact_mantissa_less [of c]
  consider (small) "compact_size c \<le> 32" | (s33) "compact_size c = 33" | (s34) "compact_size c = 34"
    | (large) "34 < compact_size c" by linarith
  then show ?thesis
  proof cases
    case small
    have "compact_value c < 2 ^ 256"
    proof (cases "compact_size c \<le> 3")
      case True
      then have "compact_value c \<le> compact_mantissa c" by (simp add: compact_value_small)
      with m have "compact_value c < 2 ^ 23" by linarith
      then show ?thesis by simp
    next
      case False
      have "compact_value c < 2 ^ 23 * 2 ^ (8 * (compact_size c - 3))"
        using m False by (simp add: compact_value_large)
      also have "\<dots> = 2 ^ (23 + 8 * (compact_size c - 3))" by (simp add: power_add)
      also have "\<dots> \<le> 2 ^ 256" using small by (intro power_increasing) auto
      finally show ?thesis .
    qed
    then show ?thesis using small by auto
  next
    case s33
    then show ?thesis by (auto simp: w_def compact_value_large)
  next
    case s34
    then show ?thesis by (auto simp: w_def compact_value_large)
  next
    case large
    have "2 ^ 256 \<le> compact_value c" if "compact_mantissa c \<noteq> 0"
    proof -
      have "(2 :: nat) ^ 256 \<le> 2 ^ (8 * (compact_size c - 3))" using large by (intro power_increasing) auto
      also have "\<dots> \<le> compact_mantissa c * 2 ^ (8 * (compact_size c - 3))" using that by simp
      finally show ?thesis using large by (simp add: compact_value_large)
    qed
    then show ?thesis
      using large by (cases "compact_mantissa c = 0") (auto simp: w_def compact_value_large)
  qed
qed

lemma compact_word_nonzero:
  "(if compact_size c \<le> 3 then compact_value c else compact_mantissa c) \<noteq> 0 \<longleftrightarrow> compact_value c \<noteq> 0"
  by (auto simp: compact_value_large)

text \<open>What \<open>SetCompact\<close> computes, as one equation.\<close>

lemma SetCompact_value:
  obtains t where "SetCompact c = (t, compact_value c \<noteq> 0 \<and> bit c 23, 2 ^ 256 \<le> compact_value c)"
    and "wf_uint t" and "limbs t = compact_value c mod 2 ^ 256"
  by (rule SetCompact_eq [of c, unfolded compact_overflow_iff, unfolded compact_word_nonzero]) (rule that)

section \<open>Encoding\<close>

lemma GetLow64_limbs:
  assumes "wf_uint a" and "limbs a < 2 ^ 64"
  shows "unat (GetLow64 a) = limbs a"
proof -
  obtain x y ys where a: "a = x # y # ys"
    using assms(1) by (cases a; cases "tl a") (auto simp: wf_uint_def WIDTH_def)
  have l: "limbs a = unat x + 2 ^ 32 * unat y + 2 ^ 64 * limbs ys" by (simp add: a algebra_simps)
  with assms(2) have ys: "limbs ys = 0" by simp
  have "unat (ucast x OR push_bit 32 (ucast y) :: u64) = unat x + unat y * 2 ^ 32"
    using unat_or_push_bit [of "ucast x :: u64" 32 "ucast y"] unat_u32_less [of x] unat_u32_less [of y] by simp
  with l ys show ?thesis by (simp add: a GetLow64_def)
qed

text \<open>The size and mantissa \<open>GetCompact\<close> produces.\<close>

definition enc_size :: "nat \<Rightarrow> nat \<Rightarrow> nat" where
  "enc_size b m = (if 2 ^ 23 \<le> m then (b + 7) div 8 + 1 else (b + 7) div 8)"

definition raw_mantissa :: "nat \<Rightarrow> nat \<Rightarrow> nat" where
  "raw_mantissa v b =
     (let n = (b + 7) div 8 in if n \<le> 3 then v * 256 ^ (3 - n) else v div 256 ^ (n - 3))"

lemma raw_mantissa_less:
  assumes "v < 2 ^ b"
  shows "raw_mantissa v b < 2 ^ 24"
proof -
  define n where "n = (b + 7) div 8"
  have "b \<le> 8 * n" by (simp add: n_def)
  then have "(2 :: nat) ^ b \<le> 256 ^ n" using power_increasing [of b "8 * n" "2 :: nat"] by (simp add: power_mult)
  with assms have v: "v < 256 ^ n" by linarith
  show ?thesis
  proof (cases "n \<le> 3")
    case True
    have "v * 256 ^ (3 - n) < 256 ^ n * 256 ^ (3 - n)" using v by simp
    also have "\<dots> = 2 ^ 24" using True by (simp flip: power_add)
    finally show ?thesis using True by (simp add: raw_mantissa_def Let_def n_def [symmetric])
  next
    case False
    have "(256 :: nat) ^ n = 2 ^ 24 * 256 ^ (n - 3)"
      using False power_add [of "256 :: nat" 3 "n - 3"] by simp
    with v have "v div 256 ^ (n - 3) < 2 ^ 24" by (simp add: less_mult_imp_div_less)
    with False show ?thesis by (simp add: raw_mantissa_def Let_def n_def [symmetric])
  qed
qed

definition enc_mantissa :: "nat \<Rightarrow> nat" where
  "enc_mantissa m = (if 2 ^ 23 \<le> m then m div 256 else m)"

lemma enc_mantissa_less: "m < 2 ^ 24 \<Longrightarrow> enc_mantissa m < 2 ^ 23"
  by (auto simp: enc_mantissa_def)

lemma raw_mantissa_word:
  fixes a :: base_uint
  assumes "wf_uint a"
  defines "n \<equiv> (bits a + 7) div 8"
  shows "unat (if n \<le> 3 then ucast (push_bit (8 * (3 - n)) (GetLow64 a))
               else ucast (GetLow64 (uint_shr a (8 * (n - 3)))) :: u32) = raw_mantissa (limbs a) (bits a)"
proof -
  have v: "limbs a < 2 ^ bits a" using bits_spec by blast
  note m = raw_mantissa_less [OF v]
  have p: "(256 :: nat) ^ k = 2 ^ (8 * k)" for k by (simp add: power_mult)
  show ?thesis
  proof (cases "n \<le> 3")
    case True
    have r: "raw_mantissa (limbs a) (bits a) = limbs a * 2 ^ (8 * (3 - n))"
      using True by (simp add: raw_mantissa_def Let_def n_def [symmetric] p)
    have "limbs a < 2 ^ 24"
      using m [unfolded r] by (rule le_less_trans [rotated]) simp
    then have low: "unat (GetLow64 a) = limbs a" using assms(1) by (intro GetLow64_limbs) auto
    have "unat (push_bit (8 * (3 - n)) (GetLow64 a)) = limbs a * 2 ^ (8 * (3 - n))"
      unfolding low [symmetric] by (rule unat_push_bit) (use m r low in simp)
    then show ?thesis using True m r by (simp add: unat_ucast)
  next
    case False
    have r: "raw_mantissa (limbs a) (bits a) = limbs a div 2 ^ (8 * (n - 3))"
      using False by (simp add: raw_mantissa_def Let_def n_def [symmetric] p)
    have "unat (GetLow64 (uint_shr a (8 * (n - 3)))) = limbs a div 2 ^ (8 * (n - 3))"
      using assms(1) m r GetLow64_limbs [of "uint_shr a (8 * (n - 3))"] by (simp add: wf_uint_def limbs_shr)
    then show ?thesis using False m r by (simp add: unat_ucast)
  qed
qed

lemma and_not_low23: "unat w < 2 ^ 23 \<Longrightarrow> w AND NOT 0x007fffff = 0" for w :: u32
proof -
  assume w: "unat w < 2 ^ 23"
  have m: "(0x007fffff :: u32) = mask 23" by (simp add: mask_eq_exp_minus_1)
  show ?thesis unfolding m
    by (rule bit_word_eqI) (use bit_word_less_2p [OF w] in \<open>auto simp: bit_simps\<close>)
qed

lemma GetCompact_eq:
  fixes a :: base_uint
  assumes "wf_uint a"
  defines "m \<equiv> raw_mantissa (limbs a) (bits a)"
  shows "\<exists>c. GetCompact a False = Some c \<and> unat c = enc_size (bits a) m * 2 ^ 24 + enc_mantissa m"
proof -
  define n where "n = (bits a + 7) div 8"
  define w where "w = (if n \<le> 3 then ucast (push_bit (8 * (3 - n)) (GetLow64 a))
               else ucast (GetLow64 (uint_shr a (8 * (n - 3)))) :: u32)"
  have w: "unat w = m" unfolding w_def n_def m_def by (rule raw_mantissa_word [OF assms(1)])
  have m24: "m < 2 ^ 24" unfolding m_def by (rule raw_mantissa_less) (use bits_spec in blast)
  have cy: "w AND 0x00800000 \<noteq> 0 \<longleftrightarrow> 2 ^ 23 \<le> m"
    using sign_bit [of w] bit_top_iff [of w 23] w m24 by simp
  define w' where "w' = (if w AND 0x00800000 \<noteq> 0 then drop_bit 8 w else w)"
  have w': "unat w' = enc_mantissa m"
    unfolding w'_def cy by (simp add: enc_mantissa_def unat_drop_bit w)
  define s where "s = (if w AND 0x00800000 \<noteq> 0 then n + 1 else n)"
  have s: "s = enc_size (bits a) m" unfolding s_def cy by (simp add: enc_size_def n_def)
  have "bits a \<le> 256" using bits_le [of a] assms(1) by (simp add: wf_uint_def WIDTH_def)
  then have s33: "s \<le> 33" by (auto simp: s_def n_def)
  have m23: "enc_mantissa m < 2 ^ 23" using m24 by (rule enc_mantissa_less)
  have "GetCompact a False = Some (w' OR push_bit 24 (of_nat s))"
    unfolding GetCompact_def Let_def n_def [symmetric] w_def [symmetric] w'_def [symmetric] s_def [symmetric]
    using and_not_low23 [of w'] w' m23 s33 by simp
  moreover have "unat (w' OR push_bit 24 (of_nat s :: u32)) = unat w' + unat (of_nat s :: u32) * 2 ^ 24"
    by (rule unat_or_push_bit) (use w' m23 s33 in \<open>auto simp: unat_of_nat\<close>)
  ultimately show ?thesis using w' s s33 by (simp add: unat_of_nat)
qed

section \<open>Decoding what was encoded\<close>

lemma compact_fields:
  assumes "unat c = s * 2 ^ 24 + m" and "m < 2 ^ 23"
  shows "compact_size c = s" "compact_mantissa c = m" "\<not> bit c 23"
proof -
  show "compact_size c = s" using assms by (simp add: compact_size_def)
  have "unat c mod 2 ^ 23 = m" using assms mod_mult_self3 [of "s * 2" "2 ^ 23" m] by (simp add: mult.commute)
  then show "compact_mantissa c = m" by (simp add: compact_mantissa_def)
  have "unat c div 2 ^ 23 = s * 2"
    using assms by (intro div_nat_eqI) auto
  then have "\<not> bit (unat c) 23" by (simp add: bit_iff_odd)
  then show "\<not> bit c 23" by (simp add: bit_unat)
qed

text \<open>Encoding drops whole low bytes, so that at least 15 significant bits remain.\<close>

lemma encoded_value:
  fixes v b :: nat
  assumes v: "v < 2 ^ b" "v \<noteq> 0 \<Longrightarrow> 2 ^ (b - 1) \<le> v" "v = 0 \<longleftrightarrow> b = 0"
  defines "m \<equiv> raw_mantissa v b"
  defines "k \<equiv> enc_size b m - 3"
  shows "enc_mantissa m * 256 ^ enc_size b m div 256 ^ 3 = v div 256 ^ k * 256 ^ k"
    and "0 < k \<Longrightarrow> 2 ^ 15 * 256 ^ k \<le> v"
proof -
  define n where "n = (b + 7) div 8"
  have m: "m = (if n \<le> 3 then v * 256 ^ (3 - n) else v div 256 ^ (n - 3))"
    by (simp add: m_def raw_mantissa_def Let_def n_def)
  have s: "enc_size b m = (if 2 ^ 23 \<le> m then n + 1 else n)" by (simp add: enc_size_def n_def)
  have n1: "256 ^ (n - 1) \<le> v" if "0 < n"
  proof -
    have "v \<noteq> 0" using v(3) that by (auto simp: n_def)
    then have "2 ^ (b - 1) \<le> v" by (rule v(2))
    moreover have "8 * (n - 1) \<le> b - 1" using that by (simp add: n_def)
    then have "(2 :: nat) ^ (8 * (n - 1)) \<le> 2 ^ (b - 1)" by (intro power_increasing) auto
    ultimately show ?thesis by (simp add: power_mult)
  qed
  have big: "enc_mantissa m * 256 ^ enc_size b m div 256 ^ 3 = v div 256 ^ k * 256 ^ k \<and>
      (0 < k \<longrightarrow> 2 ^ 15 * 256 ^ k \<le> v)"
  proof (cases "n \<le> 2")
    case True
    then have n3: "n \<le> 3" "k = 0" using s by (auto simp: k_def)
    have e: "enc_mantissa m * 256 ^ enc_size b m = v * 256 ^ 3"
    proof (cases "2 ^ 23 \<le> m")
      case c: True
      have "m div 256 = v * 256 ^ (2 - n)"
        using True power_add [of "256 :: nat" "2 - n" 1] by (simp add: m Suc_diff_le numeral_3_eq_3 numeral_2_eq_2)
      then have "enc_mantissa m * 256 ^ enc_size b m = v * (256 ^ (2 - n) * 256 ^ (n + 1))"
        using c s by (simp add: enc_mantissa_def)
      also have "256 ^ (2 - n) * 256 ^ (n + 1) = (256 :: nat) ^ 3"
        using True by (simp only: power_add [symmetric]) simp
      finally show ?thesis .
    next
      case c: False
      then have "enc_mantissa m * 256 ^ enc_size b m = v * (256 ^ (3 - n) * 256 ^ n)"
        using n3 s by (simp add: enc_mantissa_def m)
      also have "256 ^ (3 - n) * 256 ^ n = (256 :: nat) ^ 3"
        using n3 by (simp only: power_add [symmetric]) simp
      finally show ?thesis .
    qed
    show ?thesis unfolding e n3(2) by simp
  next
    case False
    have m': "m = v div 256 ^ (n - 3)" using False by (cases "n = 3") (auto simp: m)
    have lo: "2 ^ 16 \<le> m"
    proof -
      have "n - 1 = 2 + (n - 3)" using False by simp
      then have "(2 :: nat) ^ 16 * 256 ^ (n - 3) = 256 ^ (n - 1)" by (simp only: power_add) simp
      then show ?thesis unfolding m' using n1 False by (simp add: less_eq_div_iff_mult_less_eq)
    qed
    have em: "enc_mantissa m = v div 256 ^ k"
    proof (cases "2 ^ 23 \<le> m")
      case True
      then have "k = Suc (n - 3)" using False s by (simp add: k_def)
      then show ?thesis using True by (simp add: enc_mantissa_def m' mult.commute flip: div_mult2_eq)
    qed (use s in \<open>simp add: enc_mantissa_def m' k_def\<close>)
    have em15: "2 ^ 15 \<le> enc_mantissa m" using lo by (auto simp: enc_mantissa_def)
    have "enc_size b m = k + 3" using False s by (simp add: k_def)
    then have "enc_mantissa m * 256 ^ enc_size b m div 256 ^ 3 = v div 256 ^ k * 256 ^ k"
      by (simp add: em power_add flip: mult.assoc)
    moreover have "2 ^ 15 * 256 ^ k \<le> v"
      using em15 unfolding em by (simp add: less_eq_div_iff_mult_less_eq)
    ultimately show ?thesis by blast
  qed
  then show "enc_mantissa m * 256 ^ enc_size b m div 256 ^ 3 = v div 256 ^ k * 256 ^ k"
    and "0 < k \<Longrightarrow> 2 ^ 15 * 256 ^ k \<le> v" by blast+
qed

lemma GetCompact_decodes:
  assumes "wf_uint a"
  obtains c k where "GetCompact a False = Some c" and "compact_value c = limbs a div 256 ^ k * 256 ^ k"
    and "0 < k \<longrightarrow> 2 ^ 15 * 256 ^ k \<le> limbs a" and "\<not> bit c 23"
proof -
  let ?m = "raw_mantissa (limbs a) (bits a)"
  have v: "limbs a < 2 ^ bits a" "limbs a \<noteq> 0 \<Longrightarrow> 2 ^ (bits a - 1) \<le> limbs a" "limbs a = 0 \<longleftrightarrow> bits a = 0"
    using bits_spec [of a] bits_eq_0_iff [of a] by auto
  obtain c where c: "GetCompact a False = Some c" "unat c = enc_size (bits a) ?m * 2 ^ 24 + enc_mantissa ?m"
    using GetCompact_eq [OF assms] by blast
  note f = compact_fields [OF c(2) enc_mantissa_less [OF raw_mantissa_less [OF v(1)]]]
  show thesis
    by (rule that [OF c(1), of "enc_size (bits a) ?m - 3"])
       (use encoded_value [OF v] f in \<open>auto simp: compact_value_def\<close>)
qed

lemma compact_value_le_bound:
  assumes "compact_value c \<noteq> 0"
  shows "\<exists>j. compact_value c < 2 ^ 23 * 256 ^ j \<and> 256 ^ j dvd compact_value c"
proof (cases "compact_size c \<le> 3")
  case True
  have "compact_value c \<le> compact_mantissa c" using True by (simp add: compact_value_small)
  then have "compact_value c < 2 ^ 23" using compact_mantissa_less [of c] by linarith
  then show ?thesis by (intro exI [of _ 0]) simp
next
  case False
  then show ?thesis
    using compact_mantissa_less [of c]
    by (intro exI [of _ "compact_size c - 3"]) (simp add: compact_value_large power_mult)
qed

text \<open>C21: \<open>SetCompact\<close> decodes exactly: with mantissa and size read off the 32-bit value, the
  overflow flag is set exactly when the denoted number does not fit into 256 bits, the negative
  flag exactly when the sign bit is set on a non-zero number, and the result is the denoted
  number modulo \<open>2 ^ 256\<close>, hence the number itself when the flag is clear.\<close>

theorem SetCompact_exact:
  "\<exists>t. SetCompact c = (t, compact_value c \<noteq> 0 \<and> bit c 23, 2 ^ 256 \<le> compact_value c) \<and> wf_uint t \<and>
       limbs t = compact_value c mod 2 ^ 256"
proof -
  obtain t where "SetCompact c = (t, compact_value c \<noteq> 0 \<and> bit c 23, 2 ^ 256 \<le> compact_value c)"
    "wf_uint t" "limbs t = compact_value c mod 2 ^ 256" by (rule SetCompact_value)
  then show ?thesis by (intro exI [of _ t]) simp
qed

text \<open>Encoding a target never fails an assertion, and decoding the result gives a target that
  is not larger and differs by a relative error of at most \<open>2 ^ -15\<close>, without the negative or
  overflow flag.\<close>

theorem GetCompact_precision:
  assumes "wf_uint a"
  shows "\<exists>c t. GetCompact a False = Some c \<and> SetCompact c = (t, False, False) \<and>
           limbs t \<le> limbs a \<and> 2 ^ 15 * (limbs a - limbs t) \<le> limbs a"
proof -
  obtain c k where c: "GetCompact a False = Some c" "compact_value c = limbs a div 256 ^ k * 256 ^ k"
    "0 < k \<longrightarrow> 2 ^ 15 * 256 ^ k \<le> limbs a" "\<not> bit c 23" by (rule GetCompact_decodes [OF assms])
  have le: "compact_value c \<le> limbs a" using c(2) by simp
  have "limbs a < 2 ^ 256" using limbs_bound [of a] assms by (simp add: wf_uint_def WIDTH_def)
  then have lt: "compact_value c < 2 ^ 256" using le by linarith
  obtain t where t: "SetCompact c = (t, compact_value c \<noteq> 0 \<and> bit c 23, 2 ^ 256 \<le> compact_value c)"
    "limbs t = compact_value c mod 2 ^ 256" using SetCompact_value [of c] by blast
  have "limbs a - compact_value c = limbs a mod 256 ^ k" using c(2) by (simp add: minus_div_mult_eq_mod)
  also have "2 ^ 15 * \<dots> \<le> limbs a"
  proof (cases "k = 0")
    case False
    have "2 ^ 15 * (limbs a mod 256 ^ k) \<le> 2 ^ 15 * 256 ^ k" by simp
    with c(3) False show ?thesis by linarith
  qed simp
  finally have "2 ^ 15 * (limbs a - compact_value c) \<le> limbs a" .
  moreover have "limbs t = compact_value c" using t(2) lt by simp
  ultimately show ?thesis using c(1,4) t(1) le lt by (intro exI [of _ c] exI [of _ t]) simp
qed

theorem GetCompact_precision_witness:
  "\<exists>c t. GetCompact (base_uint_u64 0x123456789) False = Some c \<and> SetCompact c = (t, False, False) \<and>
         limbs t \<le> 0x123456789"
proof -
  have "wf_uint (base_uint_u64 0x123456789)" by (simp add: wf_uint_def length_u64)
  from GetCompact_precision [OF this] show ?thesis by (auto simp: limbs_u64)
qed

text \<open>C22: re-encoding is stable: a target obtained from a block's \<open>nBits\<close> without flags is encoded
  again to a compact value that decodes to the same target.\<close>

theorem GetCompact_SetCompact:
  assumes "SetCompact c = (t, False, False)"
  shows "\<exists>c'. GetCompact t False = Some c' \<and> SetCompact c' = (t, False, False)"
proof -
  have t: "wf_uint t" "limbs t = compact_value c" "compact_value c < 2 ^ 256"
    using SetCompact_value [of c] assms by fastforce+
  obtain c' k where c': "GetCompact t False = Some c'" "compact_value c' = limbs t div 256 ^ k * 256 ^ k"
    "0 < k \<longrightarrow> 2 ^ 15 * 256 ^ k \<le> limbs t" "\<not> bit c' 23" by (rule GetCompact_decodes [OF t(1)])
  have "256 ^ k dvd limbs t"
  proof (cases "compact_value c = 0")
    case False
    then obtain j where j: "compact_value c < 2 ^ 23 * 256 ^ j" "256 ^ j dvd compact_value c"
      using compact_value_le_bound by blast
    have "k \<le> j"
    proof (rule ccontr)
      assume "\<not> k \<le> j"
      then have "2 ^ 15 * 256 ^ k \<le> compact_value c" using c'(3) t(2) by simp
      moreover have "(256 :: nat) ^ Suc j \<le> 256 ^ k" using \<open>\<not> k \<le> j\<close> by (intro power_increasing) auto
      ultimately show False using j(1) by simp
    qed
    then show ?thesis using j(2) t(2) by (metis dvd_trans le_imp_power_dvd)
  qed (use t in simp)
  then have v: "compact_value c' = limbs t" using c'(2) by simp
  obtain t' where t': "SetCompact c' = (t', compact_value c' \<noteq> 0 \<and> bit c' 23, 2 ^ 256 \<le> compact_value c')"
    "wf_uint t'" "limbs t' = compact_value c' mod 2 ^ 256" by (rule SetCompact_value)
  have "t' = t"
    by (rule limbs_inj) (use t t' v in \<open>simp_all add: wf_uint_def\<close>)
  then show ?thesis using c'(1,4) t'(1) v t(2,3) by (intro exI [of _ c']) simp
qed

theorem GetCompact_SetCompact_witness:
  "\<exists>c'. GetCompact (fst (SetCompact 0x1d00ffff)) False = Some c' \<and>
        SetCompact c' = (fst (SetCompact 0x1d00ffff), False, False)"
proof -
  have "SetCompact 0x1d00ffff = (fst (SetCompact 0x1d00ffff), False, False)" by code_simp
  then show ?thesis by (rule GetCompact_SetCompact)
qed

end
