(* ===== verification/Chain.thy ===== *)
theory Chain
  imports Block Compact "HOL-Library.Sublist"
begin

unbundle bit_operations_syntax

text \<open>
  \<open>chain.h\<close> and \<open>chain.cpp\<close>: block index entries, the skip list over them and the active chain.

  Entries live in a store from addresses to entries, as they do in the program: a pointer is an
  address or \<open>None\<close>, pointers are compared by address, and reading through an address outside the
  store is the error \<open>NullDeref\<close>.  Loops that follow \<open>pprev\<close> are \<open>partial_function\<close>s, whose
  value is \<open>None\<close> when they do not end; nothing rules out a cyclic store but the invariant.
\<close>

section \<open>Block index entries\<close>

type_synonym ptr = nat

record CBlockIndex =
  phashBlock :: uint256
  pprev :: "ptr option"
  pnext :: "ptr option"
  pskip :: "ptr option"
  nHeight :: nat
  nFile :: int
  nDataPos :: u32
  nUndoPos :: u32
  nChainWork :: base_uint
  nTx :: u32
  nChainTx :: u32
  nStatus :: u32
  bi_nVersion :: int
  hashMerkleRoot :: uint256
  nTime :: u32
  nBits :: u32
  nNonce :: u32
  hashStateRoot :: uint256
  hashUTXORoot :: uint256
  vchBlockSig :: valtype
  nStakeModifier :: uint256
  prevoutStake :: COutPoint
  hashProof :: uint256
  nMoneySupply :: u64
  nSequenceId :: int
  nTimeMax :: u32

type_synonym index_store = "ptr \<rightharpoonup> CBlockIndex"

datatype chain_error = NullDeref | AssertFail | OutOfRange

definition deref :: "index_store \<Rightarrow> ptr \<Rightarrow> chain_error + CBlockIndex" where
  "deref st p = (case st p of None \<Rightarrow> Inl NullDeref | Some b \<Rightarrow> Inr b)"

definition CBlockIndex_of_header :: "CBlockHeader \<Rightarrow> CBlockIndex" where
  "CBlockIndex_of_header block =
     \<lparr>phashBlock = uint256_zero, pprev = None, pnext = None, pskip = None, nHeight = 0, nFile = 0, nDataPos = 0, nUndoPos = 0,
      nChainWork = base_uint_zero, nTx = 0, nChainTx = 0, nStatus = 0, bi_nVersion = hdr_nVersion block,
      hashMerkleRoot = hdr_hashMerkleRoot block, nTime = hdr_nTime block, nBits = hdr_nBits block,
      nNonce = hdr_nNonce block, hashStateRoot = hdr_hashStateRoot block, hashUTXORoot = hdr_hashUTXORoot block,
      vchBlockSig = hdr_vchBlockSig block, nStakeModifier = uint256_zero, prevoutStake = hdr_prevoutStake block,
      hashProof = uint256_zero, nMoneySupply = 0, nSequenceId = 0, nTimeMax = 0\<rparr>"

abbreviation (input) BLOCK_VALID_HEADER :: u32 where "BLOCK_VALID_HEADER \<equiv> 1"
abbreviation (input) BLOCK_VALID_TREE :: u32 where "BLOCK_VALID_TREE \<equiv> 2"
abbreviation (input) BLOCK_VALID_TRANSACTIONS :: u32 where "BLOCK_VALID_TRANSACTIONS \<equiv> 3"
abbreviation (input) BLOCK_VALID_CHAIN :: u32 where "BLOCK_VALID_CHAIN \<equiv> 4"
abbreviation (input) BLOCK_VALID_SCRIPTS :: u32 where "BLOCK_VALID_SCRIPTS \<equiv> 5"
abbreviation (input) BLOCK_HAVE_DATA :: u32 where "BLOCK_HAVE_DATA \<equiv> 8"
abbreviation (input) BLOCK_HAVE_UNDO :: u32 where "BLOCK_HAVE_UNDO \<equiv> 16"
abbreviation (input) BLOCK_FAILED_VALID :: u32 where "BLOCK_FAILED_VALID \<equiv> 32"
abbreviation (input) BLOCK_FAILED_CHILD :: u32 where "BLOCK_FAILED_CHILD \<equiv> 64"

definition BLOCK_VALID_MASK :: u32 where
  "BLOCK_VALID_MASK =
     BLOCK_VALID_HEADER OR BLOCK_VALID_TREE OR BLOCK_VALID_TRANSACTIONS OR BLOCK_VALID_CHAIN OR BLOCK_VALID_SCRIPTS"

definition BLOCK_FAILED_MASK :: u32 where
  "BLOCK_FAILED_MASK = BLOCK_FAILED_VALID OR BLOCK_FAILED_CHILD"

definition GetBlockPos :: "CBlockIndex \<Rightarrow> int \<times> u32" where
  "GetBlockPos b = (if nStatus b AND BLOCK_HAVE_DATA \<noteq> 0 then (nFile b, nDataPos b) else (- 1, 0))"

definition GetUndoPos :: "CBlockIndex \<Rightarrow> int \<times> u32" where
  "GetUndoPos b = (if nStatus b AND BLOCK_HAVE_UNDO \<noteq> 0 then (nFile b, nUndoPos b) else (- 1, 0))"

definition index_GetBlockHeader :: "index_store \<Rightarrow> CBlockIndex \<Rightarrow> chain_error + CBlockHeader" where
  "index_GetBlockHeader st b =
     bindE (case pprev b of None \<Rightarrow> Inr uint256_zero | Some q \<Rightarrow> bindE (deref st q) (\<lambda>c. Inr (phashBlock c)))
       (\<lambda>hashPrevBlock.
     Inr \<lparr>hdr_nVersion = bi_nVersion b, hdr_hashPrevBlock = hashPrevBlock, hdr_hashMerkleRoot = hashMerkleRoot b,
       hdr_nTime = nTime b, hdr_nBits = nBits b, hdr_nNonce = nNonce b, hdr_hashStateRoot = hashStateRoot b,
       hdr_hashUTXORoot = hashUTXORoot b, hdr_prevoutStake = prevoutStake b, hdr_vchBlockSig = vchBlockSig b\<rparr>)"

definition GetBlockTime :: "CBlockIndex \<Rightarrow> int" where
  "GetBlockTime b = uint (nTime b)"

definition GetBlockTimeMax :: "CBlockIndex \<Rightarrow> int" where
  "GetBlockTimeMax b = uint (nTimeMax b)"

definition nMedianTimeSpan :: nat where
  "nMedianTimeSpan = 11"

fun median_times :: "index_store \<Rightarrow> nat \<Rightarrow> ptr option \<Rightarrow> int list \<Rightarrow> chain_error + int list" where
  "median_times st 0 pindex ts = Inr ts"
| "median_times st (Suc i) pindex ts =
     (case pindex of
        None \<Rightarrow> Inr ts
      | Some p \<Rightarrow> bindE (deref st p) (\<lambda>b. median_times st i (pprev b) (GetBlockTime b # ts)))"

definition GetMedianTimePast :: "index_store \<Rightarrow> ptr \<Rightarrow> chain_error + int" where
  "GetMedianTimePast st p =
     bindE (median_times st nMedianTimeSpan (Some p) []) (\<lambda>ts. Inr (sort ts ! (length ts div 2)))"

definition IsProofOfStake :: "CBlockIndex \<Rightarrow> bool" where
  "IsProofOfStake b = (\<not> COutPoint_IsNull (prevoutStake b))"

definition IsProofOfWork :: "CBlockIndex \<Rightarrow> bool" where
  "IsProofOfWork b = (\<not> IsProofOfStake b)"

definition IsValid :: "CBlockIndex \<Rightarrow> u32 \<Rightarrow> chain_error + bool" where
  "IsValid b nUpTo =
     bindE (guardE (nUpTo AND NOT BLOCK_VALID_MASK = 0) AssertFail) (\<lambda>_.
     if nStatus b AND BLOCK_FAILED_MASK \<noteq> 0 then Inr False
     else Inr (nStatus b AND BLOCK_VALID_MASK \<ge> nUpTo))"

definition RaiseValidity :: "CBlockIndex \<Rightarrow> u32 \<Rightarrow> chain_error + bool \<times> CBlockIndex" where
  "RaiseValidity b nUpTo =
     bindE (guardE (nUpTo AND NOT BLOCK_VALID_MASK = 0) AssertFail) (\<lambda>_.
     if nStatus b AND BLOCK_FAILED_MASK \<noteq> 0 then Inr (False, b)
     else if nStatus b AND BLOCK_VALID_MASK < nUpTo
       then Inr (True, b\<lparr>nStatus := (nStatus b AND NOT BLOCK_VALID_MASK) OR nUpTo\<rparr>)
     else Inr (False, b))"

section \<open>The skip list\<close>

definition InvertLowestOne :: "nat \<Rightarrow> nat" where
  "InvertLowestOne n = n AND (n - 1)"

definition GetSkipHeight :: "nat \<Rightarrow> nat" where
  "GetSkipHeight height =
     (if height < 2 then 0
      else if height AND 1 \<noteq> 0 then InvertLowestOne (InvertLowestOne (height - 1)) + 1
      else InvertLowestOne height)"

lemma and_le_right_nat: "m AND n \<le> (n :: nat)"
proof -
  have "int (m AND n) \<le> int n" by (simp add: of_nat_and_eq AND_upper2)
  then show ?thesis by simp
qed

lemma InvertLowestOne_less: "0 < n \<Longrightarrow> InvertLowestOne n < n"
  using and_le_right_nat [of n "n - 1"] by (simp add: InvertLowestOne_def)

lemma InvertLowestOne_le: "InvertLowestOne n \<le> n"
  using InvertLowestOne_less [of n] by (cases "n = 0") (simp_all add: InvertLowestOne_def)

lemma GetSkipHeight_less: "0 < h \<Longrightarrow> GetSkipHeight h < h"
proof -
  assume h: "0 < h"
  have "InvertLowestOne (InvertLowestOne (h - 1)) < h - 1" if "2 \<le> h"
    using that InvertLowestOne_less [of "h - 1"] InvertLowestOne_le [of "InvertLowestOne (h - 1)"] by simp
  then show ?thesis using h InvertLowestOne_less [of h] by (auto simp: GetSkipHeight_def)
qed

function ancestor_loop :: "index_store \<Rightarrow> nat \<Rightarrow> ptr \<Rightarrow> nat \<Rightarrow> chain_error + ptr" where
  "ancestor_loop st height pindexWalk heightWalk =
     (if heightWalk > height then
        let heightSkip = GetSkipHeight heightWalk; heightSkipPrev = GetSkipHeight (heightWalk - 1) in
        bindE (deref st pindexWalk) (\<lambda>b.
        case pskip b of
          Some k \<Rightarrow>
            if heightSkip = height \<or>
               (heightSkip > height \<and> \<not> (int heightSkipPrev < int heightSkip - 2 \<and> heightSkipPrev \<ge> height))
            then ancestor_loop st height k heightSkip
            else (case pprev b of None \<Rightarrow> Inl AssertFail | Some q \<Rightarrow> ancestor_loop st height q (heightWalk - 1))
        | None \<Rightarrow> (case pprev b of None \<Rightarrow> Inl AssertFail | Some q \<Rightarrow> ancestor_loop st height q (heightWalk - 1)))
      else Inr pindexWalk)"
  by pat_completeness auto
termination
  by (relation "measure (\<lambda>(_, _, _, heightWalk). heightWalk)") (auto intro: GetSkipHeight_less)

declare ancestor_loop.simps [simp del]

definition GetAncestor :: "index_store \<Rightarrow> ptr \<Rightarrow> int \<Rightarrow> chain_error + ptr option" where
  "GetAncestor st p height =
     bindE (deref st p) (\<lambda>b.
     if height > int (nHeight b) \<or> height < 0 then Inr None
     else bindE (ancestor_loop st (nat height) p (nHeight b)) (\<lambda>q. Inr (Some q)))"

definition BuildSkip :: "index_store \<Rightarrow> ptr \<Rightarrow> chain_error + index_store" where
  "BuildSkip st p =
     bindE (deref st p) (\<lambda>b.
     case pprev b of
       None \<Rightarrow> Inr st
     | Some q \<Rightarrow> bindE (GetAncestor st q (int (GetSkipHeight (nHeight b)))) (\<lambda>k. Inr (st(p \<mapsto> b\<lparr>pskip := k\<rparr>))))"

section \<open>The active chain\<close>

type_synonym CChain = "ptr option list"

definition Genesis :: "CChain \<Rightarrow> ptr option" where
  "Genesis vChain = (if length vChain > 0 then vChain ! 0 else None)"

definition Tip :: "CChain \<Rightarrow> ptr option" where
  "Tip vChain = (if length vChain > 0 then vChain ! (length vChain - 1) else None)"

definition chain_at :: "CChain \<Rightarrow> int \<Rightarrow> ptr option" where
  "chain_at vChain h = (if h < 0 \<or> h \<ge> int (length vChain) then None else vChain ! nat h)"

definition Contains :: "index_store \<Rightarrow> CChain \<Rightarrow> ptr \<Rightarrow> chain_error + bool" where
  "Contains st vChain p = bindE (deref st p) (\<lambda>b. Inr (chain_at vChain (int (nHeight b)) = Some p))"

definition Next :: "index_store \<Rightarrow> CChain \<Rightarrow> ptr \<Rightarrow> chain_error + ptr option" where
  "Next st vChain p =
     bindE (Contains st vChain p) (\<lambda>c.
     if c then bindE (deref st p) (\<lambda>b. Inr (chain_at vChain (int (nHeight b) + 1))) else Inr None)"

definition Height :: "CChain \<Rightarrow> int" where
  "Height vChain = int (length vChain) - 1"

definition resize :: "nat \<Rightarrow> CChain \<Rightarrow> CChain" where
  "resize n v = take n v @ replicate (n - length v) None"

partial_function (option) set_tip_loop :: "index_store \<Rightarrow> CChain \<Rightarrow> ptr option \<Rightarrow> (chain_error + CChain) option" where
  "set_tip_loop st vChain pindex =
     (case pindex of
        None \<Rightarrow> Some (Inr vChain)
      | Some p \<Rightarrow>
          (case st p of
             None \<Rightarrow> Some (Inl NullDeref)
           | Some b \<Rightarrow>
               if nHeight b < length vChain then
                 if vChain ! nHeight b \<noteq> Some p then set_tip_loop st (vChain[nHeight b := Some p]) (pprev b)
                 else Some (Inr vChain)
               else Some (Inl OutOfRange)))"

definition SetTip :: "index_store \<Rightarrow> CChain \<Rightarrow> ptr option \<Rightarrow> (chain_error + CChain) option" where
  "SetTip st vChain pindex =
     (case pindex of
        None \<Rightarrow> Some (Inr [])
      | Some p \<Rightarrow>
          (case st p of
             None \<Rightarrow> Some (Inl NullDeref)
           | Some b \<Rightarrow> set_tip_loop st (resize (nHeight b + 1) vChain) pindex))"

partial_function (option) find_fork_loop :: "index_store \<Rightarrow> CChain \<Rightarrow> ptr option \<Rightarrow> (chain_error + ptr option) option" where
  "find_fork_loop st vChain pindex =
     (case pindex of
        None \<Rightarrow> Some (Inr None)
      | Some p \<Rightarrow>
          (case st p of
             None \<Rightarrow> Some (Inl NullDeref)
           | Some b \<Rightarrow>
               if chain_at vChain (int (nHeight b)) \<noteq> Some p then find_fork_loop st vChain (pprev b)
               else Some (Inr pindex)))"

definition FindFork :: "index_store \<Rightarrow> CChain \<Rightarrow> ptr option \<Rightarrow> (chain_error + ptr option) option" where
  "FindFork st vChain pindex =
     (case pindex of
        None \<Rightarrow> Some (Inr None)
      | Some p \<Rightarrow>
          (case st p of
             None \<Rightarrow> Some (Inl NullDeref)
           | Some b \<Rightarrow>
               if int (nHeight b) > Height vChain then
                 (case GetAncestor st p (Height vChain) of
                    Inl e \<Rightarrow> Some (Inl e)
                  | Inr q \<Rightarrow> find_fork_loop st vChain q)
               else find_fork_loop st vChain pindex))"

text \<open>\<open>nStep\<close> doubles from the eleventh entry on; it stays below twice the height.\<close>

partial_function (option) locator_loop ::
  "index_store \<Rightarrow> CChain \<Rightarrow> nat \<Rightarrow> uint256 list \<Rightarrow> ptr option \<Rightarrow> (chain_error + uint256 list) option" where
  "locator_loop st vChain nStep vHave pindex =
     (case pindex of
        None \<Rightarrow> Some (Inr vHave)
      | Some p \<Rightarrow>
          (case st p of
             None \<Rightarrow> Some (Inl NullDeref)
           | Some b \<Rightarrow>
               if nHeight b = 0 then Some (Inr (vHave @ [phashBlock b]))
               else
                 (case (if chain_at vChain (int (nHeight b)) = Some p
                        then Inr (chain_at vChain (max (int (nHeight b) - int nStep) 0))
                        else GetAncestor st p (max (int (nHeight b) - int nStep) 0)) of
                    Inl e \<Rightarrow> Some (Inl e)
                  | Inr q \<Rightarrow> locator_loop st vChain (if length vHave + 1 > 10 then nStep * 2 else nStep) (vHave @ [phashBlock b]) q)))"

definition GetLocator :: "index_store \<Rightarrow> CChain \<Rightarrow> ptr option \<Rightarrow> (chain_error + uint256 list) option" where
  "GetLocator st vChain pindex = locator_loop st vChain 1 [] (case pindex of None \<Rightarrow> Tip vChain | Some p \<Rightarrow> Some p)"

text \<open>\<open>std::lower_bound\<close>: the first position of the half-open range whose element does not satisfy
  the predicate, by bisection.\<close>

function lower_bound :: "('a \<Rightarrow> bool) \<Rightarrow> 'a list \<Rightarrow> nat \<Rightarrow> nat \<Rightarrow> nat" where
  "lower_bound lt v first len =
     (if len > 0 then
        let half = len div 2; middle = first + half in
        if lt (v ! middle) then lower_bound lt v (middle + 1) (len - half - 1)
        else lower_bound lt v first half
      else first)"
  by pat_completeness auto
termination by (relation "measure (\<lambda>(_, _, _, len). len)") auto

declare lower_bound.simps [simp del]

definition time_max_below :: "index_store \<Rightarrow> int \<Rightarrow> ptr option \<Rightarrow> bool" where
  "time_max_below st time pBlock =
     (case pBlock of None \<Rightarrow> False | Some p \<Rightarrow> (case st p of None \<Rightarrow> False | Some b \<Rightarrow> GetBlockTimeMax b < time))"

definition FindEarliestAtLeast :: "index_store \<Rightarrow> CChain \<Rightarrow> int \<Rightarrow> ptr option" where
  "FindEarliestAtLeast st vChain time =
     (let lower = lower_bound (time_max_below st time) vChain 0 (length vChain) in
      if lower = length vChain then None else vChain ! lower)"

partial_function (option) common_ancestor_loop ::
  "index_store \<Rightarrow> ptr option \<Rightarrow> ptr option \<Rightarrow> (chain_error + ptr option) option" where
  "common_ancestor_loop st pa pb =
     (if pa = pb then Some (Inr pa)
      else
        (case pa of
           None \<Rightarrow> Some (Inl AssertFail)
         | Some a \<Rightarrow>
             (case pb of
                None \<Rightarrow> Some (Inl AssertFail)
              | Some b \<Rightarrow>
                  (case st a of
                     None \<Rightarrow> Some (Inl NullDeref)
                   | Some ba \<Rightarrow>
                       (case st b of
                          None \<Rightarrow> Some (Inl NullDeref)
                        | Some bb \<Rightarrow> common_ancestor_loop st (pprev ba) (pprev bb))))))"

definition LastCommonAncestor :: "index_store \<Rightarrow> ptr \<Rightarrow> ptr \<Rightarrow> (chain_error + ptr option) option" where
  "LastCommonAncestor st pa pb =
     (case (bindE (deref st pa) (\<lambda>ba. bindE (deref st pb) (\<lambda>bb.
         if nHeight ba > nHeight bb then bindE (GetAncestor st pa (int (nHeight bb))) (\<lambda>q. Inr (q, Some pb))
         else if nHeight bb > nHeight ba then bindE (GetAncestor st pb (int (nHeight ba))) (\<lambda>q. Inr (Some pa, q))
         else Inr (Some pa, Some pb)))) of
        Inl e \<Rightarrow> Some (Inl e)
      | Inr (qa, qb) \<Rightarrow> common_ancestor_loop st qa qb)"

section \<open>Work\<close>

text \<open>\<open>None\<close> is the exception of a division by zero.\<close>

definition GetBlockProof :: "u32 \<Rightarrow> base_uint option" where
  "GetBlockProof blockBits =
     (let (bnTarget, fNegative, fOverflow) = SetCompact blockBits in
      if fNegative \<or> fOverflow \<or> EqualTo bnTarget 0 then Some base_uint_zero
      else map_option (\<lambda>q. uint_add q (base_uint_u64 1))
             (uint_div (uint_not bnTarget) (uint_add bnTarget (base_uint_u64 1))))"

definition GetBlockProofEquivalentTime :: "CBlockIndex \<Rightarrow> CBlockIndex \<Rightarrow> CBlockIndex \<Rightarrow> int \<Rightarrow> int option" where
  "GetBlockProofEquivalentTime to from tip nPowTargetSpacing =
     (let (r, sign) =
        (if CompareTo (nChainWork to) (nChainWork from) > 0
         then (uint_sub (nChainWork to) (nChainWork from), 1 :: int)
         else (uint_sub (nChainWork from) (nChainWork to), - 1)) in
      Option.bind (GetBlockProof (nBits tip)) (\<lambda>proof.
      Option.bind (uint_div (uint_mul r (base_uint_u64 (word_of_int nPowTargetSpacing))) proof) (\<lambda>r.
      if bits r > 63 then Some (sign * (2 ^ 63 - 1))
      else Some (sint (word_of_int sign * GetLow64 r)))))"

end
