(* ===== verification/Chain_Index.thy ===== *)
theory Chain_Index
  imports Chain
begin

text \<open>
  The block index as a tree.  \<open>anc\<close> walks \<open>pprev\<close> one step at a time and is the reference for the
  skip list, the active chain, fork points and common ancestors.
\<close>

section \<open>The reference walk\<close>

fun walk_back :: "index_store \<Rightarrow> ptr \<Rightarrow> nat \<Rightarrow> ptr option" where
  "walk_back st p 0 = Some p"
| "walk_back st p (Suc n) =
     (case st p of None \<Rightarrow> None | Some b \<Rightarrow> (case pprev b of None \<Rightarrow> None | Some q \<Rightarrow> walk_back st q n))"

text \<open>The ancestor at a height.\<close>

definition anc :: "index_store \<Rightarrow> ptr \<Rightarrow> nat \<Rightarrow> ptr option" where
  "anc st p i =
     (case st p of None \<Rightarrow> None | Some b \<Rightarrow> if i \<le> nHeight b then walk_back st p (nHeight b - i) else None)"

definition linked :: "index_store \<Rightarrow> bool" where
  "linked st \<longleftrightarrow> (\<forall>p b. st p = Some b \<longrightarrow>
     (case pprev b of None \<Rightarrow> nHeight b = 0 | Some q \<Rightarrow> \<exists>c. st q = Some c \<and> nHeight b = Suc (nHeight c)))"

definition skips_ok :: "index_store \<Rightarrow> bool" where
  "skips_ok st \<longleftrightarrow> (\<forall>p b k. st p = Some b \<longrightarrow> pskip b = Some k \<longrightarrow> anc st p (GetSkipHeight (nHeight b)) = Some k)"

definition index_ok :: "index_store \<Rightarrow> bool" where
  "index_ok st \<longleftrightarrow> linked st \<and> skips_ok st"

lemma linked_root: "linked st \<Longrightarrow> st p = Some b \<Longrightarrow> pprev b = None \<Longrightarrow> nHeight b = 0"
  by (fastforce simp: linked_def split: option.splits)

lemma linked_prev:
  "linked st \<Longrightarrow> st p = Some b \<Longrightarrow> pprev b = Some q \<Longrightarrow> \<exists>c. st q = Some c \<and> nHeight b = Suc (nHeight c)"
  by (fastforce simp: linked_def split: option.splits)

lemma linked_cases:
  assumes "linked st" "st p = Some b"
  obtains (root) "pprev b = None" "nHeight b = 0"
    | (child) q c where "pprev b = Some q" "st q = Some c" "nHeight b = Suc (nHeight c)"
  using linked_root [OF assms] linked_prev [OF assms] by (cases "pprev b") auto

lemma anc_self: "st p = Some b \<Longrightarrow> anc st p (nHeight b) = Some p"
  by (simp add: anc_def)

lemma anc_above: "st p = Some b \<Longrightarrow> nHeight b < i \<Longrightarrow> anc st p i = None"
  by (simp add: anc_def)

lemma anc_prev:
  assumes "linked st" "st p = Some b" "pprev b = Some q" "i < nHeight b"
  shows "anc st p i = anc st q i"
proof -
  obtain c where c: "st q = Some c" "nHeight b = Suc (nHeight c)" using linked_prev [OF assms(1-3)] by auto
  then have "nHeight b - i = Suc (nHeight c - i)" using assms(4) by simp
  then show ?thesis using assms c by (simp add: anc_def)
qed

lemma anc_Some:
  assumes "linked st" "st p = Some b" "i \<le> nHeight b"
  shows "\<exists>q c. anc st p i = Some q \<and> st q = Some c \<and> nHeight c = i"
  using assms(2,3)
proof (induction "nHeight b - i" arbitrary: p b)
  case 0
  then show ?case by (auto simp: anc_self)
next
  case (Suc n)
  then have "i < nHeight b" by simp
  with assms(1) Suc.prems(1) obtain q c where q: "pprev b = Some q" "st q = Some c" "nHeight b = Suc (nHeight c)"
    by (elim linked_cases) auto
  from Suc.hyps(1) [OF _ q(2)] Suc.hyps(2) q \<open>i < nHeight b\<close>
  show ?case using anc_prev [OF assms(1) Suc.prems(1) q(1)] by auto
qed

lemma anc_height:
  assumes "linked st" "anc st p i = Some q"
  obtains c where "st q = Some c" "nHeight c = i"
  using assms anc_Some [OF assms(1), of p _ i] by (auto simp: anc_def split: option.splits if_splits)

lemma anc_bound: "anc st p i = Some q \<Longrightarrow> \<exists>b. st p = Some b \<and> i \<le> nHeight b"
  by (auto simp: anc_def split: option.splits if_splits)

lemma anc_trans:
  assumes "linked st" "anc st p i = Some q" "j \<le> i"
  shows "anc st p j = anc st q j"
proof -
  from anc_bound [OF assms(2)] obtain b where "st p = Some b" "i \<le> nHeight b" by auto
  then show ?thesis using assms(2)
  proof (induction "nHeight b - i" arbitrary: p b)
    case 0
    then show ?case by (auto simp: anc_self)
  next
    case (Suc n)
    then have i: "i < nHeight b" by simp
    with assms(1) Suc.prems(1) obtain r c where r: "pprev b = Some r" "st r = Some c" "nHeight b = Suc (nHeight c)"
      by (elim linked_cases) auto
    have "anc st p j = anc st r j" "anc st p i = anc st r i"
      using anc_prev [OF assms(1) Suc.prems(1) r(1)] i assms(3) by auto
    then show ?case using Suc.hyps(1) [OF _ r(2)] Suc.hyps(2) Suc.prems(3) r i by auto
  qed
qed

section \<open>The skip list\<close>

lemma ancestor_loop_anc:
  assumes "index_ok st"
  shows "st p = Some b \<Longrightarrow> nHeight b = hw \<Longrightarrow> h \<le> hw \<Longrightarrow>
    \<exists>q. ancestor_loop st h p hw = Inr q \<and> anc st p h = Some q"
proof (induction hw arbitrary: p b rule: less_induct)
  case (less hw)
  have lk: "linked st" and sk: "skips_ok st" using assms by (simp_all add: index_ok_def)
  show ?case
  proof (cases "h < hw")
    case False
    then show ?thesis using less.prems by (auto simp: ancestor_loop.simps anc_self)
  next
    case True
    with less.prems lk obtain q c where q: "pprev b = Some q" "st q = Some c" "nHeight b = Suc (nHeight c)"
      by (elim linked_cases) auto
    have prev: "\<exists>r. ancestor_loop st h q (hw - 1) = Inr r \<and> anc st p h = Some r"
      using less.IH [of "hw - 1" q c] less.prems q True anc_prev [OF lk less.prems(1) q(1), of h] by auto
    have skip: "\<exists>r. ancestor_loop st h k (GetSkipHeight hw) = Inr r \<and> anc st p h = Some r"
      if k: "pskip b = Some k" "h \<le> GetSkipHeight hw" for k
    proof -
      from sk less.prems k have ak: "anc st p (GetSkipHeight hw) = Some k" by (auto simp: skips_ok_def)
      obtain d where d: "st k = Some d" "nHeight d = GetSkipHeight hw" using anc_height [OF lk ak] by auto
      from less.IH [OF _ d k(2)] True anc_trans [OF lk ak k(2)] GetSkipHeight_less [of hw] show ?thesis by auto
    qed
    show ?thesis
      by (subst ancestor_loop.simps) (use True less.prems prev skip q in \<open>auto simp: Let_def deref_def split: option.splits\<close>)
  qed
qed

lemma GetAncestor_anc:
  assumes "index_ok st" "st p = Some b"
  shows "GetAncestor st p h = Inr (if 0 \<le> h then anc st p (nat h) else None)"
proof (cases "0 \<le> h \<and> nat h \<le> nHeight b")
  case True
  then show ?thesis using ancestor_loop_anc [OF assms refl, of "nat h"] assms(2)
    by (auto simp: GetAncestor_def deref_def)
next
  case False
  then show ?thesis using assms(2) by (auto simp: GetAncestor_def deref_def anc_above)
qed

lemma GetAncestor_walk:
  assumes "index_ok st" and "st p = Some b"
  shows "GetAncestor st p h = Inr (if 0 \<le> h \<and> h \<le> int (nHeight b) then walk_back st p (nHeight b - nat h) else None)"
  using GetAncestor_anc [OF assms, of h] assms(2) by (auto simp: anc_def nat_le_iff)

text \<open>C30: the skip list finds exactly the ancestor that the plain walk along \<open>pprev\<close> reaches.  On a
  well-formed index \<open>GetAncestor\<close> never fails its assertion or reads through a null pointer; it
  returns the entry at the requested height on the path to genesis, and null exactly for heights
  below zero or above the entry's own.\<close>

theorem GetAncestor_reference:
  assumes "index_ok st" and "st p = Some b"
  shows "GetAncestor st p h = Inr (if 0 \<le> h \<and> h \<le> int (nHeight b) then walk_back st p (nHeight b - nat h) else None)"
  using assms by (rule GetAncestor_walk)

text \<open>A chain of five entries with their skip pointers, and a fork of the second.\<close>

definition entry :: "ptr option \<Rightarrow> ptr option \<Rightarrow> nat \<Rightarrow> u32 \<Rightarrow> CBlockIndex" where
  "entry prev skip height time =
     (CBlockIndex_of_header CBlockHeader_SetNull)\<lparr>phashBlock := replicate 32 (of_nat height), pprev := prev,
        pskip := skip, nHeight := height, nTime := time, nTimeMax := time\<rparr>"

definition sample_store :: index_store where
  "sample_store = [0 \<mapsto> entry None None 0 10, 1 \<mapsto> entry (Some 0) (Some 0) 1 20, 2 \<mapsto> entry (Some 1) (Some 0) 2 30,
     3 \<mapsto> entry (Some 2) (Some 1) 3 40, 4 \<mapsto> entry (Some 3) (Some 0) 4 50, 7 \<mapsto> entry (Some 1) (Some 0) 2 35]"

lemma entry_sel [simp]:
  "pprev (entry prev skip height time) = prev" "pskip (entry prev skip height time) = skip"
  "nHeight (entry prev skip height time) = height" "nTime (entry prev skip height time) = time"
  "nTimeMax (entry prev skip height time) = time"
  by (simp_all add: entry_def)

lemma sample_linked: "linked sample_store"
  by (auto simp: linked_def sample_store_def split: if_splits)

lemma GetSkipHeight_eval:
  "GetSkipHeight 0 = 0" "GetSkipHeight (Suc 0) = 0" "GetSkipHeight 2 = 0" "GetSkipHeight 3 = 1" "GetSkipHeight 4 = 0"
  by code_simp+

lemma sample_store_cases:
  "sample_store p = Some b \<Longrightarrow>
   p = 0 \<and> b = entry None None 0 10 \<or> p = 1 \<and> b = entry (Some 0) (Some 0) 1 20 \<or> p = 2 \<and> b = entry (Some 1) (Some 0) 2 30 \<or>
   p = 3 \<and> b = entry (Some 2) (Some 1) 3 40 \<or> p = 4 \<and> b = entry (Some 3) (Some 0) 4 50 \<or>
   p = 7 \<and> b = entry (Some 1) (Some 0) 2 35"
  by (auto simp: sample_store_def split: if_splits)

lemma sample_anc:
  "anc sample_store (Suc 0) 0 = Some 0" "anc sample_store 2 0 = Some 0" "anc sample_store 3 (Suc 0) = Some (Suc 0)"
  "anc sample_store 3 1 = Some 1" "anc sample_store 4 0 = Some 0" "anc sample_store 7 0 = Some 0"
  by code_simp+

lemma sample_index_ok: "index_ok sample_store"
  using sample_linked
  by (auto simp: index_ok_def skips_ok_def GetSkipHeight_eval sample_anc dest!: sample_store_cases)

theorem GetAncestor_reference_witness:
  "index_ok sample_store \<and> GetAncestor sample_store 4 1 = Inr (Some 1) \<and> GetAncestor sample_store 4 9 = Inr None"
  using GetAncestor_reference [OF sample_index_ok, of 4 _ 1] GetAncestor_reference [OF sample_index_ok, of 4 _ 9] sample_index_ok
  by (simp add: sample_store_def eval_nat_numeral)

section \<open>Growing the index\<close>

text \<open>A fresh entry with a predecessor in the index, and \<open>BuildSkip\<close> on it.\<close>

lemma walk_back_fresh:
  assumes "linked st" "st p = None" "st q = Some c" "n \<le> nHeight c"
  shows "walk_back (st(p \<mapsto> b)) q n = walk_back st q n"
  using assms(3,4)
proof (induction n arbitrary: q c)
  case (Suc n)
  from assms(1) Suc.prems obtain r d where r: "pprev c = Some r" "st r = Some d" "nHeight c = Suc (nHeight d)"
    by (elim linked_cases) auto
  then show ?case using Suc assms(2) by auto
qed simp

lemma anc_fresh:
  assumes "linked st" "st p = None" "st q = Some c"
  shows "anc (st(p \<mapsto> b)) q i = anc st q i"
  using assms walk_back_fresh [OF assms, of "nHeight c - i" b] by (auto simp: anc_def)

lemma linked_fresh:
  assumes "linked st" "st p = None" "pprev b = Some q" "st q = Some c" "nHeight b = Suc (nHeight c)"
  shows "linked (st(p \<mapsto> b))"
  unfolding linked_def
proof (intro allI impI)
  fix r d
  assume r: "(st(p \<mapsto> b)) r = Some d"
  have "q \<noteq> p" using assms by auto
  show "case pprev d of None \<Rightarrow> nHeight d = 0 | Some q \<Rightarrow> \<exists>c. (st(p \<mapsto> b)) q = Some c \<and> nHeight d = Suc (nHeight c)"
  proof (cases "r = p")
    case True
    then show ?thesis using r assms \<open>q \<noteq> p\<close> by simp
  next
    case False
    with r have "st r = Some d" by simp
    with assms(1) show ?thesis using assms(2) by (elim linked_cases) (auto split: option.splits)
  qed
qed

lemma index_ok_fresh:
  assumes "index_ok st" "st p = None" "pprev b = Some q" "st q = Some c" "nHeight b = Suc (nHeight c)"
    and "\<forall>k. pskip b = Some k \<longrightarrow> anc st q (GetSkipHeight (nHeight b)) = Some k"
  shows "index_ok (st(p \<mapsto> b))"
proof -
  have lk: "linked st" using assms(1) by (simp add: index_ok_def)
  have lk': "linked (st(p \<mapsto> b))" using linked_fresh [OF lk assms(2-5)] .
  have "q \<noteq> p" using assms by auto
  have "skips_ok (st(p \<mapsto> b))"
    unfolding skips_ok_def
  proof (intro allI impI)
    fix r d k
    assume r: "(st(p \<mapsto> b)) r = Some d" and k: "pskip d = Some k"
    show "anc (st(p \<mapsto> b)) r (GetSkipHeight (nHeight d)) = Some k"
    proof (cases "r = p")
      case True
      have "anc (st(p \<mapsto> b)) p (GetSkipHeight (nHeight b)) = anc (st(p \<mapsto> b)) q (GetSkipHeight (nHeight b))"
        using assms(3,5) GetSkipHeight_less [of "nHeight b"] by (intro anc_prev [OF lk']) auto
      then show ?thesis using True r k assms(6) anc_fresh [OF lk assms(2,4)] by simp
    next
      case False
      with r k assms(1) anc_fresh [OF lk assms(2), of r d] show ?thesis by (auto simp: index_ok_def skips_ok_def)
    qed
  qed
  with lk' show ?thesis by (simp add: index_ok_def)
qed

lemma index_ok_fresh_root:
  assumes "index_ok st" "st p = None" "pprev b = None" "nHeight b = 0" "pskip b = None"
  shows "index_ok (st(p \<mapsto> b))"
proof -
  have lk: "linked st" using assms(1) by (simp add: index_ok_def)
  have "linked (st(p \<mapsto> b))"
    unfolding linked_def
  proof (intro allI impI)
    fix r d
    assume "(st(p \<mapsto> b)) r = Some d"
    then show "case pprev d of None \<Rightarrow> nHeight d = 0 | Some q \<Rightarrow> \<exists>c. (st(p \<mapsto> b)) q = Some c \<and> nHeight d = Suc (nHeight c)"
      using lk assms(2-4) by (cases "r = p") (auto split: option.splits elim: linked_cases dest: linked_root linked_prev)
  qed
  moreover have "skips_ok (st(p \<mapsto> b))"
    using assms anc_fresh [OF lk assms(2)] by (auto simp: index_ok_def skips_ok_def)
  ultimately show ?thesis by (simp add: index_ok_def)
qed

lemma BuildSkip_fresh:
  assumes "index_ok st" "st p = None" "pprev b = Some q" "st q = Some c" "nHeight b = Suc (nHeight c)"
    "pskip b = None"
  shows "\<exists>k. anc st q (GetSkipHeight (nHeight b)) = Some k \<and> BuildSkip (st(p \<mapsto> b)) p = Inr (st(p \<mapsto> b\<lparr>pskip := Some k\<rparr>)) \<and>
    index_ok (st(p \<mapsto> b\<lparr>pskip := Some k\<rparr>))"
proof -
  have lk: "linked st" using assms(1) by (simp add: index_ok_def)
  have le: "GetSkipHeight (nHeight b) \<le> nHeight c" using GetSkipHeight_less [of "nHeight b"] assms(5) by simp
  obtain k where k: "anc st q (GetSkipHeight (nHeight b)) = Some k" using anc_Some [OF lk assms(4) le] by auto
  have "q \<noteq> p" using assms by auto
  have "index_ok (st(p \<mapsto> b))" using assms by (intro index_ok_fresh) auto
  then have "GetAncestor (st(p \<mapsto> b)) q (int (GetSkipHeight (nHeight b))) = Inr (Some k)"
    using GetAncestor_anc [of "st(p \<mapsto> b)" q c] assms(4) \<open>q \<noteq> p\<close> anc_fresh [OF lk assms(2,4)] k by simp
  moreover have "index_ok (st(p \<mapsto> b\<lparr>pskip := Some k\<rparr>))" using assms k by (intro index_ok_fresh) auto
  ultimately show ?thesis using k assms(3) by (simp add: BuildSkip_def deref_def)
qed

end
