(* ===== verification/Chain_Active.thy ===== *)
theory Chain_Active
  imports Chain_Index
begin

text \<open>
  The active chain \<open>CChain\<close> as the path from genesis to its tip, fork points and common ancestors.
\<close>

section \<open>Setting the tip\<close>

text \<open>The path from genesis to an entry.\<close>

definition chain_of :: "index_store \<Rightarrow> ptr \<Rightarrow> CChain" where
  "chain_of st p = (case st p of None \<Rightarrow> [] | Some b \<Rightarrow> map (anc st p) [0..<Suc (nHeight b)])"

definition chain_ok :: "index_store \<Rightarrow> CChain \<Rightarrow> bool" where
  "chain_ok st v \<longleftrightarrow> v = [] \<or> (\<exists>p. p \<in> dom st \<and> v = chain_of st p)"

lemma length_chain_of [simp]: "st p = Some b \<Longrightarrow> length (chain_of st p) = Suc (nHeight b)"
  by (simp add: chain_of_def)

lemma nth_chain_of: "st p = Some b \<Longrightarrow> i \<le> nHeight b \<Longrightarrow> chain_of st p ! i = anc st p i"
  by (simp add: chain_of_def less_Suc_eq_le del: upt_Suc)

lemma chain_at_chain_of: "st p = Some b \<Longrightarrow> chain_at (chain_of st p) (int i) = anc st p i"
  by (auto simp: chain_at_def nth_chain_of anc_above)

lemma chain_ofI:
  assumes "st p = Some b" "length v = Suc (nHeight b)" "\<And>i. i \<le> nHeight b \<Longrightarrow> v ! i = anc st p i"
  shows "v = chain_of st p"
  using assms by (intro nth_equalityI) (simp_all add: nth_chain_of less_Suc_eq_le)

text \<open>What the vector holds below the height the loop has reached: entries of the old chain.\<close>

definition below :: "index_store \<Rightarrow> CChain \<Rightarrow> CChain \<Rightarrow> nat \<Rightarrow> bool" where
  "below st old v h \<longleftrightarrow> (\<forall>i\<le>h. v ! i = (if i < length old then old ! i else None))"


lemma below_stop:
  assumes lk: "linked st" and old: "chain_ok st old" and q: "st q = Some c" "nHeight c = h"
    and v: "below st old v h" "v ! h = Some q" and i: "i \<le> h"
  shows "v ! i = anc st q i"
proof -
  have oh: "h < length old" "old ! h = Some q" using v by (auto simp: below_def split: if_splits)
  with old obtain t d where t: "st t = Some d" "old = chain_of st t" by (auto simp: chain_ok_def)
  then have "anc st t h = Some q" using oh by (simp add: nth_chain_of less_Suc_eq_le)
  then have "anc st t i = anc st q i" using anc_trans [OF lk _ i] by simp
  moreover have "v ! i = old ! i" using v(1) i oh(1) by (simp add: below_def)
  ultimately show ?thesis using t oh(1) i by (simp add: nth_chain_of)
qed

lemma set_tip_loop_chain_of:
  assumes lk: "linked st" and old: "chain_ok st old" and p: "st p = Some b"
  shows "anc st p h = Some q \<Longrightarrow> length v = Suc (nHeight b) \<Longrightarrow> below st old v h \<Longrightarrow>
    (\<And>i. h < i \<Longrightarrow> i \<le> nHeight b \<Longrightarrow> v ! i = anc st p i) \<Longrightarrow>
    set_tip_loop st v (Some q) = Some (Inr (chain_of st p))"
proof (induction h arbitrary: q v rule: less_induct)
  case (less h)
  obtain c where c: "st q = Some c" "nHeight c = h" using anc_height [OF lk less.prems(1)] .
  have hb: "h \<le> nHeight b" using anc_bound [OF less.prems(1)] p by auto
  have tr: "anc st p i = anc st q i" if "i \<le> h" for i using anc_trans [OF lk less.prems(1) that] .
  show ?case
  proof (cases "v ! h = Some q")
    case True
    have "v = chain_of st p"
      using p less.prems(2)
    proof (rule chain_ofI)
      fix i
      assume "i \<le> nHeight b"
      then show "v ! i = anc st p i"
        using less.prems(4) below_stop [OF lk old c less.prems(3) True] tr by (cases "i \<le> h") auto
    qed
    then show ?thesis using c True less.prems(2) hb by (simp add: set_tip_loop.simps)
  next
    case False
    let ?v = "v[h := Some q]"
    have nth: "?v ! i = anc st p i" if "h \<le> i" "i \<le> nHeight b" for i
      using that less.prems(1,2,4) hb by (cases "i = h") auto
    have step: "set_tip_loop st v (Some q) = set_tip_loop st ?v (pprev c)"
      using c False less.prems(2) hb by (subst set_tip_loop.simps) simp
    from lk c(1) show ?thesis
    proof (cases rule: linked_cases)
      case root
      then have "h = 0" using c by simp
      then have "?v = chain_of st p" using p less.prems(2) nth by (intro chain_ofI) auto
      then show ?thesis using step root by (simp add: set_tip_loop.simps)
    next
      case (child r d)
      then have h: "h = Suc (nHeight d)" using c by simp
      have r: "anc st p (nHeight d) = Some r"
        using tr [of "nHeight d"] anc_prev [OF lk c(1) child(1), of "nHeight d"] anc_self [of st r d, OF child(2)] c(2) h by simp
      have "set_tip_loop st ?v (Some r) = Some (Inr (chain_of st p))"
      proof (rule less.IH [OF _ r])
        show "below st old ?v (nHeight d)" using less.prems(3) h by (auto simp: below_def)
      qed (use less.prems(2) h nth in auto)
      then show ?thesis using step child by simp
    qed
  qed
qed

lemma SetTip_chain_of:
  assumes "linked st" "chain_ok st old" "st p = Some b"
  shows "SetTip st old (Some p) = Some (Inr (chain_of st p))"
proof -
  have "set_tip_loop st (resize (Suc (nHeight b)) old) (Some p) = Some (Inr (chain_of st p))"
  proof (rule set_tip_loop_chain_of [OF assms anc_self [of st p b, OF assms(3)]])
    show "below st old (resize (Suc (nHeight b)) old) (nHeight b)"
      by (auto simp: below_def resize_def nth_append)
  qed (auto simp: resize_def)
  then show ?thesis using assms(3) by (simp add: SetTip_def)
qed

text \<open>C31: \<open>SetTip\<close> ends and leaves exactly the path from genesis to the new tip, although it stops
  copying at the first entry the old chain already has.  Started on a chain (empty or the path
  to some entry), it writes no index out of range, the entry at height \<open>i\<close> becomes the tip's
  ancestor at height \<open>i\<close>, and setting no tip empties the chain.\<close>

theorem SetTip_path:
  assumes "index_ok st" and "chain_ok st old" and "st p = Some b"
  shows "SetTip st old (Some p) = Some (Inr (map (\<lambda>i. walk_back st p (nHeight b - i)) [0..<nHeight b + 1])) \<and>
    SetTip st old None = Some (Inr [])"
proof -
  have "map (\<lambda>i. walk_back st p (nHeight b - i)) [0..<nHeight b + 1] = chain_of st p"
    using assms(3) by (intro chain_ofI) (auto simp: anc_def nth_append less_Suc_eq)
  then show ?thesis using SetTip_chain_of [of st old p b] assms by (simp add: index_ok_def SetTip_def)
qed

theorem SetTip_path_witness:
  "index_ok sample_store \<and> chain_ok sample_store (chain_of sample_store 4) \<and>
   SetTip sample_store (chain_of sample_store 4) (Some 7) = Some (Inr [Some 0, Some 1, Some 7])"
proof -
  have ok: "chain_ok sample_store (chain_of sample_store 4)"
    by (auto simp: chain_ok_def sample_store_def)
  have b: "sample_store 7 = Some (entry (Some 1) (Some 0) 2 35)" by (simp add: sample_store_def)
  have "map (\<lambda>i. walk_back sample_store 7 (2 - i)) [0..<2 + 1] = [Some 0, Some 1, Some 7]" by code_simp
  then show ?thesis using SetTip_path [OF sample_index_ok ok b] sample_index_ok ok by simp
qed

section \<open>Forks and common ancestors\<close>

text \<open>\<open>r\<close> is the highest entry that is an ancestor of both, or null when there is none.\<close>

definition last_common :: "index_store \<Rightarrow> ptr \<Rightarrow> ptr \<Rightarrow> ptr option \<Rightarrow> bool" where
  "last_common st p t r \<longleftrightarrow>
     (case r of
        None \<Rightarrow> (\<forall>i. anc st p i = None \<or> anc st p i \<noteq> anc st t i)
      | Some q \<Rightarrow> (\<exists>i. anc st p i = Some q \<and> anc st t i = Some q \<and>
           (\<forall>j>i. anc st p j = None \<or> anc st p j \<noteq> anc st t j)))"

lemma last_common_None: "last_common st p t None \<Longrightarrow> \<not> last_common st p t (Some q)"
  unfolding last_common_def option.case by (metis option.distinct(1))

lemma last_common_Some:
  assumes "last_common st p t (Some q)" "last_common st p t (Some q')"
  shows "q = q'"
proof -
  from assms(1) obtain i where i: "anc st p i = Some q" "anc st t i = Some q"
    "\<forall>j>i. anc st p j = None \<or> anc st p j \<noteq> anc st t j" by (auto simp: last_common_def)
  from assms(2) obtain j where j: "anc st p j = Some q'" "anc st t j = Some q'"
    "\<forall>k>j. anc st p k = None \<or> anc st p k \<noteq> anc st t k" by (auto simp: last_common_def)
  have "i = j" using i j by (metis linorder_neqE_nat option.distinct(1))
  then show ?thesis using i j by simp
qed

lemma last_common_unique: "last_common st p t r \<Longrightarrow> last_common st p t r' \<Longrightarrow> r = r'"
  by (cases r; cases r') (auto dest: last_common_None last_common_Some)

text \<open>Walking down from an ancestor above which nothing is shared.\<close>

lemma find_fork_loop_last_common:
  assumes lk: "linked st" and t: "st t = Some d"
  shows "anc st p h = Some q \<Longrightarrow> (\<And>j. h < j \<Longrightarrow> anc st p j = None \<or> anc st p j \<noteq> anc st t j) \<Longrightarrow>
    \<exists>r. find_fork_loop st (chain_of st t) (Some q) = Some (Inr r) \<and> last_common st p t r"
proof (induction h arbitrary: q rule: less_induct)
  case (less h)
  obtain c where c: "st q = Some c" "nHeight c = h" using anc_height [OF lk less.prems(1)] .
  have at: "chain_at (chain_of st t) (int h) = anc st t h" using chain_at_chain_of [of st t d, OF t] .
  show ?case
  proof (cases "anc st t h = Some q")
    case True
    then have "last_common st p t (Some q)" using less.prems by (auto simp: last_common_def)
    then show ?thesis using True c at by (subst find_fork_loop.simps) simp
  next
    case False
    have above: "\<And>j. h \<le> j \<Longrightarrow> anc st p j = None \<or> anc st p j \<noteq> anc st t j"
      using less.prems False by (metis le_neq_implies_less)
    have step: "find_fork_loop st (chain_of st t) (Some q) = find_fork_loop st (chain_of st t) (pprev c)"
      using False c at by (subst find_fork_loop.simps) simp
    from lk c(1) show ?thesis
    proof (cases rule: linked_cases)
      case root
      then have "last_common st p t None" using above c by (auto simp: last_common_def)
      then show ?thesis using step root by (simp add: find_fork_loop.simps)
    next
      case (child r e)
      have "anc st p (nHeight e) = Some r"
        using anc_trans [OF lk less.prems(1), of "nHeight e"] anc_prev [OF lk c(1) child(1), of "nHeight e"]
          anc_self [of st r e, OF child(2)] c(2) child(3) by simp
      from less.IH [OF _ this] above c(2) child step show ?thesis by auto
    qed
  qed
qed

lemma FindFork_last_common:
  assumes ok: "index_ok st" and t: "st t = Some d" and p: "st p = Some b"
  shows "\<exists>r. FindFork st (chain_of st t) (Some p) = Some (Inr r) \<and> last_common st p t r"
proof -
  have lk: "linked st" using ok by (simp add: index_ok_def)
  have ht: "Height (chain_of st t) = int (nHeight d)" using t by (simp add: Height_def)
  show ?thesis
  proof (cases "nHeight d < nHeight b")
    case True
    then obtain q where q: "anc st p (nHeight d) = Some q" using anc_Some [OF lk p, of "nHeight d"] by auto
    have "\<exists>r. find_fork_loop st (chain_of st t) (Some q) = Some (Inr r) \<and> last_common st p t r"
      using lk t q by (rule find_fork_loop_last_common) (auto simp: anc_above [of st t d, OF t])
    then show ?thesis using True p q ht GetAncestor_anc [OF ok p, of "int (nHeight d)"] by (simp add: FindFork_def)
  next
    case False
    have "\<exists>r. find_fork_loop st (chain_of st t) (Some p) = Some (Inr r) \<and> last_common st p t r"
      using lk t anc_self [of st p b, OF p] by (rule find_fork_loop_last_common) (auto simp: anc_above [of st p b, OF p])
    then show ?thesis using False p ht by (simp add: FindFork_def)
  qed
qed

lemma common_ancestor_loop_last_common:
  assumes lk: "linked st" and root: "anc st a 0 = anc st b 0"
  shows "anc st a h = Some p \<Longrightarrow> anc st b h = Some q \<Longrightarrow>
    (\<And>j. h < j \<Longrightarrow> anc st a j = None \<or> anc st a j \<noteq> anc st b j) \<Longrightarrow>
    \<exists>r. common_ancestor_loop st (Some p) (Some q) = Some (Inr (Some r)) \<and> last_common st a b (Some r)"
proof (induction h arbitrary: p q)
  case 0
  then have "p = q" using root by simp
  then show ?case using 0 by (auto simp: common_ancestor_loop.simps last_common_def)
next
  case (Suc h)
  show ?case
  proof (cases "p = q")
    case True
    then have "last_common st a b (Some q)" using Suc.prems by (auto simp: last_common_def)
    then show ?thesis using True by (simp add: common_ancestor_loop.simps)
  next
    case False
    obtain c where c: "st p = Some c" "nHeight c = Suc h" using anc_height [OF lk Suc.prems(1)] .
    obtain d where d: "st q = Some d" "nHeight d = Suc h" using anc_height [OF lk Suc.prems(2)] .
    obtain p' c' where p': "pprev c = Some p'" "st p' = Some c'" "nHeight c' = h"
      using lk c by (elim linked_cases) auto
    obtain q' d' where q': "pprev d = Some q'" "st q' = Some d'" "nHeight d' = h"
      using lk d by (elim linked_cases) auto
    have ap: "anc st a h = Some p'"
      using anc_trans [OF lk Suc.prems(1), of h] anc_prev [OF lk c(1) p'(1), of h] anc_self [of st p' c'] p' c by simp
    have bq: "anc st b h = Some q'"
      using anc_trans [OF lk Suc.prems(2), of h] anc_prev [OF lk d(1) q'(1), of h] anc_self [of st q' d'] q' d by simp
    have above: "anc st a j = None \<or> anc st a j \<noteq> anc st b j" if "h < j" for j
      using that Suc.prems False by (cases "j = Suc h") auto
    have "common_ancestor_loop st (Some p) (Some q) = common_ancestor_loop st (Some p') (Some q')"
      using False c d p' q' by (subst common_ancestor_loop.simps) simp
    then show ?thesis using Suc.IH [OF ap bq above] by simp
  qed
qed

lemma LastCommonAncestor_last_common:
  assumes ok: "index_ok st" and a: "st a = Some ba" and b: "st b = Some bb" and root: "anc st a 0 = anc st b 0"
  shows "\<exists>r. LastCommonAncestor st a b = Some (Inr (Some r)) \<and> last_common st a b (Some r)"
proof -
  have lk: "linked st" using ok by (simp add: index_ok_def)
  let ?h = "min (nHeight ba) (nHeight bb)"
  obtain p where p: "anc st a ?h = Some p" using anc_Some [OF lk a, of ?h] by auto
  obtain q where q: "anc st b ?h = Some q" using anc_Some [OF lk b, of ?h] by auto
  have "\<exists>r. common_ancestor_loop st (Some p) (Some q) = Some (Inr (Some r)) \<and> last_common st a b (Some r)"
  proof (rule common_ancestor_loop_last_common [OF lk root p q])
    show "anc st a j = None \<or> anc st a j \<noteq> anc st b j" if "?h < j" for j
      using that anc_above [of st a ba j, OF a] anc_above [of st b bb j, OF b] by (cases "nHeight ba < j") auto
  qed
  moreover have "LastCommonAncestor st a b = common_ancestor_loop st (Some p) (Some q)"
    using a b p q anc_self [of st a ba, OF a] anc_self [of st b bb, OF b]
      GetAncestor_anc [OF ok a, of "int (nHeight bb)"] GetAncestor_anc [OF ok b, of "int (nHeight ba)"]
    by (cases "nHeight ba" "nHeight bb" rule: linorder_cases) (auto simp: LastCommonAncestor_def deref_def min_def)
  ultimately show ?thesis by simp
qed

text \<open>C32: fork points.  On a well-formed index \<open>FindFork\<close> ends and returns the highest block of the
  active chain from which the given block descends, or null when it shares nothing with the
  chain; \<open>LastCommonAncestor\<close> of two blocks with the same genesis ends without failing its
  assertion and returns their highest common ancestor, and the two operations agree.\<close>

theorem FindFork_LastCommonAncestor:
  assumes "index_ok st" and "st t = Some d" and "st p = Some b"
  shows "(\<exists>r. FindFork st (chain_of st t) (Some p) = Some (Inr r) \<and> last_common st p t r) \<and>
    (anc st p 0 = anc st t 0 \<longrightarrow>
      (\<exists>q. LastCommonAncestor st p t = Some (Inr (Some q)) \<and> last_common st p t (Some q) \<and>
        FindFork st (chain_of st t) (Some p) = Some (Inr (Some q))))"
  using FindFork_last_common [OF assms] LastCommonAncestor_last_common [OF assms(1,3,2)] last_common_unique
  by blast

theorem FindFork_LastCommonAncestor_witness:
  "index_ok sample_store \<and> FindFork sample_store (chain_of sample_store 4) (Some 7) = Some (Inr (Some 1)) \<and>
   LastCommonAncestor sample_store 7 4 = Some (Inr (Some 1))"
proof -
  have t: "sample_store 4 = Some (entry (Some 3) (Some 0) 4 50)" and p: "sample_store 7 = Some (entry (Some 1) (Some 0) 2 35)"
    by (simp_all add: sample_store_def)
  have root: "anc sample_store 7 0 = anc sample_store 4 0" by code_simp
  have c: "anc sample_store 7 1 = Some 1" "anc sample_store 4 1 = Some 1"
    "anc sample_store 7 2 \<noteq> anc sample_store 4 2" by code_simp+
  have "last_common sample_store 7 4 (Some 1)"
    unfolding last_common_def option.case
  proof (intro exI conjI allI impI)
    fix j :: nat
    assume "1 < j"
    then show "anc sample_store 7 j = None \<or> anc sample_store 7 j \<noteq> anc sample_store 4 j"
      using c(3) anc_above [of sample_store 7 _ j, OF p] by (cases "j = 2") auto
  qed (fact c)+
  then show ?thesis
    using FindFork_LastCommonAncestor [OF sample_index_ok t p] root sample_index_ok
      last_common_unique [of sample_store 7 4 "Some 1"] by blast
qed

end
