(* ===== verification/Chain_Time.thy ===== *)
theory Chain_Time
  imports Chain_Active "HOL-Library.Multiset"
begin

text \<open>
  Median times, block locators and the search by time over the active chain.
\<close>

section \<open>Median time past\<close>

fun past_times :: "index_store \<Rightarrow> nat \<Rightarrow> ptr option \<Rightarrow> int list" where
  "past_times st 0 p = []"
| "past_times st (Suc n) p =
     (case p of
        None \<Rightarrow> []
      | Some q \<Rightarrow> (case st q of None \<Rightarrow> [] | Some b \<Rightarrow> GetBlockTime b # past_times st n (pprev b)))"

lemma median_times_past:
  assumes "linked st"
  shows "(\<forall>q. p = Some q \<longrightarrow> q \<in> dom st) \<Longrightarrow> median_times st n p ts = Inr (rev (past_times st n p) @ ts)"
proof (induction n arbitrary: p ts)
  case (Suc n)
  show ?case
  proof (cases p)
    case (Some q)
    with Suc.prems obtain b where b: "st q = Some b" by auto
    have "\<forall>r. pprev b = Some r \<longrightarrow> r \<in> dom st" using linked_prev [OF assms b] by auto
    then show ?thesis using Suc.IH b Some by (simp add: deref_def)
  qed simp
qed simp

lemma GetMedianTimePast_past:
  assumes "linked st" "st p = Some b"
  shows "GetMedianTimePast st p = Inr (sort (past_times st 11 (Some p)) ! (length (past_times st 11 (Some p)) div 2))"
proof -
  have "sort (rev xs) = sort xs" for xs :: "int list" by (rule properties_for_sort) simp_all
  then show ?thesis
    using median_times_past [OF assms(1), of "Some p" 11 "[]"] assms(2)
    by (simp add: GetMedianTimePast_def nMedianTimeSpan_def domI)
qed

lemma past_times_take: "n \<le> m \<Longrightarrow> past_times st n p = take n (past_times st m p)"
proof (induction n arbitrary: m p)
  case (Suc n)
  then obtain k where k: "m = Suc k" "n \<le> k" by (cases m) auto
  then show ?case using Suc.IH [OF k(2)] by (cases p) (auto split: option.splits)
qed simp

lemma length_past_times: "length (past_times st n p) \<le> n"
  by (induction st n p rule: past_times.induct) (auto split: option.splits)

text \<open>Counting around an element of the sorted list.\<close>

lemma length_filter_sort: "length (filter P (sort xs)) = length (filter P xs)"
  by (metis mset_filter mset_sort size_mset)

lemma filter_sorted_less:
  fixes s :: "int list"
  assumes "sorted s" "k < length s"
  shows "length (filter (\<lambda>x. x < s ! k) s) \<le> k"
proof -
  have "filter (\<lambda>x. x < s ! k) (drop k s) = []"
    using assms by (auto simp: filter_empty_conv in_set_conv_nth sorted_nth_mono not_less)
  then have "filter (\<lambda>x. x < s ! k) s = filter (\<lambda>x. x < s ! k) (take k s)"
    by (metis append_Nil2 append_take_drop_id filter_append)
  then show ?thesis by (metis length_filter_le length_take min.bounded_iff)
qed

lemma filter_sorted_ge:
  fixes s :: "int list"
  assumes "sorted s" "k < length s" "s ! k < m"
  shows "Suc k \<le> length (filter (\<lambda>x. x < m) s)"
proof -
  have "s ! i < m" if "i \<le> k" for i using sorted_nth_mono [OF assms(1) that] assms by simp
  then have "filter (\<lambda>x. x < m) (take (Suc k) s) = take (Suc k) s"
    by (auto simp: filter_id_conv in_set_conv_nth less_Suc_eq_le)
  then have "length (filter (\<lambda>x. x < m) (take (Suc k) s)) = Suc k" using assms(2) by simp
  then show ?thesis by (metis append_take_drop_id filter_append le_add1 length_append)
qed

definition median :: "int list \<Rightarrow> int" where
  "median ts = sort ts ! (length ts div 2)"

lemma median_below: "ts \<noteq> [] \<Longrightarrow> length (filter (\<lambda>x. x < median ts) ts) \<le> length ts div 2"
  using filter_sorted_less [of "sort ts" "length ts div 2"] by (simp add: median_def length_filter_sort)

lemma median_shift:
  assumes "ts \<noteq> []" "length ts \<le> Suc n" "median ts \<le> t"
  shows "median ts \<le> median (t # take n ts)"
proof (rule ccontr)
  let ?ts = "t # take n ts"
  assume "\<not> median ts \<le> median ?ts"
  then have "sort ?ts ! (length ?ts div 2) < median ts" by (simp add: median_def)
  then have "Suc (length ?ts div 2) \<le> length (filter (\<lambda>x. x < median ts) ?ts)"
    using filter_sorted_ge [of "sort ?ts" "length ?ts div 2"] by (simp add: length_filter_sort del: sort_key_simps list.size)
  also have "\<dots> = length (filter (\<lambda>x. x < median ts) (take n ts))" using assms(3) by simp
  also have "\<dots> \<le> length (filter (\<lambda>x. x < median ts) ts)"
    by (metis append_take_drop_id filter_append le_add1 length_append)
  also have "\<dots> \<le> length ts div 2" using median_below [OF assms(1)] .
  also have "\<dots> \<le> length ?ts div 2" using assms(2) by (auto simp: min_def intro!: div_le_mono)
  finally show False by simp
qed

lemma median_past_step:
  assumes "st p = Some b" "pprev b = Some q" "st q = Some c" "median (past_times st 11 (Some q)) \<le> GetBlockTime b"
  shows "median (past_times st 11 (Some q)) \<le> median (past_times st 11 (Some p))"
proof -
  let ?ts = "past_times st 11 (Some q)"
  have "past_times st (Suc 10) (Some p) = GetBlockTime b # past_times st 10 (Some q)"
    using assms(1,2) by (simp only: past_times.simps option.case)
  then have "past_times st 11 (Some p) = GetBlockTime b # take 10 ?ts"
    using past_times_take [of 10 11 st "Some q"] by (simp add: eval_nat_numeral)
  moreover have "?ts \<noteq> []" using assms(3) by (simp add: eval_nat_numeral)
  ultimately show ?thesis using median_shift [of ?ts 10] length_past_times [of st 11 "Some q"] assms(4) by simp
qed

text \<open>C33: the median time past never decreases along a chain whose blocks are later than the median
  of their predecessors, which is what header validation demands.  The median is defined for every
  entry of a well-formed index, and half of the at most eleven times it ranges over are not above
  it.\<close>

theorem GetMedianTimePast_mono:
  assumes "linked st" and "st p = Some b" and "pprev b = Some q"
  shows "\<exists>m m'. GetMedianTimePast st q = Inr m \<and> GetMedianTimePast st p = Inr m' \<and>
    (m < GetBlockTime b \<longrightarrow> m \<le> m') \<and>
    length (filter (\<lambda>x. x < m) (past_times st 11 (Some q))) \<le> length (past_times st 11 (Some q)) div 2"
proof -
  obtain c where c: "st q = Some c" using linked_prev [OF assms] by auto
  let ?ts = "past_times st 11 (Some q)"
  have ne: "?ts \<noteq> []" using c by (simp add: eval_nat_numeral)
  have "median ?ts < GetBlockTime b \<longrightarrow> median ?ts \<le> median (past_times st 11 (Some p))"
    using median_past_step [OF assms(2,3) c] by auto
  then show ?thesis
    using GetMedianTimePast_past [OF assms(1) c] GetMedianTimePast_past [OF assms(1,2)] median_below [OF ne]
    by (auto simp: median_def)
qed

theorem GetMedianTimePast_mono_witness:
  "linked sample_store \<and> GetMedianTimePast sample_store 3 = Inr 30 \<and> GetMedianTimePast sample_store 4 = Inr 30 \<and>
   (\<exists>m m'. GetMedianTimePast sample_store 3 = Inr m \<and> GetMedianTimePast sample_store 4 = Inr m' \<and> m \<le> m')"
proof -
  have p: "sample_store 4 = Some (entry (Some 3) (Some 0) 4 50)" by (simp add: sample_store_def)
  have "GetMedianTimePast sample_store 3 = Inr 30" "GetMedianTimePast sample_store 4 = Inr 30" by code_simp+
  then show ?thesis using GetMedianTimePast_mono [OF sample_linked p] sample_linked by (auto simp: GetBlockTime_def)
qed

section \<open>Locators\<close>

text \<open>The heights a locator lists: ten single steps, then steps that double, down to genesis.\<close>

function locator_heights :: "nat \<Rightarrow> nat \<Rightarrow> nat \<Rightarrow> nat list" where
  "locator_heights e n h =
     (if h = 0 then [0] else h # locator_heights (if n + 1 > 10 then Suc e else e) (n + 1) (h - 2 ^ e))"
  by pat_completeness auto
termination by (relation "measure (\<lambda>(_, _, h). h)") auto

declare locator_heights.simps [simp del]

definition hash_at :: "index_store \<Rightarrow> ptr \<Rightarrow> nat \<Rightarrow> uint256" where
  "hash_at st p i = (case anc st p i of Some q \<Rightarrow> (case st q of Some b \<Rightarrow> phashBlock b | None \<Rightarrow> []) | None \<Rightarrow> [])"

lemma locator_loop_heights:
  assumes ok: "index_ok st" and t: "st t = Some d" and p: "st p = Some b"
  shows "anc st p h = Some q \<Longrightarrow>
    locator_loop st (chain_of st t) (2 ^ e) vHave (Some q) =
      Some (Inr (vHave @ map (hash_at st p) (locator_heights e (length vHave) h)))"
proof (induction e "length vHave" h arbitrary: vHave q rule: locator_heights.induct)
  case (1 e h)
  have lk: "linked st" using ok by (simp add: index_ok_def)
  obtain c where c: "st q = Some c" "nHeight c = h" using anc_height [OF lk "1.prems"] .
  have hash: "hash_at st p h = phashBlock c" using "1.prems" c by (simp add: hash_at_def)
  show ?case
  proof (cases "h = 0")
    case True
    then show ?thesis using c hash by (subst locator_loop.simps) (simp add: locator_heights.simps)
  next
    case False
    let ?h = "h - 2 ^ e"
    have mx: "max (int h - int (2 ^ e)) 0 = int ?h" by (simp add: max_def)
    obtain r where r: "anc st q ?h = Some r" using anc_Some [OF lk c(1), of ?h] c(2) by auto
    have pr: "anc st p ?h = Some r" using anc_trans [OF lk "1.prems", of ?h] r by simp
    have jump: "(if chain_at (chain_of st t) (int h) = Some q then Inr (chain_at (chain_of st t) (int ?h))
        else GetAncestor st q (int ?h)) = Inr (Some r)"
    proof (cases "chain_at (chain_of st t) (int h) = Some q")
      case True
      then have "anc st t h = Some q" using chain_at_chain_of [of st t d, OF t] by simp
      then have "anc st t ?h = Some r" using anc_trans [OF lk, of t h q ?h] r by simp
      then show ?thesis using True chain_at_chain_of [of st t d, OF t] by simp
    next
      case False
      then show ?thesis using GetAncestor_anc [OF ok c(1), of "int ?h"] r by simp
    qed
    have step: "locator_loop st (chain_of st t) (2 ^ e) vHave (Some q) =
      locator_loop st (chain_of st t) (if length vHave + 1 > 10 then 2 ^ e * 2 else 2 ^ e) (vHave @ [phashBlock c]) (Some r)"
      by (subst locator_loop.simps) (simp only: c option.case False if_False mx jump sum.case)
    have "(if length vHave + 1 > 10 then 2 ^ e * 2 else 2 ^ e) = (2 :: nat) ^ (if length vHave + 1 > 10 then Suc e else e)"
      by simp
    then have "locator_loop st (chain_of st t) (2 ^ e) vHave (Some q) =
      Some (Inr ((vHave @ [phashBlock c]) @ map (hash_at st p)
        (locator_heights (if length vHave + 1 > 10 then Suc e else e) (length (vHave @ [phashBlock c])) ?h)))"
      using step "1.hyps" [OF False, of "vHave @ [phashBlock c]" r] pr by (simp only: length_append list.size)
    then show ?thesis using False hash by (subst locator_heights.simps) simp
  qed
qed

lemma length_locator_far: "10 \<le> n \<Longrightarrow> h \<le> 2 ^ e * (2 ^ k - 1) \<Longrightarrow> length (locator_heights e n h) \<le> Suc k"
proof (induction k arbitrary: e n h)
  case 0
  then show ?case by (simp add: locator_heights.simps)
next
  case (Suc k)
  have "h - 2 ^ e \<le> 2 ^ Suc e * (2 ^ k - 1)" using Suc.prems(2) by (simp add: diff_mult_distrib2)
  then have "length (locator_heights (Suc e) (n + 1) (h - 2 ^ e)) \<le> Suc k" using Suc.prems(1) by (intro Suc.IH) auto
  then show ?case using Suc.prems(1) by (subst locator_heights.simps) simp
qed

lemma length_locator_near:
  "n \<le> 10 \<Longrightarrow> h < 2 ^ k \<Longrightarrow> length (locator_heights 0 n h) \<le> (10 - n) + Suc k"
proof (induction "10 - n" arbitrary: n h)
  case 0
  then show ?case using length_locator_far [of n h 0 k] by auto
next
  case (Suc m)
  then have n: "n < 10" by simp
  then have "length (locator_heights 0 (n + 1) (h - 1)) \<le> (10 - (n + 1)) + Suc k"
    using Suc.prems(2) Suc.hyps(2) by (intro Suc.hyps(1)) auto
  moreover have "10 - n = Suc (10 - (n + 1))" using n by simp
  ultimately show ?case using n by (subst locator_heights.simps) simp
qed

text \<open>A block locator lists, for whichever of the two lookups each step uses, the hashes of the
  block's ancestors at fixed heights: the block itself, ten single steps back, then steps that
  double, down to genesis.  Below height \<open>2 ^ k\<close> these are at most \<open>11 + k\<close> hashes.\<close>

theorem GetLocator_ancestors:
  assumes "index_ok st" and "st t = Some d" and "st p = Some b" and "nHeight b < 2 ^ k"
  shows "GetLocator st (chain_of st t) (Some p) =
      Some (Inr (map (hash_at st p) (locator_heights 0 0 (nHeight b)))) \<and>
    length (locator_heights 0 0 (nHeight b)) \<le> 11 + k"
  using locator_loop_heights [OF assms(1-3) anc_self [of st p b, OF assms(3)], of 0 "[]"]
    length_locator_near [of 0 "nHeight b" k] assms(4)
  by (simp add: GetLocator_def)

theorem GetLocator_ancestors_witness:
  "GetLocator sample_store (chain_of sample_store 4) (Some 7) =
     Some (Inr [replicate 32 2, replicate 32 1, replicate 32 0])"
proof -
  have t: "sample_store 4 = Some (entry (Some 3) (Some 0) 4 50)" and p: "sample_store 7 = Some (entry (Some 1) (Some 0) 2 35)"
    by (simp_all add: sample_store_def)
  have "map (hash_at sample_store 7) (locator_heights 0 0 2) = [replicate 32 2, replicate 32 1, replicate 32 0]"
    by code_simp
  then show ?thesis using GetLocator_ancestors [OF sample_index_ok t p, of 2] by simp
qed

section \<open>Search by time\<close>

lemma lower_bound_partition:
  "first \<le> k \<Longrightarrow> k \<le> first + len \<Longrightarrow> (\<And>i. first \<le> i \<Longrightarrow> i < first + len \<Longrightarrow> lt (v ! i) \<longleftrightarrow> i < k) \<Longrightarrow>
   lower_bound lt v first len = k"
proof (induction lt v first len rule: lower_bound.induct)
  case (1 lt v first len)
  show ?case
  proof (cases "len = 0")
    case True
    then show ?thesis using "1.prems" by (simp add: lower_bound.simps)
  next
    case False
    let ?m = "first + len div 2"
    have m: "lt (v ! ?m) \<longleftrightarrow> ?m < k" using "1.prems"(3) [of ?m] False by simp
    show ?thesis
    proof (cases "?m < k")
      case True
      have "lower_bound lt v (?m + 1) (len - len div 2 - 1) = k"
        using False True m "1.prems" by (intro "1.IH"(1)) auto
      then show ?thesis using False True m by (subst lower_bound.simps) (simp add: Let_def)
    next
      case ge: False
      have "lower_bound lt v first (len div 2) = k"
        using False ge m "1.prems" by (intro "1.IH"(2)) auto
      then show ?thesis using False ge m by (subst lower_bound.simps) (simp add: Let_def)
    qed
  qed
qed

text \<open>Time maxima grow from parent to child.\<close>

definition time_max_ok :: "index_store \<Rightarrow> bool" where
  "time_max_ok st \<longleftrightarrow> (\<forall>p b q c. st p = Some b \<longrightarrow> pprev b = Some q \<longrightarrow> st q = Some c \<longrightarrow> nTimeMax c \<le> nTimeMax b)"

definition time_max_at :: "index_store \<Rightarrow> ptr \<Rightarrow> nat \<Rightarrow> int" where
  "time_max_at st t i =
     (case anc st t i of Some q \<Rightarrow> (case st q of Some b \<Rightarrow> GetBlockTimeMax b | None \<Rightarrow> 0) | None \<Rightarrow> 0)"

lemma time_max_at_Suc:
  assumes "linked st" "time_max_ok st" "st t = Some d" "i < nHeight d"
  shows "time_max_at st t i \<le> time_max_at st t (Suc i)"
proof -
  obtain q c where q: "anc st t (Suc i) = Some q" "st q = Some c" "nHeight c = Suc i"
    using anc_Some [OF assms(1,3), of "Suc i"] assms(4) by auto
  from assms(1) q(2,3) obtain r e where r: "pprev c = Some r" "st r = Some e" "nHeight e = i"
    by (elim linked_cases) auto
  have "anc st t i = Some r"
    using anc_trans [OF assms(1) q(1), of i] anc_prev [OF assms(1) q(2) r(1), of i] anc_self [of st r e] q r by simp
  moreover have "nTimeMax e \<le> nTimeMax c" using assms(2) q(2) r by (auto simp: time_max_ok_def)
  ultimately show ?thesis using q r by (simp add: time_max_at_def GetBlockTimeMax_def word_le_def)
qed

lemma time_max_at_mono:
  assumes "linked st" "time_max_ok st" "st t = Some d"
  shows "i \<le> j \<Longrightarrow> j \<le> nHeight d \<Longrightarrow> time_max_at st t i \<le> time_max_at st t j"
proof (induction j)
  case (Suc j)
  then show ?case using time_max_at_Suc [OF assms, of j] by (cases "i = Suc j") auto
qed simp

text \<open>The bisection of \<open>FindEarliestAtLeast\<close> finds the first block of the active chain whose time
  maximum reaches the given time, and null exactly when no block's does.\<close>

theorem FindEarliestAtLeast_first:
  assumes "linked st" and "time_max_ok st" and "st t = Some d"
  shows "\<exists>k. FindEarliestAtLeast st (chain_of st t) time = (if k \<le> nHeight d then anc st t k else None) \<and>
    (\<forall>i\<le>nHeight d. time_max_at st t i < time \<longleftrightarrow> i < k)"
proof -
  let ?k = "LEAST k. nHeight d < k \<or> \<not> time_max_at st t k < time"
  have ex: "nHeight d < ?k \<or> \<not> time_max_at st t ?k < time" by (rule LeastI [of _ "Suc (nHeight d)"]) simp
  have least: "i < ?k \<Longrightarrow> i \<le> nHeight d \<and> time_max_at st t i < time" for i
    using not_less_Least [of i "\<lambda>k. nHeight d < k \<or> \<not> time_max_at st t k < time"] by auto
  have k: "?k \<le> Suc (nHeight d)" by (rule Least_le) simp
  have part: "time_max_at st t i < time \<longleftrightarrow> i < ?k" if "i \<le> nHeight d" for i
    using that ex least [of i] time_max_at_mono [OF assms, of ?k i] by fastforce
  have "time_max_below st time (chain_of st t ! i) \<longleftrightarrow> i < ?k" if "i < Suc (nHeight d)" for i
    using that part [of i] anc_Some [OF assms(1,3), of i] nth_chain_of [of st t d i, OF assms(3)]
    by (auto simp: time_max_below_def time_max_at_def)
  then have "lower_bound (time_max_below st time) (chain_of st t) 0 (Suc (nHeight d)) = ?k"
    using k by (intro lower_bound_partition) auto
  then have "FindEarliestAtLeast st (chain_of st t) time = (if ?k \<le> nHeight d then anc st t ?k else None)"
    using k assms(3) nth_chain_of [of st t d ?k, OF assms(3)] by (simp add: FindEarliestAtLeast_def)
  then show ?thesis using part by blast
qed

theorem FindEarliestAtLeast_first_witness:
  "linked sample_store \<and> time_max_ok sample_store \<and> FindEarliestAtLeast sample_store (chain_of sample_store 4) 25 = Some 2 \<and>
   (\<exists>k. FindEarliestAtLeast sample_store (chain_of sample_store 4) 25 = (if k \<le> 4 then anc sample_store 4 k else None))"
proof -
  have t: "sample_store 4 = Some (entry (Some 3) (Some 0) 4 50)" by (simp add: sample_store_def)
  have tm: "time_max_ok sample_store"
    by (auto simp: time_max_ok_def dest!: sample_store_cases)
  have "FindEarliestAtLeast sample_store (chain_of sample_store 4) 25 = Some 2" by code_simp
  then show ?thesis using FindEarliestAtLeast_first [OF sample_linked tm t, of 25] sample_linked tm by auto
qed

end
