(* ===== verification/Uint_Laws.thy ===== *)
theory Uint_Laws
  imports Compact
begin

text \<open>
  What the consensus code relies on of 256-bit integers: arithmetic modulo \<open>2 ^ 256\<close> on the values.
  The locale states it as a contract, the limb implementation provides it, and the formulas for
  work and targets are derived from the contract alone.
\<close>

locale modular_uint =
  fixes val :: "'a \<Rightarrow> nat" and wf :: "'a \<Rightarrow> bool" and W :: nat
    and add :: "'a \<Rightarrow> 'a \<Rightarrow> 'a" and sub :: "'a \<Rightarrow> 'a \<Rightarrow> 'a" and mul :: "'a \<Rightarrow> 'a \<Rightarrow> 'a"
    and quot :: "'a \<Rightarrow> 'a \<Rightarrow> 'a option" and compl :: "'a \<Rightarrow> 'a" and cmp :: "'a \<Rightarrow> 'a \<Rightarrow> int"
    and small :: "u64 \<Rightarrow> 'a"
  assumes val_bound: "wf a \<Longrightarrow> val a < 2 ^ W"
    and val_add: "wf a \<Longrightarrow> wf b \<Longrightarrow> wf (add a b) \<and> val (add a b) = (val a + val b) mod 2 ^ W"
    and val_sub: "wf a \<Longrightarrow> wf b \<Longrightarrow> val b \<le> val a \<Longrightarrow> wf (sub a b) \<and> val (sub a b) = val a - val b"
    and val_mul: "wf a \<Longrightarrow> wf b \<Longrightarrow> wf (mul a b) \<and> val (mul a b) = (val a * val b) mod 2 ^ W"
    and val_quot: "wf a \<Longrightarrow> wf b \<Longrightarrow> val b \<noteq> 0 \<Longrightarrow> \<exists>q. quot a b = Some q \<and> wf q \<and> val q = val a div val b"
    and val_compl: "wf a \<Longrightarrow> wf (compl a) \<and> val (compl a) = 2 ^ W - 1 - val a"
    and cmp_val: "wf a \<Longrightarrow> wf b \<Longrightarrow> cmp a b = (if val a < val b then - 1 else if val a > val b then 1 else 0)"
    and val_small: "wf (small n) \<and> val (small n) = unat n"
begin

text \<open>The quotient \<open>2 ^ W div (t + 1)\<close> without the unrepresentable \<open>2 ^ W\<close>.\<close>

lemma work_quotient:
  assumes "wf t" "val t + 1 < 2 ^ W"
  shows "\<exists>q. quot (compl t) (add t (small 1)) = Some q \<and> wf (add q (small 1)) \<and>
    val (add q (small 1)) = (2 ^ W div (val t + 1)) mod 2 ^ W"
proof -
  have s1: "wf (small 1)" "val (small 1) = 1" using val_small [of 1] by auto
  have t1: "wf (add t (small 1))" "val (add t (small 1)) = val t + 1"
    using val_add [OF assms(1) s1(1)] s1 assms(2) by auto
  obtain q where q: "quot (compl t) (add t (small 1)) = Some q" "wf q" "val q = (2 ^ W - 1 - val t) div (val t + 1)"
    using val_quot [of "compl t" "add t (small 1)"] val_compl [OF assms(1)] t1 by auto
  have "(2 ^ W - 1 - val t) div (val t + 1) + 1 = (2 ^ W - 1 - val t + (val t + 1)) div (val t + 1)"
    by (subst div_add_self2) simp_all
  also have "2 ^ W - 1 - val t + (val t + 1) = 2 ^ W" using assms(2) by simp
  finally have "val q + 1 = 2 ^ W div (val t + 1)" using q(3) by simp
  then show ?thesis using q val_add [OF q(2) s1(1)] s1 by auto
qed

lemma cmp_simps:
  assumes "wf a" "wf b"
  shows "cmp a b > 0 \<longleftrightarrow> val a > val b" "cmp a b < 0 \<longleftrightarrow> val a < val b" "cmp a b \<le> 0 \<longleftrightarrow> val a \<le> val b"
    "cmp a b = 0 \<longleftrightarrow> val a = val b"
  using cmp_val [OF assms] by auto

lemma mul_exact: "wf a \<Longrightarrow> wf b \<Longrightarrow> val a * val b < 2 ^ W \<Longrightarrow> val (mul a b) = val a * val b"
  using val_mul [of a b] by simp

lemma add_exact: "wf a \<Longrightarrow> wf b \<Longrightarrow> val a + val b < 2 ^ W \<Longrightarrow> val (add a b) = val a + val b"
  using val_add [of a b] by simp

end

interpretation u256: modular_uint limbs wf_uint 256 uint_add uint_sub uint_mul uint_div uint_not CompareTo base_uint_u64
proof unfold_locales
  show "wf_uint a \<Longrightarrow> limbs a < 2 ^ 256" for a
    using limbs_bound [of a] by (simp add: wf_uint_def WIDTH_def)
  show "wf_uint a \<Longrightarrow> wf_uint b \<Longrightarrow> wf_uint (uint_add a b) \<and> limbs (uint_add a b) = (limbs a + limbs b) mod 2 ^ 256" for a b
    by (simp add: wf_uint_def limbs_add WIDTH_def)
  show "wf_uint a \<Longrightarrow> wf_uint b \<Longrightarrow> limbs b \<le> limbs a \<Longrightarrow> wf_uint (uint_sub a b) \<and> limbs (uint_sub a b) = limbs a - limbs b" for a b
    by (simp add: wf_uint_def limbs_sub_ge WIDTH_def)
  show "wf_uint a \<Longrightarrow> wf_uint b \<Longrightarrow> wf_uint (uint_mul a b) \<and> limbs (uint_mul a b) = (limbs a * limbs b) mod 2 ^ 256" for a b
    by (simp add: wf_uint_def limbs_mul WIDTH_def)
  show "wf_uint a \<Longrightarrow> wf_uint b \<Longrightarrow> limbs b \<noteq> 0 \<Longrightarrow> \<exists>q. uint_div a b = Some q \<and> wf_uint q \<and> limbs q = limbs a div limbs b" for a b
    using limbs_div [of a WIDTH b] by (simp add: wf_uint_def)
  show "wf_uint a \<Longrightarrow> wf_uint (uint_not a) \<and> limbs (uint_not a) = 2 ^ 256 - 1 - limbs a" for a
    by (simp add: wf_uint_def limbs_not WIDTH_def)
  show "wf_uint a \<Longrightarrow> wf_uint b \<Longrightarrow>
      CompareTo a b = (if limbs a < limbs b then - 1 else if limbs b < limbs a then 1 else 0)" for a b
    by (simp add: wf_uint_def CompareTo_limbs)
  show "wf_uint (base_uint_u64 n) \<and> limbs (base_uint_u64 n) = unat n" for n
    by (simp add: wf_uint_def limbs_u64 length_u64)
qed

end
