(* ===== verification/Pow.thy ===== *)
theory Pow
  imports Chain_Index Uint_Laws "HOL-Library.Signed_Division"
begin

text \<open>
  \<open>consensus/params.h\<close>, \<open>pow.cpp\<close> and the work functions of \<open>chain.cpp\<close>: difficulty, targets and
  proof of work.
\<close>

section \<open>Consensus parameters\<close>

record BIP9Deployment =
  dep_bit :: nat
  dep_nStartTime :: int
  dep_nTimeout :: int

record Params =
  hashGenesisBlock :: uint256
  nSubsidyHalvingInterval :: int
  BIP16Exception :: uint256
  BIP34Height :: int
  BIP34Hash :: uint256
  BIP65Height :: int
  BIP66Height :: int
  nRuleChangeActivationThreshold :: u32
  nMinerConfirmationWindow :: u32
  vDeployments :: "BIP9Deployment list"
  powLimit :: uint256
  posLimit :: uint256
  fPowAllowMinDifficultyBlocks :: bool
  fPowNoRetargeting :: bool
  fPoSNoRetargeting :: bool
  nPowTargetSpacing :: int
  nPowTargetTimespan :: int
  nMinimumChainWork :: uint256
  defaultAssumeValid :: uint256
  nLastPOWBlock :: int
  nFirstMPoSBlock :: int
  nMPoSRewardRecipients :: int
  nFixUTXOCacheHFHeight :: int
  nEnableHeaderSignatureHeight :: int

definition DifficultyAdjustmentInterval :: "Params \<Rightarrow> int" where
  "DifficultyAdjustmentInterval params = nPowTargetTimespan params sdiv nPowTargetSpacing params"

section \<open>Targets\<close>

text \<open>A computation over the index that may fail or not end.\<close>

type_synonym 'a run = "(chain_error + 'a) option"

definition bindR :: "'a run \<Rightarrow> ('a \<Rightarrow> 'b run) \<Rightarrow> 'b run" where
  "bindR m f = (case m of None \<Rightarrow> None | Some (Inl e) \<Rightarrow> Some (Inl e) | Some (Inr x) \<Rightarrow> f x)"

lemma bindR_simps [simp]:
  "bindR None f = None" "bindR (Some (Inl e)) f = Some (Inl e)" "bindR (Some (Inr x)) f = f x"
  by (simp_all add: bindR_def)

definition assertR :: "'a option \<Rightarrow> 'a run" where
  "assertR m = (case m of None \<Rightarrow> Some (Inl AssertFail) | Some x \<Rightarrow> Some (Inr x))"

partial_function (option) last_block_loop :: "index_store \<Rightarrow> bool \<Rightarrow> ptr \<Rightarrow> ptr run" where
  "last_block_loop st fProofOfStake p =
     (case st p of
        None \<Rightarrow> Some (Inl NullDeref)
      | Some b \<Rightarrow>
          (case pprev b of
             None \<Rightarrow> Some (Inr p)
           | Some q \<Rightarrow> if IsProofOfStake b \<noteq> fProofOfStake then last_block_loop st fProofOfStake q else Some (Inr p)))"

definition GetLastBlockIndex :: "index_store \<Rightarrow> ptr \<Rightarrow> bool \<Rightarrow> ptr run" where
  "GetLastBlockIndex st pindex fProofOfStake = last_block_loop st fProofOfStake pindex"

definition GetLimit :: "Params \<Rightarrow> bool \<Rightarrow> base_uint" where
  "GetLimit params fProofOfStake =
     (if fProofOfStake then UintToArith256 (posLimit params) else UintToArith256 (powLimit params))"

text \<open>\<open>bnNew *= int64_t\<close> selects the operator on 32-bit integers, so the factor is taken modulo
  \<open>2 ^ 32\<close>; \<open>bnNew /= int64_t\<close> converts to a 256-bit integer.\<close>

definition retarget :: "base_uint \<Rightarrow> base_uint \<Rightarrow> int \<Rightarrow> int \<Rightarrow> int \<Rightarrow> base_uint option" where
  "retarget bnTargetLimit bnOld nInterval nTargetSpacing nActualSpacing =
     (let bnNew = uint_mul32 bnOld (word_of_int ((nInterval - 1) * nTargetSpacing + nActualSpacing + nActualSpacing)) in
      Option.bind (uint_div bnNew (base_uint_u64 (word_of_int ((nInterval + 1) * nTargetSpacing)))) (\<lambda>bnNew.
      if CompareTo bnNew (base_uint_u64 0) \<le> 0 \<or> CompareTo bnNew bnTargetLimit > 0 then Some bnTargetLimit
      else Some bnNew))"

definition clamp_spacing :: "int \<Rightarrow> int \<Rightarrow> int" where
  "clamp_spacing nTargetSpacing nActualSpacing =
     (let nActualSpacing = (if nActualSpacing < 0 then nTargetSpacing else nActualSpacing) in
      if nActualSpacing > nTargetSpacing * 10 then nTargetSpacing * 10 else nActualSpacing)"

definition CalculateNextWorkRequired :: "CBlockIndex \<Rightarrow> int \<Rightarrow> Params \<Rightarrow> bool \<Rightarrow> u32 option" where
  "CalculateNextWorkRequired pindexLast nFirstBlockTime params fProofOfStake =
     (if (if fProofOfStake then fPoSNoRetargeting params else fPowNoRetargeting params) then Some (nBits pindexLast)
      else
        let nTargetSpacing = nPowTargetSpacing params;
            nActualSpacing = clamp_spacing nTargetSpacing (GetBlockTime pindexLast - nFirstBlockTime);
            bnTargetLimit = GetLimit params fProofOfStake;
            bnNew = fst (SetCompact (nBits pindexLast));
            nInterval = DifficultyAdjustmentInterval params in
        Option.bind (retarget bnTargetLimit bnNew nInterval nTargetSpacing nActualSpacing) (\<lambda>bnNew.
        GetCompact bnNew False))"

partial_function (option) min_difficulty_loop :: "index_store \<Rightarrow> int \<Rightarrow> u32 \<Rightarrow> ptr \<Rightarrow> u32 run" where
  "min_difficulty_loop st interval nTargetLimit p =
     (case st p of
        None \<Rightarrow> Some (Inl NullDeref)
      | Some b \<Rightarrow>
          (case pprev b of
             None \<Rightarrow> Some (Inr (nBits b))
           | Some q \<Rightarrow>
               if int (nHeight b) smod interval \<noteq> 0 \<and> nBits b = nTargetLimit
               then min_difficulty_loop st interval nTargetLimit q
               else Some (Inr (nBits b))))"

text \<open>The part the two functions share, up to what they return in the end.\<close>

definition next_work :: "(CBlockIndex \<Rightarrow> CBlockIndex \<Rightarrow> u32 option) \<Rightarrow> index_store \<Rightarrow> ptr option \<Rightarrow> CBlockHeader \<Rightarrow>
    Params \<Rightarrow> bool \<Rightarrow> u32 \<Rightarrow> u32 run" where
  "next_work calculate st pindexLast pblock params fProofOfStake nTargetLimit =
     (case pindexLast of
        None \<Rightarrow> Some (Inr nTargetLimit)
      | Some l \<Rightarrow>
          bindR (Some (deref st l)) (\<lambda>bLast.
          bindR (GetLastBlockIndex st l fProofOfStake) (\<lambda>pindexPrev.
          bindR (Some (deref st pindexPrev)) (\<lambda>bPrev.
          case pprev bPrev of
            None \<Rightarrow> Some (Inr nTargetLimit)
          | Some pp \<Rightarrow>
              bindR (GetLastBlockIndex st pp fProofOfStake) (\<lambda>pindexPrevPrev.
              bindR (Some (deref st pindexPrevPrev)) (\<lambda>bPrevPrev.
              if pprev bPrevPrev = None then Some (Inr nTargetLimit)
              else if fPowAllowMinDifficultyBlocks params then
                (if hdr_GetBlockTime pblock > GetBlockTime bLast + nPowTargetSpacing params * 2
                 then Some (Inr nTargetLimit)
                 else min_difficulty_loop st (DifficultyAdjustmentInterval params) nTargetLimit l)
              else assertR (calculate bPrev bPrevPrev)))))))"

definition GetNextWorkRequired :: "index_store \<Rightarrow> ptr option \<Rightarrow> CBlockHeader \<Rightarrow> Params \<Rightarrow> bool \<Rightarrow> u32 run" where
  "GetNextWorkRequired st pindexLast pblock params fProofOfStake =
     bindR (assertR (GetCompact (GetLimit params fProofOfStake) False)) (\<lambda>nTargetLimit.
     next_work (\<lambda>prev prevPrev. CalculateNextWorkRequired prev (GetBlockTime prevPrev) params fProofOfStake)
       st pindexLast pblock params fProofOfStake nTargetLimit)"

definition GetNextWorkRequiredSW :: "index_store \<Rightarrow> ptr option \<Rightarrow> CBlockHeader \<Rightarrow> Params \<Rightarrow> bool \<Rightarrow> u32 run" where
  "GetNextWorkRequiredSW st pindexLast pblock params fProofOfStake =
     bindR (assertR (GetCompact (GetLimit params (\<not> fProofOfStake)) False)) (\<lambda>nTargetLimit.
     next_work (\<lambda>prev prevPrev. Some (nBits prevPrev)) st pindexLast pblock params fProofOfStake nTargetLimit)"

text \<open>The same computation as \<open>CalculateNextWorkRequired\<close>; nothing calls it.\<close>

definition CalculateNextWorkRequiredSW :: "CBlockIndex \<Rightarrow> int \<Rightarrow> Params \<Rightarrow> bool \<Rightarrow> u32 option" where
  "CalculateNextWorkRequiredSW pindexLast nFirstBlockTime params fProofOfStake =
     (if (if fProofOfStake then fPoSNoRetargeting params else fPowNoRetargeting params) then Some (nBits pindexLast)
      else
        let nTargetSpacing = nPowTargetSpacing params;
            nActualSpacing = clamp_spacing nTargetSpacing (GetBlockTime pindexLast - nFirstBlockTime);
            bnTargetLimit = GetLimit params fProofOfStake;
            bnNew = fst (SetCompact (nBits pindexLast));
            nInterval = DifficultyAdjustmentInterval params in
        Option.bind (retarget bnTargetLimit bnNew nInterval nTargetSpacing nActualSpacing) (\<lambda>bnNew.
        GetCompact bnNew False))"

definition CheckProofOfWork :: "uint256 \<Rightarrow> u32 \<Rightarrow> Params \<Rightarrow> bool \<Rightarrow> bool" where
  "CheckProofOfWork hash blockBits params fProofOfStake =
     (let (bnTarget, fNegative, fOverflow) = SetCompact blockBits in
      if fNegative \<or> EqualTo bnTarget 0 \<or> fOverflow \<or> CompareTo bnTarget (GetLimit params fProofOfStake) > 0 then False
      else if CompareTo (UintToArith256 hash) bnTarget > 0 then False
      else True)"

section \<open>Values\<close>

lemma limbs_append_words:
  "length b = 4 * n \<Longrightarrow> limbs (map (\<lambda>x. ReadLE32 (drop (x * 4) b)) [0..<n]) = le_nat b"
proof (induction n arbitrary: b)
  case (Suc n)
  have b: "b = take 4 b @ drop 4 b" "length (take 4 b) = 4" "length (drop 4 b) = 4 * n" using Suc.prems by simp_all
  have "map (\<lambda>x. ReadLE32 (drop (x * 4) b)) [0..<Suc n] =
      ReadLE32 b # map (\<lambda>x. ReadLE32 (drop (x * 4) (drop 4 b))) [0..<n]"
    by (simp add: map_upt_Suc add.commute del: upt_Suc)
  moreover have "unat (ReadLE32 b) = le_nat (take 4 b)"
    using le_nat_bound [of "take 4 b"] b(2) by (simp add: ReadLE32_def unat_of_nat)
  moreover have "le_nat b = le_nat (take 4 b) + 2 ^ 32 * le_nat (drop 4 b)"
    using le_nat_append [of "take 4 b" "drop 4 b"] b by simp
  ultimately show ?case using Suc.IH [OF b(3)] by simp
qed simp

lemma limbs_UintToArith256: "length b = 32 \<Longrightarrow> limbs (UintToArith256 b) = le_nat b"
  using limbs_append_words [of b WIDTH] by (simp add: UintToArith256_def WIDTH_def)

lemma wf_UintToArith256 [simp]: "wf_uint (UintToArith256 b)"
  by (simp add: wf_uint_def UintToArith256_def)

lemma wf_GetLimit [simp]: "wf_uint (GetLimit params stake)"
  by (simp add: GetLimit_def)

lemma limbs_eq_0_iff: "limbs xs = 0 \<longleftrightarrow> list_all (\<lambda>x. x = 0) xs"
  by (induction xs) (auto simp: unat_eq_zero)

lemma EqualTo_0: "wf_uint a \<Longrightarrow> EqualTo a 0 \<longleftrightarrow> limbs a = 0"
proof -
  assume "wf_uint a"
  then obtain x y zs where a: "a = x # y # zs"
    by (cases a; cases "tl a") (auto simp: wf_uint_def WIDTH_def)
  have "ucast w = (0 :: u64) \<longleftrightarrow> w = 0" for w :: u32
    using unat_ucast64 [of w] by (metis unat_eq_zero)
  then show ?thesis by (auto simp: EqualTo_def a limbs_eq_0_iff unat_eq_zero)
qed

section \<open>Work\<close>

text \<open>A compact value is a usable target when it is positive, not negative and fits into 256 bits.\<close>

definition valid_target :: "u32 \<Rightarrow> bool" where
  "valid_target c \<longleftrightarrow> 0 < compact_value c \<and> compact_value c < 2 ^ 256 \<and> \<not> bit c 23"


lemma compact_value_not_max: "compact_value c < 2 ^ 256 \<Longrightarrow> compact_value c + 1 < 2 ^ 256"
proof (cases "compact_size c \<le> 3")
  case True
  then have "compact_value c \<le> compact_mantissa c"
    by (simp add: compact_value_small)
  then show ?thesis using compact_mantissa_less [of c] by simp
next
  case False
  assume lt: "compact_value c < 2 ^ 256"
  have "256 dvd compact_value c"
  proof -
    have "(2 :: nat) ^ 8 dvd 2 ^ (8 * (compact_size c - 3))" using False by (intro le_imp_power_dvd) simp
    then show ?thesis using False by (simp add: compact_value_large)
  qed
  moreover have "\<not> 256 dvd (2 ^ 256 - 1 :: nat)" by simp
  ultimately have "compact_value c \<noteq> 2 ^ 256 - 1" by metis
  then show ?thesis using lt by simp
qed

lemma GetBlockProof_value:
  "\<exists>w. GetBlockProof c = Some w \<and> wf_uint w \<and>
    limbs w = (if valid_target c then 2 ^ 256 div (compact_value c + 1) else 0)"
proof -
  obtain t where t: "SetCompact c = (t, compact_value c \<noteq> 0 \<and> bit c 23, 2 ^ 256 \<le> compact_value c)"
    and wf: "wf_uint t" and v: "limbs t = compact_value c mod 2 ^ 256" by (rule SetCompact_value)
  have zero: "wf_uint base_uint_zero" "limbs base_uint_zero = 0" by (simp_all add: base_uint_zero_def wf_uint_def)
  show ?thesis
  proof (cases "valid_target c")
    case True
    then have lt: "compact_value c < 2 ^ 256" and pos: "0 < compact_value c" and nb: "\<not> bit c 23"
      by (simp_all add: valid_target_def)
    from v lt have v: "limbs t = compact_value c" by simp
    obtain q where q: "uint_div (uint_not t) (uint_add t (base_uint_u64 1)) = Some q"
      "wf_uint (uint_add q (base_uint_u64 1))"
      "limbs (uint_add q (base_uint_u64 1)) = (2 ^ 256 div (limbs t + 1)) mod 2 ^ 256"
      using u256.work_quotient [OF wf] compact_value_not_max [OF lt] v by auto
    have "2 ^ 256 div (compact_value c + 1) < 2 ^ 256" using pos by (intro div_less_dividend) auto
    then show ?thesis
      using q t lt pos nb v wf True by (simp add: GetBlockProof_def EqualTo_0)
  next
    case False
    then have "(compact_value c \<noteq> 0 \<and> bit c 23) \<or> 2 ^ 256 \<le> compact_value c \<or> EqualTo t 0"
      using wf v by (auto simp: valid_target_def EqualTo_0)
    then show ?thesis using t zero False by (auto simp: GetBlockProof_def)
  qed
qed

text \<open>C34: the work of a block.  For every value of \<open>nBits\<close> the division cannot be by zero, and the work
  is exactly \<open>2 ^ 256 div (target + 1)\<close> for a usable target, although \<open>2 ^ 256\<close> does not fit into
  the type, and zero otherwise; a smaller target never means less work.\<close>

theorem GetBlockProof_work:
  "(\<exists>w. GetBlockProof c = Some w \<and> wf_uint w \<and>
      limbs w = (if valid_target c then 2 ^ 256 div (compact_value c + 1) else 0)) \<and>
   (valid_target c \<longrightarrow> valid_target d \<longrightarrow> compact_value c \<le> compact_value d \<longrightarrow>
      2 ^ 256 div (compact_value d + 1) \<le> 2 ^ 256 div (compact_value c + 1) \<and> 0 < 2 ^ 256 div (compact_value c + 1))"
proof (intro conjI impI)
  show "\<exists>w. GetBlockProof c = Some w \<and> wf_uint w \<and>
      limbs w = (if valid_target c then 2 ^ 256 div (compact_value c + 1) else 0)"
    by (rule GetBlockProof_value)
next
  assume "valid_target c" "compact_value c \<le> compact_value d"
  then show "2 ^ 256 div (compact_value d + 1) \<le> (2 :: nat) ^ 256 div (compact_value c + 1)"
    by (intro div_le_mono2) auto
next
  assume "valid_target c"
  then show "0 < (2 :: nat) ^ 256 div (compact_value c + 1)"
    using compact_value_not_max [of c] by (simp add: valid_target_def div_greater_zero_iff)
qed

theorem GetBlockProof_work_witness:
  "valid_target 0x1d00ffff \<and> valid_target 0x1e00ffff \<and> (\<exists>w. GetBlockProof 0x1d00ffff = Some w \<and> limbs w = 4295032833) \<and>
   2 ^ 256 div (compact_value 0x1e00ffff + 1) \<le> 2 ^ 256 div (compact_value 0x1d00ffff + 1)"
proof -
  have v: "valid_target 0x1d00ffff" "valid_target 0x1e00ffff" "compact_value 0x1d00ffff \<le> compact_value 0x1e00ffff"
    "2 ^ 256 div (compact_value 0x1d00ffff + 1) = 4295032833" by code_simp+
  then show ?thesis using GetBlockProof_work [of "0x1d00ffff" "0x1e00ffff"] by auto
qed

lemma SetCompact_valid:
  assumes "valid_target c"
  obtains t where "SetCompact c = (t, False, False)" "wf_uint t" "limbs t = compact_value c"
proof (rule SetCompact_value [of c])
  fix t
  assume t: "SetCompact c = (t, compact_value c \<noteq> 0 \<and> bit c 23, 2 ^ 256 \<le> compact_value c)" "wf_uint t"
    "limbs t = compact_value c mod 2 ^ 256"
  have "\<not> bit c 23" "compact_value c < 2 ^ 256" using assms by (simp_all add: valid_target_def)
  then show thesis using t by (intro that [of t]) (simp_all add: not_le)
qed

text \<open>Proof of work is accepted exactly when \<open>nBits\<close> denotes a usable target within the chain's
  limit and the hash, read as a 256-bit integer, does not exceed it.\<close>

theorem CheckProofOfWork_iff:
  assumes "length hash = 32" and "length (powLimit params) = 32" and "length (posLimit params) = 32"
  shows "CheckProofOfWork hash c params stake \<longleftrightarrow>
    valid_target c \<and> compact_value c \<le> le_nat (if stake then posLimit params else powLimit params) \<and>
    le_nat hash \<le> compact_value c"
proof -
  obtain t where t: "SetCompact c = (t, compact_value c \<noteq> 0 \<and> bit c 23, 2 ^ 256 \<le> compact_value c)"
    and wf: "wf_uint t" and v: "limbs t = compact_value c mod 2 ^ 256" by (rule SetCompact_value)
  have lim: "limbs (GetLimit params stake) = le_nat (if stake then posLimit params else powLimit params)"
    using assms by (simp add: GetLimit_def limbs_UintToArith256)
  show ?thesis
  proof (cases "valid_target c")
    case True
    then obtain t where t: "SetCompact c = (t, False, False)" "wf_uint t" "limbs t = compact_value c"
      by (rule SetCompact_valid)
    moreover from True have "compact_value c \<noteq> 0" by (simp add: valid_target_def)
    ultimately show ?thesis
      using True lim limbs_UintToArith256 [OF assms(1)] by (auto simp: CheckProofOfWork_def EqualTo_0 u256.cmp_simps)
  next
    case False
    then have "(compact_value c \<noteq> 0 \<and> bit c 23) \<or> EqualTo t 0 \<or> 2 ^ 256 \<le> compact_value c"
      using wf v by (auto simp: valid_target_def EqualTo_0)
    then have "\<not> CheckProofOfWork hash c params stake" unfolding CheckProofOfWork_def t case_prod_conv Let_def by (subst if_P) blast+
    then show ?thesis using False by simp
  qed
qed

definition sample_params :: Params where
  "sample_params = \<lparr>hashGenesisBlock = uint256_zero, nSubsidyHalvingInterval = 100, BIP16Exception = uint256_zero,
     BIP34Height = 0, BIP34Hash = uint256_zero, BIP65Height = 0, BIP66Height = 0, nRuleChangeActivationThreshold = 3,
     nMinerConfirmationWindow = 4, vDeployments = [\<lparr>dep_bit = 1, dep_nStartTime = 10, dep_nTimeout = 100\<rparr>],
     powLimit = replicate 30 255 @ [0, 0], posLimit = replicate 30 255 @ [0, 0],
     fPowAllowMinDifficultyBlocks = False, fPowNoRetargeting = False, fPoSNoRetargeting = False,
     nPowTargetSpacing = 60, nPowTargetTimespan = 960, nMinimumChainWork = uint256_zero,
     defaultAssumeValid = uint256_zero, nLastPOWBlock = 100, nFirstMPoSBlock = 200, nMPoSRewardRecipients = 10,
     nFixUTXOCacheHFHeight = 0, nEnableHeaderSignatureHeight = 0\<rparr>"

lemma sample_compact: "compact_value 0x1d00ffff = 0xffff * 256 ^ 26" "valid_target 0x1d00ffff"
  by code_simp+

theorem CheckProofOfWork_iff_witness:
  "CheckProofOfWork (replicate 20 9 @ replicate 12 0) 0x1d00ffff sample_params False"
proof -
  have l: "length (replicate 20 9 @ replicate 12 0 :: uint256) = 32" "length (powLimit sample_params) = 32"
    "length (posLimit sample_params) = 32" by (simp_all add: sample_params_def)
  have "compact_value 0x1d00ffff \<le> le_nat (powLimit sample_params)"
    "le_nat (replicate 20 9 @ replicate 12 0) \<le> compact_value 0x1d00ffff" by code_simp+
  then show ?thesis using CheckProofOfWork_iff [OF l, of "0x1d00ffff" False] sample_compact(2) by simp
qed

section \<open>Retargeting\<close>

text \<open>The retargeted number before rounding to the compact form.\<close>

definition next_target :: "nat \<Rightarrow> nat \<Rightarrow> int \<Rightarrow> int \<Rightarrow> int \<Rightarrow> nat" where
  "next_target limit old nInterval spacing actual =
     (let new = old * nat ((nInterval - 1) * spacing + 2 * actual) div nat ((nInterval + 1) * spacing) in
      if new = 0 \<or> new > limit then limit else new)"

lemma unat_word_of_int: "0 \<le> i \<Longrightarrow> i < 2 ^ LENGTH('a) \<Longrightarrow> unat (word_of_int i :: 'a :: len word) = nat i"
  by (simp add: unat_eq_nat_uint uint_word_of_int)

lemma retarget_exact:
  assumes lim: "wf_uint limit" and old: "wf_uint old"
    and pos: "0 < spacing" "1 \<le> nInterval" "0 \<le> actual" "actual \<le> 10 * spacing"
    and small: "(nInterval + 19) * spacing < 2 ^ 32"
    and prod: "limbs old * nat ((nInterval - 1) * spacing + 2 * actual) < 2 ^ 256"
  shows "\<exists>new. retarget limit old nInterval spacing actual = Some new \<and> wf_uint new \<and>
    limbs new = next_target (limbs limit) (limbs old) nInterval spacing actual"
proof -
  define F where "F = (nInterval - 1) * spacing + 2 * actual"
  define D where "D = (nInterval + 1) * spacing"
  have F0: "0 \<le> F" using pos by (simp add: F_def)
  have "F \<le> (nInterval - 1) * spacing + 20 * spacing" using pos by (simp add: F_def)
  also have "\<dots> = (nInterval + 19) * spacing" by (simp add: algebra_simps)
  finally have F: "F < 2 ^ 32" using small by simp
  have D0: "0 < D" using pos by (simp add: D_def)
  have "D \<le> (nInterval + 19) * spacing" using pos unfolding D_def by (intro mult_right_mono) auto
  then have D: "D < 2 ^ 64" using small by simp
  have uF: "unat (word_of_int F :: u32) = nat F" using F0 F by (intro unat_word_of_int) simp_all
  have uD: "unat (word_of_int D :: u64) = nat D" using D0 D by (intro unat_word_of_int) simp_all
  let ?m = "uint_mul32 old (word_of_int F)"
  have m: "wf_uint ?m" "limbs ?m = limbs old * nat F"
    using old prod [folded F_def] by (simp_all add: wf_uint_def WIDTH_def limbs_mul32 uF)
  have d: "wf_uint (base_uint_u64 (word_of_int D))" "limbs (base_uint_u64 (word_of_int D)) = nat D"
    using u256.val_small [of "word_of_int D"] uD by auto
  obtain q where q: "uint_div ?m (base_uint_u64 (word_of_int D)) = Some q" "wf_uint q"
    "limbs q = limbs old * nat F div nat D"
    using u256.val_quot [OF m(1) d(1)] m d D0 by auto
  have z: "wf_uint (base_uint_u64 0)" "limbs (base_uint_u64 0) = 0" using u256.val_small [of 0] by auto
  have e: "(nInterval - 1) * spacing + actual + actual = F" by (simp add: F_def)
  have ret: "retarget limit old nInterval spacing actual =
      (if CompareTo q (base_uint_u64 0) \<le> 0 \<or> CompareTo q limit > 0 then Some limit else Some q)"
    by (simp only: retarget_def Let_def e q D_def [symmetric] Option.bind.simps)
  show ?thesis
    unfolding ret next_target_def Let_def F_def [symmetric] D_def [symmetric] u256.cmp_simps [OF q(2) z(1)] u256.cmp_simps [OF q(2) lim] z(2)
    using q lim by auto
qed

text \<open>C35: the next difficulty of the exponential moving average.  Within the parameter ranges where the
  factor fits the 32-bit operator and the product fits 256 bits, the new \<open>nBits\<close> decodes to the
  formula's value, clamped to the limit, rounded down with a relative error of at most
  \<open>2 ^ -15\<close>: no assertion, division by zero or wrap-around occurs, and the limit is never
  exceeded.\<close>

theorem CalculateNextWorkRequired_exact:
  fixes params stake last first
  defines "spacing \<equiv> nPowTargetSpacing params" and "nInterval \<equiv> DifficultyAdjustmentInterval params"
    and "actual \<equiv> clamp_spacing (nPowTargetSpacing params) (GetBlockTime last - first)"
    and "limit \<equiv> limbs (GetLimit params stake)"
  assumes "\<not> (if stake then fPoSNoRetargeting params else fPowNoRetargeting params)"
    and "0 < spacing" and "1 \<le> nInterval" and "(nInterval + 19) * spacing < 2 ^ 32"
    and "valid_target (nBits last)"
    and "compact_value (nBits last) * nat ((nInterval - 1) * spacing + 2 * actual) < 2 ^ 256"
  shows "\<exists>c. CalculateNextWorkRequired last first params stake = Some c \<and>
    compact_value c \<le> next_target limit (compact_value (nBits last)) nInterval spacing actual \<and>
    2 ^ 15 * (next_target limit (compact_value (nBits last)) nInterval spacing actual - compact_value c) \<le>
      next_target limit (compact_value (nBits last)) nInterval spacing actual \<and>
    compact_value c \<le> limit \<and> \<not> bit c 23"
proof -
  let ?N = "next_target limit (compact_value (nBits last)) nInterval spacing actual"
  obtain t where t: "SetCompact (nBits last) = (t, False, False)" "wf_uint t" "limbs t = compact_value (nBits last)"
    using assms(9) by (rule SetCompact_valid)
  have act: "0 \<le> actual" "actual \<le> 10 * spacing"
    using assms(6) by (auto simp: actual_def spacing_def clamp_spacing_def Let_def)
  obtain new where new: "retarget (GetLimit params stake) t nInterval spacing actual = Some new" "wf_uint new" "limbs new = ?N"
    using retarget_exact [OF wf_GetLimit t(2) assms(6,7) act assms(8)] assms(10) t(3) unfolding limit_def by auto
  obtain c k where c: "GetCompact new False = Some c" "compact_value c = limbs new div 256 ^ k * 256 ^ k"
    "0 < k \<longrightarrow> 2 ^ 15 * 256 ^ k \<le> limbs new" "\<not> bit c 23"
    using GetCompact_decodes [OF new(2)] by metis
  have le: "compact_value c \<le> ?N" using c(2) new(3) by simp
  have "2 ^ 15 * (?N - compact_value c) \<le> ?N"
  proof (cases "k = 0")
    case False
    have "?N - compact_value c = ?N mod 256 ^ k" using c(2) new(3) by (simp add: minus_div_mult_eq_mod)
    also have "\<dots> \<le> 256 ^ k" by simp
    finally have "2 ^ 15 * (?N - compact_value c) \<le> 2 ^ 15 * 256 ^ k" by simp
    also have "\<dots> \<le> ?N" using c(3) new(3) False by simp
    finally show ?thesis .
  qed (use c(2) new(3) in simp)
  moreover have "?N \<le> limit" by (simp add: next_target_def Let_def)
  moreover have "CalculateNextWorkRequired last first params stake = Some c"
    using assms(5) new(1) c(1) t(1)
    by (simp add: CalculateNextWorkRequired_def Let_def spacing_def nInterval_def actual_def)
  ultimately show ?thesis using le c(4) by auto
qed

theorem CalculateNextWorkRequired_exact_witness:
  "\<exists>c. CalculateNextWorkRequired (entry None None 5 1000\<lparr>nBits := 0x1d00ffff\<rparr>) 900 sample_params False = Some c \<and>
    compact_value c \<le> limbs (GetLimit sample_params False)"
proof -
  let ?b = "entry None None 5 1000\<lparr>nBits := 0x1d00ffff\<rparr>"
  have p: "nPowTargetSpacing sample_params = 60" "DifficultyAdjustmentInterval sample_params = 16"
    "clamp_spacing 60 (GetBlockTime ?b - 900) = 100" by code_simp+
  have "compact_value (nBits ?b) * nat (15 * 60 + 2 * 100) < 2 ^ 256" by code_simp
  then show ?thesis
    using CalculateNextWorkRequired_exact [of False sample_params ?b 900] p sample_compact(2)
    by (auto simp: sample_params_def)
qed

section \<open>The required work\<close>

text \<open>A block of the given kind, other than genesis, at a height of the chain below an entry.\<close>

definition kind_at :: "index_store \<Rightarrow> bool \<Rightarrow> ptr \<Rightarrow> nat \<Rightarrow> bool" where
  "kind_at st stake p i \<longleftrightarrow> 0 < i \<and> (\<exists>q c. anc st p i = Some q \<and> st q = Some c \<and> IsProofOfStake c = stake)"

lemma kind_at_prev:
  assumes "linked st" "st p = Some b" "pprev b = Some q" "i < nHeight b"
  shows "kind_at st stake p i = kind_at st stake q i"
  using anc_prev [OF assms] by (simp add: kind_at_def)

lemma kind_at_bound: "kind_at st stake p i \<Longrightarrow> st p = Some b \<Longrightarrow> i \<le> nHeight b"
  using anc_bound by (fastforce simp: kind_at_def)

text \<open>\<open>GetLastBlockIndex\<close> ends at the last block of the kind, at genesis when there is none.\<close>

lemma last_block_loop_kind:
  assumes "linked st"
  shows "st p = Some b \<Longrightarrow> \<exists>q c. last_block_loop st stake p = Some (Inr q) \<and> st q = Some c \<and> anc st p (nHeight c) = Some q \<and>
    (\<forall>i. kind_at st stake p i \<longrightarrow> i \<le> nHeight c) \<and> (if nHeight c = 0 then pprev c = None else pprev c \<noteq> None \<and> kind_at st stake p (nHeight c))"
proof (induction "nHeight b" arbitrary: p b rule: less_induct)
  case less
  show ?case
  proof (cases "pprev b \<noteq> None \<and> IsProofOfStake b \<noteq> stake")
    case False
    then have "last_block_loop st stake p = Some (Inr p)"
      using less.prems by (subst last_block_loop.simps) (auto split: option.splits)
    moreover have "if nHeight b = 0 then pprev b = None else pprev b \<noteq> None \<and> kind_at st stake p (nHeight b)"
      using False less.prems linked_root [OF assms less.prems] linked_prev [OF assms less.prems] anc_self [of st p b]
      by (cases "pprev b") (auto simp: kind_at_def)
    ultimately show ?thesis using less.prems anc_self [of st p b] kind_at_bound by blast
  next
    case True
    then obtain q where q: "pprev b = Some q" by auto
    obtain c where c: "st q = Some c" "nHeight b = Suc (nHeight c)" using linked_prev [OF assms less.prems q] by auto
    have "nHeight c < nHeight b" using c(2) by simp
    from less.hyps [OF this c(1)] obtain r d where r: "last_block_loop st stake q = Some (Inr r)" "st r = Some d" "anc st q (nHeight d) = Some r"
        "\<forall>i. kind_at st stake q i \<longrightarrow> i \<le> nHeight d" "if nHeight d = 0 then pprev d = None else pprev d \<noteq> None \<and> kind_at st stake q (nHeight d)"
      by blast
    have d: "nHeight d < nHeight b" using anc_bound [OF r(3)] c by auto
    have below: "kind_at st stake p i \<longleftrightarrow> kind_at st stake q i" if "i < nHeight b" for i using kind_at_prev [OF assms less.prems q that] .
    have "\<not> kind_at st stake p (nHeight b)" using True anc_self [of st p b] less.prems by (auto simp: kind_at_def)
    then have "\<forall>i. kind_at st stake p i \<longrightarrow> i \<le> nHeight d"
      using r(4) below kind_at_bound [of st stake p _ b] less.prems by (metis le_neq_implies_less)
    moreover have "last_block_loop st stake p = last_block_loop st stake q"
      using True less.prems q by (subst last_block_loop.simps) simp
    moreover have "anc st p (nHeight d) = Some r" using anc_prev [OF assms less.prems q d] r(3) by simp
    ultimately show ?thesis using r(1,2,5) below [OF d] by metis
  qed
qed

lemma GetCompact_total: "wf_uint a \<Longrightarrow> \<exists>c. GetCompact a False = Some c"
  using GetCompact_decodes [of a] by metis

text \<open>The last two blocks of a kind below an entry, the later one first.\<close>

definition last_two :: "index_store \<Rightarrow> bool \<Rightarrow> ptr \<Rightarrow> CBlockIndex \<Rightarrow> CBlockIndex \<Rightarrow> bool" where
  "last_two st stake l c d \<longleftrightarrow>
     (\<exists>q r. anc st l (nHeight c) = Some q \<and> st q = Some c \<and> anc st l (nHeight d) = Some r \<and> st r = Some d) \<and>
     nHeight d < nHeight c \<and> kind_at st stake l (nHeight c) \<and> kind_at st stake l (nHeight d) \<and>
     (\<forall>i. kind_at st stake l i \<longrightarrow> i = nHeight c \<or> i \<le> nHeight d)"

lemma last_two_unique: "last_two st stake l c d \<Longrightarrow> last_two st stake l c' d' \<Longrightarrow> c' = c \<and> d' = d"
proof -
  assume two: "last_two st stake l c d" "last_two st stake l c' d'"
  then have h: "nHeight d < nHeight c" "nHeight d' < nHeight c'" "nHeight c' = nHeight c \<or> nHeight c' \<le> nHeight d"
      "nHeight c = nHeight c' \<or> nHeight c \<le> nHeight d'" "nHeight d' = nHeight c \<or> nHeight d' \<le> nHeight d"
      "nHeight d = nHeight c' \<or> nHeight d \<le> nHeight d'"
    unfolding last_two_def by blast+
  then have "nHeight c' = nHeight c" "nHeight d' = nHeight d" by linarith+
  then show ?thesis using two by (auto simp: last_two_def)
qed

lemma next_work_kinds:
  assumes "linked st" "st l = Some b" "\<not> fPowAllowMinDifficultyBlocks params"
  shows "(\<forall>c d. last_two st stake l c d \<longrightarrow> next_work calculate st (Some l) pblock params stake limit = assertR (calculate c d)) \<and>
    ((\<forall>c d. \<not> last_two st stake l c d) \<longrightarrow> next_work calculate st (Some l) pblock params stake limit = Some (Inr limit))"
proof -
  let ?n = "next_work calculate st (Some l) pblock params stake limit"
  obtain q c where q: "last_block_loop st stake l = Some (Inr q)" "st q = Some c" "anc st l (nHeight c) = Some q"
      "\<forall>i. kind_at st stake l i \<longrightarrow> i \<le> nHeight c" "if nHeight c = 0 then pprev c = None else pprev c \<noteq> None \<and> kind_at st stake l (nHeight c)"
    using last_block_loop_kind [OF assms(1,2), of stake] by blast
  show ?thesis
  proof (cases "pprev c")
    case None
    then have "\<not> kind_at st stake l i" for i using q(4,5) by (cases "nHeight c") (auto simp: kind_at_def)
    then have "\<not> last_two st stake l c' d'" for c' d' by (auto simp: last_two_def)
    moreover have "?n = Some (Inr limit)" using None q(1,2) assms(2) by (simp add: next_work_def GetLastBlockIndex_def deref_def)
    ultimately show ?thesis by blast
  next
    case (Some pp)
    then obtain e where e: "st pp = Some e" "nHeight c = Suc (nHeight e)" using linked_prev [OF assms(1) q(2) Some] by auto
    obtain r d where r: "last_block_loop st stake pp = Some (Inr r)" "st r = Some d" "anc st pp (nHeight d) = Some r"
        "\<forall>i. kind_at st stake pp i \<longrightarrow> i \<le> nHeight d" "if nHeight d = 0 then pprev d = None else pprev d \<noteq> None \<and> kind_at st stake pp (nHeight d)"
      using last_block_loop_kind [OF assms(1) e(1), of stake] by blast
    have d: "nHeight d < nHeight c" using anc_bound [OF r(3)] e by auto
    have down: "anc st l i = anc st pp i" if "i < nHeight c" for i
      using anc_trans [OF assms(1) q(3), of i] anc_prev [OF assms(1) q(2) Some that] that by simp
    then have below: "kind_at st stake l i \<longleftrightarrow> kind_at st stake pp i" if "i < nHeight c" for i using that by (simp add: kind_at_def)
    have n: "?n = (if pprev d = None then Some (Inr limit) else assertR (calculate c d))"
      using q(1,2) r(1,2) Some assms(2,3) by (simp add: next_work_def GetLastBlockIndex_def deref_def)
    have top: "i = nHeight c \<or> i \<le> nHeight d" if "kind_at st stake l i" for i
      using that q(4) r(4) below by (metis le_neq_implies_less)
    show ?thesis
    proof (cases "nHeight d = 0")
      case True
      have "\<not> last_two st stake l c' d'" for c' d'
      proof
        assume "last_two st stake l c' d'"
        then have "kind_at st stake l (nHeight c')" "kind_at st stake l (nHeight d')" "nHeight d' < nHeight c'"
          by (simp_all add: last_two_def)
        with top [of "nHeight c'"] top [of "nHeight d'"] True show False by (simp add: kind_at_def)
      qed
      then show ?thesis using n r(5) True by simp
    next
      case False
      have "last_two st stake l c d"
        unfolding last_two_def using q(2,3,5) r(2,3,5) d down [OF d] below [OF d] top False e(2) by auto
      moreover have "?n = assertR (calculate c d)" using n r(5) False by simp
      ultimately show ?thesis using last_two_unique [of st stake l c d] by blast
    qed
  qed
qed

text \<open>C36: which blocks set the required work.  Outside of minimum-difficulty networks the work required of
  the block after an entry depends on the last two blocks of its kind (proof of stake or proof of
  work, genesis apart) only.  \<open>GetNextWorkRequired\<close> recomputes the target of the last one from the time
  between the two.  \<open>GetNextWorkRequiredSW\<close>, the rule for blocks of version 0x20000002, repeats the
  \<open>nBits\<close> of the one before the last and recomputes nothing.  Where there are fewer than two, the first
  gives the limit of its kind and the second the limit of the other kind.\<close>

theorem GetNextWorkRequired_kinds:
  assumes "linked st" "st l = Some b" "\<not> fPowAllowMinDifficultyBlocks params"
  shows "\<exists>limit other. GetCompact (GetLimit params stake) False = Some limit \<and> GetCompact (GetLimit params (\<not> stake)) False = Some other \<and>
    (\<forall>c d. last_two st stake l c d \<longrightarrow>
       GetNextWorkRequired st (Some l) pblock params stake = assertR (CalculateNextWorkRequired c (GetBlockTime d) params stake) \<and>
       GetNextWorkRequiredSW st (Some l) pblock params stake = Some (Inr (nBits d))) \<and>
    ((\<forall>c d. \<not> last_two st stake l c d) \<longrightarrow>
       GetNextWorkRequired st (Some l) pblock params stake = Some (Inr limit) \<and>
       GetNextWorkRequiredSW st (Some l) pblock params stake = Some (Inr other))"
proof -
  obtain limit other where lim: "GetCompact (GetLimit params stake) False = Some limit" "GetCompact (GetLimit params (\<not> stake)) False = Some other"
    using GetCompact_total [OF wf_GetLimit] by meson
  have "GetNextWorkRequired st (Some l) pblock params stake =
      next_work (\<lambda>prev prevPrev. CalculateNextWorkRequired prev (GetBlockTime prevPrev) params stake) st (Some l) pblock params stake limit"
    "GetNextWorkRequiredSW st (Some l) pblock params stake = next_work (\<lambda>prev prevPrev. Some (nBits prevPrev)) st (Some l) pblock params stake other"
    using lim by (simp_all add: GetNextWorkRequired_def GetNextWorkRequiredSW_def assertR_def)
  moreover note next_work_kinds [OF assms, of stake "\<lambda>prev prevPrev. CalculateNextWorkRequired prev (GetBlockTime prevPrev) params stake" pblock limit]
    next_work_kinds [OF assms, of stake "\<lambda>prev prevPrev. Some (nBits prevPrev)" pblock other]
  ultimately show ?thesis
    using lim by (intro exI [of _ limit] exI [of _ other]) (simp add: assertR_def)
qed

theorem GetNextWorkRequired_kinds_witness:
  "GetNextWorkRequired sample_store (Some 4) CBlockHeader_SetNull sample_params False =
     assertR (CalculateNextWorkRequired (entry (Some 3) (Some 0) 4 50) 40 sample_params False) \<and>
   GetNextWorkRequiredSW sample_store (Some 4) CBlockHeader_SetNull sample_params False = Some (Inr 0)"
proof -
  have t: "sample_store 4 = Some (entry (Some 3) (Some 0) 4 50)" "sample_store 3 = Some (entry (Some 2) (Some 1) 3 40)"
    by (simp_all add: sample_store_def)
  have a: "anc sample_store 4 4 = Some 4" "anc sample_store 4 3 = Some 3" by code_simp+
  have k: "\<not> IsProofOfStake (entry x y n m)" "nBits (entry x y n m) = 0" for x y n m
    by (simp_all add: entry_def CBlockIndex_of_header_def CBlockHeader_SetNull_def IsProofOfStake_def COutPoint_SetNull_def COutPoint_IsNull_def uint256_IsNull_def uint256_zero_def list_all_length)
  have "i \<le> 4" if "kind_at sample_store False 4 i" for i using kind_at_bound [OF that t(1)] by simp
  then have "last_two sample_store False 4 (entry (Some 3) (Some 0) 4 50) (entry (Some 2) (Some 1) 3 40)"
    using a t k by (auto simp: last_two_def kind_at_def le_Suc_eq numeral_eq_Suc)
  then show ?thesis
    using GetNextWorkRequired_kinds [OF sample_linked t(1), of sample_params False CBlockHeader_SetNull] k
    by (auto simp: sample_params_def GetBlockTime_def)
qed

end
