(* ===== verification/Block_Index.thy ===== *)
theory Block_Index
  imports Chain_Time Pow
begin

text \<open>
  \<open>CChainState::AddToBlockIndex\<close> of \<open>validation.cpp\<close> and \<open>ComputeStakeModifier\<close> of \<open>pos.cpp\<close>: how the
  block index grows, and the invariant of every index built this way.
\<close>

section \<open>State and operation\<close>

record index_state =
  mapBlockIndex :: "uint256 \<rightharpoonup> ptr"
  block_store :: index_store
  setStakeSeen :: "(COutPoint \<times> u32) set"
  pindexBestHeader :: "ptr option"
  setDirtyBlockIndex :: "ptr set"

definition ComputeStakeModifier :: "(byte list \<Rightarrow> uint256) \<Rightarrow> CBlockIndex option \<Rightarrow> uint256 \<Rightarrow> uint256" where
  "ComputeStakeModifier H pindexPrev kernelHash =
     (case pindexPrev of None \<Rightarrow> uint256_zero | Some b \<Rightarrow> H (kernelHash @ nStakeModifier b))"

definition deref_opt :: "index_store \<Rightarrow> ptr option \<Rightarrow> chain_error + CBlockIndex option" where
  "deref_opt st p = (case p of None \<Rightarrow> Inr None | Some q \<Rightarrow> bindE (deref st q) (\<lambda>b. Inr (Some b)))"

text \<open>Linking a new entry at its address: predecessor, height and skip pointer.\<close>

definition link_entry :: "index_store \<Rightarrow> ptr \<Rightarrow> CBlockIndex \<Rightarrow> ptr option \<Rightarrow> chain_error + index_store" where
  "link_entry st addr new miPrev =
     (case miPrev of
        None \<Rightarrow> Inr (st(addr \<mapsto> new))
      | Some q \<Rightarrow>
          bindE (deref (st(addr \<mapsto> new)) q) (\<lambda>c.
          BuildSkip (st(addr \<mapsto> new\<lparr>pprev := Some q, nHeight := nHeight c + 1\<rparr>)) addr))"

text \<open>The fields computed from the predecessor.\<close>

definition entry_fields :: "(byte list \<Rightarrow> uint256) \<Rightarrow> CBlockHeader \<Rightarrow> uint256 \<Rightarrow> CBlockIndex option \<Rightarrow> CBlockIndex \<Rightarrow>
    chain_error + CBlockIndex" where
  "entry_fields H block hash prev b =
     bindE (case GetBlockProof (nBits b) of None \<Rightarrow> Inl AssertFail | Some w \<Rightarrow> Inr w) (\<lambda>proof.
     bindE (RaiseValidity (b\<lparr>
         nTimeMax := (case prev of None \<Rightarrow> nTime b | Some c \<Rightarrow> max (nTimeMax c) (nTime b)),
         nChainWork := uint_add (case prev of None \<Rightarrow> base_uint_u64 0 | Some c \<Rightarrow> nChainWork c) proof,
         nStakeModifier := ComputeStakeModifier H prev
           (if hdr_IsProofOfWork block then hash else op_hash (hdr_prevoutStake block))\<rparr>) BLOCK_VALID_TREE) (\<lambda>(_, b).
     Inr b))"

text \<open>\<open>addr\<close> is the address the allocator returns for the new entry.\<close>

definition AddToBlockIndex :: "(byte list \<Rightarrow> uint256) \<Rightarrow> ptr \<Rightarrow> index_state \<Rightarrow> CBlockHeader \<Rightarrow>
    chain_error + ptr \<times> index_state" where
  "AddToBlockIndex H addr cs block =
     (let hash = GetHash H block in
      case mapBlockIndex cs hash of
        Some p \<Rightarrow> Inr (p, cs)
      | None \<Rightarrow>
          let new = (CBlockIndex_of_header block)\<lparr>nSequenceId := 0, phashBlock := hash\<rparr>;
              index = (mapBlockIndex cs)(hash \<mapsto> addr);
              seen = (if IsProofOfStake new then insert (prevoutStake new, nTime new) (setStakeSeen cs) else setStakeSeen cs) in
          bindE (link_entry (block_store cs) addr new (index (hdr_hashPrevBlock block))) (\<lambda>st.
          bindE (deref st addr) (\<lambda>b.
          bindE (deref_opt st (pprev b)) (\<lambda>prev.
          bindE (entry_fields H block hash prev b) (\<lambda>b.
          bindE (deref_opt (st(addr \<mapsto> b)) (pindexBestHeader cs)) (\<lambda>best.
          Inr (addr, \<lparr>mapBlockIndex = index, block_store = st(addr \<mapsto> b), setStakeSeen = seen,
            pindexBestHeader =
              (case best of
                 None \<Rightarrow> Some addr
               | Some h \<Rightarrow> if CompareTo (nChainWork h) (nChainWork b) < 0 then Some addr else pindexBestHeader cs),
            setDirtyBlockIndex = insert addr (setDirtyBlockIndex cs)\<rparr>)))))))"

definition empty_index :: index_state where
  "empty_index = \<lparr>mapBlockIndex = Map.empty, block_store = Map.empty, setStakeSeen = {}, pindexBestHeader = None,
     setDirtyBlockIndex = {}\<rparr>"

inductive index_reach :: "(byte list \<Rightarrow> uint256) \<Rightarrow> index_state \<Rightarrow> bool" for H where
  index_init: "index_reach H empty_index"
| index_add: "index_reach H cs \<Longrightarrow> addr \<notin> dom (block_store cs) \<Longrightarrow> hdr_hashPrevBlock block \<noteq> GetHash H block \<Longrightarrow>
    AddToBlockIndex H addr cs block = Inr (p, cs') \<Longrightarrow> index_reach H cs'"

inductive_cases index_addE: "index_reach H cs"

section \<open>The invariant\<close>

text \<open>One entry against its predecessor: work, time maximum and the hash of its header.\<close>

definition entry_ok :: "(byte list \<Rightarrow> uint256) \<Rightarrow> index_store \<Rightarrow> CBlockIndex \<Rightarrow> bool" where
  "entry_ok H st b \<longleftrightarrow> wf_uint (nChainWork b) \<and>
     (\<exists>w. GetBlockProof (nBits b) = Some w \<and>
       (case pprev b of
          None \<Rightarrow> limbs (nChainWork b) = limbs w \<and> nTimeMax b = nTime b
        | Some q \<Rightarrow> \<exists>c h. st q = Some c \<and> limbs (nChainWork b) = (limbs (nChainWork c) + limbs w) mod 2 ^ 256 \<and>
            nTimeMax b = max (nTimeMax c) (nTime b) \<and>
            index_GetBlockHeader st b = Inr h \<and> GetHash H h = phashBlock b))"

definition index_inv :: "(byte list \<Rightarrow> uint256) \<Rightarrow> index_state \<Rightarrow> bool" where
  "index_inv H cs \<longleftrightarrow> index_ok (block_store cs) \<and>
     (\<forall>h p. mapBlockIndex cs h = Some p \<longleftrightarrow> (\<exists>b. block_store cs p = Some b \<and> phashBlock b = h)) \<and>
     (\<forall>p b. block_store cs p = Some b \<longrightarrow> entry_ok H (block_store cs) b) \<and>
     (case pindexBestHeader cs of
        None \<Rightarrow> block_store cs = Map.empty
      | Some t \<Rightarrow> \<exists>d. block_store cs t = Some d \<and>
          (\<forall>p b. block_store cs p = Some b \<longrightarrow> limbs (nChainWork b) \<le> limbs (nChainWork d)))"

lemma RaiseValidity_tree: "\<exists>r s. RaiseValidity b BLOCK_VALID_TREE = Inr (r, b\<lparr>nStatus := s\<rparr>)"
proof -
  have "(2 :: u32) AND NOT BLOCK_VALID_MASK = 0" by code_simp
  moreover have "b = b\<lparr>nStatus := nStatus b\<rparr>" by simp
  ultimately show ?thesis by (auto simp: RaiseValidity_def intro: exI [of _ "nStatus b"])
qed

lemma entry_fields_total:
  obtains w s where "GetBlockProof (nBits b) = Some w" "wf_uint w"
    "entry_fields H block hash prev b = Inr (b\<lparr>
         nTimeMax := (case prev of None \<Rightarrow> nTime b | Some c \<Rightarrow> max (nTimeMax c) (nTime b)),
         nChainWork := uint_add (case prev of None \<Rightarrow> base_uint_u64 0 | Some c \<Rightarrow> nChainWork c) w,
         nStakeModifier := ComputeStakeModifier H prev
           (if hdr_IsProofOfWork block then hash else op_hash (hdr_prevoutStake block)),
         nStatus := s\<rparr>)"
proof -
  obtain w where w: "GetBlockProof (nBits b) = Some w" "wf_uint w" using GetBlockProof_value by blast
  let ?b = "b\<lparr>
         nTimeMax := (case prev of None \<Rightarrow> nTime b | Some c \<Rightarrow> max (nTimeMax c) (nTime b)),
         nChainWork := uint_add (case prev of None \<Rightarrow> base_uint_u64 0 | Some c \<Rightarrow> nChainWork c) w,
         nStakeModifier := ComputeStakeModifier H prev
           (if hdr_IsProofOfWork block then hash else op_hash (hdr_prevoutStake block))\<rparr>"
  obtain r s where r: "RaiseValidity ?b BLOCK_VALID_TREE = Inr (r, ?b\<lparr>nStatus := s\<rparr>)"
    using RaiseValidity_tree by blast
  have "entry_fields H block hash prev b = Inr (?b\<lparr>nStatus := s\<rparr>)"
    unfolding entry_fields_def w(1) option.case bindE_simps r by simp
  then show ?thesis using w that by blast
qed

lemma entry_ok_extend:
  assumes "entry_ok H st b" "st a = None"
  shows "entry_ok H (st(a \<mapsto> e)) b"
proof (cases "pprev b")
  case None
  then show ?thesis using assms(1) by (simp add: entry_ok_def)
next
  case (Some q)
  with assms obtain c where c: "st q = Some c" by (auto simp: entry_ok_def)
  then have "q \<noteq> a" using assms(2) by auto
  then have "index_GetBlockHeader (st(a \<mapsto> e)) b = index_GetBlockHeader st b"
    using Some by (simp add: index_GetBlockHeader_def deref_def)
  then show ?thesis using assms(1) Some c \<open>q \<noteq> a\<close> by (simp add: entry_ok_def)
qed


definition filled :: "(byte list \<Rightarrow> uint256) \<Rightarrow> CBlockHeader \<Rightarrow> CBlockIndex option \<Rightarrow> base_uint \<Rightarrow> u32 \<Rightarrow> CBlockIndex \<Rightarrow> CBlockIndex" where
  "filled H block prev w s b = b\<lparr>
     nTimeMax := (case prev of None \<Rightarrow> nTime b | Some c \<Rightarrow> max (nTimeMax c) (nTime b)),
     nChainWork := uint_add (case prev of None \<Rightarrow> base_uint_u64 0 | Some c \<Rightarrow> nChainWork c) w,
     nStakeModifier := ComputeStakeModifier H prev
       (if hdr_IsProofOfWork block then GetHash H block else op_hash (hdr_prevoutStake block)),
     nStatus := s\<rparr>"

lemma filled_sel [simp]:
  "pprev (filled H block prev w s b) = pprev b" "pskip (filled H block prev w s b) = pskip b"
  "nHeight (filled H block prev w s b) = nHeight b" "phashBlock (filled H block prev w s b) = phashBlock b"
  "nBits (filled H block prev w s b) = nBits b" "nTime (filled H block prev w s b) = nTime b"
  "nTimeMax (filled H block prev w s b) = (case prev of None \<Rightarrow> nTime b | Some c \<Rightarrow> max (nTimeMax c) (nTime b))"
  "nChainWork (filled H block prev w s b) = uint_add (case prev of None \<Rightarrow> base_uint_u64 0 | Some c \<Rightarrow> nChainWork c) w"
  "index_GetBlockHeader st (filled H block prev w s b) = index_GetBlockHeader st b"
  by (simp_all add: filled_def index_GetBlockHeader_def)

text \<open>After the entry is linked, the rest of the operation fills its fields and compares the work.\<close>

lemma AddToBlockIndex_fill:
  fixes H block cs a
  defines "hash \<equiv> GetHash H block"
  defines "new \<equiv> (CBlockIndex_of_header block)\<lparr>nSequenceId := 0, phashBlock := hash\<rparr>"
  defines "index \<equiv> (mapBlockIndex cs)(hash \<mapsto> a)"
  assumes "mapBlockIndex cs hash = None"
    and link: "link_entry (block_store cs) a new (index (hdr_hashPrevBlock block)) = Inr ((block_store cs)(a \<mapsto> b0))"
    and prev: "deref_opt ((block_store cs)(a \<mapsto> b0)) (pprev b0) = Inr prev"
    and best: "\<And>e. deref_opt ((block_store cs)(a \<mapsto> e)) (pindexBestHeader cs) = Inr best"
  obtains w s seen dirty where "GetBlockProof (nBits b0) = Some w" "wf_uint w"
    "AddToBlockIndex H a cs block = Inr (a, \<lparr>mapBlockIndex = index,
       block_store = (block_store cs)(a \<mapsto> filled H block prev w s b0), setStakeSeen = seen,
       pindexBestHeader = (case best of None \<Rightarrow> Some a
         | Some h \<Rightarrow> if CompareTo (nChainWork h) (nChainWork (filled H block prev w s b0)) < 0 then Some a
             else pindexBestHeader cs),
       setDirtyBlockIndex = dirty\<rparr>)"
proof -
  obtain w s where w: "GetBlockProof (nBits b0) = Some w" "wf_uint w"
    "entry_fields H block hash prev b0 = Inr (filled H block prev w s b0)"
    unfolding filled_def hash_def by (rule entry_fields_total [of b0 H block "GetHash H block" prev])
  have "AddToBlockIndex H a cs block = Inr (a, \<lparr>mapBlockIndex = index,
       block_store = (block_store cs)(a \<mapsto> filled H block prev w s b0),
       setStakeSeen = (if IsProofOfStake new then insert (prevoutStake new, nTime new) (setStakeSeen cs) else setStakeSeen cs),
       pindexBestHeader = (case best of None \<Rightarrow> Some a
         | Some h \<Rightarrow> if CompareTo (nChainWork h) (nChainWork (filled H block prev w s b0)) < 0 then Some a
             else pindexBestHeader cs),
       setDirtyBlockIndex = insert a (setDirtyBlockIndex cs)\<rparr>)"
    unfolding AddToBlockIndex_def Let_def hash_def [symmetric] new_def [symmetric] index_def [symmetric] assms(4) option.case
      link bindE_simps
    by (simp add: deref_def prev w(3) best)
  then show ?thesis using w that by blast
qed

text \<open>What a new block adds: the entry at the fresh address, linked to its predecessor.\<close>

lemma AddToBlockIndex_new:
  assumes inv: "index_inv H cs" and a: "block_store cs a = None"
    and self: "hdr_hashPrevBlock block \<noteq> GetHash H block" and new: "mapBlockIndex cs (GetHash H block) = None"
  shows "\<exists>e cs'. AddToBlockIndex H a cs block = Inr (a, cs') \<and>
    block_store cs' = (block_store cs)(a \<mapsto> e) \<and> mapBlockIndex cs' = (mapBlockIndex cs)(GetHash H block \<mapsto> a) \<and>
    pindexBestHeader cs' = (case pindexBestHeader cs of None \<Rightarrow> Some a
      | Some t \<Rightarrow> (case block_store cs t of None \<Rightarrow> None | Some d \<Rightarrow>
          if limbs (nChainWork d) < limbs (nChainWork e) then Some a else Some t)) \<and>
    index_ok (block_store cs') \<and> phashBlock e = GetHash H block \<and> entry_ok H (block_store cs') e"
proof -
  let ?st = "block_store cs" and ?hash = "GetHash H block"
  let ?new = "(CBlockIndex_of_header block)\<lparr>nSequenceId := 0, phashBlock := ?hash\<rparr>"
  have ok: "index_ok ?st" and map: "\<And>h p. mapBlockIndex cs h = Some p \<longleftrightarrow> (\<exists>b. ?st p = Some b \<and> phashBlock b = h)"
    and ent: "\<And>p b. ?st p = Some b \<Longrightarrow> entry_ok H ?st b"
    using inv unfolding index_inv_def by blast+
  have wf: "wf_uint (nChainWork b)" if "?st p = Some b" for p b using ent [OF that] by (simp add: entry_ok_def)
  have z: "wf_uint (base_uint_u64 0)" "limbs (base_uint_u64 0) = 0" using u256.val_small [of 0] by auto
  define best where "best = (case pindexBestHeader cs of None \<Rightarrow> None | Some t \<Rightarrow> ?st t)"
  have bd: "\<exists>d. ?st t = Some d \<and> t \<noteq> a" if "pindexBestHeader cs = Some t" for t
    using inv a that by (auto simp: index_inv_def)
  have best: "deref_opt (?st(a \<mapsto> e)) (pindexBestHeader cs) = Inr best" for e
    using bd by (auto simp: deref_opt_def deref_def best_def split: option.splits)
  have cmp: "(case best of None \<Rightarrow> Some a
         | Some h \<Rightarrow> if CompareTo (nChainWork h) (nChainWork e) < 0 then Some a else pindexBestHeader cs) =
      (case pindexBestHeader cs of None \<Rightarrow> Some a
      | Some t \<Rightarrow> (case ?st t of None \<Rightarrow> None | Some d \<Rightarrow>
          if limbs (nChainWork d) < limbs (nChainWork e) then Some a else Some t))" if "wf_uint (nChainWork e)" for e
  proof (cases "pindexBestHeader cs")
    case (Some t)
    then obtain d where "?st t = Some d" using bd by auto
    then show ?thesis using Some u256.cmp_simps [OF wf that] by (simp add: best_def)
  qed (simp add: best_def)
  note fill = AddToBlockIndex_fill [OF new _ _ best]
  show ?thesis
  proof (cases "mapBlockIndex cs (hdr_hashPrevBlock block)")
    case None
    have "link_entry ?st a ?new (((mapBlockIndex cs)(?hash \<mapsto> a)) (hdr_hashPrevBlock block)) = Inr (?st(a \<mapsto> ?new))"
      using None self by (simp add: link_entry_def)
    moreover have "deref_opt (?st(a \<mapsto> ?new)) (pprev ?new) = Inr None"
      by (simp add: CBlockIndex_of_header_def deref_opt_def)
    ultimately obtain w s seen dirty where w: "GetBlockProof (nBits ?new) = Some w" "wf_uint w"
      and add: "AddToBlockIndex H a cs block = Inr (a, \<lparr>mapBlockIndex = (mapBlockIndex cs)(?hash \<mapsto> a),
         block_store = ?st(a \<mapsto> filled H block None w s ?new), setStakeSeen = seen,
         pindexBestHeader = (case best of None \<Rightarrow> Some a
           | Some h \<Rightarrow> if CompareTo (nChainWork h) (nChainWork (filled H block None w s ?new)) < 0 then Some a
               else pindexBestHeader cs),
         setDirtyBlockIndex = dirty\<rparr>)"
      by (rule fill)
    let ?e = "filled H block None w s ?new"
    have work: "wf_uint (nChainWork ?e)" "limbs (nChainWork ?e) = limbs w"
      using u256.val_add [OF z(1) w(2)] z u256.val_bound [OF w(2)] by simp_all
    have pp: "pprev ?e = None" "nHeight ?e = 0" "pskip ?e = None" by (simp_all add: CBlockIndex_of_header_def)
    have "index_ok (?st(a \<mapsto> ?e))" using index_ok_fresh_root [OF ok a pp] .
    moreover have "entry_ok H (?st(a \<mapsto> ?e)) ?e" using work w pp by (simp add: entry_ok_def)
    ultimately show ?thesis using add cmp [OF work(1)] by auto
  next
    case (Some q)
    then obtain c where c: "?st q = Some c" "phashBlock c = hdr_hashPrevBlock block" using map by auto
    then have qa: "q \<noteq> a" using a by auto
    let ?b1 = "?new\<lparr>pprev := Some q, nHeight := nHeight c + 1\<rparr>"
    have p1: "pprev ?b1 = Some q" "nHeight ?b1 = Suc (nHeight c)" "pskip ?b1 = None"
      by (simp_all add: CBlockIndex_of_header_def)
    obtain k where k: "anc ?st q (GetSkipHeight (nHeight ?b1)) = Some k"
      "BuildSkip (?st(a \<mapsto> ?b1)) a = Inr (?st(a \<mapsto> ?b1\<lparr>pskip := Some k\<rparr>))"
      using BuildSkip_fresh [OF ok a p1(1) c(1) p1(2,3)] by blast
    let ?b = "?b1\<lparr>pskip := Some k\<rparr>"
    have "link_entry ?st a ?new (((mapBlockIndex cs)(?hash \<mapsto> a)) (hdr_hashPrevBlock block)) = Inr (?st(a \<mapsto> ?b))"
      using Some self c(1) qa k(2) by (simp add: link_entry_def deref_def)
    moreover have "deref_opt (?st(a \<mapsto> ?b)) (pprev ?b) = Inr (Some c)"
      using c qa by (simp add: deref_opt_def deref_def)
    ultimately obtain w s seen dirty where w: "GetBlockProof (nBits ?b) = Some w" "wf_uint w"
      and add: "AddToBlockIndex H a cs block = Inr (a, \<lparr>mapBlockIndex = (mapBlockIndex cs)(?hash \<mapsto> a),
         block_store = ?st(a \<mapsto> filled H block (Some c) w s ?b), setStakeSeen = seen,
         pindexBestHeader = (case best of None \<Rightarrow> Some a
           | Some h \<Rightarrow> if CompareTo (nChainWork h) (nChainWork (filled H block (Some c) w s ?b)) < 0 then Some a
               else pindexBestHeader cs),
         setDirtyBlockIndex = dirty\<rparr>)"
      by (rule fill)
    define e where "e = filled H block (Some c) w s ?b"
    note add = add [folded e_def]
    have work: "wf_uint (nChainWork e)" "limbs (nChainWork e) = (limbs (nChainWork c) + limbs w) mod 2 ^ 256"
      using u256.val_add [OF wf [OF c(1)] w(2)] by (simp_all add: e_def)
    have "index_ok (?st(a \<mapsto> e))"
      using index_ok_fresh [OF ok a _ c(1), of e] k(1) by (simp add: e_def)
    moreover have "index_GetBlockHeader (?st(a \<mapsto> e)) e = Inr block"
      using c qa by (simp add: index_GetBlockHeader_def deref_def CBlockIndex_of_header_def filled_def e_def)
    then have "entry_ok H (?st(a \<mapsto> e)) e"
      using work w c qa by (simp add: entry_ok_def CBlockIndex_of_header_def e_def)
    moreover have "phashBlock e = ?hash" by (simp add: e_def)
    ultimately show ?thesis using add cmp [OF work(1)] by auto
  qed
qed

lemma index_inv_empty: "index_inv H empty_index"
  by (simp add: index_inv_def empty_index_def index_ok_def linked_def skips_ok_def)

lemma index_inv_add:
  assumes inv: "index_inv H cs" and a: "a \<notin> dom (block_store cs)" and self: "hdr_hashPrevBlock block \<noteq> GetHash H block"
  shows "\<exists>p cs'. AddToBlockIndex H a cs block = Inr (p, cs') \<and> index_inv H cs' \<and>
    mapBlockIndex cs' (GetHash H block) = Some p"
proof (cases "mapBlockIndex cs (GetHash H block)")
  case (Some p)
  then have "AddToBlockIndex H a cs block = Inr (p, cs)" by (simp add: AddToBlockIndex_def Let_def)
  then show ?thesis using inv Some by blast
next
  case None
  let ?st = "block_store cs" and ?hash = "GetHash H block"
  have a: "?st a = None" using a by auto
  obtain e cs' where add: "AddToBlockIndex H a cs block = Inr (a, cs')"
    and st: "block_store cs' = ?st(a \<mapsto> e)" and idx: "mapBlockIndex cs' = (mapBlockIndex cs)(?hash \<mapsto> a)"
    and best: "pindexBestHeader cs' = (case pindexBestHeader cs of None \<Rightarrow> Some a
      | Some t \<Rightarrow> (case ?st t of None \<Rightarrow> None | Some d \<Rightarrow>
          if limbs (nChainWork d) < limbs (nChainWork e) then Some a else Some t))"
    and ok: "index_ok (block_store cs')" and eh: "phashBlock e = ?hash" and ee: "entry_ok H (block_store cs') e"
    using AddToBlockIndex_new [OF inv a self None] by blast
  have map: "\<And>h p. mapBlockIndex cs h = Some p \<longleftrightarrow> (\<exists>b. ?st p = Some b \<and> phashBlock b = h)"
    and ent: "\<And>p b. ?st p = Some b \<Longrightarrow> entry_ok H ?st b"
    using inv unfolding index_inv_def by blast+
  have "(mapBlockIndex cs' h = Some p) = (\<exists>b. block_store cs' p = Some b \<and> phashBlock b = h)" for h p
    using map [of h p] map [of ?hash p] None a eh unfolding st idx by (cases "h = ?hash"; cases "p = a") auto
  moreover have "entry_ok H (block_store cs') b" if "block_store cs' p = Some b" for p b
    using that ee ent [of p b] entry_ok_extend [of H ?st b a e] unfolding st by (cases "p = a") (auto simp: a)
  moreover have "case pindexBestHeader cs' of None \<Rightarrow> block_store cs' = Map.empty
      | Some t \<Rightarrow> \<exists>d. block_store cs' t = Some d \<and>
          (\<forall>p b. block_store cs' p = Some b \<longrightarrow> limbs (nChainWork b) \<le> limbs (nChainWork d))"
  proof (cases "pindexBestHeader cs")
    case None
    then have "?st = Map.empty" using inv by (simp add: index_inv_def)
    then show ?thesis using None best st by auto
  next
    case (Some t)
    then obtain d where d: "?st t = Some d" "\<And>p b. ?st p = Some b \<Longrightarrow> limbs (nChainWork b) \<le> limbs (nChainWork d)"
      using inv by (auto simp: index_inv_def)
    then have "t \<noteq> a" using a by auto
    show ?thesis
    proof (cases "limbs (nChainWork d) < limbs (nChainWork e)")
      case True
      then show ?thesis using Some best st d by (fastforce split: if_splits)
    next
      case False
      then show ?thesis using Some best st d \<open>t \<noteq> a\<close> by (auto split: if_splits)
    qed
  qed
  ultimately have "index_inv H cs'" using ok by (simp add: index_inv_def)
  then show ?thesis using add idx by auto
qed

lemma index_reach_inv: "index_reach H cs \<Longrightarrow> index_inv H cs"
proof (induction rule: index_reach.induct)
  case index_init
  show ?case by (rule index_inv_empty)
next
  case (index_add cs addr block p cs')
  then show ?case using index_inv_add [of H cs addr block] by auto
qed

lemma index_inv_time_max_ok: "index_inv H cs \<Longrightarrow> time_max_ok (block_store cs)"
  unfolding time_max_ok_def
proof (intro allI impI)
  fix p b q c
  assume inv: "index_inv H cs" and b: "block_store cs p = Some b" "pprev b = Some q" "block_store cs q = Some c"
  then have "entry_ok H (block_store cs) b" by (auto simp: index_inv_def)
  then show "nTimeMax c \<le> nTimeMax b" using b by (auto simp: entry_ok_def)
qed

text \<open>C37: the invariant of the block index.  Every index reached from the empty one by adding headers
  is a forest with consecutive heights and correct skip pointers; the hash map is exactly the
  inverse of the entries' hashes; every entry carries the chain work and time maximum of its
  predecessor increased by its own, and reproduces a header with its hash; the best header has the
  most work.  Adding a header never fails, and afterwards the index maps its hash.\<close>

theorem AddToBlockIndex_invariant:
  assumes "index_reach H cs"
  shows "index_inv H cs \<and> time_max_ok (block_store cs) \<and>
    (\<forall>a block. a \<notin> dom (block_store cs) \<longrightarrow> hdr_hashPrevBlock block \<noteq> GetHash H block \<longrightarrow>
      (\<exists>p cs'. AddToBlockIndex H a cs block = Inr (p, cs') \<and> index_reach H cs' \<and> mapBlockIndex cs' (GetHash H block) = Some p))"
  using index_reach_inv [OF assms] index_inv_time_max_ok index_inv_add index_reach.index_add [OF assms] by metis

theorem AddToBlockIndex_invariant_witness:
  "\<exists>cs. index_reach (\<lambda>_. replicate 32 1) cs \<and> index_inv (\<lambda>_. replicate 32 1) cs \<and> mapBlockIndex cs (replicate 32 1) \<noteq> None"
proof -
  let ?H = "\<lambda>_. replicate 32 1 :: uint256"
  have hash: "GetHash ?H CBlockHeader_SetNull = replicate 32 1" by (simp add: GetHash_def)
  have "hdr_hashPrevBlock CBlockHeader_SetNull \<noteq> GetHash ?H CBlockHeader_SetNull"
    unfolding hash by (simp add: CBlockHeader_SetNull_def uint256_zero_def)
  moreover have "5 \<notin> dom (block_store empty_index)" by (simp add: empty_index_def)
  ultimately obtain p cs' where "index_reach ?H cs'" "mapBlockIndex cs' (replicate 32 1) = Some p"
    using AddToBlockIndex_invariant [OF index_reach.index_init [of ?H]] hash by metis
  then show ?thesis using AddToBlockIndex_invariant by blast
qed

end
