(* ===== verification/Coins.thy ===== *)
theory Coins
  imports Transaction "HOL-Library.AList"
begin

unbundle bit_operations_syntax

text \<open>
  \<open>coins.h\<close>, \<open>coins.cpp\<close> and the coin database of \<open>txdb.cpp\<close>: unspent outputs, the database view and
  the caches stacked on it.  A view is a database or a cache over another view, as the pointer
  \<open>base\<close> of \<open>CCoinsViewCache\<close> allows.  The hash table of a cache is an association list, whose order
  stands for the unspecified order of iteration.  The database keeps the coins under their outpoints;
  that a write batch is atomic is LevelDB's promise.  The count \<open>cachedCoinsUsage\<close> of allocated bytes
  is not modelled.
\<close>

section \<open>Coins\<close>

record Coin =
  coin_out :: CTxOut
  fCoinBase :: bool
  fCoinStake :: bool
  coin_nHeight :: nat

text \<open>The height is a bit field of 30 bits.\<close>

definition Coin_of :: "CTxOut \<Rightarrow> int \<Rightarrow> bool \<Rightarrow> bool \<Rightarrow> Coin" where
  "Coin_of outIn nHeightIn fCoinBaseIn fCoinStakeIn =
     \<lparr>coin_out = outIn, fCoinBase = fCoinBaseIn, fCoinStake = fCoinStakeIn, coin_nHeight = nat (nHeightIn mod 2 ^ 30)\<rparr>"

definition coinEmpty :: Coin where
  "coinEmpty = \<lparr>coin_out = CTxOut_SetNull, fCoinBase = False, fCoinStake = False, coin_nHeight = 0\<rparr>"

definition IsSpent :: "Coin \<Rightarrow> bool" where
  "IsSpent coin = CTxOut_IsNull (coin_out coin)"

record CCoinsCacheEntry =
  entry_coin :: Coin
  entry_flags :: byte

definition DIRTY :: byte where "DIRTY = push_bit 0 1"
definition FRESH :: byte where "FRESH = push_bit 1 1"

type_synonym CCoinsMap = "(COutPoint \<times> CCoinsCacheEntry) list"

section \<open>Views\<close>

record coins_db =
  db_coins :: "COutPoint \<rightharpoonup> Coin"
  db_best_block :: "uint256 option"
  db_head_blocks :: "uint256 list option"

record coins_cache =
  cache_hashBlock :: uint256
  cacheCoins :: CCoinsMap

datatype CCoinsView = CCoinsViewDB coins_db | CCoinsViewCache coins_cache CCoinsView

type_synonym cache_state = "coins_cache \<times> CCoinsView"

definition CCoinsViewCache_new :: "CCoinsView \<Rightarrow> cache_state" where
  "CCoinsViewCache_new baseIn = (\<lparr>cache_hashBlock = uint256_zero, cacheCoins = []\<rparr>, baseIn)"

text \<open>\<open>FetchCoin\<close>, over the \<open>GetCoin\<close> of the base.\<close>

definition fetch_coin ::
    "(COutPoint \<Rightarrow> Coin option \<times> CCoinsView) \<Rightarrow> cache_state \<Rightarrow> COutPoint \<Rightarrow> CCoinsCacheEntry option \<times> cache_state" where
  "fetch_coin base_GetCoin cv outpoint =
     (case map_of (cacheCoins (fst cv)) outpoint of
        Some e \<Rightarrow> (Some e, cv)
      | None \<Rightarrow>
          (case base_GetCoin outpoint of
             (None, base) \<Rightarrow> (None, (fst cv, base))
           | (Some tmp, base) \<Rightarrow>
               let ret = \<lparr>entry_coin = tmp, entry_flags = (if IsSpent tmp then FRESH else 0)\<rparr> in
               (Some ret, ((fst cv)\<lparr>cacheCoins := AList.update outpoint ret (cacheCoins (fst cv))\<rparr>, base))))"

fun GetCoin :: "CCoinsView \<Rightarrow> COutPoint \<Rightarrow> Coin option \<times> CCoinsView" where
  "GetCoin (CCoinsViewDB db) outpoint = (db_coins db outpoint, CCoinsViewDB db)"
| "GetCoin (CCoinsViewCache cache base) outpoint =
     (case fetch_coin (GetCoin base) (cache, base) outpoint of
        (Some it, (cache, base)) \<Rightarrow>
          (if \<not> IsSpent (entry_coin it) then Some (entry_coin it) else None, CCoinsViewCache cache base)
      | (None, (cache, base)) \<Rightarrow> (None, CCoinsViewCache cache base))"

definition FetchCoin :: "cache_state \<Rightarrow> COutPoint \<Rightarrow> CCoinsCacheEntry option \<times> cache_state" where
  "FetchCoin cv outpoint = fetch_coin (GetCoin (snd cv)) cv outpoint"

fun GetBestBlock :: "CCoinsView \<Rightarrow> uint256 \<times> CCoinsView" where
  "GetBestBlock (CCoinsViewDB db) =
     (case db_best_block db of None \<Rightarrow> uint256_zero | Some hashBestChain \<Rightarrow> hashBestChain, CCoinsViewDB db)"
| "GetBestBlock (CCoinsViewCache cache base) =
     (if uint256_IsNull (cache_hashBlock cache) then
        (case GetBestBlock base of (h, base) \<Rightarrow> (h, CCoinsViewCache (cache\<lparr>cache_hashBlock := h\<rparr>) base))
      else (cache_hashBlock cache, CCoinsViewCache cache base))"

abbreviation as_view :: "cache_state \<Rightarrow> CCoinsView" where
  "as_view cv \<equiv> CCoinsViewCache (fst cv) (snd cv)"

definition cache_GetBestBlock :: "cache_state \<Rightarrow> uint256 \<times> cache_state" where
  "cache_GetBestBlock cv =
     (case GetBestBlock (as_view cv) of
        (h, CCoinsViewCache cache base) \<Rightarrow> (h, (cache, base))
      | (h, CCoinsViewDB db) \<Rightarrow> (h, cv))"

section \<open>Operations of a cache\<close>

datatype coins_error =
    ReplacesUnspent \<comment> \<open>\<open>Adding new coin that replaces non-pruned entry\<close>\<close>
  | FreshMisapplied \<comment> \<open>\<open>FRESH flag misapplied to cache entry \<dots>\<close>\<close>
  | CoinsAssert

definition SetBestBlock :: "uint256 \<Rightarrow> cache_state \<Rightarrow> cache_state" where
  "SetBestBlock hashBlockIn cv = ((fst cv)\<lparr>cache_hashBlock := hashBlockIn\<rparr>, snd cv)"

definition AddCoin :: "cache_state \<Rightarrow> COutPoint \<Rightarrow> Coin \<Rightarrow> bool \<Rightarrow> coins_error + cache_state" where
  "AddCoin cv outpoint coin possible_overwrite =
     bindE (guardE (\<not> IsSpent coin) CoinsAssert) (\<lambda>_.
     if IsUnspendable (scriptPubKey (coin_out coin)) then Inr cv
     else
       let it = (case map_of (cacheCoins (fst cv)) outpoint of
                   None \<Rightarrow> \<lparr>entry_coin = coinEmpty, entry_flags = 0\<rparr> | Some e \<Rightarrow> e) in
       bindE (if \<not> possible_overwrite then
                bindE (guardE (IsSpent (entry_coin it)) ReplacesUnspent) (\<lambda>_.
                Inr (entry_flags it AND DIRTY = 0))
              else Inr False) (\<lambda>fresh.
       Inr ((fst cv)\<lparr>cacheCoins := AList.update outpoint
              \<lparr>entry_coin = coin, entry_flags = entry_flags it OR (DIRTY OR (if fresh then FRESH else 0))\<rparr>
              (cacheCoins (fst cv))\<rparr>, snd cv)))"

text \<open>\<open>moveout\<close> receives the coin of the entry that was found.\<close>

definition SpendCoin :: "cache_state \<Rightarrow> COutPoint \<Rightarrow> Coin option \<times> cache_state" where
  "SpendCoin cv outpoint =
     (case FetchCoin cv outpoint of
        (None, cv) \<Rightarrow> (None, cv)
      | (Some it, (cache, base)) \<Rightarrow>
          (Some (entry_coin it),
           (cache\<lparr>cacheCoins :=
              (if entry_flags it AND FRESH \<noteq> 0 then AList.delete outpoint (cacheCoins cache)
               else AList.update outpoint \<lparr>entry_coin = coinEmpty, entry_flags = entry_flags it OR DIRTY\<rparr>
                      (cacheCoins cache))\<rparr>, base)))"

definition AccessCoin :: "cache_state \<Rightarrow> COutPoint \<Rightarrow> Coin \<times> cache_state" where
  "AccessCoin cv outpoint =
     (case FetchCoin cv outpoint of (None, cv) \<Rightarrow> (coinEmpty, cv) | (Some it, cv) \<Rightarrow> (entry_coin it, cv))"

definition HaveCoin :: "cache_state \<Rightarrow> COutPoint \<Rightarrow> bool \<times> cache_state" where
  "HaveCoin cv outpoint =
     (case FetchCoin cv outpoint of (None, cv) \<Rightarrow> (False, cv) | (Some it, cv) \<Rightarrow> (\<not> IsSpent (entry_coin it), cv))"

definition HaveCoinInCache :: "cache_state \<Rightarrow> COutPoint \<Rightarrow> bool" where
  "HaveCoinInCache cv outpoint =
     (case map_of (cacheCoins (fst cv)) outpoint of None \<Rightarrow> False | Some it \<Rightarrow> \<not> IsSpent (entry_coin it))"

definition Uncache :: "cache_state \<Rightarrow> COutPoint \<Rightarrow> cache_state" where
  "Uncache cv hash =
     (case map_of (cacheCoins (fst cv)) hash of
        None \<Rightarrow> cv
      | Some it \<Rightarrow>
          if entry_flags it = 0 then ((fst cv)\<lparr>cacheCoins := AList.delete hash (cacheCoins (fst cv))\<rparr>, snd cv) else cv)"

definition GetCacheSize :: "cache_state \<Rightarrow> nat" where
  "GetCacheSize cv = length (cacheCoins (fst cv))"

section \<open>Writing to the base\<close>

text \<open>One entry of the child against the entry of the parent cache.\<close>

definition batch_entry :: "CCoinsMap \<Rightarrow> COutPoint \<times> CCoinsCacheEntry \<Rightarrow> coins_error + CCoinsMap" where
  "batch_entry m it =
     (if entry_flags (snd it) AND DIRTY = 0 then Inr m
      else case map_of m (fst it) of
        None \<Rightarrow>
          if \<not> (entry_flags (snd it) AND FRESH \<noteq> 0 \<and> IsSpent (entry_coin (snd it))) then
            Inr (AList.update (fst it) \<lparr>entry_coin = entry_coin (snd it),
              entry_flags = (if entry_flags (snd it) AND FRESH \<noteq> 0 then DIRTY OR FRESH else DIRTY)\<rparr> m)
          else Inr m
      | Some itUs \<Rightarrow>
          bindE (guardE (\<not> (entry_flags (snd it) AND FRESH \<noteq> 0 \<and> \<not> IsSpent (entry_coin itUs))) FreshMisapplied) (\<lambda>_.
          if entry_flags itUs AND FRESH \<noteq> 0 \<and> IsSpent (entry_coin (snd it)) then Inr (AList.delete (fst it) m)
          else Inr (AList.update (fst it) \<lparr>entry_coin = entry_coin (snd it), entry_flags = entry_flags itUs OR DIRTY\<rparr> m)))"

fun batch_loop :: "CCoinsMap \<Rightarrow> CCoinsMap \<Rightarrow> coins_error + CCoinsMap" where
  "batch_loop m [] = Inr m"
| "batch_loop m (it # mapCoins) = bindE (batch_entry m it) (\<lambda>m. batch_loop m mapCoins)"

text \<open>The database collects its changes in write batches.\<close>

datatype db_op =
    EraseBestBlock | WriteBestBlock uint256
  | EraseHeadBlocks | WriteHeadBlocks "uint256 list"
  | EraseCoin COutPoint | WriteCoin COutPoint Coin

fun db_apply :: "db_op \<Rightarrow> coins_db \<Rightarrow> coins_db" where
  "db_apply EraseBestBlock db = db\<lparr>db_best_block := None\<rparr>"
| "db_apply (WriteBestBlock h) db = db\<lparr>db_best_block := Some h\<rparr>"
| "db_apply EraseHeadBlocks db = db\<lparr>db_head_blocks := None\<rparr>"
| "db_apply (WriteHeadBlocks hs) db = db\<lparr>db_head_blocks := Some hs\<rparr>"
| "db_apply (EraseCoin p) db = db\<lparr>db_coins := (db_coins db)(p := None)\<rparr>"
| "db_apply (WriteCoin p coin) db = db\<lparr>db_coins := (db_coins db)(p \<mapsto> coin)\<rparr>"

definition WriteBatch :: "db_op list \<Rightarrow> coins_db \<Rightarrow> coins_db" where
  "WriteBatch batch db = fold db_apply batch db"

definition coin_op :: "COutPoint \<times> CCoinsCacheEntry \<Rightarrow> db_op list" where
  "coin_op it =
     (if entry_flags (snd it) AND DIRTY \<noteq> 0 then
        (if IsSpent (entry_coin (snd it)) then [EraseCoin (fst it)] else [WriteCoin (fst it) (entry_coin (snd it))])
      else [])"

text \<open>\<open>full\<close> is the test that the size estimate of a batch exceeds \<open>-dbbatchsize\<close>.\<close>

fun db_batches :: "(db_op list \<Rightarrow> bool) \<Rightarrow> uint256 \<Rightarrow> db_op list \<Rightarrow> CCoinsMap \<Rightarrow> db_op list list" where
  "db_batches full hashBlock batch [] = [batch @ [EraseHeadBlocks, WriteBestBlock hashBlock]]"
| "db_batches full hashBlock batch (it # mapCoins) =
     (let batch = batch @ coin_op it in
      if full batch then batch # db_batches full hashBlock [] mapCoins
      else db_batches full hashBlock batch mapCoins)"

text \<open>The tip the transition starts from; \<open>None\<close>: the assertion on a replay fails.\<close>

definition db_old_tip :: "coins_db \<Rightarrow> uint256 \<Rightarrow> uint256 option" where
  "db_old_tip db hashBlock =
     (let old_tip = fst (GetBestBlock (CCoinsViewDB db));
          old_heads = (case db_head_blocks db of None \<Rightarrow> [] | Some v \<Rightarrow> v) in
      if uint256_IsNull old_tip \<and> length old_heads = 2 then
        (if old_heads ! 0 = hashBlock then Some (old_heads ! 1) else None)
      else Some old_tip)"

definition db_write_batches :: "(db_op list \<Rightarrow> bool) \<Rightarrow> coins_db \<Rightarrow> CCoinsMap \<Rightarrow> uint256 \<Rightarrow> coins_error + db_op list list" where
  "db_write_batches full db mapCoins hashBlock =
     bindE (guardE (\<not> uint256_IsNull hashBlock) CoinsAssert) (\<lambda>_.
     case db_old_tip db hashBlock of
       None \<Rightarrow> Inl CoinsAssert
     | Some old_tip \<Rightarrow>
         Inr (db_batches full hashBlock [EraseBestBlock, WriteHeadBlocks [hashBlock, old_tip]] mapCoins))"

fun BatchWrite :: "(db_op list \<Rightarrow> bool) \<Rightarrow> CCoinsView \<Rightarrow> CCoinsMap \<Rightarrow> uint256 \<Rightarrow> coins_error + CCoinsView" where
  "BatchWrite full (CCoinsViewDB db) mapCoins hashBlock =
     bindE (db_write_batches full db mapCoins hashBlock) (\<lambda>batches.
     Inr (CCoinsViewDB (fold WriteBatch batches db)))"
| "BatchWrite full (CCoinsViewCache cache base) mapCoins hashBlockIn =
     bindE (batch_loop (cacheCoins cache) mapCoins) (\<lambda>m.
     Inr (CCoinsViewCache (cache\<lparr>cacheCoins := m, cache_hashBlock := hashBlockIn\<rparr>) base))"

definition Flush :: "(db_op list \<Rightarrow> bool) \<Rightarrow> cache_state \<Rightarrow> coins_error + cache_state" where
  "Flush full cv =
     bindE (BatchWrite full (snd cv) (cacheCoins (fst cv)) (cache_hashBlock (fst cv))) (\<lambda>base.
     Inr ((fst cv)\<lparr>cacheCoins := []\<rparr>, base))"

section \<open>Transactions\<close>

fun AddCoins_loop :: "uint256 \<Rightarrow> int \<Rightarrow> bool \<Rightarrow> bool \<Rightarrow> bool \<Rightarrow> nat \<Rightarrow> CTxOut list \<Rightarrow> cache_state \<Rightarrow> coins_error + cache_state" where
  "AddCoins_loop txid height fCoinbase fCoinstake check i [] cache = Inr cache"
| "AddCoins_loop txid height fCoinbase fCoinstake check i (out # outs) cache =
     (case (if check then HaveCoin cache \<lparr>op_hash = txid, op_n = of_nat i\<rparr> else (fCoinbase, cache)) of
        (overwrite, cache) \<Rightarrow>
          bindE (AddCoin cache \<lparr>op_hash = txid, op_n = of_nat i\<rparr> (Coin_of out height fCoinbase fCoinstake) overwrite) (\<lambda>cache.
          AddCoins_loop txid height fCoinbase fCoinstake check (i + 1) outs cache))"

definition AddCoins :: "(byte list \<Rightarrow> uint256) \<Rightarrow> cache_state \<Rightarrow> CTransaction \<Rightarrow> int \<Rightarrow> bool \<Rightarrow> coins_error + cache_state" where
  "AddCoins H cache tx height check =
     AddCoins_loop (ComputeHash H tx) height (IsCoinBase tx) (IsCoinStake tx) check 0 (vout tx) cache"

fun have_inputs_loop :: "CTxIn list \<Rightarrow> cache_state \<Rightarrow> bool \<times> cache_state" where
  "have_inputs_loop [] cv = (True, cv)"
| "have_inputs_loop (txin # ins) cv =
     (case HaveCoin cv (prevout txin) of (have, cv) \<Rightarrow> if have then have_inputs_loop ins cv else (False, cv))"

definition HaveInputs :: "cache_state \<Rightarrow> CTransaction \<Rightarrow> bool \<times> cache_state" where
  "HaveInputs cv tx = (if \<not> IsCoinBase tx then have_inputs_loop (vin tx) cv else (True, cv))"

fun value_in_loop :: "CTxIn list \<Rightarrow> CAmount \<Rightarrow> cache_state \<Rightarrow> amount_error + CAmount \<times> cache_state" where
  "value_in_loop [] nResult cv = Inr (nResult, cv)"
| "value_in_loop (txin # ins) nResult cv =
     (case AccessCoin cv (prevout txin) of
        (coin, cv) \<Rightarrow> bindE (amount_add nResult (nValue (coin_out coin))) (\<lambda>nResult. value_in_loop ins nResult cv))"

definition GetValueIn :: "cache_state \<Rightarrow> CTransaction \<Rightarrow> amount_error + CAmount \<times> cache_state" where
  "GetValueIn cv tx = (if IsCoinBase tx then Inr (0, cv) else value_in_loop (vin tx) 0 cv)"

text \<open>The loop over the outputs of a transaction id; \<open>fuel\<close> counts down from \<open>MAX_OUTPUTS_PER_BLOCK\<close>.\<close>

fun access_by_txid_loop :: "nat \<Rightarrow> COutPoint \<Rightarrow> cache_state \<Rightarrow> Coin \<times> cache_state" where
  "access_by_txid_loop 0 iter view = (coinEmpty, view)"
| "access_by_txid_loop (Suc fuel) iter view =
     (case AccessCoin view iter of
        (alternate, view) \<Rightarrow>
          if \<not> IsSpent alternate then (alternate, view)
          else access_by_txid_loop fuel (iter\<lparr>op_n := op_n iter + 1\<rparr>) view)"

definition AccessByTxid :: "nat \<Rightarrow> cache_state \<Rightarrow> uint256 \<Rightarrow> Coin \<times> cache_state" where
  "AccessByTxid MAX_OUTPUTS_PER_BLOCK view txid =
     access_by_txid_loop MAX_OUTPUTS_PER_BLOCK \<lparr>op_hash = txid, op_n = 0\<rparr> view"

end
