(* ===== verification/Simulation.thy ===== *)
theory Simulation
  imports Prelude
begin

text \<open>
  Forward simulation: a stateful component against an abstract specification.  The component's
  operations may fail; on states that satisfy its invariant and on calls the specification allows,
  they do not, they return what the specification returns and they commute with the abstraction.
\<close>

locale simulation =
  fixes ok :: "'s \<Rightarrow> bool"
    and abs :: "'s \<Rightarrow> 'a"
    and step :: "'op \<Rightarrow> 's \<Rightarrow> 'e + 'r \<times> 's"
    and spec :: "'op \<Rightarrow> 'a \<Rightarrow> 'r \<times> 'a"
    and legal :: "'op \<Rightarrow> 'a \<Rightarrow> bool"
  assumes simulates: "ok s \<Longrightarrow> legal c (abs s) \<Longrightarrow>
    \<exists>r s'. step c s = Inr (r, s') \<and> spec c (abs s) = (r, abs s') \<and> ok s'"

text \<open>Sequences of calls, with the results in order.\<close>

fun run_steps :: "('op \<Rightarrow> 's \<Rightarrow> 'e + 'r \<times> 's) \<Rightarrow> 'op list \<Rightarrow> 's \<Rightarrow> 'e + 'r list \<times> 's" where
  "run_steps step [] s = Inr ([], s)"
| "run_steps step (c # cs) s =
     bindE (step c s) (\<lambda>(r, s). bindE (run_steps step cs s) (\<lambda>(rs, s). Inr (r # rs, s)))"

fun run_spec :: "('op \<Rightarrow> 'a \<Rightarrow> 'r \<times> 'a) \<Rightarrow> 'op list \<Rightarrow> 'a \<Rightarrow> 'r list \<times> 'a" where
  "run_spec spec [] a = ([], a)"
| "run_spec spec (c # cs) a = (case spec c a of (r, a) \<Rightarrow> case run_spec spec cs a of (rs, a) \<Rightarrow> (r # rs, a))"

fun legal_calls :: "('op \<Rightarrow> 'a \<Rightarrow> 'r \<times> 'a) \<Rightarrow> ('op \<Rightarrow> 'a \<Rightarrow> bool) \<Rightarrow> 'op list \<Rightarrow> 'a \<Rightarrow> bool" where
  "legal_calls spec legal [] a \<longleftrightarrow> True"
| "legal_calls spec legal (c # cs) a \<longleftrightarrow> legal c a \<and> legal_calls spec legal cs (snd (spec c a))"

context simulation
begin

lemma run_simulates:
  assumes "ok s" "legal_calls spec legal cs (abs s)"
  obtains rs s' where "run_steps step cs s = Inr (rs, s')" "run_spec spec cs (abs s) = (rs, abs s')" "ok s'"
  using assms
proof (induction cs arbitrary: s thesis)
  case Nil
  then show ?case by simp
next
  case (Cons c cs)
  obtain r s1 where s1: "step c s = Inr (r, s1)" "spec c (abs s) = (r, abs s1)" "ok s1"
    using simulates [of s c] Cons.prems by auto
  obtain rs s2 where s2: "run_steps step cs s1 = Inr (rs, s2)" "run_spec spec cs (abs s1) = (rs, abs s2)" "ok s2"
    using Cons.IH [of s1] Cons.prems s1 by auto
  show ?case by (rule Cons.prems(1) [of "r # rs" s2]) (simp_all add: s1 s2)
qed

end

end
