(* ===== verification/Coins_Refine.thy ===== *)
theory Coins_Refine
  imports Coins Simulation
begin

unbundle bit_operations_syntax

text \<open>
  The coin views against their specification: whatever caches are stacked on the database, a view is
  a finite map from outpoints to unspent coins with a best block.  The flags \<open>DIRTY\<close> and \<open>FRESH\<close> are
  an optimisation that the specification does not know.
\<close>

section \<open>Abstraction and invariant\<close>

definition unspent :: "Coin \<Rightarrow> Coin option" where
  "unspent coin = (if IsSpent coin then None else Some coin)"

text \<open>What a cache shows over its base.\<close>

definition overlay :: "(COutPoint \<Rightarrow> Coin option) \<Rightarrow> CCoinsMap \<Rightarrow> COutPoint \<Rightarrow> Coin option" where
  "overlay base_coins m p = (case map_of m p of None \<Rightarrow> base_coins p | Some e \<Rightarrow> unspent (entry_coin e))"

fun utxo :: "CCoinsView \<Rightarrow> COutPoint \<Rightarrow> Coin option" where
  "utxo (CCoinsViewDB db) p = Option.bind (db_coins db p) unspent"
| "utxo (CCoinsViewCache cache base) p =
     (case map_of (cacheCoins cache) p of None \<Rightarrow> utxo base p | Some e \<Rightarrow> unspent (entry_coin e))"

definition flags_ok :: "Coin option \<Rightarrow> CCoinsCacheEntry \<Rightarrow> bool" where
  "flags_ok base_coin e \<longleftrightarrow>
     (entry_flags e AND DIRTY = 0 \<longrightarrow> unspent (entry_coin e) = base_coin) \<and>
     (entry_flags e AND FRESH \<noteq> 0 \<longrightarrow> base_coin = None)"

definition map_ok :: "(COutPoint \<Rightarrow> Coin option) \<Rightarrow> CCoinsMap \<Rightarrow> bool" where
  "map_ok base_coins m \<longleftrightarrow> distinct (map fst m) \<and> (\<forall>p e. map_of m p = Some e \<longrightarrow> flags_ok (base_coins p) e)"

fun view_ok :: "CCoinsView \<Rightarrow> bool" where
  "view_ok (CCoinsViewDB db) \<longleftrightarrow> (\<forall>p c. db_coins db p = Some c \<longrightarrow> \<not> IsSpent c) \<and> db_head_blocks db = None"
| "view_ok (CCoinsViewCache cache base) \<longleftrightarrow> view_ok base \<and> map_ok (utxo base) (cacheCoins cache)"

fun best :: "CCoinsView \<Rightarrow> uint256" where
  "best (CCoinsViewDB db) = (case db_best_block db of None \<Rightarrow> uint256_zero | Some h \<Rightarrow> h)"
| "best (CCoinsViewCache cache base) =
     (if uint256_IsNull (cache_hashBlock cache) then best base else cache_hashBlock cache)"

lemma uint256_IsNull_zero [simp]: "uint256_IsNull uint256_zero"
  by code_simp

lemma coinEmpty_spent [simp]: "IsSpent coinEmpty"
  by (simp add: IsSpent_def coinEmpty_def CTxOut_IsNull_def CTxOut_SetNull_def)

lemma unspent_simps [simp]: "unspent c = None \<longleftrightarrow> IsSpent c" "unspent c = Some d \<longleftrightarrow> \<not> IsSpent c \<and> c = d"
  by (auto simp: unspent_def)

lemma flag_bits [simp]:
  "f AND DIRTY = 0 \<longleftrightarrow> \<not> bit f 0" "f AND FRESH = 0 \<longleftrightarrow> \<not> bit f 1"
  unfolding DIRTY_def FRESH_def by (rule and_mask_eq_0_iff_bit)+

lemma bit_flags [simp]: "bit DIRTY 0" "\<not> bit DIRTY (Suc 0)" "\<not> bit FRESH 0" "bit FRESH (Suc 0)" "DIRTY \<noteq> 0" "FRESH \<noteq> 0"
  unfolding DIRTY_def FRESH_def by (simp_all add: bit_simps)

lemma flags_okI [intro?]:
  "(\<not> bit (entry_flags e) 0 \<Longrightarrow> unspent (entry_coin e) = b) \<Longrightarrow> (bit (entry_flags e) 1 \<Longrightarrow> b = None) \<Longrightarrow> flags_ok b e"
  by (simp add: flags_ok_def)

lemma flags_okD: "flags_ok b e \<Longrightarrow> \<not> bit (entry_flags e) 0 \<Longrightarrow> unspent (entry_coin e) = b"
  "flags_ok b e \<Longrightarrow> bit (entry_flags e) (Suc 0) \<Longrightarrow> b = None"
  by (simp_all add: flags_ok_def)

lemma map_ok_update: "map_ok b m \<Longrightarrow> flags_ok (b p) e \<Longrightarrow> map_ok b (AList.update p e m)"
  by (auto simp: map_ok_def distinct_update update_conv')

lemma map_ok_delete: "map_ok b m \<Longrightarrow> map_ok b (AList.delete p m)"
  by (auto simp: map_ok_def distinct_delete delete_conv' fun_upd_def split: if_splits)

lemma map_ok_entry: "map_ok b m \<Longrightarrow> map_of m p = Some e \<Longrightarrow> flags_ok (b p) e"
  by (simp add: map_ok_def)

lemma overlay_update: "overlay b (AList.update p e m) = (overlay b m)(p := unspent (entry_coin e))"
  by (rule ext) (simp add: overlay_def update_conv')

lemma overlay_delete: "overlay b (AList.delete p m) = (overlay b m)(p := b p)"
  by (rule ext) (simp add: overlay_def delete_conv')

lemma utxo_overlay: "utxo (CCoinsViewCache cache base) = overlay (utxo base) (cacheCoins cache)"
  by (rule ext) (simp add: overlay_def)

lemma utxo_update: "utxo (CCoinsViewCache (cache\<lparr>cacheCoins := AList.update p e m\<rparr>) base) =
    (utxo (CCoinsViewCache (cache\<lparr>cacheCoins := m\<rparr>) base))(p := unspent (entry_coin e))"
  by (rule ext) (simp add: update_conv')

lemma utxo_delete: "utxo (CCoinsViewCache (cache\<lparr>cacheCoins := AList.delete p m\<rparr>) base) =
    (utxo (CCoinsViewCache (cache\<lparr>cacheCoins := m\<rparr>) base))(p := utxo base p)"
  by (rule ext) (simp add: delete_conv')

lemma utxo_cong: "utxo base' = utxo base \<Longrightarrow> utxo (CCoinsViewCache cache base') = utxo (CCoinsViewCache cache base)"
  by (rule ext) (simp split: option.split)

lemma cache_eta [simp]: "cache\<lparr>cacheCoins := cacheCoins cache\<rparr> = cache"
  by simp

lemma utxo_unspent: "utxo v p = Some c \<Longrightarrow> \<not> IsSpent c"
  by (induction v) (auto simp: bind_eq_Some_conv split: option.splits)

section \<open>Reading\<close>

text \<open>A read fills the caches on its way and changes nothing else.\<close>

definition same_view :: "CCoinsView \<Rightarrow> CCoinsView \<Rightarrow> bool" where
  "same_view v v' \<longleftrightarrow> view_ok v' \<and> utxo v' = utxo v \<and> best v' = best v"

lemma fetch_coin_ok:
  assumes ok: "view_ok (as_view cv)"
    and get: "\<And>r base. get p = (r, base) \<Longrightarrow> r = utxo (snd cv) p \<and> same_view (snd cv) base"
    and fetch: "fetch_coin get cv p = (r, cv')"
  shows "same_view (as_view cv) (as_view cv')" "map_of (cacheCoins (fst cv')) p = r"
    "r = None \<Longrightarrow> utxo (as_view cv) p = None" "cache_hashBlock (fst cv') = cache_hashBlock (fst cv)"
proof -
  obtain cache base where cv: "cv = (cache, base)" by fastforce
  obtain q base' where g: "get p = (q, base')" by fastforce
  have base': "q = utxo base p" "view_ok base'" "utxo base' = utxo base" "best base' = best base"
    using get [OF g] by (auto simp: same_view_def cv)
  let ?e = "\<lambda>tmp. \<lparr>entry_coin = tmp, entry_flags = (if IsSpent tmp then FRESH else 0)\<rparr>"
  have "same_view (as_view cv) (as_view cv') \<and> map_of (cacheCoins (fst cv')) p = r \<and>
    (r = None \<longrightarrow> utxo (as_view cv) p = None) \<and> cache_hashBlock (fst cv') = cache_hashBlock (fst cv)"
  proof (cases "map_of (cacheCoins cache) p")
    case (Some e)
    then show ?thesis using fetch ok by (auto simp: fetch_coin_def cv same_view_def)
  next
    case None
    then show ?thesis
    proof (cases q)
      case None
      with \<open>map_of (cacheCoins cache) p = None\<close> show ?thesis
        using fetch ok g base' utxo_cong [OF base'(3), of cache] by (auto simp: fetch_coin_def cv same_view_def)
    next
      case (Some tmp)
      have tmp: "utxo base p = Some tmp" using base'(1) Some by simp
      then have "flags_ok (utxo base p) (?e tmp)"
        using utxo_unspent [of base p tmp] by (simp add: flags_ok_def unspent_def)
      then have m: "map_ok (utxo base') (AList.update p (?e tmp) (cacheCoins cache))"
        using ok base'(3) by (simp add: cv map_ok_update)
      have cv': "cv' = (cache\<lparr>cacheCoins := AList.update p (?e tmp) (cacheCoins cache)\<rparr>, base')" "r = Some (?e tmp)"
        using fetch g Some None by (simp_all add: fetch_coin_def cv Let_def)
      have "utxo (as_view cv') = utxo (as_view cv)"
        using utxo_unspent [OF tmp] tmp None base'(3)
        by (auto simp: cv cv' fun_eq_iff update_conv' unspent_def split: option.split)
      then show ?thesis using m base' cv' by (simp add: cv same_view_def update_conv')
    qed
  qed
  then show "same_view (as_view cv) (as_view cv')" "map_of (cacheCoins (fst cv')) p = r"
    "r = None \<Longrightarrow> utxo (as_view cv) p = None" "cache_hashBlock (fst cv') = cache_hashBlock (fst cv)" by auto
qed

lemma GetCoin_ok:
  assumes "view_ok v" "GetCoin v p = (r, v')"
  shows "r = utxo v p \<and> same_view v v'"
  using assms
proof (induction v arbitrary: r v')
  case (CCoinsViewDB db)
  then have "\<forall>c. db_coins db p = Some c \<longrightarrow> \<not> IsSpent c" unfolding view_ok.simps by blast
  then have "Option.bind (db_coins db p) unspent = db_coins db p"
    by (cases "db_coins db p") (simp_all add: unspent_def)
  then show ?case using CCoinsViewDB by (auto simp: same_view_def)
next
  case (CCoinsViewCache cache base)
  have get: "GetCoin base p = (r, base') \<Longrightarrow> r = utxo base p \<and> same_view base base'" for r base'
    using CCoinsViewCache by simp
  obtain q cv' where f: "fetch_coin (GetCoin base) (cache, base) p = (q, cv')" by (rule prod.exhaust)
  note fetch = fetch_coin_ok [of "(cache, base)", OF _ _ f, simplified fst_conv snd_conv, OF CCoinsViewCache.prems(1) get]
  have "utxo (as_view cv') p = utxo (CCoinsViewCache cache base) p" using fetch(1) by (simp add: same_view_def)
  then show ?case
    using CCoinsViewCache.prems(2) f fetch
    by (cases q; cases cv') (auto simp: unspent_def split: if_splits)
qed

lemma FetchCoin_ok:
  assumes "view_ok (as_view cv)" "FetchCoin cv p = (r, cv')"
  shows "same_view (as_view cv) (as_view cv')" "map_of (cacheCoins (fst cv')) p = r"
    "r = None \<Longrightarrow> utxo (as_view cv) p = None" "cache_hashBlock (fst cv') = cache_hashBlock (fst cv)"
    "Option.bind r (unspent \<circ> entry_coin) = utxo (as_view cv) p"
proof -
  have "view_ok (snd cv)" using assms(1) by simp
  then have get: "GetCoin (snd cv) p = (r, base) \<Longrightarrow> r = utxo (snd cv) p \<and> same_view (snd cv) base" for r base
    using GetCoin_ok by blast
  note fetch = fetch_coin_ok [OF assms(1) get assms(2) [unfolded FetchCoin_def]]
  show "same_view (as_view cv) (as_view cv')" "map_of (cacheCoins (fst cv')) p = r"
    "r = None \<Longrightarrow> utxo (as_view cv) p = None" "cache_hashBlock (fst cv') = cache_hashBlock (fst cv)"
    using fetch by blast+
  have "utxo (as_view cv') p = utxo (as_view cv) p" using fetch(1) by (simp add: same_view_def)
  then show "Option.bind r (unspent \<circ> entry_coin) = utxo (as_view cv) p"
    using fetch(2,3) by (cases r) auto
qed

lemma AccessCoin_ok:
  assumes "view_ok (as_view cv)" "AccessCoin cv p = (c, cv')"
  shows "unspent c = utxo (as_view cv) p" "same_view (as_view cv) (as_view cv')"
    "cache_hashBlock (fst cv') = cache_hashBlock (fst cv)"
proof -
  obtain r cv1 where r: "FetchCoin cv p = (r, cv1)" by (rule prod.exhaust)
  then have [simp]: "cv1 = cv'" "c = (case r of None \<Rightarrow> coinEmpty | Some it \<Rightarrow> entry_coin it)"
    using assms(2) by (auto simp: AccessCoin_def split: option.splits)
  note fetch = FetchCoin_ok [OF assms(1) r]
  show "unspent c = utxo (as_view cv) p" unfolding fetch(5) [symmetric] by (cases r) simp_all
  show "same_view (as_view cv) (as_view cv')" "cache_hashBlock (fst cv') = cache_hashBlock (fst cv)"
    using fetch(1,4) by simp_all
qed

lemma HaveCoin_AccessCoin: "HaveCoin cv p = (case AccessCoin cv p of (c, cv) \<Rightarrow> (\<not> IsSpent c, cv))"
  by (simp add: HaveCoin_def AccessCoin_def split: prod.split option.split)

lemma HaveCoin_ok:
  assumes "view_ok (as_view cv)" "HaveCoin cv p = (b, cv')"
  shows "b \<longleftrightarrow> utxo (as_view cv) p \<noteq> None" "same_view (as_view cv) (as_view cv')"
    "cache_hashBlock (fst cv') = cache_hashBlock (fst cv)"
proof -
  obtain c where c: "AccessCoin cv p = (c, cv')" "b = (\<not> IsSpent c)"
    using assms(2) by (auto simp: HaveCoin_AccessCoin split: prod.splits)
  note access = AccessCoin_ok [OF assms(1) c(1)]
  show "b \<longleftrightarrow> utxo (as_view cv) p \<noteq> None" unfolding access(1) [symmetric] c(2) by simp
  show "same_view (as_view cv) (as_view cv')" "cache_hashBlock (fst cv') = cache_hashBlock (fst cv)"
    using access by simp_all
qed

lemma GetBestBlock_ok: "view_ok v \<Longrightarrow> GetBestBlock v = (h, v') \<Longrightarrow> h = best v \<and> same_view v v'"
proof (induction v arbitrary: h v')
  case (CCoinsViewDB db)
  then show ?case by (auto simp: same_view_def)
next
  case (CCoinsViewCache cache base)
  obtain h' base' where b: "GetBestBlock base = (h', base')" by fastforce
  then have ih: "h' = best base" "view_ok base'" "utxo base' = utxo base" "best base' = best base"
    using CCoinsViewCache.IH [of h' base'] CCoinsViewCache.prems by (auto simp: same_view_def)
  show ?case
  proof (cases "uint256_IsNull (cache_hashBlock cache)")
    case True
    have "utxo (CCoinsViewCache (cache\<lparr>cache_hashBlock := h'\<rparr>) base') = utxo (CCoinsViewCache cache base)"
      using ih(3) by (auto simp: fun_eq_iff split: option.split)
    then show ?thesis using True CCoinsViewCache.prems b ih by (auto simp: same_view_def simp del: utxo.simps)
  next
    case False
    then show ?thesis using CCoinsViewCache.prems by (auto simp: same_view_def)
  qed
qed

section \<open>Changing\<close>

lemma AddCoin_ok:
  assumes "view_ok (as_view cv)" "\<not> IsSpent coin" "ow \<or> utxo (as_view cv) p = None"
  obtains cv' where "AddCoin cv p coin ow = Inr cv'" "view_ok (as_view cv')"
    "utxo (as_view cv') = (if IsUnspendable (scriptPubKey (coin_out coin)) then utxo (as_view cv)
       else (utxo (as_view cv))(p \<mapsto> coin))"
    "best (as_view cv') = best (as_view cv)" "cache_hashBlock (fst cv') = cache_hashBlock (fst cv)"
proof (cases "IsUnspendable (scriptPubKey (coin_out coin))")
  case True
  then show ?thesis using assms that [of cv] by (simp add: AddCoin_def)
next
  case False
  obtain cache base where cv: "cv = (cache, base)" by fastforce
  define it where "it = (case map_of (cacheCoins cache) p of
     None \<Rightarrow> \<lparr>entry_coin = coinEmpty, entry_flags = 0\<rparr> | Some e \<Rightarrow> e)"
  define fresh where "fresh \<longleftrightarrow> \<not> ow \<and> \<not> bit (entry_flags it) 0"
  let ?e = "\<lparr>entry_coin = coin, entry_flags = entry_flags it OR (DIRTY OR (if fresh then FRESH else 0))\<rparr>"
  have spent: "\<not> ow \<Longrightarrow> IsSpent (entry_coin it)"
    using assms(3) by (auto simp: it_def cv split: option.splits)
  have base: "bit (entry_flags it) (Suc 0) \<or> fresh \<Longrightarrow> utxo base p = None"
  proof (cases "map_of (cacheCoins cache) p")
    case None
    then show "bit (entry_flags it) (Suc 0) \<or> fresh \<Longrightarrow> utxo base p = None" using assms(3) by (simp add: it_def cv fresh_def)
  next
    case (Some e)
    then have "flags_ok (utxo base p) it" using assms(1) by (auto simp: it_def cv intro: map_ok_entry)
    then show "bit (entry_flags it) (Suc 0) \<or> fresh \<Longrightarrow> utxo base p = None"
      using spent by (auto simp: fresh_def flags_ok_def unspent_def)
  qed
  have "AddCoin cv p coin ow = Inr (cache\<lparr>cacheCoins := AList.update p ?e (cacheCoins cache)\<rparr>, base)"
    using False assms(2) spent unfolding AddCoin_def cv fst_conv snd_conv it_def [symmetric] Let_def
    by (simp add: fresh_def)
  moreover have "flags_ok (utxo base p) ?e" using base by (auto simp: flags_ok_def bit_simps)
  ultimately show ?thesis
    using assms False by (intro that) (auto simp: cv utxo_update unspent_def simp del: utxo.simps intro!: map_ok_update)
qed

lemma SpendCoin_ok:
  assumes "view_ok (as_view cv)" "SpendCoin cv p = (r, cv')"
  shows "Option.bind r unspent = utxo (as_view cv) p" "view_ok (as_view cv')"
    "utxo (as_view cv') = (utxo (as_view cv))(p := None)" "best (as_view cv') = best (as_view cv)"
    "cache_hashBlock (fst cv') = cache_hashBlock (fst cv)"
proof -
  obtain q cv1 where q: "FetchCoin cv p = (q, cv1)" by (rule prod.exhaust)
  obtain cache base where cv1: "cv1 = (cache, base)" by fastforce
  note fetch = FetchCoin_ok [OF assms(1) q]
  have ok: "view_ok (as_view cv1)" "utxo (as_view cv1) = utxo (as_view cv)" "best (as_view cv1) = best (as_view cv)"
    using fetch(1) by (auto simp: same_view_def)
  have "Option.bind r unspent = utxo (as_view cv) p \<and> view_ok (as_view cv') \<and>
    utxo (as_view cv') = (utxo (as_view cv))(p := None) \<and> best (as_view cv') = best (as_view cv) \<and>
    cache_hashBlock (fst cv') = cache_hashBlock (fst cv)"
  proof (cases q)
    case None
    then have r: "r = None" "cv' = cv1" using assms(2) q by (auto simp: SpendCoin_def)
    show ?thesis unfolding r using None fetch(3,4) ok by (simp add: fun_upd_idem del: utxo.simps best.simps view_ok.simps)
  next
    case (Some it)
    have entry: "map_of (cacheCoins cache) p = Some it" using fetch(2) Some by (simp add: cv1)
    then have flags: "flags_ok (utxo base p) it" using ok(1) map_ok_entry by (fastforce simp: cv1)
    have r: "r = Some (entry_coin it)" "cv' = (cache\<lparr>cacheCoins :=
         (if bit (entry_flags it) (Suc 0) then AList.delete p (cacheCoins cache)
          else AList.update p \<lparr>entry_coin = coinEmpty, entry_flags = entry_flags it OR DIRTY\<rparr> (cacheCoins cache))\<rparr>, base)"
      using assms(2) q Some by (simp_all add: SpendCoin_def cv1)
    have "flags_ok (utxo base p) \<lparr>entry_coin = coinEmpty, entry_flags = entry_flags it OR DIRTY\<rparr>"
      using flags by (auto simp: flags_ok_def bit_simps)
    then have "view_ok (as_view cv')" using ok(1) by (auto simp: r cv1 map_ok_update map_ok_delete)
    moreover have "utxo (as_view cv') = (utxo (as_view cv1))(p := None)"
      using flags by (auto simp: r cv1 utxo_update utxo_delete flags_ok_def unspent_def simp del: utxo.simps)
    moreover have "Option.bind r unspent = utxo (as_view cv) p" using fetch(5) by (simp add: r Some del: utxo.simps)
    moreover have "best (as_view cv') = best (as_view cv1)" "cache_hashBlock (fst cv') = cache_hashBlock (fst cv1)"
      by (simp_all add: r cv1)
    ultimately show ?thesis using ok fetch(4) by simp
  qed
  then show "Option.bind r unspent = utxo (as_view cv) p" "view_ok (as_view cv')"
    "utxo (as_view cv') = (utxo (as_view cv))(p := None)" "best (as_view cv') = best (as_view cv)"
    "cache_hashBlock (fst cv') = cache_hashBlock (fst cv)" by blast+
qed

lemma Uncache_ok:
  assumes "view_ok (as_view cv)"
  shows "same_view (as_view cv) (as_view (Uncache cv p))" "cache_hashBlock (fst (Uncache cv p)) = cache_hashBlock (fst cv)"
proof -
  obtain cache base where cv: "cv = (cache, base)" by fastforce
  have "same_view (as_view cv) (as_view (Uncache cv p)) \<and> cache_hashBlock (fst (Uncache cv p)) = cache_hashBlock (fst cv)"
  proof (cases "\<exists>it. map_of (cacheCoins cache) p = Some it \<and> entry_flags it = 0")
    case True
    then obtain it where it: "map_of (cacheCoins cache) p = Some it" "entry_flags it = 0" by blast
    then have "flags_ok (utxo base p) it" using assms map_ok_entry by (fastforce simp: cv)
    then have "utxo base p = unspent (entry_coin it)" using it(2) by (simp add: flags_ok_def)
    then have "utxo (as_view (Uncache cv p)) = utxo (as_view cv)"
      using it by (auto simp: Uncache_def cv utxo_delete fun_eq_iff simp del: utxo.simps) (simp add: it)
    then show ?thesis using it assms by (auto simp: Uncache_def cv same_view_def map_ok_delete simp del: utxo.simps)
  next
    case False
    then have "Uncache cv p = cv" by (auto simp: Uncache_def cv split: option.split)
    then show ?thesis using assms by (simp add: same_view_def)
  qed
  then show "same_view (as_view cv) (as_view (Uncache cv p))"
    "cache_hashBlock (fst (Uncache cv p)) = cache_hashBlock (fst cv)" by blast+
qed

section \<open>Flushing\<close>

lemma batch_entry_ok:
  assumes ok: "map_ok b m" and flags: "flags_ok (overlay b m p) e"
  obtains m' where "batch_entry m (p, e) = Inr m'" "map_ok b m'"
    "overlay b m' = (overlay b m)(p := unspent (entry_coin e))"
proof (cases "bit (entry_flags e) 0")
  case False
  then have "overlay b m = (overlay b m)(p := unspent (entry_coin e))" using flags by (simp add: flags_ok_def)
  then show ?thesis using that [of m] ok False by (simp add: batch_entry_def)
next
  case dirty: True
  show ?thesis
  proof (cases "map_of m p")
    case None
    let ?e = "\<lparr>entry_coin = entry_coin e, entry_flags = (if bit (entry_flags e) (Suc 0) then DIRTY OR FRESH else DIRTY)\<rparr>"
    have bp: "overlay b m p = b p" using None by (simp add: overlay_def)
    have "flags_ok (b p) ?e" using flags bp by (auto simp: flags_ok_def bit_simps)
    then have up: "map_ok b (AList.update p ?e m)" using ok by (rule map_ok_update [rotated])
    show ?thesis
    proof (cases "bit (entry_flags e) (Suc 0) \<and> IsSpent (entry_coin e)")
      case True
      then have "overlay b m = (overlay b m)(p := unspent (entry_coin e))"
        using flags by (auto simp: flags_ok_def unspent_def)
      then show ?thesis using that [of m] ok None dirty True by (simp add: batch_entry_def)
    next
      case False
      then have "batch_entry m (p, e) = Inr (AList.update p ?e m)" using None dirty by (auto simp: batch_entry_def)
      then show ?thesis using up by (rule that) (simp add: overlay_update)
    qed
  next
    case (Some us)
    have us: "flags_ok (b p) us" using ok Some by (rule map_ok_entry)
    have legit: "\<not> (bit (entry_flags e) (Suc 0) \<and> \<not> IsSpent (entry_coin us))"
      using flags Some by (auto simp: flags_ok_def overlay_def)
    show ?thesis
    proof (cases "bit (entry_flags us) (Suc 0) \<and> IsSpent (entry_coin e)")
      case True
      then have "batch_entry m (p, e) = Inr (AList.delete p m)" using Some dirty legit by (auto simp: batch_entry_def)
      then show ?thesis using map_ok_delete [OF ok]
        by (rule that) (use True us in \<open>auto simp: overlay_delete flags_ok_def unspent_def\<close>)
    next
      case False
      let ?e = "\<lparr>entry_coin = entry_coin e, entry_flags = entry_flags us OR DIRTY\<rparr>"
      have "batch_entry m (p, e) = Inr (AList.update p ?e m)" using False Some dirty legit by (auto simp: batch_entry_def)
      moreover have "flags_ok (b p) ?e" using us by (auto simp: flags_ok_def bit_simps)
      ultimately show ?thesis using map_ok_update [OF ok] by (intro that) (auto simp: overlay_update)
    qed
  qed
qed

lemma batch_loop_ok:
  assumes "map_ok b m" "map_ok (overlay b m) child"
  obtains m' where "batch_loop m child = Inr m'" "map_ok b m'" "overlay b m' = overlay (overlay b m) child"
  using assms
proof (induction child arbitrary: m thesis)
  case Nil
  then show ?case by (simp add: overlay_def [abs_def])
next
  case (Cons it child)
  obtain p e where it: "it = (p, e)" by fastforce
  have "flags_ok (overlay b m p) e" using Cons.prems(3) by (auto simp: map_ok_def it)
  then obtain m1 where m1: "batch_entry m it = Inr m1" "map_ok b m1"
      "overlay b m1 = (overlay b m)(p := unspent (entry_coin e))"
    using batch_entry_ok [OF Cons.prems(2)] unfolding it by metis
  have notin: "map_of child p = None" using Cons.prems(3) by (simp add: map_ok_def it map_of_eq_None_iff)
  have "map_ok (overlay b m1) child"
    using Cons.prems(3) notin by (auto simp: map_ok_def it m1(3) split: if_splits)
  then obtain m' where m': "batch_loop m1 child = Inr m'" "map_ok b m'" "overlay b m' = overlay (overlay b m1) child"
    using Cons.IH [OF _ m1(2)] by blast
  have "overlay (overlay b m1) child = overlay (overlay b m) (it # child)"
    using notin by (auto simp: m1(3) it overlay_def fun_eq_iff split: option.split)
  then show ?case using Cons.prems(1) [of m'] m1 m' by simp
qed

lemma concat_db_batches:
  "concat (db_batches full h batch m) = batch @ concat (map coin_op m) @ [EraseHeadBlocks, WriteBestBlock h]"
  by (induction full h batch m rule: db_batches.induct) (auto simp: Let_def)

lemma fold_WriteBatch: "fold WriteBatch batches db = fold db_apply (concat batches) db"
  by (induction batches arbitrary: db) (simp_all add: WriteBatch_def)

lemma fold_coin_ops:
  "distinct (map fst m) \<Longrightarrow> fold db_apply (concat (map coin_op m)) db = db\<lparr>db_coins := \<lambda>p.
     case map_of m p of None \<Rightarrow> db_coins db p
     | Some e \<Rightarrow> if bit (entry_flags e) 0 then unspent (entry_coin e) else db_coins db p\<rparr>"
proof (induction m arbitrary: db)
  case Nil
  then show ?case by simp
next
  case (Cons it m)
  have "map_of m (fst it) = None" using Cons.prems by (simp add: map_of_eq_None_iff)
  then show ?case
    using Cons.IH Cons.prems
    by (cases it) (auto simp: coin_op_def unspent_def fun_eq_iff split: option.split intro!: coins_db.equality)
qed

text \<open>The database after a complete write, whatever the size of the batches.\<close>

definition db_written :: "coins_db \<Rightarrow> CCoinsMap \<Rightarrow> uint256 \<Rightarrow> coins_db" where
  "db_written db m h = db\<lparr>db_best_block := Some h, db_head_blocks := None, db_coins := \<lambda>p.
     case map_of m p of None \<Rightarrow> db_coins db p
     | Some e \<Rightarrow> if bit (entry_flags e) 0 then unspent (entry_coin e) else db_coins db p\<rparr>"

lemma BatchWrite_db:
  assumes "distinct (map fst m)" "\<not> uint256_IsNull h" "db_old_tip db h = Some old"
  shows "BatchWrite full (CCoinsViewDB db) m h = Inr (CCoinsViewDB (db_written db m h))"
  using assms by (simp add: db_write_batches_def fold_WriteBatch concat_db_batches fold_coin_ops db_written_def
      cong: option.case_cong if_cong)

lemma BatchWrite_ok:
  assumes base: "view_ok base" and child: "map_ok (utxo base) m" and h: "\<not> uint256_IsNull h"
  obtains base' where "BatchWrite full base m h = Inr base'" "view_ok base'" "utxo base' = overlay (utxo base) m" "best base' = h"
proof (cases base)
  case (CCoinsViewDB db)
  have tip: "db_old_tip db h = Some (fst (GetBestBlock (CCoinsViewDB db)))"
    using base by (simp add: CCoinsViewDB db_old_tip_def Let_def)
  have m: "distinct (map fst m)" using child by (simp add: map_ok_def)
  have db: "db_coins db p = Some c \<Longrightarrow> \<not> IsSpent c" for p c using base by (simp add: CCoinsViewDB)
  have "utxo (CCoinsViewDB (db_written db m h)) p = overlay (utxo base) m p" for p
  proof (cases "map_of m p")
    case (Some e)
    then have "flags_ok (utxo base p) e" using child by (rule map_ok_entry [rotated])
    then show ?thesis using Some by (auto simp: db_written_def overlay_def flags_ok_def CCoinsViewDB unspent_def)
  qed (simp add: db_written_def overlay_def CCoinsViewDB)
  moreover have "view_ok (CCoinsViewDB (db_written db m h))"
    using db by (auto simp: db_written_def split: option.splits if_splits)
  ultimately show ?thesis
    using that [of "CCoinsViewDB (db_written db m h)"] BatchWrite_db [OF m h tip, of full]
    by (auto simp: CCoinsViewDB db_written_def fun_eq_iff)
next
  case (CCoinsViewCache cache base2)
  have "map_ok (utxo base2) (cacheCoins cache)" "map_ok (overlay (utxo base2) (cacheCoins cache)) m" "view_ok base2"
    using base child by (simp_all add: CCoinsViewCache utxo_overlay del: utxo.simps)
  then obtain m' where "batch_loop (cacheCoins cache) m = Inr m'" "map_ok (utxo base2) m'"
    "overlay (utxo base2) m' = overlay (overlay (utxo base2) (cacheCoins cache)) m"
    using batch_loop_ok by blast
  then show ?thesis
    using that [of "CCoinsViewCache (cache\<lparr>cacheCoins := m', cache_hashBlock := h\<rparr>) base2"] h \<open>view_ok base2\<close>
    by (simp add: CCoinsViewCache utxo_overlay del: utxo.simps)
qed

lemma Flush_ok:
  assumes "view_ok (as_view cv)" "\<not> uint256_IsNull (cache_hashBlock (fst cv))"
  obtains cv' where "Flush full cv = Inr cv'" "same_view (as_view cv) (as_view cv')"
    "cache_hashBlock (fst cv') = cache_hashBlock (fst cv)"
proof -
  obtain cache base where cv: "cv = (cache, base)" by fastforce
  have "view_ok base" "map_ok (utxo base) (cacheCoins cache)" using assms(1) by (simp_all add: cv)
  then obtain base' where b: "BatchWrite full base (cacheCoins cache) (cache_hashBlock cache) = Inr base'" "view_ok base'"
      "utxo base' = overlay (utxo base) (cacheCoins cache)" "best base' = cache_hashBlock cache"
    by (rule BatchWrite_ok) (use assms(2) in \<open>simp add: cv\<close>)
  have "map_ok (utxo base') []" by (simp add: map_ok_def)
  moreover have "overlay (utxo base') [] = utxo base'" by (simp add: overlay_def [abs_def])
  ultimately show ?thesis
    using that [of "(cache\<lparr>cacheCoins := []\<rparr>, base')"] b assms(2)
    by (simp add: cv Flush_def same_view_def utxo_overlay del: utxo.simps)
qed

section \<open>Refinement\<close>

text \<open>The specification: a map of unspent coins and a best block; \<open>us_ready\<close> says that the best block
  is known to the cache, which \<open>Flush\<close> requires.\<close>

record utxo_state =
  us_coins :: "COutPoint \<rightharpoonup> Coin"
  us_best :: uint256
  us_ready :: bool

datatype coins_call =
    CallAccessCoin COutPoint | CallHaveCoin COutPoint | CallAddCoin COutPoint Coin bool | CallSpendCoin COutPoint
  | CallUncache COutPoint | CallGetBestBlock | CallSetBestBlock uint256 | CallFlush

datatype coins_result = ResUnit | ResBool bool | ResCoin "Coin option" | ResHash uint256

fun coins_spec :: "coins_call \<Rightarrow> utxo_state \<Rightarrow> coins_result \<times> utxo_state" where
  "coins_spec (CallAccessCoin p) us = (ResCoin (us_coins us p), us)"
| "coins_spec (CallHaveCoin p) us = (ResBool (us_coins us p \<noteq> None), us)"
| "coins_spec (CallAddCoin p coin ow) us =
     (ResUnit, if IsUnspendable (scriptPubKey (coin_out coin)) then us else us\<lparr>us_coins := (us_coins us)(p \<mapsto> coin)\<rparr>)"
| "coins_spec (CallSpendCoin p) us = (ResCoin (us_coins us p), us\<lparr>us_coins := (us_coins us)(p := None)\<rparr>)"
| "coins_spec (CallUncache p) us = (ResUnit, us)"
| "coins_spec CallGetBestBlock us = (ResHash (us_best us), us\<lparr>us_ready := \<not> uint256_IsNull (us_best us)\<rparr>)"
| "coins_spec (CallSetBestBlock h) us = (ResUnit, us\<lparr>us_best := h, us_ready := True\<rparr>)"
| "coins_spec CallFlush us = (ResUnit, us)"

fun coins_legal :: "coins_call \<Rightarrow> utxo_state \<Rightarrow> bool" where
  "coins_legal (CallAddCoin p coin ow) us \<longleftrightarrow> \<not> IsSpent coin \<and> (ow \<or> us_coins us p = None)"
| "coins_legal (CallSetBestBlock h) us \<longleftrightarrow> \<not> uint256_IsNull h"
| "coins_legal CallFlush us \<longleftrightarrow> us_ready us"
| "coins_legal _ us \<longleftrightarrow> True"

text \<open>The calls on the model.  A spent coin that a cache still holds is the same as none.\<close>

fun coins_step :: "(db_op list \<Rightarrow> bool) \<Rightarrow> coins_call \<Rightarrow> cache_state \<Rightarrow> coins_error + coins_result \<times> cache_state" where
  "coins_step full (CallAccessCoin p) cv = (case AccessCoin cv p of (c, cv) \<Rightarrow> Inr (ResCoin (unspent c), cv))"
| "coins_step full (CallHaveCoin p) cv = (case HaveCoin cv p of (b, cv) \<Rightarrow> Inr (ResBool b, cv))"
| "coins_step full (CallAddCoin p coin ow) cv = bindE (AddCoin cv p coin ow) (\<lambda>cv. Inr (ResUnit, cv))"
| "coins_step full (CallSpendCoin p) cv = (case SpendCoin cv p of (r, cv) \<Rightarrow> Inr (ResCoin (Option.bind r unspent), cv))"
| "coins_step full (CallUncache p) cv = Inr (ResUnit, Uncache cv p)"
| "coins_step full CallGetBestBlock cv = (case cache_GetBestBlock cv of (h, cv) \<Rightarrow> Inr (ResHash h, cv))"
| "coins_step full (CallSetBestBlock h) cv = Inr (ResUnit, SetBestBlock h cv)"
| "coins_step full CallFlush cv = bindE (Flush full cv) (\<lambda>cv. Inr (ResUnit, cv))"

definition coins_abs :: "cache_state \<Rightarrow> utxo_state" where
  "coins_abs cv = \<lparr>us_coins = utxo (as_view cv), us_best = best (as_view cv),
     us_ready = (\<not> uint256_IsNull (cache_hashBlock (fst cv)))\<rparr>"

definition coins_ok :: "cache_state \<Rightarrow> bool" where
  "coins_ok cv \<longleftrightarrow> view_ok (as_view cv)"

lemma cache_GetBestBlock_ok:
  assumes "view_ok (as_view cv)" "cache_GetBestBlock cv = (h, cv')"
  shows "h = best (as_view cv)" "same_view (as_view cv) (as_view cv')" "cache_hashBlock (fst cv') = best (as_view cv)"
proof -
  obtain v' where v': "GetBestBlock (as_view cv) = (h, v')" "v' = as_view cv'" "cache_hashBlock (fst cv') = h"
    using assms(2) by (auto simp: cache_GetBestBlock_def split: prod.splits if_splits)
  show "h = best (as_view cv)" "same_view (as_view cv) (as_view cv')" "cache_hashBlock (fst cv') = best (as_view cv)"
    using GetBestBlock_ok [OF assms(1) v'(1)] v'(2,3) by simp_all
qed

lemma coins_simulates:
  assumes "coins_ok cv" "coins_legal c (coins_abs cv)"
  shows "\<exists>r cv'. coins_step full c cv = Inr (r, cv') \<and> coins_spec c (coins_abs cv) = (r, coins_abs cv') \<and> coins_ok cv'"
proof -
  have ok: "view_ok (as_view cv)" using assms(1) by (simp add: coins_ok_def)
  have same: "same_view (as_view cv) (as_view cv') \<Longrightarrow> cache_hashBlock (fst cv') = cache_hashBlock (fst cv) \<Longrightarrow>
      coins_abs cv' = coins_abs cv \<and> coins_ok cv'" for cv'
    by (simp add: same_view_def coins_abs_def coins_ok_def)
  have abs: "us_coins (coins_abs cv) = utxo (as_view cv)" "us_best (coins_abs cv) = best (as_view cv)"
    by (simp_all add: coins_abs_def)
  show ?thesis
  proof (cases c)
    case (CallAccessCoin p)
    then show ?thesis using AccessCoin_ok [OF ok] same abs by (auto simp: CallAccessCoin split: prod.splits)
  next
    case (CallHaveCoin p)
    then show ?thesis using HaveCoin_ok [OF ok] same abs by (auto simp: CallHaveCoin simp del: utxo.simps split: prod.splits)
  next
    case (CallAddCoin p coin ow)
    have "\<not> IsSpent coin" "ow \<or> utxo (as_view cv) p = None" using assms(2) abs by (simp_all add: CallAddCoin)
    then obtain cv' where "AddCoin cv p coin ow = Inr cv'" "view_ok (as_view cv')"
      "utxo (as_view cv') = (if IsUnspendable (scriptPubKey (coin_out coin)) then utxo (as_view cv)
         else (utxo (as_view cv))(p \<mapsto> coin))"
      "best (as_view cv') = best (as_view cv)" "cache_hashBlock (fst cv') = cache_hashBlock (fst cv)"
      by (rule AddCoin_ok [OF ok])
    then show ?thesis
      by (intro exI [of _ ResUnit] exI [of _ cv'])
        (simp add: CallAddCoin coins_abs_def coins_ok_def del: utxo.simps best.simps view_ok.simps)
  next
    case (CallSpendCoin p)
    show ?thesis using SpendCoin_ok [OF ok, of p]
      by (auto simp: CallSpendCoin coins_abs_def coins_ok_def simp del: utxo.simps best.simps view_ok.simps split: prod.splits)
  next
    case (CallUncache p)
    then show ?thesis using Uncache_ok [OF ok] same by simp
  next
    case CallGetBestBlock
    show ?thesis using cache_GetBestBlock_ok [OF ok]
      by (auto simp: CallGetBestBlock coins_abs_def coins_ok_def same_view_def simp del: utxo.simps best.simps view_ok.simps split: prod.splits)
  next
    case (CallSetBestBlock h)
    then show ?thesis using assms by (auto simp: coins_abs_def coins_ok_def SetBestBlock_def)
  next
    case CallFlush
    have "\<not> uint256_IsNull (cache_hashBlock (fst cv))" using assms(2) by (simp add: CallFlush coins_abs_def)
    from Flush_ok [OF ok this, of full] show ?thesis using same by (metis CallFlush bindE_simps(2) coins_spec.simps(8) coins_step.simps(8))
  qed
qed

interpretation coins: simulation coins_ok coins_abs "coins_step full" coins_spec coins_legal for full
  by unfold_locales (rule coins_simulates)

lemma new_cache_ok:
  assumes "view_ok v"
  shows "coins_ok (CCoinsViewCache_new v)" "us_coins (coins_abs (CCoinsViewCache_new v)) = utxo v"
    "us_best (coins_abs (CCoinsViewCache_new v)) = best v"
  using assms by (auto simp: coins_ok_def coins_abs_def CCoinsViewCache_new_def map_ok_def)

text \<open>C2: the coin views refine a map of unspent coins.  On any stack of caches over the database, every
  sequence of calls that the specification allows succeeds and returns what the specification
  returns, flushes to the base and evictions included; the flags of the entries stay consistent.  A
  new cache on top shows the same coins.\<close>

theorem coins_refinement:
  assumes "coins_ok cv" "legal_calls coins_spec coins_legal calls (coins_abs cv)"
  shows "\<exists>rs cv'. run_steps (coins_step full) calls cv = Inr (rs, cv') \<and>
    run_spec coins_spec calls (coins_abs cv) = (rs, coins_abs cv') \<and> coins_ok cv' \<and>
    coins_ok (CCoinsViewCache_new (as_view cv')) \<and>
    us_coins (coins_abs (CCoinsViewCache_new (as_view cv'))) = us_coins (coins_abs cv')"
proof -
  obtain rs cv' where "run_steps (coins_step full) calls cv = Inr (rs, cv')"
      "run_spec coins_spec calls (coins_abs cv) = (rs, coins_abs cv')" "coins_ok cv'"
    using coins.run_simulates [OF assms] by blast
  moreover from this have "view_ok (as_view cv')" by (simp add: coins_ok_def)
  ultimately show ?thesis using new_cache_ok [of "as_view cv'"] by (auto simp: coins_abs_def)
qed

definition sample_coin :: Coin where
  "sample_coin = Coin_of \<lparr>nValue = 5, scriptPubKey = [0x51]\<rparr> 7 False False"

definition sample_db :: coins_db where
  "sample_db = \<lparr>db_coins = Map.empty, db_best_block = None, db_head_blocks = None\<rparr>"

theorem coins_refinement_witness:
  "\<exists>cv'. run_steps (coins_step (\<lambda>b. length b > 1))
       [CallSetBestBlock (replicate 32 1), CallAddCoin COutPoint_SetNull sample_coin False, CallFlush,
        CallSpendCoin COutPoint_SetNull, CallFlush, CallHaveCoin COutPoint_SetNull]
       (CCoinsViewCache_new (as_view (CCoinsViewCache_new (CCoinsViewDB sample_db)))) =
     Inr ([ResUnit, ResUnit, ResUnit, ResCoin (Some sample_coin), ResUnit, ResBool False], cv')"
proof -
  let ?cv = "CCoinsViewCache_new (as_view (CCoinsViewCache_new (CCoinsViewDB sample_db)))"
  define h :: uint256 where "h = replicate 32 1"
  let ?calls = "[CallSetBestBlock h, CallAddCoin COutPoint_SetNull sample_coin False, CallFlush,
    CallSpendCoin COutPoint_SetNull, CallFlush, CallHaveCoin COutPoint_SetNull]"
  have db: "view_ok (CCoinsViewDB sample_db)" by (simp add: sample_db_def)
  then have base: "view_ok (as_view (CCoinsViewCache_new (CCoinsViewDB sample_db)))"
    using new_cache_ok(1) coins_ok_def by blast
  have "utxo (as_view (CCoinsViewCache_new (CCoinsViewDB sample_db))) = utxo (CCoinsViewDB sample_db)"
    using new_cache_ok(2) [OF db] by (simp add: coins_abs_def)
  also have "\<dots> = Map.empty" by (rule ext) (simp add: sample_db_def)
  finally have empty: "us_coins (coins_abs ?cv) = Map.empty" using new_cache_ok(2) [OF base] by simp
  have coin: "\<not> IsSpent sample_coin" "\<not> IsUnspendable (scriptPubKey (coin_out sample_coin))" by code_simp+
  have "\<not> uint256_IsNull h" unfolding h_def by code_simp
  then have "legal_calls coins_spec coins_legal ?calls (coins_abs ?cv)" using coin by (simp add: empty)
  moreover have "fst (run_spec coins_spec ?calls (coins_abs ?cv)) =
      [ResUnit, ResUnit, ResUnit, ResCoin (Some sample_coin), ResUnit, ResBool False]"
    using coin by (simp add: empty)
  ultimately show ?thesis
    unfolding h_def [symmetric]
    using coins_refinement [OF new_cache_ok(1) [OF base], of ?calls "\<lambda>b. length b > 1"] by (metis fst_conv)
qed

section \<open>Crashes while the database is written\<close>

lemma take_db_batches:
  "n < length (db_batches full h batch m) \<Longrightarrow> \<exists>m1 m2. m = m1 @ m2 \<and>
     concat (take n (db_batches full h batch m)) = (if n = 0 then [] else batch @ concat (map coin_op m1))"
proof (induction full h batch m arbitrary: n rule: db_batches.induct)
  case (1 full h batch)
  then show ?case by simp
next
  case (2 full h batch it m)
  let ?b = "batch @ coin_op it"
  show ?case
  proof (cases "full ?b")
    case True
    show ?thesis
    proof (cases n)
      case 0
      then show ?thesis by (intro exI [of _ "[]"] exI [of _ "it # m"]) simp
    next
      case (Suc k)
      have "k < length (db_batches full h [] m)" using 2(3) True Suc by (simp add: Let_def)
      then obtain m1 m2 where m: "m = m1 @ m2"
        "concat (take k (db_batches full h [] m)) = (if k = 0 then [] else concat (map coin_op m1))"
        using 2(1) [OF refl True, of k] by auto
      show ?thesis
      proof (cases "k = 0")
        case True
        then show ?thesis using \<open>full ?b\<close> Suc by (intro exI [of _ "[it]"] exI [of _ m]) (simp add: Let_def)
      next
        case False
        then show ?thesis using \<open>full ?b\<close> Suc m(2) by (intro exI [of _ "it # m1"] exI [of _ m2]) (simp add: Let_def m(1))
      qed
    qed
  next
    case False
    have "n < length (db_batches full h ?b m)" using 2(3) False by (simp add: Let_def)
    then obtain m1 m2 where m: "m = m1 @ m2"
      "concat (take n (db_batches full h ?b m)) = (if n = 0 then [] else ?b @ concat (map coin_op m1))"
      using 2(2) [OF refl False, of n] by blast
    then show ?thesis using False by (intro exI [of _ "it # m1"] exI [of _ m2]) (simp add: Let_def)
  qed
qed

text \<open>The database in the middle of a transition from \<open>old\<close> to \<open>h\<close>, after the entries \<open>m\<close>.\<close>

definition db_partial :: "coins_db \<Rightarrow> CCoinsMap \<Rightarrow> uint256 \<Rightarrow> uint256 \<Rightarrow> coins_db" where
  "db_partial db m h old = (db_written db m h)\<lparr>db_best_block := None, db_head_blocks := Some [h, old]\<rparr>"

lemma db_partial_rewrite:
  assumes "distinct (map fst (m1 @ m2))"
  shows "db_written (db_partial db m1 h old) (m1 @ m2) h = db_written db (m1 @ m2) h"
  using assms
  by (auto simp: db_partial_def db_written_def map_add_def fun_eq_iff intro!: coins_db.equality split: option.split)

lemma db_crash_state:
  assumes m: "distinct (map fst m)" and b: "db_write_batches full db m h = Inr batches" and n: "n < length batches"
  obtains m1 m2 old where "m = m1 @ m2" "db_old_tip db h = Some old"
    "fold WriteBatch (take n batches) db = (if n = 0 then db else db_partial db m1 h old)"
proof -
  obtain old where old: "db_old_tip db h = Some old"
    "batches = db_batches full h [EraseBestBlock, WriteHeadBlocks [h, old]] m"
    using b by (auto simp: db_write_batches_def split: option.splits if_splits)
  obtain m1 m2 where m12: "m = m1 @ m2"
    "concat (take n batches) = (if n = 0 then [] else [EraseBestBlock, WriteHeadBlocks [h, old]] @ concat (map coin_op m1))"
    using take_db_batches [OF n [unfolded old(2)]] unfolding old(2) by blast
  have "distinct (map fst m1)" using m m12(1) by simp
  then have "fold WriteBatch (take n batches) db = (if n = 0 then db else db_partial db m1 h old)"
    unfolding fold_WriteBatch m12(2)
    by (simp add: fold_coin_ops db_partial_def db_written_def cong: option.case_cong if_cong)
  then show ?thesis using that m12(1) old(1) by blast
qed

text \<open>C38: a crash between the batches of a database write.  The write does not depend on the sizes of
  the batches.  After any proper prefix of them the database is either untouched or marked as in
  transition between the old and the new block, with every coin as before or as after the write;
  repeating the write from there, with any batch size, gives the same database as if there had been
  no crash.\<close>

theorem BatchWrite_crash:
  assumes "distinct (map fst m)" "db_write_batches full db m h = Inr batches" "n < length batches"
    "db' = fold WriteBatch (take n batches) db"
  shows "(n = 0 \<longrightarrow> db' = db) \<and>
    (n \<noteq> 0 \<longrightarrow> db_best_block db' = None \<and> (\<exists>old. db_old_tip db h = Some old \<and> db_head_blocks db' = Some [h, old])) \<and>
    BatchWrite full' (CCoinsViewDB db') m h = BatchWrite full (CCoinsViewDB db) m h \<and>
    (\<exists>dbw. BatchWrite full (CCoinsViewDB db) m h = Inr (CCoinsViewDB dbw) \<and> db_best_block dbw = Some h \<and>
      db_head_blocks dbw = None \<and> (\<forall>p. db_coins db' p = db_coins db p \<or> db_coins db' p = db_coins dbw p))"
proof -
  obtain m1 m2 old where m: "m = m1 @ m2" "db_old_tip db h = Some old" "db' = (if n = 0 then db else db_partial db m1 h old)"
    using db_crash_state [OF assms(1-3)] assms(4) by metis
  have h: "\<not> uint256_IsNull h" using assms(2) by (auto simp: db_write_batches_def split: if_splits)
  have w: "BatchWrite f (CCoinsViewDB db) m h = Inr (CCoinsViewDB (db_written db m h))" for f
    by (rule BatchWrite_db [OF assms(1) h m(2)])
  have tip: "db_old_tip (db_partial db m1 h old) h = Some old"
    by (simp add: db_old_tip_def db_partial_def Let_def)
  have "BatchWrite f (CCoinsViewDB (db_partial db m1 h old)) m h = Inr (CCoinsViewDB (db_written db m h))" for f
    using BatchWrite_db [OF assms(1) h tip, of f] db_partial_rewrite assms(1) m(1) by simp
  then have re: "BatchWrite f (CCoinsViewDB db') m h = Inr (CCoinsViewDB (db_written db m h))" for f
    using w m(3) by simp
  have "db_coins (db_partial db m1 h old) p = db_coins db p \<or> db_coins (db_partial db m1 h old) p = db_coins (db_written db m h) p" for p
    using assms(1) by (auto simp: db_partial_def db_written_def m(1) map_add_def map_of_eq_None_iff rev_image_eqI split: option.split)
  then show ?thesis using m(2,3) w re by (auto simp: db_written_def db_partial_def)
qed

theorem BatchWrite_crash_witness:
  "\<exists>dbw. BatchWrite (\<lambda>_. False) (CCoinsViewDB (WriteBatch [EraseBestBlock, WriteHeadBlocks [replicate 32 1, uint256_zero],
        WriteCoin COutPoint_SetNull sample_coin] sample_db))
      [(COutPoint_SetNull, \<lparr>entry_coin = sample_coin, entry_flags = DIRTY\<rparr>)] (replicate 32 1) = Inr (CCoinsViewDB dbw) \<and>
     db_head_blocks dbw = None"
proof -
  let ?m = "[(COutPoint_SetNull, \<lparr>entry_coin = sample_coin, entry_flags = DIRTY\<rparr>)]"
  let ?first = "[EraseBestBlock, WriteHeadBlocks [replicate 32 1, uint256_zero], WriteCoin COutPoint_SetNull sample_coin]"
  have "\<not> IsSpent sample_coin" "\<not> uint256_IsNull (replicate 32 1)" "uint256_IsNull uint256_zero" by code_simp+
  then have "db_write_batches (\<lambda>b. length b > 1) sample_db ?m (replicate 32 1) =
      Inr [?first, [EraseHeadBlocks, WriteBestBlock (replicate 32 1)]]"
    by (simp add: db_write_batches_def db_old_tip_def sample_db_def coin_op_def)
  note crash = BatchWrite_crash [OF _ this, of 1 "WriteBatch ?first sample_db" "\<lambda>_. False"]
  have "distinct (map fst ?m)" "1 < length [?first, [EraseHeadBlocks, WriteBestBlock (replicate 32 1)]]"
    "WriteBatch ?first sample_db = fold WriteBatch (take 1 [?first, [EraseHeadBlocks, WriteBestBlock (replicate 32 1)]]) sample_db"
    by simp_all
  from crash [OF this] show ?thesis by metis
qed

declare utxo.simps [simp del] view_ok.simps [simp del] best.simps [simp del]

end
