(* ===== verification/Undo.thy ===== *)
theory Undo
  imports Coins_Refine
begin

text \<open>
  \<open>UpdateCoins\<close>, \<open>ApplyTxInUndo\<close> and the coins part of \<open>DisconnectBlock\<close> of \<open>validation.cpp\<close>: spending
  the inputs and adding the outputs of a block's transactions with undo records, and taking them back.
  The hash function and \<open>MAX_OUTPUTS_PER_BLOCK\<close> are parameters; so are the undo records that
  \<open>UndoReadFromDisk\<close> reads, \<open>None\<close> when it fails.  The contract state roots and the optional indexes
  that \<open>DisconnectBlock\<close> also resets are not part of the coin views.
\<close>

section \<open>Connecting\<close>

fun spend_inputs :: "CTxIn list \<Rightarrow> cache_state \<Rightarrow> coins_error + Coin list \<times> cache_state" where
  "spend_inputs [] inputs = Inr ([], inputs)"
| "spend_inputs (txin # ins) inputs =
     (case SpendCoin inputs (prevout txin) of
        (None, inputs) \<Rightarrow> Inl CoinsAssert
      | (Some coin, inputs) \<Rightarrow> bindE (spend_inputs ins inputs) (\<lambda>(vprevout, inputs). Inr (coin # vprevout, inputs)))"

definition UpdateCoins :: "(byte list \<Rightarrow> uint256) \<Rightarrow> CTransaction \<Rightarrow> cache_state \<Rightarrow> int \<Rightarrow> coins_error + Coin list \<times> cache_state" where
  "UpdateCoins H tx inputs height =
     bindE (if \<not> IsCoinBase tx then spend_inputs (vin tx) inputs else Inr ([], inputs)) (\<lambda>(vprevout, inputs).
     bindE (AddCoins H inputs tx height False) (\<lambda>inputs.
     Inr (vprevout, inputs)))"

text \<open>The coin updates of \<open>ConnectBlock\<close>, in block order; the first transaction has no undo record.\<close>

fun connect_updates :: "(byte list \<Rightarrow> uint256) \<Rightarrow> int \<Rightarrow> nat \<Rightarrow> CTransaction list \<Rightarrow> cache_state \<Rightarrow>
    coins_error + Coin list list \<times> cache_state" where
  "connect_updates H height i [] view = Inr ([], view)"
| "connect_updates H height i (tx # txs) view =
     bindE (UpdateCoins H tx view height) (\<lambda>(undo, view).
     bindE (connect_updates H height (i + 1) txs view) (\<lambda>(vtxundo, view).
     Inr (if i > 0 then undo # vtxundo else vtxundo, view)))"

section \<open>Disconnecting\<close>

datatype DisconnectResult = DISCONNECT_OK | DISCONNECT_UNCLEAN | DISCONNECT_FAILED

definition ApplyTxInUndo :: "nat \<Rightarrow> Coin \<Rightarrow> cache_state \<Rightarrow> COutPoint \<Rightarrow> coins_error + DisconnectResult \<times> cache_state" where
  "ApplyTxInUndo max_outputs undo view out =
     (case HaveCoin view out of
        (have, view) \<Rightarrow>
          let fClean = (\<not> have) in
          case (if coin_nHeight undo = 0 then
                  (case AccessByTxid max_outputs view (op_hash out) of
                     (alternate, view) \<Rightarrow>
                       (if \<not> IsSpent alternate
                        then Some (undo\<lparr>coin_nHeight := coin_nHeight alternate, fCoinBase := fCoinBase alternate\<rparr>)
                        else None, view))
                else (Some undo, view)) of
            (None, view) \<Rightarrow> Inr (DISCONNECT_FAILED, view)
          | (Some undo, view) \<Rightarrow>
              bindE (AddCoin view out undo (\<not> fClean)) (\<lambda>view.
              Inr (if fClean then DISCONNECT_OK else DISCONNECT_UNCLEAN, view)))"

fun spend_outputs :: "uint256 \<Rightarrow> int \<Rightarrow> bool \<Rightarrow> bool \<Rightarrow> nat \<Rightarrow> CTxOut list \<Rightarrow> bool \<Rightarrow> cache_state \<Rightarrow> bool \<times> cache_state" where
  "spend_outputs hash height is_coinbase is_coinstake n [] fClean view = (fClean, view)"
| "spend_outputs hash height is_coinbase is_coinstake n (out # outs) fClean view =
     (if \<not> IsUnspendable (scriptPubKey out) then
        (case SpendCoin view \<lparr>op_hash = hash, op_n = of_nat n\<rparr> of
           (moveout, view) \<Rightarrow>
             let is_spent = (moveout \<noteq> None);
                 coin = (case moveout of None \<Rightarrow> coinEmpty | Some c \<Rightarrow> c);
                 mismatch = (\<not> is_spent \<or> out \<noteq> coin_out coin \<or> height \<noteq> int (coin_nHeight coin) \<or>
                   is_coinbase \<noteq> fCoinBase coin \<or> is_coinstake \<noteq> fCoinStake coin) in
             spend_outputs hash height is_coinbase is_coinstake (n + 1) outs (if mismatch then False else fClean) view)
      else spend_outputs hash height is_coinbase is_coinstake (n + 1) outs fClean view)"

text \<open>The inputs from the last to the first; \<open>None\<close>: \<open>DISCONNECT_FAILED\<close> was returned.\<close>

fun restore_inputs :: "nat \<Rightarrow> (COutPoint \<times> Coin) list \<Rightarrow> bool \<Rightarrow> cache_state \<Rightarrow> coins_error + bool option \<times> cache_state" where
  "restore_inputs max_outputs [] fClean view = Inr (Some fClean, view)"
| "restore_inputs max_outputs ((out, undo) # ps) fClean view =
     bindE (ApplyTxInUndo max_outputs undo view out) (\<lambda>(res, view).
     if res = DISCONNECT_FAILED then Inr (None, view)
     else restore_inputs max_outputs ps (fClean \<and> res \<noteq> DISCONNECT_UNCLEAN) view)"

text \<open>Transactions \<open>i - 1\<close> down to \<open>0\<close>.\<close>

fun disconnect_loop :: "(byte list \<Rightarrow> uint256) \<Rightarrow> nat \<Rightarrow> int \<Rightarrow> CTransaction list \<Rightarrow> Coin list list \<Rightarrow> nat \<Rightarrow> bool \<Rightarrow> cache_state \<Rightarrow>
    coins_error + bool option \<times> cache_state" where
  "disconnect_loop H max_outputs height vtx vtxundo 0 fClean view = Inr (Some fClean, view)"
| "disconnect_loop H max_outputs height vtx vtxundo (Suc i) fClean view =
     (let tx = vtx ! i in
      case spend_outputs (ComputeHash H tx) height (IsCoinBase tx) (IsCoinStake tx) 0 (vout tx) fClean view of
        (fClean, view) \<Rightarrow>
          if i > 0 then
            (let vprevout = vtxundo ! (i - 1) in
             if length vprevout \<noteq> length (vin tx) then Inr (None, view)
             else
               bindE (restore_inputs max_outputs (rev (zip (map prevout (vin tx)) vprevout)) fClean view) (\<lambda>(r, view).
               case r of
                 None \<Rightarrow> Inr (None, view)
               | Some fClean \<Rightarrow> disconnect_loop H max_outputs height vtx vtxundo i fClean view))
          else disconnect_loop H max_outputs height vtx vtxundo i fClean view)"

text \<open>\<open>blockHash\<close> and \<open>prevHash\<close> are the hashes of \<open>pindex\<close> and \<open>pindex->pprev\<close>.\<close>

definition DisconnectBlock :: "(byte list \<Rightarrow> uint256) \<Rightarrow> nat \<Rightarrow> uint256 \<Rightarrow> uint256 \<Rightarrow> int \<Rightarrow> CTransaction list \<Rightarrow>
    Coin list list option \<Rightarrow> cache_state \<Rightarrow> coins_error + DisconnectResult \<times> cache_state" where
  "DisconnectBlock H max_outputs blockHash prevHash height vtx blockUndo view =
     (case cache_GetBestBlock view of
        (bestBlock, view) \<Rightarrow>
          bindE (guardE (blockHash = bestBlock) CoinsAssert) (\<lambda>_.
          case blockUndo of
            None \<Rightarrow> Inr (DISCONNECT_FAILED, view)
          | Some vtxundo \<Rightarrow>
              if length vtxundo + 1 \<noteq> length vtx then Inr (DISCONNECT_FAILED, view)
              else
                bindE (disconnect_loop H max_outputs height vtx vtxundo (length vtx) True view) (\<lambda>(r, view).
                case r of
                  None \<Rightarrow> Inr (DISCONNECT_FAILED, view)
                | Some fClean \<Rightarrow>
                    Inr (if fClean then DISCONNECT_OK else DISCONNECT_UNCLEAN, SetBestBlock prevHash view))))"

section \<open>The effect on the map of unspent coins\<close>

fun outputs_from :: "uint256 \<Rightarrow> int \<Rightarrow> bool \<Rightarrow> bool \<Rightarrow> nat \<Rightarrow> CTxOut list \<Rightarrow> (COutPoint \<times> Coin) list" where
  "outputs_from txid height cb cs n [] = []"
| "outputs_from txid height cb cs n (out # outs) =
     (if IsUnspendable (scriptPubKey out) then [] else [(\<lparr>op_hash = txid, op_n = of_nat n\<rparr>, Coin_of out height cb cs)]) @
     outputs_from txid height cb cs (n + 1) outs"

definition tx_outputs :: "(byte list \<Rightarrow> uint256) \<Rightarrow> int \<Rightarrow> CTransaction \<Rightarrow> (COutPoint \<times> Coin) list" where
  "tx_outputs H height tx = outputs_from (ComputeHash H tx) height (IsCoinBase tx) (IsCoinStake tx) 0 (vout tx)"

definition tx_prevouts :: "CTransaction \<Rightarrow> COutPoint list" where
  "tx_prevouts tx = (if IsCoinBase tx then [] else map prevout (vin tx))"

definition apply_tx :: "(byte list \<Rightarrow> uint256) \<Rightarrow> int \<Rightarrow> CTransaction \<Rightarrow> (COutPoint \<rightharpoonup> Coin) \<Rightarrow> (COutPoint \<rightharpoonup> Coin)" where
  "apply_tx H height tx m = (m |` (- set (tx_prevouts tx))) ++ map_of (tx_outputs H height tx)"

definition tx_undo :: "(COutPoint \<rightharpoonup> Coin) \<Rightarrow> CTransaction \<Rightarrow> Coin list" where
  "tx_undo m tx = map (the \<circ> m) (tx_prevouts tx)"

text \<open>What \<open>ConnectBlock\<close> has checked of a transaction: its inputs are unspent and distinct, its outputs
  have values and are new.\<close>

definition tx_fits :: "(byte list \<Rightarrow> uint256) \<Rightarrow> int \<Rightarrow> bool \<Rightarrow> CTransaction \<Rightarrow> (COutPoint \<rightharpoonup> Coin) \<Rightarrow> bool" where
  "tx_fits H height first tx m \<longleftrightarrow> IsCoinBase tx = first \<and> distinct (tx_prevouts tx) \<and> set (tx_prevouts tx) \<subseteq> dom m \<and>
     length (vout tx) \<le> 2 ^ 32 \<and> (\<forall>out\<in>set (vout tx). \<not> CTxOut_IsNull out) \<and>
     (\<forall>p\<in>fst ` set (tx_outputs H height tx). p \<notin> dom m \<or> p \<in> set (tx_prevouts tx))"

definition state_at :: "(byte list \<Rightarrow> uint256) \<Rightarrow> int \<Rightarrow> CTransaction list \<Rightarrow> (COutPoint \<rightharpoonup> Coin) \<Rightarrow> nat \<Rightarrow> (COutPoint \<rightharpoonup> Coin)" where
  "state_at H height vtx m k = fold (apply_tx H height) (take k vtx) m"

definition block_fits :: "(byte list \<Rightarrow> uint256) \<Rightarrow> int \<Rightarrow> nat \<Rightarrow> CTransaction list \<Rightarrow> (COutPoint \<rightharpoonup> Coin) \<Rightarrow> bool" where
  "block_fits H height i vtx m \<longleftrightarrow> (\<forall>k<length vtx. tx_fits H height (i + k = 0) (vtx ! k) (state_at H height vtx m k))"

definition restorable :: "(COutPoint \<rightharpoonup> Coin) \<Rightarrow> bool" where
  "restorable m \<longleftrightarrow> (\<forall>p c. m p = Some c \<longrightarrow> \<not> IsSpent c \<and> \<not> IsUnspendable (scriptPubKey (coin_out c)) \<and> coin_nHeight c \<noteq> 0)"

lemma outputs_from_keys:
  "n + length outs \<le> 2 ^ 32 \<Longrightarrow> (p, c) \<in> set (outputs_from txid h cb cs n outs) \<Longrightarrow> n \<le> unat (op_n p)"
proof (induction outs arbitrary: n)
  case Nil
  then show ?case by simp
next
  case (Cons out outs)
  show ?case
  proof (cases "(p, c) \<in> set (outputs_from txid h cb cs (n + 1) outs)")
    case True
    then show ?thesis using Cons.IH [of "n + 1"] Cons.prems(1) by simp
  next
    case False
    then show ?thesis using Cons.prems by (auto simp: unat_of_nat split: if_splits)
  qed
qed

lemma outputs_from_fresh:
  assumes "n + length (out # outs) \<le> 2 ^ 32"
  shows "map_of (outputs_from txid h cb cs (n + 1) outs) \<lparr>op_hash = txid, op_n = of_nat n\<rparr> = None"
proof -
  have "n + 1 \<le> unat (of_nat n :: u32)" if "(\<lparr>op_hash = txid, op_n = of_nat n\<rparr>, c) \<in> set (outputs_from txid h cb cs (n + 1) outs)" for c
    using outputs_from_keys [OF _ that] assms by simp
  moreover have "unat (of_nat n :: u32) = n" using assms by (simp add: unat_of_nat)
  ultimately show ?thesis by (force simp: map_of_eq_None_iff)
qed

lemma Coin_of_unspent [simp]: "IsSpent (Coin_of out h cb cs) = CTxOut_IsNull out" "coin_out (Coin_of out h cb cs) = out"
  by (simp_all add: Coin_of_def IsSpent_def)

text \<open>Two states of a cache with the same best block, the second with the coins \<open>m\<close>.\<close>

definition changed_to :: "cache_state \<Rightarrow> (COutPoint \<rightharpoonup> Coin) \<Rightarrow> cache_state \<Rightarrow> bool" where
  "changed_to cv m cv' \<longleftrightarrow> view_ok (as_view cv') \<and> utxo (as_view cv') = m \<and>
     best (as_view cv') = best (as_view cv) \<and> cache_hashBlock (fst cv') = cache_hashBlock (fst cv)"

lemma changed_to_trans: "changed_to cv m cv1 \<Longrightarrow> changed_to cv1 m' cv2 \<Longrightarrow> changed_to cv m' cv2"
  by (simp add: changed_to_def)

lemma changed_to_refl: "view_ok (as_view cv) \<Longrightarrow> changed_to cv (utxo (as_view cv)) cv"
  by (simp add: changed_to_def)

lemma SpendCoin_changed:
  assumes "view_ok (as_view cv)" "utxo (as_view cv) p = Some c"
  obtains cv' where "SpendCoin cv p = (Some c, cv')" "changed_to cv ((utxo (as_view cv))(p := None)) cv'"
proof -
  obtain r cv' where r: "SpendCoin cv p = (r, cv')" by (rule prod.exhaust)
  note spend = SpendCoin_ok [OF assms(1) r]
  have "r = Some c" using spend(1) assms(2) by (auto simp: bind_eq_Some_conv)
  then show ?thesis using that r spend by (simp add: changed_to_def)
qed

lemma AddCoin_changed:
  assumes "view_ok (as_view cv)" "\<not> IsSpent coin" "ow \<or> utxo (as_view cv) p = None" "\<not> IsUnspendable (scriptPubKey (coin_out coin))"
  obtains cv' where "AddCoin cv p coin ow = Inr cv'" "changed_to cv ((utxo (as_view cv))(p \<mapsto> coin)) cv'"
  using AddCoin_ok [OF assms(1-3)] assms(4) unfolding changed_to_def by metis

lemma AddCoins_loop_ok:
  assumes "view_ok (as_view cv)" "n + length outs \<le> 2 ^ 32" "\<forall>out\<in>set outs. \<not> CTxOut_IsNull out"
    "\<forall>p\<in>fst ` set (outputs_from txid h cb cs n outs). utxo (as_view cv) p = None"
  shows "\<exists>cv'. AddCoins_loop txid h cb cs False n outs cv = Inr cv' \<and>
    changed_to cv (utxo (as_view cv) ++ map_of (outputs_from txid h cb cs n outs)) cv'"
  using assms
proof (induction outs arbitrary: n cv)
  case Nil
  then show ?case by (simp add: changed_to_refl)
next
  case (Cons out outs)
  show ?case
  proof (cases "IsUnspendable (scriptPubKey out)")
    case True
    then show ?thesis using Cons.IH [of cv "n + 1"] Cons.prems by (simp add: AddCoin_def)
  next
    case False
    let ?p = "\<lparr>op_hash = txid, op_n = of_nat n\<rparr> :: COutPoint" and ?c = "Coin_of out h cb cs"
    let ?rest = "outputs_from txid h cb cs (n + 1) outs"
    have fresh: "map_of ?rest ?p = None" using outputs_from_fresh Cons.prems(2) by blast
    obtain cv1 where cv1: "AddCoin cv ?p ?c cb = Inr cv1" "changed_to cv ((utxo (as_view cv))(?p \<mapsto> ?c)) cv1"
      using AddCoin_changed [OF Cons.prems(1), of ?c cb ?p] Cons.prems(3,4) False by auto
    then have u1: "view_ok (as_view cv1)" "utxo (as_view cv1) = (utxo (as_view cv))(?p \<mapsto> ?c)" by (simp_all add: changed_to_def)
    have "\<forall>p\<in>fst ` set ?rest. utxo (as_view cv1) p = None"
    proof
      fix p assume p: "p \<in> fst ` set ?rest"
      then have "p \<noteq> ?p" using fresh by (metis map_of_eq_None_iff)
      moreover have "utxo (as_view cv) p = None" using p Cons.prems(4) by (auto simp: ball_Un)
      ultimately show "utxo (as_view cv1) p = None" by (simp add: u1(2))
    qed
    then obtain cv' where cv': "AddCoins_loop txid h cb cs False (n + 1) outs cv1 = Inr cv'"
      "changed_to cv1 (utxo (as_view cv1) ++ map_of ?rest) cv'"
      using Cons.IH [of cv1 "n + 1"] Cons.prems u1(1) by auto
    have "(utxo (as_view cv))(?p \<mapsto> ?c) ++ map_of ?rest = utxo (as_view cv) ++ map_of (outputs_from txid h cb cs n (out # outs))"
      using fresh False by (simp add: map_add_upd_left domIff)
    then show ?thesis using cv1 cv' changed_to_trans [OF cv1(2) cv'(2)] u1(2) by simp
  qed
qed

lemma restrict_UNIV: "m |` UNIV = m"
  by (simp add: restrict_map_def)

lemma spend_inputs_ok:
  assumes "view_ok (as_view cv)" "distinct (map prevout ins)" "set (map prevout ins) \<subseteq> dom (utxo (as_view cv))"
  shows "\<exists>cv'. spend_inputs ins cv = Inr (map (the \<circ> utxo (as_view cv)) (map prevout ins), cv') \<and>
    changed_to cv (utxo (as_view cv) |` (- set (map prevout ins))) cv'"
  using assms
proof (induction ins arbitrary: cv)
  case Nil
  then show ?case by (simp add: changed_to_refl)
next
  case (Cons i ins)
  obtain c where c: "utxo (as_view cv) (prevout i) = Some c" using Cons.prems(3) by auto
  obtain cv1 where cv1: "SpendCoin cv (prevout i) = (Some c, cv1)" "changed_to cv ((utxo (as_view cv))(prevout i := None)) cv1"
    using SpendCoin_changed [OF Cons.prems(1) c] by blast
  then have u1: "view_ok (as_view cv1)" "utxo (as_view cv1) = (utxo (as_view cv))(prevout i := None)" by (simp_all add: changed_to_def)
  have notin: "prevout i \<notin> set (map prevout ins)" using Cons.prems(2) by simp
  then have "set (map prevout ins) \<subseteq> dom (utxo (as_view cv1))" using Cons.prems(3) by (simp add: u1(2) subset_Diff_insert)
  then obtain cv' where cv': "spend_inputs ins cv1 = Inr (map (the \<circ> utxo (as_view cv1)) (map prevout ins), cv')"
    "changed_to cv1 (utxo (as_view cv1) |` (- set (map prevout ins))) cv'"
    using Cons.IH [OF u1(1)] Cons.prems(2) by auto
  have "map (the \<circ> utxo (as_view cv1)) (map prevout ins) = map (the \<circ> utxo (as_view cv)) (map prevout ins)"
    using notin by (intro map_cong) (auto simp: u1(2) simp del: set_map)
  moreover have "utxo (as_view cv1) |` (- set (map prevout ins)) = utxo (as_view cv) |` (- set (map prevout (i # ins)))"
    by (auto simp: u1(2) restrict_map_def fun_eq_iff)
  ultimately show ?case using cv1 cv' changed_to_trans [OF cv1(2) cv'(2)] c by simp
qed

lemma UpdateCoins_ok:
  assumes "view_ok (as_view cv)" "tx_fits H h first tx (utxo (as_view cv))"
  shows "\<exists>cv'. UpdateCoins H tx cv h = Inr (tx_undo (utxo (as_view cv)) tx, cv') \<and>
    changed_to cv (apply_tx H h tx (utxo (as_view cv))) cv'"
proof -
  let ?m = "utxo (as_view cv)"
  obtain cv1 where cv1: "(if \<not> IsCoinBase tx then spend_inputs (vin tx) cv else Inr ([], cv)) = Inr (tx_undo ?m tx, cv1)"
    "changed_to cv (?m |` (- set (tx_prevouts tx))) cv1"
    using spend_inputs_ok [OF assms(1), of "vin tx"] assms
    by (cases "IsCoinBase tx") (auto simp: tx_fits_def tx_prevouts_def tx_undo_def changed_to_refl restrict_UNIV)
  then have u1: "view_ok (as_view cv1)" "utxo (as_view cv1) = ?m |` (- set (tx_prevouts tx))" by (simp_all add: changed_to_def)
  have "\<forall>p\<in>fst ` set (tx_outputs H h tx). utxo (as_view cv1) p = None"
    using assms(2) by (auto simp: tx_fits_def u1(2) restrict_map_def domIff)
  then obtain cv2 where cv2: "AddCoins H cv1 tx h False = Inr cv2" "changed_to cv1 (utxo (as_view cv1) ++ map_of (tx_outputs H h tx)) cv2"
    using AddCoins_loop_ok [OF u1(1), of 0 "vout tx" "ComputeHash H tx" h "IsCoinBase tx" "IsCoinStake tx"] assms(2)
    unfolding tx_fits_def AddCoins_def tx_outputs_def by auto
  then show ?thesis
    unfolding UpdateCoins_def cv1(1) using changed_to_trans [OF cv1(2) cv2(2)] u1(2) by (simp add: apply_tx_def)
qed

lemma state_at_Cons: "state_at H h (tx # txs) m (Suc k) = state_at H h txs (apply_tx H h tx m) k"
  "state_at H h vtx m 0 = m"
  by (simp_all add: state_at_def)

lemma state_at_Suc: "k < length vtx \<Longrightarrow> state_at H h vtx m (Suc k) = apply_tx H h (vtx ! k) (state_at H h vtx m k)"
  by (simp add: state_at_def take_Suc_conv_app_nth)

lemma connect_updates_ok:
  assumes "view_ok (as_view cv)" "block_fits H h i vtx (utxo (as_view cv))"
  shows "\<exists>cv'. connect_updates H h i vtx cv =
      Inr (drop (if i > 0 then 0 else 1) (map (\<lambda>k. tx_undo (state_at H h vtx (utxo (as_view cv)) k) (vtx ! k)) [0..<length vtx]), cv') \<and>
    changed_to cv (state_at H h vtx (utxo (as_view cv)) (length vtx)) cv'"
  using assms
proof (induction vtx arbitrary: i cv)
  case Nil
  then show ?case by (simp add: state_at_def changed_to_refl)
next
  case (Cons tx txs)
  let ?m = "utxo (as_view cv)"
  have "tx_fits H h (i = 0) tx ?m" using Cons.prems(2) by (force simp: block_fits_def state_at_def)
  then obtain cv1 where cv1: "UpdateCoins H tx cv h = Inr (tx_undo ?m tx, cv1)" "changed_to cv (apply_tx H h tx ?m) cv1"
    using UpdateCoins_ok [OF Cons.prems(1)] by blast
  then have u1: "view_ok (as_view cv1)" "utxo (as_view cv1) = apply_tx H h tx ?m" by (simp_all add: changed_to_def)
  have "block_fits H h (i + 1) txs (apply_tx H h tx ?m)"
    unfolding block_fits_def
  proof (intro allI impI)
    fix k assume "k < length txs"
    then have "tx_fits H h (i + Suc k = 0) ((tx # txs) ! Suc k) (state_at H h (tx # txs) ?m (Suc k))"
      using Cons.prems(2) unfolding block_fits_def by fastforce
    then show "tx_fits H h (i + 1 + k = 0) (txs ! k) (state_at H h txs (apply_tx H h tx ?m) k)" by (simp add: state_at_Cons)
  qed
  then obtain cv' where cv': "connect_updates H h (i + 1) txs cv1 =
      Inr (map (\<lambda>k. tx_undo (state_at H h txs (apply_tx H h tx ?m) k) (txs ! k)) [0..<length txs], cv')"
    "changed_to cv1 (state_at H h txs (apply_tx H h tx ?m) (length txs)) cv'"
    using Cons.IH [OF u1(1), of "i + 1"] by (auto simp: u1(2))
  have "map (\<lambda>k. tx_undo (state_at H h (tx # txs) ?m k) ((tx # txs) ! k)) [0..<length (tx # txs)] =
      tx_undo ?m tx # map (\<lambda>k. tx_undo (state_at H h txs (apply_tx H h tx ?m) k) (txs ! k)) [0..<length txs]"
    by (simp add: upt_conv_Cons map_Suc_upt [symmetric] state_at_Cons o_def del: upt_Suc)
  then show ?case
    using cv1 cv' changed_to_trans [OF cv1(2) cv'(2)] by (simp add: state_at_Cons del: upt_Suc)
qed

lemma Coin_of_height: "0 \<le> h \<Longrightarrow> h < 2 ^ 30 \<Longrightarrow> int (coin_nHeight (Coin_of out h cb cs)) = h"
  "fCoinBase (Coin_of out h cb cs) = cb" "fCoinStake (Coin_of out h cb cs) = cs"
  by (simp_all add: Coin_of_def)

lemma map_add_Cons: "m ++ map_of ((p, c) # ps) = (m ++ map_of ps)(p \<mapsto> c)"
  by (simp add: map_add_def fun_eq_iff)

lemma spend_outputs_ok:
  assumes "view_ok (as_view cv)" "n + length outs \<le> 2 ^ 32" "0 \<le> h" "h < 2 ^ 30"
    "utxo (as_view cv) = m ++ map_of (outputs_from txid h cb cs n outs)"
    "\<forall>p\<in>fst ` set (outputs_from txid h cb cs n outs). m p = None"
  shows "\<exists>cv'. spend_outputs txid h cb cs n outs fClean cv = (fClean, cv') \<and> changed_to cv m cv'"
  using assms
proof (induction outs arbitrary: n cv)
  case Nil
  then show ?case using changed_to_refl [OF Nil.prems(1)] by simp
next
  case (Cons out outs)
  show ?case
  proof (cases "IsUnspendable (scriptPubKey out)")
    case True
    then show ?thesis using Cons.IH [of cv "n + 1"] Cons.prems by simp
  next
    case False
    let ?p = "\<lparr>op_hash = txid, op_n = of_nat n\<rparr> :: COutPoint" and ?c = "Coin_of out h cb cs"
    let ?rest = "outputs_from txid h cb cs (n + 1) outs"
    have fresh: "map_of ?rest ?p = None" using outputs_from_fresh Cons.prems(2) by blast
    have "outputs_from txid h cb cs n (out # outs) = (?p, ?c) # ?rest" using False by simp
    then have u: "utxo (as_view cv) = (m ++ map_of ?rest)(?p \<mapsto> ?c)" using Cons.prems(5) map_add_Cons by metis
    obtain cv1 where cv1: "SpendCoin cv ?p = (Some ?c, cv1)" "changed_to cv ((utxo (as_view cv))(?p := None)) cv1"
      using SpendCoin_changed [OF Cons.prems(1), of ?p ?c] by (auto simp: u)
    have "m ?p = None" using Cons.prems(6) False by simp
    then have "(utxo (as_view cv))(?p := None) = m ++ map_of ?rest"
      using fresh by (auto simp: u map_add_def fun_eq_iff split: option.split)
    then have u1: "view_ok (as_view cv1)" "utxo (as_view cv1) = m ++ map_of ?rest" using cv1(2) by (simp_all add: changed_to_def)
    have "\<forall>p\<in>fst ` set ?rest. m p = None" using Cons.prems(6) by (auto simp: ball_Un)
    then obtain cv' where cv': "spend_outputs txid h cb cs (n + 1) outs fClean cv1 = (fClean, cv')" "changed_to cv1 m cv'"
      using Cons.IH [of cv1 "n + 1"] Cons.prems u1 by auto
    have "spend_outputs txid h cb cs n (out # outs) fClean cv = (fClean, cv')"
      using cv1(1) cv'(1) False Cons.prems(3,4) by (simp add: Let_def Coin_of_height)
    then show ?thesis using changed_to_trans [OF cv1(2) cv'(2)] by blast
  qed
qed

lemma ApplyTxInUndo_ok:
  assumes "view_ok (as_view cv)" "utxo (as_view cv) p = None"
    "\<not> IsSpent c" "\<not> IsUnspendable (scriptPubKey (coin_out c))" "coin_nHeight c \<noteq> 0"
  shows "\<exists>cv'. ApplyTxInUndo mx c cv p = Inr (DISCONNECT_OK, cv') \<and> changed_to cv ((utxo (as_view cv))(p \<mapsto> c)) cv'"
proof -
  obtain b cv1 where b: "HaveCoin cv p = (b, cv1)" by (rule prod.exhaust)
  note have_coin = HaveCoin_ok [OF assms(1) b]
  then have [simp]: "\<not> b" and u1: "view_ok (as_view cv1)" "changed_to cv (utxo (as_view cv)) cv1" "utxo (as_view cv1) = utxo (as_view cv)"
    using assms(2) by (simp_all add: same_view_def changed_to_def)
  obtain cv2 where cv2: "AddCoin cv1 p c False = Inr cv2" "changed_to cv1 ((utxo (as_view cv1))(p \<mapsto> c)) cv2"
    using AddCoin_changed [OF u1(1) assms(3), of False p] assms(2,4) u1(3) by auto
  then show ?thesis using b assms(5) changed_to_trans [OF u1(2) cv2(2)] u1(3) by (simp add: ApplyTxInUndo_def Let_def)
qed

lemma restore_inputs_ok:
  assumes "view_ok (as_view cv)" "distinct (map fst ps)"
    "\<forall>(p, c)\<in>set ps. utxo (as_view cv) p = None \<and> \<not> IsSpent c \<and> \<not> IsUnspendable (scriptPubKey (coin_out c)) \<and> coin_nHeight c \<noteq> 0"
  shows "\<exists>cv'. restore_inputs mx ps fClean cv = Inr (Some fClean, cv') \<and> changed_to cv (utxo (as_view cv) ++ map_of ps) cv'"
  using assms
proof (induction ps arbitrary: cv)
  case Nil
  then show ?case by (simp add: changed_to_refl)
next
  case (Cons pc ps)
  obtain p c where pc: "pc = (p, c)" by fastforce
  obtain cv1 where cv1: "ApplyTxInUndo mx c cv p = Inr (DISCONNECT_OK, cv1)" "changed_to cv ((utxo (as_view cv))(p \<mapsto> c)) cv1"
    using ApplyTxInUndo_ok [OF Cons.prems(1), of p c mx] Cons.prems(3) by (auto simp: pc)
  then have u1: "view_ok (as_view cv1)" "utxo (as_view cv1) = (utxo (as_view cv))(p \<mapsto> c)" by (simp_all add: changed_to_def)
  have notin: "p \<notin> fst ` set ps" using Cons.prems(2) by (simp add: pc)
  then have "\<forall>(p, c)\<in>set ps. utxo (as_view cv1) p = None \<and> \<not> IsSpent c \<and> \<not> IsUnspendable (scriptPubKey (coin_out c)) \<and> coin_nHeight c \<noteq> 0"
    using Cons.prems(3) by (force simp: u1(2))
  then obtain cv' where cv': "restore_inputs mx ps fClean cv1 = Inr (Some fClean, cv')" "changed_to cv1 (utxo (as_view cv1) ++ map_of ps) cv'"
    using Cons.IH [OF u1(1)] Cons.prems(2) by auto
  have "(utxo (as_view cv))(p \<mapsto> c) ++ map_of ps = utxo (as_view cv) ++ map_of (pc # ps)"
    unfolding pc map_add_Cons using notin by (simp add: map_add_upd_left dom_map_of_conv_image_fst)
  then have "changed_to cv (utxo (as_view cv) ++ map_of (pc # ps)) cv'"
    using changed_to_trans [OF cv1(2) cv'(2)] u1(2) by metis
  moreover have "restore_inputs mx (pc # ps) fClean cv = Inr (Some fClean, cv')" using cv1(1) cv'(1) by (simp add: pc)
  ultimately show ?case by blast
qed

lemma restorable_apply_tx:
  assumes "restorable m" "tx_fits H h first tx m" "0 < h" "h < 2 ^ 30"
  shows "restorable (apply_tx H h tx m)"
proof -
  have "(p, c) \<in> set (outputs_from txid h cb cs n outs) \<Longrightarrow> \<forall>out\<in>set outs. \<not> CTxOut_IsNull out \<Longrightarrow>
      \<not> IsSpent c \<and> \<not> IsUnspendable (scriptPubKey (coin_out c)) \<and> coin_nHeight c \<noteq> 0" for p c txid cb cs n outs
    by (induction outs arbitrary: n) (use assms(3,4) in \<open>auto simp: Coin_of_def IsSpent_def split: if_splits\<close>)
  then have "map_of (tx_outputs H h tx) p = Some c \<Longrightarrow>
      \<not> IsSpent c \<and> \<not> IsUnspendable (scriptPubKey (coin_out c)) \<and> coin_nHeight c \<noteq> 0" for p c
    using assms(2) unfolding tx_outputs_def tx_fits_def by (meson map_of_SomeD)
  then show ?thesis using assms(1) by (auto simp: restorable_def apply_tx_def map_add_Some_iff restrict_map_def split: if_splits)
qed

lemma restorable_state_at:
  assumes "restorable m" "block_fits H h i vtx m" "0 < h" "h < 2 ^ 30"
  shows "k \<le> length vtx \<Longrightarrow> restorable (state_at H h vtx m k)"
proof (induction k)
  case (Suc k)
  have "tx_fits H h (i + k = 0) (vtx ! k) (state_at H h vtx m k)" using Suc.prems assms(2) by (simp add: block_fits_def)
  then show ?case using Suc assms(3,4) restorable_apply_tx by (simp add: state_at_Suc)
qed (simp add: state_at_def assms(1))

lemma disconnect_inputs_ok:
  assumes "view_ok (as_view cv)" "utxo (as_view cv) = m |` (- set (tx_prevouts tx))" "tx_fits H h first tx m" "restorable m"
  shows "\<exists>cv'. restore_inputs mx (rev (zip (tx_prevouts tx) (tx_undo m tx))) fClean cv = Inr (Some fClean, cv') \<and> changed_to cv m cv'"
proof -
  let ?ps = "rev (zip (tx_prevouts tx) (tx_undo m tx))"
  have ps: "?ps = rev (map (\<lambda>p. (p, the (m p))) (tx_prevouts tx))" by (simp add: tx_undo_def zip_map2 zip_same_conv_map)
  have keys: "map fst ?ps = rev (tx_prevouts tx)" by (simp add: ps rev_map [symmetric] o_def)
  have fits: "distinct (tx_prevouts tx)" "set (tx_prevouts tx) \<subseteq> dom m" using assms(3) by (simp_all add: tx_fits_def)
  have mem: "p \<in> set (tx_prevouts tx) \<and> m p = Some c" if "(p, c) \<in> set ?ps" for p c
    using that fits(2) by (auto simp: ps)
  have dis: "distinct (map fst ?ps)" unfolding keys using fits(1) by simp
  have "\<forall>(p, c)\<in>set ?ps. utxo (as_view cv) p = None \<and> \<not> IsSpent c \<and> \<not> IsUnspendable (scriptPubKey (coin_out c)) \<and> coin_nHeight c \<noteq> 0"
    using mem assms(2,4) unfolding restorable_def by (fastforce simp del: set_rev)
  then obtain cv' where cv': "restore_inputs mx ?ps fClean cv = Inr (Some fClean, cv')" "changed_to cv (utxo (as_view cv) ++ map_of ?ps) cv'"
    using restore_inputs_ok [OF assms(1) dis] by blast
  have "(m |` (- set (tx_prevouts tx)) ++ map_of ?ps) p = m p" for p
  proof (cases "p \<in> set (tx_prevouts tx)")
    case True
    then have "(p, the (m p)) \<in> set ?ps" by (simp add: ps)
    then have "map_of ?ps p = Some (the (m p))" using dis by simp
    then show ?thesis using True fits(2) by (auto simp: map_add_def)
  next
    case False
    then have "map_of ?ps p = None" by (simp add: map_of_eq_None_iff ps image_image)
    then show ?thesis using False by (simp add: map_add_def restrict_map_def)
  qed
  then show ?thesis using cv' assms(2) by (metis ext)
qed

lemma disconnect_loop_ok:
  assumes "restorable m" "block_fits H h 0 vtx m" "0 < h" "h < 2 ^ 30"
    "vtxundo = drop 1 (map (\<lambda>k. tx_undo (state_at H h vtx m k) (vtx ! k)) [0..<length vtx])"
  shows "i \<le> length vtx \<Longrightarrow> view_ok (as_view cv) \<Longrightarrow> utxo (as_view cv) = state_at H h vtx m i \<Longrightarrow>
    \<exists>cv'. disconnect_loop H mx h vtx vtxundo i fClean cv = Inr (Some fClean, cv') \<and> changed_to cv m cv'"
proof (induction i arbitrary: cv)
  case 0
  then show ?case using changed_to_refl [OF 0(2)] by (simp add: state_at_def)
next
  case (Suc i)
  let ?tx = "vtx ! i" and ?m = "state_at H h vtx m i"
  have fits: "tx_fits H h (i = 0) ?tx ?m" using assms(2) Suc.prems(1) by (simp add: block_fits_def)
  have rest: "restorable ?m" using restorable_state_at [OF assms(1-4)] Suc.prems(1) by simp
  have u: "utxo (as_view cv) = (?m |` (- set (tx_prevouts ?tx))) ++ map_of (tx_outputs H h ?tx)"
    using Suc.prems(1,3) by (simp add: state_at_Suc apply_tx_def)
  have "\<forall>p\<in>fst ` set (tx_outputs H h ?tx). (?m |` (- set (tx_prevouts ?tx))) p = None"
    using fits by (auto simp: tx_fits_def restrict_map_def)
  then obtain cv1 where cv1: "spend_outputs (ComputeHash H ?tx) h (IsCoinBase ?tx) (IsCoinStake ?tx) 0 (vout ?tx) fClean cv = (fClean, cv1)"
      "changed_to cv (?m |` (- set (tx_prevouts ?tx))) cv1"
    using spend_outputs_ok [OF Suc.prems(2), of 0 "vout ?tx" h "?m |` (- set (tx_prevouts ?tx))" "ComputeHash H ?tx"
      "IsCoinBase ?tx" "IsCoinStake ?tx" fClean] fits assms(3,4) u
    unfolding tx_fits_def tx_outputs_def [symmetric] by auto
  then have u1: "view_ok (as_view cv1)" "utxo (as_view cv1) = ?m |` (- set (tx_prevouts ?tx))" by (simp_all add: changed_to_def)
  show ?case
  proof (cases "i = 0")
    case True
    then have "tx_prevouts ?tx = []" using fits by (simp add: tx_fits_def tx_prevouts_def)
    then have "utxo (as_view cv1) = state_at H h vtx m i" using u1(2) by (simp add: restrict_UNIV)
    from Suc.IH [OF _ u1(1) this] show ?thesis using cv1(1) changed_to_trans [OF cv1(2)] Suc.prems(1) True by (auto simp: Let_def)
  next
    case False
    then have undo: "vtxundo ! (i - 1) = tx_undo ?m ?tx" using Suc.prems(1) by (simp add: assms(5) nth_drop)
    have prev: "tx_prevouts ?tx = map prevout (vin ?tx)" using fits False by (simp add: tx_fits_def tx_prevouts_def)
    obtain cv2 where cv2: "restore_inputs mx (rev (zip (map prevout (vin ?tx)) (tx_undo ?m ?tx))) fClean cv1 = Inr (Some fClean, cv2)"
        "changed_to cv1 ?m cv2"
      using disconnect_inputs_ok [OF u1 fits rest] unfolding prev by blast
    then have u2: "view_ok (as_view cv2)" "utxo (as_view cv2) = ?m" by (simp_all add: changed_to_def)
    obtain cv' where cv': "disconnect_loop H mx h vtx vtxundo i fClean cv2 = Inr (Some fClean, cv')" "changed_to cv2 m cv'"
      using Suc.IH [OF _ u2] Suc.prems(1) by auto
    have "length (tx_undo ?m ?tx) = length (vin ?tx)" by (simp add: tx_undo_def prev)
    then have "disconnect_loop H mx h vtx vtxundo (Suc i) fClean cv = Inr (Some fClean, cv')"
      using False cv1(1) cv2(1) cv'(1) by (simp add: Let_def undo [simplified One_nat_def])
    then show ?thesis using changed_to_trans [OF changed_to_trans [OF cv1(2) cv2(2)] cv'(2)] by blast
  qed
qed

text \<open>Disconnecting a block undoes connecting it.  For a block whose transactions passed the checks of
  inputs and outputs, updating the coins with undo records and then disconnecting with these
  records reports a clean disconnection, fails no assertion and gives back the unspent coins and the
  best block from before, whatever the caches held.\<close>

lemma DisconnectBlock_undoes:
  assumes "view_ok (as_view cv)" "restorable (utxo (as_view cv))" "0 < height" "height < 2 ^ 30" "vtx \<noteq> []"
    "block_fits H height 0 vtx (utxo (as_view cv))"
    "\<not> uint256_IsNull blockHash" "\<not> uint256_IsNull prevHash" "best (as_view cv) = prevHash"
  defines "vtxundo \<equiv> drop 1 (map (\<lambda>k. tx_undo (state_at H height vtx (utxo (as_view cv)) k) (vtx ! k)) [0..<length vtx])"
  shows "\<exists>cv1 cv2. connect_updates H height 0 vtx cv = Inr (vtxundo, cv1) \<and>
    DisconnectBlock H max_outputs blockHash prevHash height vtx (Some vtxundo) (SetBestBlock blockHash cv1) = Inr (DISCONNECT_OK, cv2) \<and>
    view_ok (as_view cv2) \<and> utxo (as_view cv2) = utxo (as_view cv) \<and> best (as_view cv2) = best (as_view cv)"
proof -
  let ?m = "utxo (as_view cv)"
  obtain cv1 where cv1: "connect_updates H height 0 vtx cv = Inr (vtxundo, cv1)" "changed_to cv (state_at H height vtx ?m (length vtx)) cv1"
    using connect_updates_ok [OF assms(1,6)] by (auto simp: meta_eq_to_obj_eq [OF vtxundo_def])
  let ?s = "SetBestBlock blockHash cv1"
  have s: "view_ok (as_view ?s)" "utxo (as_view ?s) = state_at H height vtx ?m (length vtx)" "best (as_view ?s) = blockHash"
    using cv1(2) assms(7) by (simp_all add: changed_to_def SetBestBlock_def view_ok.simps utxo_overlay best.simps)
  obtain h s' where h: "cache_GetBestBlock ?s = (h, s')" by (rule prod.exhaust)
  have s': "h = blockHash" "view_ok (as_view s')" "utxo (as_view s') = state_at H height vtx ?m (length vtx)"
    using cache_GetBestBlock_ok [OF s(1) h] s by (simp_all add: same_view_def)
  obtain cv2 where cv2: "disconnect_loop H max_outputs height vtx vtxundo (length vtx) True s' = Inr (Some True, cv2)" "changed_to s' ?m cv2"
    using disconnect_loop_ok [OF assms(2,6,3,4) meta_eq_to_obj_eq [OF vtxundo_def] order_refl s'(2,3)] by blast
  let ?r = "SetBestBlock prevHash cv2"
  have "length vtxundo + 1 = length vtx" using assms(5) by (cases vtx) (simp_all add: meta_eq_to_obj_eq [OF vtxundo_def])
  then have "DisconnectBlock H max_outputs blockHash prevHash height vtx (Some vtxundo) ?s = Inr (DISCONNECT_OK, ?r)"
    using h s'(1) cv2(1) by (simp add: DisconnectBlock_def)
  moreover have "view_ok (as_view ?r)" "utxo (as_view ?r) = ?m" "best (as_view ?r) = best (as_view cv)"
    using cv2(2) assms(8,9) by (simp_all add: changed_to_def SetBestBlock_def view_ok.simps utxo_overlay best.simps)
  ultimately show ?thesis using cv1(1) by blast
qed

definition sample_hash :: "byte list \<Rightarrow> uint256" where
  "sample_hash v = replicate 32 (of_nat (length v))"

definition sample_coinbase :: CTransaction where
  "sample_coinbase = \<lparr>vin = [\<lparr>prevout = COutPoint_SetNull, scriptSig = [1, 1], nSequence = 0, scriptWitness = []\<rparr>],
     vout = [\<lparr>nValue = 5, scriptPubKey = [0x51]\<rparr>], nVersion = 2, nLockTime = 0\<rparr>"

definition sample_spend :: CTransaction where
  "sample_spend = \<lparr>vin = [\<lparr>prevout = \<lparr>op_hash = sample_hash (SerializeTransaction False sample_coinbase), op_n = 0\<rparr>,
       scriptSig = [], nSequence = 0, scriptWitness = []\<rparr>],
     vout = [\<lparr>nValue = 4, scriptPubKey = [0x51]\<rparr>, \<lparr>nValue = 0, scriptPubKey = [0x6a]\<rparr>], nVersion = 2, nLockTime = 0\<rparr>"

lemma sample_block_fits: "block_fits sample_hash 7 0 [sample_coinbase, sample_spend] Map.empty"
proof -
  let ?o = "tx_outputs sample_hash 7 sample_coinbase"
  have keys: "map fst ?o = tx_prevouts sample_spend" by code_simp
  have "dom (apply_tx sample_hash 7 sample_coinbase Map.empty) = set (map fst ?o)"
    by (simp add: apply_tx_def dom_map_of_conv_image_fst)
  then have dom: "dom (apply_tx sample_hash 7 sample_coinbase Map.empty) = set (tx_prevouts sample_spend)" unfolding keys .
  have "IsCoinBase sample_coinbase" "tx_prevouts sample_coinbase = []" "list_all (\<lambda>out. \<not> CTxOut_IsNull out) (vout sample_coinbase)"
    "length (vout sample_coinbase) = 1" by code_simp+
  then have 0: "tx_fits sample_hash 7 True sample_coinbase Map.empty" by (simp add: tx_fits_def list_all_iff)
  have "\<not> IsCoinBase sample_spend" "distinct (tx_prevouts sample_spend)" "list_all (\<lambda>out. \<not> CTxOut_IsNull out) (vout sample_spend)"
    "length (vout sample_spend) = 2" by code_simp+
  then have 1: "tx_fits sample_hash 7 False sample_spend (apply_tx sample_hash 7 sample_coinbase Map.empty)"
    by (simp add: tx_fits_def list_all_iff dom)
  show ?thesis using 0 1 by (simp add: block_fits_def state_at_def less_Suc_eq all_conj_distrib)
qed

end
