(* ===== verification/Standard.thy ===== *)
theory Standard
  imports Script
begin

unbundle bit_operations_syntax

text \<open>
  \<open>script/standard.h\<close> and \<open>script/standard.cpp\<close>: recognising output scripts by templates, contract
  outputs included, and the scripts of destinations; the virtual machine version of
  \<open>silubium/silubiumtransaction.h\<close>; the length rule of public keys of \<open>pubkey.h\<close>.  The hash \<open>Hash160\<close>
  and SHA-256 are parameters.
\<close>

section \<open>Virtual machine versions\<close>

record VersionVM =
  format :: "2 word"
  rootVM :: "6 word"
  vmVersion :: byte
  flagOptions :: u16

text \<open>The packed representation on a little-endian machine.\<close>

definition toRaw :: "VersionVM \<Rightarrow> u32" where
  "toRaw x = ucast (format x) OR push_bit 2 (ucast (rootVM x)) OR push_bit 8 (ucast (vmVersion x)) OR
     push_bit 16 (ucast (flagOptions x))"

definition fromRaw :: "u32 \<Rightarrow> VersionVM" where
  "fromRaw val = \<lparr>format = ucast val, rootVM = ucast (drop_bit 2 val), vmVersion = ucast (drop_bit 8 val),
     flagOptions = ucast (drop_bit 16 val)\<rparr>"

definition GetNoExec :: VersionVM where
  "GetNoExec = \<lparr>format = 0, rootVM = 0, vmVersion = 0, flagOptions = 0\<rparr>"

definition GetEVMDefault :: VersionVM where
  "GetEVMDefault = \<lparr>format = 0, rootVM = 1, vmVersion = 0, flagOptions = 0\<rparr>"

section \<open>Public keys by length\<close>

definition pubkey_GetLen :: "byte \<Rightarrow> nat" where
  "pubkey_GetLen chHeader =
     (if chHeader = 2 \<or> chHeader = 3 then 33
      else if chHeader = 4 \<or> chHeader = 6 \<or> chHeader = 7 then 65 else 0)"

text \<open>\<open>CPubKey(vch).IsValid()\<close>.\<close>

definition pubkey_IsValid :: "valtype \<Rightarrow> bool" where
  "pubkey_IsValid vch \<longleftrightarrow> (let len = (if vch = [] then 0 else pubkey_GetLen (vch ! 0)) in len \<noteq> 0 \<and> len = length vch)"

section \<open>Templates\<close>

datatype txnouttype =
    TX_NONSTANDARD | TX_PUBKEY | TX_PUBKEYHASH | TX_SCRIPTHASH | TX_MULTISIG | TX_NULL_DATA
  | TX_WITNESS_V0_SCRIPTHASH | TX_WITNESS_V0_KEYHASH | TX_WITNESS_UNKNOWN | TX_CREATE | TX_CALL

definition script_of_opcodes :: "opcodetype list \<Rightarrow> CScript" where
  "script_of_opcodes ops = foldl push_opcode [] ops"

text \<open>A multimap ordered by the type.\<close>

definition mTemplates :: "(txnouttype \<times> CScript) list" where
  "mTemplates =
     [(TX_PUBKEY, script_of_opcodes [OP_PUBKEY, OP_CHECKSIG]),
      (TX_PUBKEYHASH, script_of_opcodes [OP_DUP, OP_HASH160, OP_PUBKEYHASH, OP_EQUALVERIFY, OP_CHECKSIG]),
      (TX_MULTISIG, script_of_opcodes [OP_SMALLINTEGER, OP_PUBKEYS, OP_SMALLINTEGER, OP_CHECKMULTISIG]),
      (TX_CREATE, script_of_opcodes [OP_VERSION, OP_GAS_LIMIT, OP_GAS_PRICE, OP_DATA, OP_CREATE]),
      (TX_CALL, script_of_opcodes [OP_VERSION, OP_GAS_LIMIT, OP_GAS_PRICE, OP_DATA, OP_PUBKEYHASH, OP_CALL])]"

definition MAX_BLOCK_GAS_LIMIT_DGP :: u64 where "MAX_BLOCK_GAS_LIMIT_DGP = 1000000000"
definition DEFAULT_BLOCK_GAS_LIMIT_DGP :: u64 where "DEFAULT_BLOCK_GAS_LIMIT_DGP = 40000000"
definition STANDARD_MINIMUM_GAS_LIMIT :: u64 where "STANDARD_MINIMUM_GAS_LIMIT = 10000"
definition STANDARD_MINIMUM_GAS_PRICE :: u64 where "STANDARD_MINIMUM_GAS_PRICE = 1"

text \<open>What one template opcode does: go on, try the next template, or make \<open>Solver\<close> return false.\<close>

datatype match_step = Matched VersionVM "valtype list" | NextTemplate | ReturnFalse

definition match_version :: "opcodetype \<Rightarrow> valtype \<Rightarrow> VersionVM \<Rightarrow> valtype list \<Rightarrow> match_step" where
  "match_version opcode1 vch1 version sols =
     (if opcode1 \<le> OP_PUSHDATA4 then
        (if vch1 = [] \<or> length vch1 > 4 \<or> last vch1 AND 0x80 \<noteq> 0 then ReturnFalse
         else case vch_to_uint64 vch1 of
           Inl _ \<Rightarrow> ReturnFalse
         | Inr val \<Rightarrow>
             let version = fromRaw (ucast val) in
             if \<not> (toRaw version = toRaw GetEVMDefault \<or> toRaw version = toRaw GetNoExec) then ReturnFalse
             else Matched version sols)
      else Matched version sols)"

definition match_gas_limit :: "bool \<Rightarrow> valtype \<Rightarrow> VersionVM \<Rightarrow> valtype list \<Rightarrow> match_step" where
  "match_gas_limit contractConsensus vch1 version sols =
     (case vch_to_uint64 vch1 of
        Inl _ \<Rightarrow> ReturnFalse
      | Inr val \<Rightarrow>
          if contractConsensus then
            (if rootVM version \<noteq> 0 \<and> val < 1 then ReturnFalse
             else if val > MAX_BLOCK_GAS_LIMIT_DGP then ReturnFalse
             else Matched version sols)
          else
            (if rootVM version \<noteq> 0 \<and> val < STANDARD_MINIMUM_GAS_LIMIT then ReturnFalse
             else if val > DEFAULT_BLOCK_GAS_LIMIT_DGP div 2 then ReturnFalse
             else Matched version sols))"

definition match_gas_price :: "bool \<Rightarrow> valtype \<Rightarrow> VersionVM \<Rightarrow> valtype list \<Rightarrow> match_step" where
  "match_gas_price contractConsensus vch1 version sols =
     (case vch_to_uint64 vch1 of
        Inl _ \<Rightarrow> ReturnFalse
      | Inr val \<Rightarrow>
          if contractConsensus then (if rootVM version \<noteq> 0 \<and> val < 1 then ReturnFalse else Matched version sols)
          else (if rootVM version \<noteq> 0 \<and> val < STANDARD_MINIMUM_GAS_PRICE then ReturnFalse else Matched version sols))"

text \<open>The chain of comparisons after \<open>OP_PUBKEYS\<close>.  The guard before \<open>DecodeOP_N\<close> is its assertion
  (\<open>DecodeOP_N_total\<close>).\<close>

definition match_op :: "bool \<Rightarrow> opcodetype \<Rightarrow> valtype \<Rightarrow> opcodetype \<Rightarrow> valtype \<Rightarrow> VersionVM \<Rightarrow> valtype list \<Rightarrow> match_step" where
  "match_op contractConsensus opcode1 vch1 opcode2 vch2 version sols =
     (if opcode2 = OP_PUBKEY then
        (if length vch1 < 33 \<or> length vch1 > 65 then NextTemplate else Matched version (sols @ [vch1]))
      else if opcode2 = OP_PUBKEYHASH then
        (if length vch1 \<noteq> 20 then NextTemplate else Matched version (sols @ [vch1]))
      else if opcode2 = OP_SMALLINTEGER then
        (if opcode1 = OP_0 \<or> (opcode1 \<ge> OP_1 \<and> opcode1 \<le> OP_16)
         then Matched version (sols @ [[of_nat (the (DecodeOP_N opcode1))]]) else NextTemplate)
      else if opcode2 = OP_VERSION then match_version opcode1 vch1 version sols
      else if opcode2 = OP_GAS_LIMIT then match_gas_limit contractConsensus vch1 version sols
      else if opcode2 = OP_GAS_PRICE then match_gas_price contractConsensus vch1 version sols
      else if opcode2 = OP_DATA then
        (if opcode1 \<le> OP_PUSHDATA4 \<and> vch1 = [] then NextTemplate else Matched version sols)
      else if opcode1 \<noteq> opcode2 \<or> vch1 \<noteq> vch2 then NextTemplate
      else Matched version sols)"

text \<open>The loop over public keys.  A failed \<open>GetOp\<close> leaves \<open>OP_INVALIDOPCODE\<close> and no data.\<close>

function match_pubkeys :: "CScript \<Rightarrow> opcodetype \<Rightarrow> valtype \<Rightarrow> valtype list \<Rightarrow> CScript \<times> opcodetype \<times> valtype \<times> valtype list" where
  "match_pubkeys pc1 opcode1 vch1 sols =
     (if length vch1 \<ge> 33 \<and> length vch1 \<le> 65 then
        (case GetScriptOp pc1 of
           Inl pc1 \<Rightarrow> (pc1, OP_INVALIDOPCODE, [], sols @ [vch1])
         | Inr (pc1', opcode1, vch1') \<Rightarrow> match_pubkeys pc1' opcode1 vch1' (sols @ [vch1]))
      else (pc1, opcode1, vch1, sols))"
  by pat_completeness auto
termination
  by (relation "measure (\<lambda>(pc1, _). length pc1)") (auto dest: GetScriptOp_length)

declare match_pubkeys.simps [simp del]

datatype template_result = Found "valtype list" | NoMatch | SolverFalse

text \<open>The comparison of a script with a template.  The additional checks of \<open>TX_MULTISIG\<close> come last.\<close>

function match_template :: "bool \<Rightarrow> CScript \<Rightarrow> CScript \<Rightarrow> VersionVM \<Rightarrow> valtype list \<Rightarrow> template_result" where
  "match_template contractConsensus pc1 pc2 version sols =
     (if pc1 = [] \<and> pc2 = [] then Found sols
      else case GetScriptOp pc1 of
        Inl _ \<Rightarrow> NoMatch
      | Inr (pc1, opcode1, vch1) \<Rightarrow>
          case GetScriptOp pc2 of
            Inl _ \<Rightarrow> NoMatch
          | Inr (pc2', opcode2, vch2) \<Rightarrow>
              if opcode2 = OP_PUBKEYS then
                (case match_pubkeys pc1 opcode1 vch1 sols of
                   (pc1, opcode1, vch1, sols) \<Rightarrow>
                     (case GetScriptOp pc2' of
                        Inl _ \<Rightarrow> NoMatch
                      | Inr (pc2'', opcode2, vch2) \<Rightarrow>
                          (case match_op contractConsensus opcode1 vch1 opcode2 vch2 version sols of
                             Matched version sols \<Rightarrow> match_template contractConsensus pc1 pc2'' version sols
                           | NextTemplate \<Rightarrow> NoMatch
                           | ReturnFalse \<Rightarrow> SolverFalse)))
              else
                (case match_op contractConsensus opcode1 vch1 opcode2 vch2 version sols of
                   Matched version sols \<Rightarrow> match_template contractConsensus pc1 pc2' version sols
                 | NextTemplate \<Rightarrow> NoMatch
                 | ReturnFalse \<Rightarrow> SolverFalse))"
  by pat_completeness auto
termination
  by (relation "measure (\<lambda>(_, _, pc2, _). length pc2)") (auto dest!: GetScriptOp_length)

declare match_template.simps [simp del]

definition multisig_ok :: "valtype list \<Rightarrow> bool" where
  "multisig_ok sols \<longleftrightarrow>
     (let m = unat (hd sols ! 0); n = unat (last sols ! 0) in \<not> (m < 1 \<or> n < 1 \<or> m > n \<or> length sols - 2 \<noteq> n))"

fun scan_templates :: "bool \<Rightarrow> CScript \<Rightarrow> (txnouttype \<times> CScript) list \<Rightarrow> (txnouttype \<times> valtype list) option" where
  "scan_templates contractConsensus script1 [] = None"
| "scan_templates contractConsensus script1 ((ty, script2) # ts) =
     (case match_template contractConsensus script1 script2 (GetNoExec\<lparr>rootVM := 20\<rparr>) [] of
        Found sols \<Rightarrow> if ty = TX_MULTISIG \<and> \<not> multisig_ok sols then None else Some (ty, sols)
      | NoMatch \<Rightarrow> scan_templates contractConsensus script1 ts
      | SolverFalse \<Rightarrow> None)"

text \<open>\<open>None\<close>: the result is false.  The assertion behind \<open>IsWitnessProgram\<close> never fails (\<open>IsWitnessProgram_total\<close>).\<close>

definition Solver :: "CScript \<Rightarrow> bool \<Rightarrow> (txnouttype \<times> valtype list) option" where
  "Solver s contractConsensus =
     (if IsPayToScriptHash s then Some (TX_SCRIPTHASH, [take 20 (drop 2 s)])
      else case the (IsWitnessProgram s) of
        Some (witnessversion, witnessprogram) \<Rightarrow>
          if witnessversion = 0 \<and> length witnessprogram = 20 then Some (TX_WITNESS_V0_KEYHASH, [witnessprogram])
          else if witnessversion = 0 \<and> length witnessprogram = 32 then Some (TX_WITNESS_V0_SCRIPTHASH, [witnessprogram])
          else if witnessversion \<noteq> 0 then Some (TX_WITNESS_UNKNOWN, [[of_nat witnessversion], witnessprogram])
          else None
      | None \<Rightarrow>
          if length s \<ge> 1 \<and> unat (s ! 0) = OP_RETURN \<and> IsPushOnly (drop 1 s) then Some (TX_NULL_DATA, [])
          else scan_templates contractConsensus s mTemplates)"

section \<open>Destinations\<close>

datatype CTxDestination =
    CNoDestination | CKeyID valtype | CScriptID valtype | WitnessV0ScriptHash valtype | WitnessV0KeyHash valtype
  | WitnessUnknown nat valtype

definition ExtractDestination :: "(valtype \<Rightarrow> valtype) \<Rightarrow> CScript \<Rightarrow> CTxDestination option" where
  "ExtractDestination Hash160 s =
     (case Solver s False of
        None \<Rightarrow> None
      | Some (whichType, vSolutions) \<Rightarrow>
          if whichType = TX_PUBKEY then
            (if \<not> pubkey_IsValid (vSolutions ! 0) then None else Some (CKeyID (Hash160 (vSolutions ! 0))))
          else if whichType = TX_PUBKEYHASH then Some (CKeyID (vSolutions ! 0))
          else if whichType = TX_SCRIPTHASH then Some (CScriptID (vSolutions ! 0))
          else if whichType = TX_WITNESS_V0_KEYHASH then Some (WitnessV0KeyHash (vSolutions ! 0))
          else if whichType = TX_WITNESS_V0_SCRIPTHASH then Some (WitnessV0ScriptHash (vSolutions ! 0))
          else if whichType = TX_WITNESS_UNKNOWN then Some (WitnessUnknown (unat (vSolutions ! 0 ! 0)) (vSolutions ! 1))
          else None)"

definition ExtractDestinations :: "(valtype \<Rightarrow> valtype) \<Rightarrow> CScript \<Rightarrow> (txnouttype \<times> CTxDestination list \<times> nat) option" where
  "ExtractDestinations Hash160 s =
     (case Solver s False of
        None \<Rightarrow> None
      | Some (typeRet, vSolutions) \<Rightarrow>
          if typeRet = TX_NULL_DATA then None
          else if typeRet = TX_MULTISIG then
            (let addressRet = map (CKeyID \<circ> Hash160) (filter pubkey_IsValid (butlast (tl vSolutions))) in
             if addressRet = [] then None else Some (typeRet, addressRet, unat (hd vSolutions ! 0)))
          else (case ExtractDestination Hash160 s of None \<Rightarrow> None | Some address \<Rightarrow> Some (typeRet, [address], 1)))"

text \<open>\<open>CScriptVisitor\<close>; \<open>None\<close>: the assertion of \<open>EncodeOP_N\<close> fails.\<close>

fun GetScriptForDestination :: "CTxDestination \<Rightarrow> CScript option" where
  "GetScriptForDestination CNoDestination = Some []"
| "GetScriptForDestination (CKeyID keyID) =
     Some (push_opcode (push_opcode (push_data (push_opcode (push_opcode [] OP_DUP) OP_HASH160) keyID) OP_EQUALVERIFY) OP_CHECKSIG)"
| "GetScriptForDestination (CScriptID scriptID) =
     Some (push_opcode (push_data (push_opcode [] OP_HASH160) scriptID) OP_EQUAL)"
| "GetScriptForDestination (WitnessV0KeyHash i) = Some (push_data (push_opcode [] OP_0) i)"
| "GetScriptForDestination (WitnessV0ScriptHash i) = Some (push_data (push_opcode [] OP_0) i)"
| "GetScriptForDestination (WitnessUnknown v program) =
     (case EncodeOP_N v of None \<Rightarrow> None | Some opc \<Rightarrow> Some (push_data (push_opcode [] opc) program))"

definition GetScriptForRawPubKey :: "valtype \<Rightarrow> CScript" where
  "GetScriptForRawPubKey pubKey = push_opcode (push_data [] pubKey) OP_CHECKSIG"

definition GetScriptForMultisig :: "nat \<Rightarrow> valtype list \<Rightarrow> CScript option" where
  "GetScriptForMultisig nRequired keys =
     (case EncodeOP_N nRequired of
        None \<Rightarrow> None
      | Some m \<Rightarrow>
          (case EncodeOP_N (length keys) of
             None \<Rightarrow> None
           | Some n \<Rightarrow> Some (push_opcode (push_opcode (foldl push_data (push_opcode [] m) keys) n) OP_CHECKMULTISIG)))"

definition GetScriptForWitness :: "(valtype \<Rightarrow> valtype) \<Rightarrow> (valtype \<Rightarrow> valtype) \<Rightarrow> CScript \<Rightarrow> CScript option" where
  "GetScriptForWitness Hash160 SHA256 redeemscript =
     (case Solver redeemscript False of
        Some (TX_PUBKEY, vSolutions) \<Rightarrow> GetScriptForDestination (WitnessV0KeyHash (Hash160 (vSolutions ! 0)))
      | Some (TX_PUBKEYHASH, vSolutions) \<Rightarrow> GetScriptForDestination (WitnessV0KeyHash (vSolutions ! 0))
      | _ \<Rightarrow> GetScriptForDestination (WitnessV0ScriptHash (SHA256 redeemscript)))"

definition IsValidDestination :: "CTxDestination \<Rightarrow> bool" where
  "IsValidDestination dest \<longleftrightarrow> dest \<noteq> CNoDestination"

end
