(* ===== verification/Standard_Solver.thy ===== *)
theory Standard_Solver
  imports Standard "HOL-Library.Sublist"
begin

unbundle bit_operations_syntax

text \<open>
  What \<open>Solver\<close> recognises: the scripts of destinations and of multisignature outputs read back, and
  the contract outputs that consensus accepts.
\<close>

section \<open>Matching a template\<close>

lemma match_template_Nil: "match_template cc [] [] ver sols = Found sols"
  by (simp add: match_template.simps)

lemma match_template_step:
  assumes "GetScriptOp pc1 = Inr (pc1', opcode1, vch1)" "OP_PUSHDATA4 < unat b" "unat b \<noteq> OP_PUBKEYS"
  shows "match_template cc pc1 (b # pc2) ver sols =
    (case match_op cc opcode1 vch1 (unat b) [] ver sols of
       Matched ver sols \<Rightarrow> match_template cc pc1' pc2 ver sols | NextTemplate \<Rightarrow> NoMatch | ReturnFalse \<Rightarrow> SolverFalse)"
  using assms by (subst match_template.simps) (simp add: GetScriptOp_plain)

lemma match_template_pubkeys:
  assumes "GetScriptOp pc1 = Inr (pc1', opcode1, vch1)" "OP_PUSHDATA4 < unat b" "unat b' = OP_PUBKEYS"
    "match_pubkeys pc1' opcode1 vch1 sols = (pc1'', opcode1', vch1', sols')"
  shows "match_template cc pc1 (b' # b # pc2) ver sols =
    (case match_op cc opcode1' vch1' (unat b) [] ver sols' of
       Matched ver sols \<Rightarrow> match_template cc pc1'' pc2 ver sols | NextTemplate \<Rightarrow> NoMatch | ReturnFalse \<Rightarrow> SolverFalse)"
  using assms by (subst match_template.simps) (simp add: GetScriptOp_plain)

lemma match_template_end: "match_template cc pc1 [] ver sols = (if pc1 = [] then Found sols else NoMatch)"
  by (subst match_template.simps) (auto split: sum.split prod.split)

lemma match_template_short: "match_template cc [] (b # pc2) ver sols = NoMatch"
  by (subst match_template.simps) simp

lemma templates_bytes:
  "script_of_opcodes [OP_PUBKEY, OP_CHECKSIG] = [0xfe, 0xac]"
  "script_of_opcodes [OP_DUP, OP_HASH160, OP_PUBKEYHASH, OP_EQUALVERIFY, OP_CHECKSIG] = [0x76, 0xa9, 0xfd, 0x88, 0xac]"
  "script_of_opcodes [OP_SMALLINTEGER, OP_PUBKEYS, OP_SMALLINTEGER, OP_CHECKMULTISIG] = [0xfa, 0xfb, 0xfa, 0xae]"
  "script_of_opcodes [OP_VERSION, OP_GAS_LIMIT, OP_GAS_PRICE, OP_DATA, OP_CREATE] = [0xf6, 0xf7, 0xf5, 0xf8, 0xc1]"
  "script_of_opcodes [OP_VERSION, OP_GAS_LIMIT, OP_GAS_PRICE, OP_DATA, OP_PUBKEYHASH, OP_CALL] = [0xf6, 0xf7, 0xf5, 0xf8, 0xfd, 0xc2]"
  by code_simp+

lemmas template_simps = match_template_step match_template_Nil match_template_end match_template_short match_op_def

lemma push_data_short: "length d < OP_PUSHDATA1 \<Longrightarrow> push_data [] d = of_nat (length d) # d"
  by (simp add: push_data_def)

lemma GetScriptOp_short:
  assumes "length d < OP_PUSHDATA1"
  shows "GetScriptOp (of_nat (length d) # d @ rest) = Inr (rest, length d, d)"
  using GetScriptOp_push [of d rest] assms by (simp add: push_data_short push_opcode_of_def)

section \<open>Destinations\<close>

lemma Solver_p2pkh:
  assumes "length h = 20"
  shows "Solver (0x76 # 0xa9 # 0x14 # h @ [0x88, 0xac]) cc = Some (TX_PUBKEYHASH, [h])"
proof -
  let ?s = "0x76 # 0xa9 # 0x14 # h @ [0x88, 0xac] :: CScript"
  have op1: "GetScriptOp ?s = Inr (0xa9 # 0x14 # h @ [0x88, 0xac], OP_DUP, [])" by (simp add: GetScriptOp_plain)
  have op2: "GetScriptOp (0xa9 # 0x14 # h @ [0x88, 0xac]) = Inr (0x14 # h @ [0x88, 0xac], OP_HASH160, [])" by (simp add: GetScriptOp_plain)
  have op3: "GetScriptOp (0x14 # h @ [0x88, 0xac]) = Inr ([0x88, 0xac], 20, h)"
    using GetScriptOp_short [of h "[0x88, 0xac]"] assms by simp
  have op45: "GetScriptOp [0x88, 0xac] = Inr ([0xac], OP_EQUALVERIFY, [])" "GetScriptOp [0xac] = Inr ([], OP_CHECKSIG, [])"
    by (simp_all add: GetScriptOp_plain)
  have "scan_templates cc ?s mTemplates = Some (TX_PUBKEYHASH, [h])"
    by (simp add: mTemplates_def templates_bytes template_simps op1 op2 op3 op45 assms)
  moreover have "\<not> IsPayToScriptHash ?s" "IsWitnessProgram ?s = Some None"
    by (simp_all add: IsPayToScriptHash_def IsWitnessProgram_def)
  ultimately show ?thesis by (simp add: Solver_def)
qed

lemma Solver_p2sh: "length h = 20 \<Longrightarrow> Solver (0xa9 # 0x14 # h @ [0x87]) cc = Some (TX_SCRIPTHASH, [h])"
  by (simp add: Solver_def IsPayToScriptHash_def nth_append)

lemma IsWitnessProgram_push:
  assumes "EncodeOP_N v = Some opc" "2 \<le> length p" "length p \<le> 40"
  shows "IsWitnessProgram (of_nat opc # of_nat (length p) # p) = Some (Some (v, p))"
  using assms by (auto simp: IsWitnessProgram_def EncodeOP_N_def DecodeOP_N_def unat_of_nat split: if_splits)

lemma Solver_witness:
  assumes "EncodeOP_N v = Some opc" "2 \<le> length p" "length p \<le> 40"
  shows "Solver (of_nat opc # of_nat (length p) # p) cc =
    (if v = 0 \<and> length p = 20 then Some (TX_WITNESS_V0_KEYHASH, [p])
     else if v = 0 \<and> length p = 32 then Some (TX_WITNESS_V0_SCRIPTHASH, [p])
     else if v \<noteq> 0 then Some (TX_WITNESS_UNKNOWN, [[of_nat v], p]) else None)"
proof -
  have "\<not> IsPayToScriptHash (of_nat opc # of_nat (length p) # p)"
    using assms(1) by (auto simp: IsPayToScriptHash_def EncodeOP_N_def unat_of_nat split: if_splits)
  then show ?thesis by (simp add: Solver_def IsWitnessProgram_push [OF assms])
qed

text \<open>The destinations whose scripts name them.\<close>

fun wf_destination :: "CTxDestination \<Rightarrow> bool" where
  "wf_destination CNoDestination \<longleftrightarrow> False"
| "wf_destination (CKeyID h) \<longleftrightarrow> length h = 20"
| "wf_destination (CScriptID h) \<longleftrightarrow> length h = 20"
| "wf_destination (WitnessV0KeyHash h) \<longleftrightarrow> length h = 20"
| "wf_destination (WitnessV0ScriptHash h) \<longleftrightarrow> length h = 32"
| "wf_destination (WitnessUnknown v p) \<longleftrightarrow> 1 \<le> v \<and> v \<le> 16 \<and> 2 \<le> length p \<and> length p \<le> 40"

lemma ExtractDestination_script:
  assumes "wf_destination dest"
  shows "\<exists>s. GetScriptForDestination dest = Some s \<and> ExtractDestination H s = Some dest"
proof (cases dest)
  case (CKeyID h)
  have "GetScriptForDestination dest = Some (0x76 # 0xa9 # 0x14 # h @ [0x88, 0xac])"
    using assms CKeyID by (simp add: push_opcode_def push_data_def)
  then show ?thesis using assms CKeyID by (simp add: ExtractDestination_def Solver_p2pkh)
next
  case (CScriptID h)
  have "GetScriptForDestination dest = Some (0xa9 # 0x14 # h @ [0x87])"
    using assms CScriptID by (simp add: push_opcode_def push_data_def)
  then show ?thesis using assms CScriptID by (simp add: ExtractDestination_def Solver_p2sh)
next
  case (WitnessV0ScriptHash h)
  have "GetScriptForDestination dest = Some (of_nat OP_0 # of_nat (length h) # h)"
    using assms WitnessV0ScriptHash by (simp add: push_opcode_def push_data_def)
  moreover have "EncodeOP_N 0 = Some OP_0" by (simp add: EncodeOP_N_def)
  ultimately show ?thesis using assms WitnessV0ScriptHash Solver_witness [of 0 OP_0 h False] by (simp add: ExtractDestination_def)
next
  case (WitnessV0KeyHash h)
  have "GetScriptForDestination dest = Some (of_nat OP_0 # of_nat (length h) # h)"
    using assms WitnessV0KeyHash by (simp add: push_opcode_def push_data_def)
  moreover have "EncodeOP_N 0 = Some OP_0" by (simp add: EncodeOP_N_def)
  ultimately show ?thesis using assms WitnessV0KeyHash Solver_witness [of 0 OP_0 h False] by (simp add: ExtractDestination_def)
next
  case (WitnessUnknown v p)
  obtain opc where opc: "EncodeOP_N v = Some opc" using assms WitnessUnknown by (auto simp: EncodeOP_N_def)
  have "GetScriptForDestination dest = Some (of_nat opc # of_nat (length p) # p)"
    using assms WitnessUnknown opc by (simp add: push_opcode_def push_data_def)
  moreover have "unat (of_nat v :: byte) = v" using assms WitnessUnknown by (simp add: unat_of_nat)
  ultimately show ?thesis using assms WitnessUnknown Solver_witness [OF opc] by (auto simp: ExtractDestination_def)
qed (use assms in simp)

section \<open>Multisignature outputs\<close>

lemma match_pubkeys_keys:
  assumes "\<forall>k\<in>set ks. 33 \<le> length k \<and> length k \<le> 65" "OP_PUSHDATA4 < unat b" "33 \<le> length k" "length k \<le> 65"
  shows "match_pubkeys (concat (map (push_data []) ks) @ b # rest) opc k sols = (rest, unat b, [], sols @ k # ks)"
  using assms
proof (induction ks arbitrary: opc k sols)
  case Nil
  then show ?case
    by (subst match_pubkeys.simps) (simp add: GetScriptOp_plain, simp add: match_pubkeys.simps)
next
  case (Cons k' ks)
  have "GetScriptOp (push_data [] k' @ concat (map (push_data []) ks) @ b # rest) =
      Inr (concat (map (push_data []) ks) @ b # rest, push_opcode_of k', k')"
    using Cons.prems(1) by (intro GetScriptOp_push) simp
  then show ?case using Cons by (subst match_pubkeys.simps) simp
qed

lemma foldl_push_data: "foldl push_data s ks = s @ concat (map (push_data []) ks)"
proof (induction ks rule: rev_induct)
  case (snoc k ks)
  then show ?case by (simp add: push_data_append [of "s @ concat (map (push_data []) ks)"])
qed simp

lemma GetScriptForMultisig_bytes:
  assumes "EncodeOP_N m = Some mo" "EncodeOP_N (length keys) = Some no"
  shows "GetScriptForMultisig m keys = Some (of_nat mo # concat (map (push_data []) keys) @ [of_nat no, of_nat OP_CHECKMULTISIG])"
  using assms by (simp add: GetScriptForMultisig_def foldl_push_data push_opcode_def)

lemma EncodeOP_N_opcode:
  assumes "EncodeOP_N n = Some opc" "1 \<le> n"
  shows "unat (of_nat opc :: byte) = opc" "OP_1 \<le> opc" "opc \<le> OP_16" "DecodeOP_N opc = Some n"
  using assms DecodeOP_N_EncodeOP_N [OF assms(1)] by (auto simp: EncodeOP_N_def unat_of_nat split: if_splits)

lemma EncodeOP_N_total: "n \<le> 16 \<Longrightarrow> \<exists>opc. EncodeOP_N n = Some opc"
  by (simp add: EncodeOP_N_def)

lemma Solver_multisig:
  assumes "EncodeOP_N m = Some mo" "EncodeOP_N (length keys) = Some no" "1 \<le> m" "m \<le> length keys"
    "\<forall>k\<in>set keys. 33 \<le> length k \<and> length k \<le> 65"
  shows "Solver (of_nat mo # concat (map (push_data []) keys) @ [of_nat no, of_nat OP_CHECKMULTISIG]) cc =
    Some (TX_MULTISIG, [of_nat m] # keys @ [[of_nat (length keys)]])"
proof -
  obtain k ks where keys: "keys = k # ks" using assms(3,4) by (cases keys) auto
  have n: "1 \<le> length keys" using assms(3,4) by simp
  note mo = EncodeOP_N_opcode [OF assms(1,3)] and no = EncodeOP_N_opcode [OF assms(2) n]
  let ?cs = "concat (map (push_data []) ks) @ [of_nat no, of_nat OP_CHECKMULTISIG]"
  let ?s = "of_nat mo # push_data [] k @ ?cs :: CScript"
  have len: "33 \<le> length k" "length k \<le> 65" using assms(5) keys by auto
  have push_k: "push_data [] k = of_nat (length k) # k" using len by (simp add: push_data_short)
  have op1: "GetScriptOp ?s = Inr (push_data [] k @ ?cs, mo, [])" using mo by (subst GetScriptOp_plain) simp_all
  have op2: "GetScriptOp (push_data [] k @ ?cs) = Inr (?cs, push_opcode_of k, k)" using len by (intro GetScriptOp_push) simp
  have keys_loop: "match_pubkeys ?cs opc k sols = ([of_nat OP_CHECKMULTISIG], no, [], sols @ keys)" for opc sols
    using match_pubkeys_keys [of ks "of_nat no" k "[of_nat OP_CHECKMULTISIG]"] assms(5) len keys no(1,2) by simp
  have op4': "GetScriptOp [174] = Inr ([], 174, [])" by (simp add: GetScriptOp_plain)
  have tpl: "match_template cc ?s [0xfa, 0xfb, 0xfa, 0xae] ver [] = Found ([of_nat m] # keys @ [[of_nat (length keys)]])" for ver
  proof -
    have "match_template cc ?s [0xfa, 0xfb, 0xfa, 0xae] ver [] = match_template cc (push_data [] k @ ?cs) [0xfb, 0xfa, 0xae] ver [[of_nat m]]"
      using match_template_step [OF op1, of "0xfa" cc "[0xfb, 0xfa, 0xae]" ver "[]"] mo(2-4) by (simp add: match_op_def)
    also have "\<dots> = match_template cc [of_nat OP_CHECKMULTISIG] [0xae] ver ([of_nat m] # keys @ [[of_nat (length keys)]])"
      using match_template_pubkeys [OF op2 _ _ keys_loop, of "0xfa" "0xfb" cc "[0xae]" ver "[[of_nat m]]"] no(2-4) by (simp add: match_op_def)
    also have "\<dots> = Found ([of_nat m] # keys @ [[of_nat (length keys)]])" by (simp add: template_simps op4')
    finally show ?thesis .
  qed
  have other: "match_template cc ?s [0xfe, 0xac] ver [] = NoMatch" "match_template cc ?s [0x76, 0xa9, 0xfd, 0x88, 0xac] ver [] = NoMatch" for ver
    using match_template_step [OF op1, of "0xfe" cc "[0xac]" ver "[]"] match_template_step [OF op1, of "0x76" cc "[0xa9, 0xfd, 0x88, 0xac]" ver "[]"] mo
    by (simp_all add: match_op_def)
  have "multisig_ok ([of_nat m] # keys @ [[of_nat (length keys)]])"
    using assms(1-4) by (auto simp: multisig_ok_def EncodeOP_N_def unat_of_nat split: if_splits)
  then have "scan_templates cc ?s mTemplates = Some (TX_MULTISIG, [of_nat m] # keys @ [[of_nat (length keys)]])"
    unfolding mTemplates_def templates_bytes scan_templates.simps other tpl by simp
  moreover have "\<not> IsPayToScriptHash ?s" using mo by (simp add: IsPayToScriptHash_def)
  moreover have "IsWitnessProgram ?s = Some None" using len by (simp add: IsWitnessProgram_def push_k unat_of_nat)
  moreover have "unat (of_nat mo :: byte) \<noteq> OP_RETURN" using mo by simp
  ultimately show ?thesis by (simp add: Solver_def keys)
qed

text \<open>C40: output scripts are read back.  The script of every destination with a hash or program of the
  right size is recognised as that destination, and the script of a multisignature output is
  recognised with its threshold and keys; building them fails no assertion.\<close>

theorem Solver_roundtrip:
  assumes "wf_destination dest" "1 \<le> m" "m \<le> length keys" "length keys \<le> 16"
    "\<forall>k\<in>set keys. 33 \<le> length k \<and> length k \<le> 65"
  shows "(\<exists>s. GetScriptForDestination dest = Some s \<and> ExtractDestination H s = Some dest) \<and>
    (\<exists>s. GetScriptForMultisig m keys = Some s \<and>
      Solver s False = Some (TX_MULTISIG, [of_nat m] # keys @ [[of_nat (length keys)]]))"
proof -
  obtain mo no where mo: "EncodeOP_N m = Some mo" "EncodeOP_N (length keys) = Some no"
    using EncodeOP_N_total [of m] EncodeOP_N_total [of "length keys"] assms(3,4) by auto
  show ?thesis
    using ExtractDestination_script [OF assms(1)] GetScriptForMultisig_bytes [OF mo] Solver_multisig [OF mo assms(2,3,5)] by blast
qed

theorem Solver_roundtrip_witness:
  "ExtractDestination id (0x76 # 0xa9 # 0x14 # replicate 20 7 @ [0x88, 0xac]) = Some (CKeyID (replicate 20 7)) \<and>
   (\<exists>s. GetScriptForMultisig 1 [replicate 33 2, replicate 65 4] = Some s \<and>
      Solver s False = Some (TX_MULTISIG, [[1], replicate 33 2, replicate 65 4, [2]]))"
  using Solver_roundtrip [of "CKeyID (replicate 20 7)" 1 "[replicate 33 2, replicate 65 4]" id]
  by (simp add: push_opcode_def push_data_def)

section \<open>The instructions of a script\<close>

function instructions :: "CScript \<Rightarrow> (opcodetype \<times> valtype) list option" where
  "instructions s =
     (if s = [] then Some []
      else case GetScriptOp s of
        Inl _ \<Rightarrow> None
      | Inr (s', opcode, vch) \<Rightarrow> map_option (Cons (opcode, vch)) (instructions s'))"
  by pat_completeness auto
termination
  by (relation "measure length") (auto dest: GetScriptOp_length)

declare instructions.simps [simp del]

lemma instructions_Nil: "instructions s = Some [] \<longleftrightarrow> s = []"
  by (subst instructions.simps) (auto split: sum.split)

lemma instructions_Cons: "instructions s = Some ((opcode, vch) # is) \<longleftrightarrow> (\<exists>s'. GetScriptOp s = Inr (s', opcode, vch) \<and> instructions s' = Some is)"
  by (subst instructions.simps) (auto split: sum.split)

lemmas instructions_iffs = instructions_Nil instructions_Cons

lemma instruction_suffix: "GetScriptOp s = Inr (s', opcode, vch) \<Longrightarrow> suffix s' s"
  by (auto simp: GetScriptOp_def operand_size_def Let_def bindE_iffs suffix_drop intro: suffix_ConsI suffix_order.trans
      split: list.splits if_splits)

lemma GetScriptOp_plain_iff: "GetScriptOp s = Inr (s', opcode, vch) \<Longrightarrow> OP_PUSHDATA4 < opcode \<Longrightarrow> s = of_nat opcode # s'"
  by (auto simp: GetScriptOp_def Let_def bindE_iffs split: list.splits if_splits)

lemma suffix_last: "suffix s' s \<Longrightarrow> s' \<noteq> [] \<Longrightarrow> s \<noteq> [] \<and> last s = last s'"
  by (auto simp: suffix_def)

lemma instructions_last:
  "instructions s = Some (is @ [(opcode, vch)]) \<Longrightarrow> OP_PUSHDATA4 < opcode \<Longrightarrow> s \<noteq> [] \<and> last s = of_nat opcode"
proof (induction "is" arbitrary: s)
  case Nil
  then show ?case by (auto simp: instructions_iffs dest: GetScriptOp_plain_iff)
next
  case (Cons i "is")
  obtain o1 v1 where i: "i = (o1, v1)" by (cases i)
  obtain s' where s': "GetScriptOp s = Inr (s', o1, v1)" "instructions s' = Some (is @ [(opcode, vch)])"
    using Cons.prems(1) by (auto simp: i instructions_Cons)
  show ?case using suffix_last [OF instruction_suffix [OF s'(1)]] Cons.IH [OF s'(2) Cons.prems(2)] by simp
qed

lemma instructions_witness_program:
  assumes "IsWitnessProgram s = Some (Some wp)"
  shows "\<exists>a b. instructions s = Some [a, b]"
proof -
  have len: "4 \<le> length s" "length s \<le> 42" and ver: "s ! 0 = 0 \<or> 81 \<le> unat (s ! 0) \<and> unat (s ! 0) \<le> 96"
    and sz: "unat (s ! 1) + 2 = length s"
    using assms by (auto simp: IsWitnessProgram_def Let_def split: if_splits option.splits) (simp_all add: word_unat_eq_iff)
  obtain v n d where s: "s = v # n # d" using len(1) by (cases s; cases "tl s") auto
  have n: "unat n = length d" using sz s by simp
  have "n = of_nat (unat n)" by simp
  then have n': "n = of_nat (length d)" unfolding n .
  have "GetScriptOp (n # d) = Inr ([], length d, d)"
    unfolding n' using GetScriptOp_short [of d "[]"] len(2) s by simp
  moreover have "\<exists>o1. GetScriptOp s = Inr (n # d, o1, [])"
    using ver s by (auto simp: GetScriptOp_def operand_size_def Let_def)
  ultimately have "\<exists>o1. instructions s = Some [(o1, []), (length d, d)]" by (auto simp: instructions_iffs)
  then show ?thesis by blast
qed

lemma IsPushOnly_instructions:
  "IsPushOnly s \<Longrightarrow> instructions s = Some is \<Longrightarrow> i \<in> set is \<Longrightarrow> fst i \<le> OP_16"
proof (induction s arbitrary: "is" rule: IsPushOnly.induct)
  case (1 s)
  show ?case
  proof (cases "s = []")
    case True
    then show ?thesis using 1 by (simp add: instructions.simps)
  next
    case False
    then obtain s' opcode vch where g: "GetScriptOp s = Inr (s', opcode, vch)" "opcode \<le> OP_16" "IsPushOnly s'"
      using "1.prems"(1) by (subst (asm) IsPushOnly.simps) (auto split: sum.splits if_splits)
    then obtain is' where "instructions s' = Some is'" "is = (opcode, vch) # is'"
      using "1.prems"(2) False by (subst (asm) instructions.simps) auto
    then show ?thesis using "1.IH" g "1.prems"(3) False by (auto simp: not_le)
  qed
qed

section \<open>Contract outputs\<close>

text \<open>What \<open>Solver\<close> asks of the first four instructions of a contract output.  Only a data push is
  held to a version, of no execution or of the default machine, and to data that are not empty.\<close>

definition no_exec :: "opcodetype \<times> valtype \<Rightarrow> bool" where
  "no_exec version \<longleftrightarrow> fst version \<le> OP_PUSHDATA4 \<and> vch_to_uint64 (snd version) = Inr 0"

text \<open>The limits on gas: consensus asks for some gas below the limit of a block, policy for 10000 and at
  most half of the default block limit; a version that does not execute needs none.\<close>

definition gas_limit_ok :: "bool \<Rightarrow> bool \<Rightarrow> valtype \<Rightarrow> bool" where
  "gas_limit_ok contractConsensus executes gas_limit \<longleftrightarrow>
     (case vch_to_uint64 gas_limit of
        Inl _ \<Rightarrow> False
      | Inr l \<Rightarrow> l \<le> (if contractConsensus then 1000000000 else 20000000) \<and>
          (executes \<longrightarrow> (if contractConsensus then 1 else 10000) \<le> l))"

definition gas_price_ok :: "bool \<Rightarrow> valtype \<Rightarrow> bool" where
  "gas_price_ok executes gas_price \<longleftrightarrow> (case vch_to_uint64 gas_price of Inl _ \<Rightarrow> False | Inr p \<Rightarrow> executes \<longrightarrow> 1 \<le> p)"

definition contract_params_ok ::
  "bool \<Rightarrow> opcodetype \<times> valtype \<Rightarrow> valtype \<Rightarrow> valtype \<Rightarrow> opcodetype \<times> valtype \<Rightarrow> bool" where
  "contract_params_ok contractConsensus version gas_limit gas_price data \<longleftrightarrow>
     (fst version \<le> OP_PUSHDATA4 \<longrightarrow>
        snd version \<noteq> [] \<and> length (snd version) \<le> 4 \<and> vch_to_uint64 (snd version) \<in> {Inr 0, Inr 4}) \<and>
     gas_limit_ok contractConsensus (\<not> no_exec version) gas_limit \<and> gas_price_ok (\<not> no_exec version) gas_price \<and>
     (fst data \<le> OP_PUSHDATA4 \<longrightarrow> snd data \<noteq> [])"

lemma toRaw_fromRaw: "toRaw (fromRaw v) = v"
proof (rule bit_word_eqI)
  fix n assume "n < LENGTH(32)"
  then consider "n < 2" | k where "n = 2 + k" "k < 6" | k where "n = 8 + k" "k < 8" | k where "n = 16 + k" "k < 16"
    by (cases "n < 2"; cases "n < 8"; cases "n < 16") (auto simp: le_iff_add not_less)
  then show "bit (toRaw (fromRaw v)) n = bit v n"
    by cases (auto simp: toRaw_def fromRaw_def bit_simps)
qed

lemma raw_versions: "toRaw GetEVMDefault = 4" "toRaw GetNoExec = 0" "rootVM (fromRaw 4) \<noteq> 0" "rootVM (fromRaw 0) = 0"
  by code_simp+

lemma vch_to_uint64_short:
  assumes "vch_to_uint64 vch = Inr v" "length vch \<le> 4"
  shows "ucast (ucast v :: u32) = v"
proof -
  have "unat v = le_nat vch" using assms by (auto simp: vch_to_uint64_def Let_def unat_or_shift_loop_0 split: if_splits)
  then have "unat v < 256 ^ length vch" using le_nat_bound by simp
  also have "\<dots> \<le> 256 ^ 4" using assms(2) by (intro power_increasing) simp_all
  finally have "unat v < 2 ^ 32" by simp
  then have "unat (ucast (ucast v :: u32) :: u64) = unat v" by (simp add: unat_ucast)
  then show ?thesis by (simp add: word_unat_eq_iff)
qed

lemma match_version_iff:
  assumes "rootVM ver \<noteq> 0"
  shows "match_version opcode vch ver sols = Matched ver' sols' \<longleftrightarrow>
    sols' = sols \<and>
    (if opcode \<le> OP_PUSHDATA4
     then vch \<noteq> [] \<and> length vch \<le> 4 \<and> (vch_to_uint64 vch = Inr 0 \<and> ver' = fromRaw 0 \<or> vch_to_uint64 vch = Inr 4 \<and> ver' = fromRaw 4)
     else ver' = ver)"
proof -
  have "(ucast v :: u32) = 4 \<longleftrightarrow> v = 4" "(ucast v :: u32) = 0 \<longleftrightarrow> v = 0" if "vch_to_uint64 vch = Inr v" "length vch \<le> 4" for v
    using vch_to_uint64_short [OF that] by auto
  moreover have "vch_to_uint64 vch = Inr v \<Longrightarrow> vch \<noteq> [] \<Longrightarrow> last vch AND 0x80 = 0" for v
    by (auto simp: vch_to_uint64_def Let_def split: if_splits)
  ultimately show ?thesis
    by (auto simp: match_version_def toRaw_fromRaw raw_versions Let_def split: sum.split)
qed

lemma u64_one_le: "1 \<le> x \<longleftrightarrow> x \<noteq> 0" for x :: u64
  by (simp flip: word_coorder.not_eq_extremum add: word_le_nat_alt word_unat_eq_iff Suc_le_eq)

lemma match_gas_limit_iff:
  "match_gas_limit cc l ver sols = Matched ver' sols' \<longleftrightarrow> ver' = ver \<and> sols' = sols \<and> gas_limit_ok cc (rootVM ver \<noteq> 0) l"
  by (auto simp: match_gas_limit_def gas_limit_ok_def MAX_BLOCK_GAS_LIMIT_DGP_def DEFAULT_BLOCK_GAS_LIMIT_DGP_def
      STANDARD_MINIMUM_GAS_LIMIT_def not_less not_le u64_one_le split: sum.split)

lemma match_gas_price_iff:
  "match_gas_price cc p ver sols = Matched ver' sols' \<longleftrightarrow> ver' = ver \<and> sols' = sols \<and> gas_price_ok (rootVM ver \<noteq> 0) p"
  by (auto simp: match_gas_price_def gas_price_ok_def STANDARD_MINIMUM_GAS_PRICE_def u64_one_le split: sum.split)

lemmas match_contract_iffs = match_version_iff match_gas_limit_iff match_gas_price_iff

text \<open>The first four opcodes of the two contract templates, whatever follows them.\<close>

lemma match_contract_prefix:
  assumes "GetScriptOp s = Inr (s1, vo, v)" "GetScriptOp s1 = Inr (s2, lo, l)" "GetScriptOp s2 = Inr (s3, po, p)"
    "GetScriptOp s3 = Inr (tail, dto, d)" "contract_params_ok cc (vo, v) l p (dto, d)" "rootVM ver \<noteq> 0"
  shows "\<exists>ver'. match_template cc s (0xf6 # 0xf7 # 0xf5 # 0xf8 # rest) ver [] = match_template cc tail rest ver' []"
proof -
  define ver' where "ver' = (if vo \<le> OP_PUSHDATA4 then if vch_to_uint64 v = Inr 0 then fromRaw 0 else fromRaw 4 else ver)"
  then have ver': "match_version vo v ver [] = Matched ver' []" "rootVM ver' \<noteq> 0 \<longleftrightarrow> \<not> no_exec (vo, v)"
    using assms(5,6) by (auto simp: match_version_iff contract_params_ok_def no_exec_def raw_versions(3,4))
  then have "match_gas_limit cc l ver' [] = Matched ver' []" "match_gas_price cc p ver' [] = Matched ver' []"
    "dto \<le> OP_PUSHDATA4 \<longrightarrow> d \<noteq> []"
    using assms(5) by (simp_all add: match_contract_iffs contract_params_ok_def)
  then have "match_template cc s (0xf6 # 0xf7 # 0xf5 # 0xf8 # rest) ver [] = match_template cc tail rest ver' []"
    using ver' by (auto simp add: match_template_step [OF assms(1)] match_template_step [OF assms(2)] match_template_step [OF assms(3)]
        match_template_step [OF assms(4)] match_op_def)
  then show ?thesis ..
qed

lemma match_template_Found:
  assumes "match_template cc s (b # pc2) ver sols = Found r" "OP_PUSHDATA4 < unat b" "unat b \<noteq> OP_PUBKEYS"
  shows "\<exists>s' opcode vch ver' sols'. GetScriptOp s = Inr (s', opcode, vch) \<and>
    match_op cc opcode vch (unat b) [] ver sols = Matched ver' sols' \<and> match_template cc s' pc2 ver' sols' = Found r"
proof (cases "GetScriptOp s")
  case (Inl x)
  then show ?thesis using assms(1) by (subst (asm) match_template.simps) simp
next
  case (Inr x)
  obtain s' opcode vch where x: "GetScriptOp s = Inr (s', opcode, vch)" using Inr by (cases x) auto
  show ?thesis using assms(1) by (auto simp: match_template_step [OF x assms(2,3)] x split: match_step.splits)
qed

lemma match_contract_needs:
  assumes "match_template cc s (0xf6 # 0xf7 # 0xf5 # 0xf8 # rest) ver [] = Found sols" "rootVM ver \<noteq> 0"
  shows "\<exists>s1 vo v s2 lo l s3 po p tail dto d. GetScriptOp s = Inr (s1, vo, v) \<and> GetScriptOp s1 = Inr (s2, lo, l) \<and>
    GetScriptOp s2 = Inr (s3, po, p) \<and> GetScriptOp s3 = Inr (tail, dto, d) \<and> contract_params_ok cc (vo, v) l p (dto, d)"
proof -
  obtain s1 vo v ver' where g1: "GetScriptOp s = Inr (s1, vo, v)" "match_version vo v ver [] = Matched ver' []"
    "match_template cc s1 (0xf7 # 0xf5 # 0xf8 # rest) ver' [] = Found sols"
    using match_template_Found [OF assms(1)] by (auto simp: match_op_def match_version_iff [OF assms(2)])
  obtain s2 lo l where g2: "GetScriptOp s1 = Inr (s2, lo, l)" "gas_limit_ok cc (rootVM ver' \<noteq> 0) l"
    "match_template cc s2 (0xf5 # 0xf8 # rest) ver' [] = Found sols"
    using match_template_Found [OF g1(3)] by (auto simp: match_op_def match_contract_iffs)
  obtain s3 po p where g3: "GetScriptOp s2 = Inr (s3, po, p)" "gas_price_ok (rootVM ver' \<noteq> 0) p"
    "match_template cc s3 (0xf8 # rest) ver' [] = Found sols"
    using match_template_Found [OF g2(3)] by (auto simp: match_op_def match_contract_iffs)
  obtain tail dto d where g4: "GetScriptOp s3 = Inr (tail, dto, d)" "dto \<le> OP_PUSHDATA4 \<longrightarrow> d \<noteq> []"
    using match_template_Found [OF g3(3)] by (auto simp: match_op_def split: if_splits)
  have "contract_params_ok cc (vo, v) l p (dto, d)"
    using g1(2) g2(2) g3(2) g4(2) assms(2)
    by (auto simp: match_version_iff contract_params_ok_def no_exec_def raw_versions(3,4) split: if_splits)
  then show ?thesis using g1(1) g2(1) g3(1) g4(1) by blast
qed

text \<open>The ends of the two templates.\<close>

lemma match_create_end:
  "match_template cc s [0xc1] ver [] = (if instructions s = Some [(OP_CREATE, [])] then Found [] else NoMatch)"
proof (cases "GetScriptOp s")
  case (Inl x)
  then show ?thesis by (subst match_template.simps) (simp add: instructions_iffs)
next
  case (Inr x)
  obtain s' op v where x: "GetScriptOp s = Inr (s', op, v)" using Inr by (cases x) auto
  show ?thesis using x by (auto simp: match_template_step [OF x] match_op_def match_template_end instructions_iffs)
qed

lemma match_call_end:
  "match_template cc s [0xfd, 0xc2] ver [] = Found sols \<longleftrightarrow>
     (\<exists>op address. instructions s = Some [(op, address), (OP_CALL, [])] \<and> length address = 20 \<and> sols = [address])"
  "match_template cc s [0xfd, 0xc2] ver [] \<noteq> SolverFalse"
proof -
  have last: "match_template cc s [0xc2] ver sols = (if instructions s = Some [(OP_CALL, [])] then Found sols else NoMatch)" for s ver sols
  proof (cases "GetScriptOp s")
    case (Inl x)
    then show ?thesis by (subst match_template.simps) (simp add: instructions_iffs)
  next
    case (Inr x)
    obtain s' op v where x: "GetScriptOp s = Inr (s', op, v)" using Inr by (cases x) auto
    show ?thesis using x by (auto simp: match_template_step [OF x] match_op_def match_template_end instructions_iffs)
  qed
  have "(match_template cc s [0xfd, 0xc2] ver [] = Found sols \<longleftrightarrow>
     (\<exists>op address. instructions s = Some [(op, address), (OP_CALL, [])] \<and> length address = 20 \<and> sols = [address])) \<and>
     match_template cc s [0xfd, 0xc2] ver [] \<noteq> SolverFalse"
  proof (cases "GetScriptOp s")
    case (Inl x)
    then have "match_template cc s [0xfd, 0xc2] ver [] = NoMatch" by (subst match_template.simps) simp
    then show ?thesis using Inl by (simp add: instructions_Cons)
  next
    case (Inr x)
    obtain s' op v where x: "GetScriptOp s = Inr (s', op, v)" using Inr by (cases x) auto
    show ?thesis by (auto simp: match_template_step [OF x] match_op_def last instructions_Cons [of s] x)
  qed
  then show "match_template cc s [0xfd, 0xc2] ver [] = Found sols \<longleftrightarrow>
     (\<exists>op address. instructions s = Some [(op, address), (OP_CALL, [])] \<and> length address = 20 \<and> sols = [address])"
    "match_template cc s [0xfd, 0xc2] ver [] \<noteq> SolverFalse" by simp_all
qed

text \<open>The templates before them match only scripts that end in a signature check, and never make
  \<open>Solver\<close> give up.\<close>

lemma instruction_fail_suffix: "GetScriptOp s = Inl s' \<Longrightarrow> suffix s' s"
  by (auto simp: GetScriptOp_def operand_size_def Let_def bindE_def suffix_drop intro: suffix_ConsI suffix_order.trans
      split: list.splits if_splits sum.splits)

lemma match_pubkeys_suffix: "suffix (fst (match_pubkeys s opcode vch sols)) s"
proof (induction s opcode vch sols rule: match_pubkeys.induct)
  case (1 s opcode vch sols)
  have "suffix (fst (match_pubkeys s' op v (sols @ [vch]))) s" if "GetScriptOp s = Inr (s', op, v)" "33 \<le> length vch" "length vch \<le> 65" for s' op v
    using "1.IH" [of "(s', op, v)" s' "(op, v)" op v] instruction_suffix [OF that(1)] that by (auto intro: suffix_order.trans)
  then show ?case
    by (subst match_pubkeys.simps) (auto split: sum.split dest: instruction_fail_suffix)
qed

definition sig_template :: "CScript \<Rightarrow> bool" where
  "sig_template tmpl \<longleftrightarrow>
     tmpl \<noteq> [] \<and> unat (last tmpl) \<in> {OP_CHECKSIG, OP_CHECKMULTISIG} \<and>
     (\<forall>b\<in>set tmpl. OP_PUSHDATA4 < unat b \<and> unat b \<notin> {OP_VERSION, OP_GAS_LIMIT, OP_GAS_PRICE, OP_PUBKEYS})"

definition sig_match :: "CScript \<Rightarrow> CScript \<Rightarrow> template_result \<Rightarrow> bool" where
  "sig_match s tmpl res \<longleftrightarrow> res = NoMatch \<or> (\<exists>sols. res = Found sols) \<and> s \<noteq> [] \<and> last s = last tmpl"

lemma sig_match_NoMatch [simp]: "sig_match s tmpl NoMatch"
  by (simp add: sig_match_def)

lemma sig_match_suffix: "sig_match s' tmpl res \<Longrightarrow> suffix s' s \<Longrightarrow> sig_match s tmpl res"
  by (auto simp: sig_match_def dest: suffix_last)

lemma match_sig_template: "sig_template tmpl \<Longrightarrow> sig_match s tmpl (match_template cc s tmpl ver sols)"
proof (induction tmpl arbitrary: s ver sols)
  case Nil
  then show ?case by (simp add: sig_template_def)
next
  case (Cons b tmpl)
  show ?case
  proof (cases "GetScriptOp s")
    case (Inl x)
    then show ?thesis by (subst match_template.simps) (simp add: sig_match_def)
  next
    case (Inr x)
    obtain s' opcode vch where x: "GetScriptOp s = Inr (s', opcode, vch)" using Inr by (cases x) auto
    have b: "OP_PUSHDATA4 < unat b" "unat b \<noteq> OP_PUBKEYS" "unat b \<notin> {OP_VERSION, OP_GAS_LIMIT, OP_GAS_PRICE}"
      using Cons.prems by (auto simp: sig_template_def)
    have no: "match_op cc opcode vch (unat b) [] ver sols \<noteq> ReturnFalse" using b(3) by (auto simp: match_op_def)
    show ?thesis
    proof (cases "tmpl = []")
      case True
      then have "unat b \<in> {OP_CHECKSIG, OP_CHECKMULTISIG}" using Cons.prems by (simp add: sig_template_def)
      then have "match_op cc opcode vch (unat b) [] ver sols = Matched ver' sols' \<Longrightarrow> s = b # s'" for ver' sols'
        using GetScriptOp_plain_iff [OF x] b(1) by (auto simp: match_op_def split: if_splits)
      then show ?thesis
        using no True by (auto simp: match_template_step [OF x b(1,2)] match_template_end sig_match_def split: match_step.split)
    next
      case False
      then have "sig_template tmpl" using Cons.prems by (auto simp: sig_template_def)
      then have "sig_match s (b # tmpl) (match_template cc s' tmpl ver' sols')" for ver' sols'
        using sig_match_suffix [OF Cons.IH instruction_suffix [OF x]] False by (simp add: sig_match_def)
      then show ?thesis
        using no by (auto simp: match_template_step [OF x b(1,2)] split: match_step.split)
    qed
  qed
qed

lemma match_multisig_template: "sig_match s [0xae] (match_template cc s [0xfa, 0xfb, 0xfa, 0xae] ver sols)"
proof (cases "GetScriptOp s")
  case (Inl x)
  then show ?thesis by (subst match_template.simps) (simp add: sig_match_def)
next
  case (Inr x)
  obtain s' opcode vch where x: "GetScriptOp s = Inr (s', opcode, vch)" using Inr by (cases x) auto
  have step: "sig_match s' [0xae] (match_template cc s' [0xfb, 0xfa, 0xae] ver' sols')" for ver' sols'
  proof (cases "GetScriptOp s'")
    case (Inl y)
    then show ?thesis by (subst match_template.simps) (simp add: sig_match_def)
  next
    case (Inr y)
    obtain s2 op2 v2 where y: "GetScriptOp s' = Inr (s2, op2, v2)" using Inr by (cases y) auto
    obtain s3 op3 v3 sols3 where p: "match_pubkeys s2 op2 v2 sols' = (s3, op3, v3, sols3)" by (metis prod_cases4)
    have "suffix s3 s'"
      using match_pubkeys_suffix [of s2 op2 v2 sols'] instruction_suffix [OF y] p by (auto intro: suffix_order.trans)
    then have "sig_match s' [0xae] (match_template cc s3 [0xae] ver' sols'')" for ver' sols''
      by (rule sig_match_suffix [rotated]) (simp add: match_sig_template sig_template_def)
    then show ?thesis
      by (auto simp: match_template_pubkeys [OF y _ _ p] match_op_def)
  qed
  show ?thesis
    using sig_match_suffix [OF step instruction_suffix [OF x]]
    by (auto simp: match_template_step [OF x] match_op_def)
qed

lemma Solver_contract_scan:
  assumes "instructions s = Some (a # b # is @ [(opcode, [])])" "opcode = OP_CREATE \<or> opcode = OP_CALL"
  shows "Solver s cc = scan_templates cc s
    [(TX_CREATE, [0xf6, 0xf7, 0xf5, 0xf8, 0xc1]), (TX_CALL, [0xf6, 0xf7, 0xf5, 0xf8, 0xfd, 0xc2])]"
proof -
  have s: "s \<noteq> []" "last s = of_nat opcode" "last s \<in> {0xc1, 0xc2}"
    using instructions_last [of s "a # b # is" opcode "[]"] assms by auto
  have "IsWitnessProgram s = Some None"
    using IsWitnessProgram_total [of s] instructions_witness_program [of s] assms(1) by (cases "the (IsWitnessProgram s)") auto
  moreover have "\<not> IsPayToScriptHash s" using s by (auto simp: IsPayToScriptHash_def last_conv_nth)
  moreover have "\<not> (unat (s ! 0) = OP_RETURN \<and> IsPushOnly (drop 1 s))"
  proof
    assume r: "unat (s ! 0) = OP_RETURN \<and> IsPushOnly (drop 1 s)"
    then have "GetScriptOp s = Inr (drop 1 s, OP_RETURN, [])" using s(1) GetScriptOp_plain [of "hd s" "tl s"]
      by (cases s) simp_all
    then have "instructions (drop 1 s) = Some (b # is @ [(opcode, [])])"
      using assms(1) by (cases a) (auto simp: instructions_Cons)
    then have "opcode \<le> OP_16" using IsPushOnly_instructions [of "drop 1 s" _ "(opcode, [])"] r by auto
    then show False using assms(2) by auto
  qed
  moreover have "match_template cc s [0xfe, 0xac] ver [] = NoMatch" "match_template cc s [0x76, 0xa9, 0xfd, 0x88, 0xac] ver [] = NoMatch"
    "match_template cc s [0xfa, 0xfb, 0xfa, 0xae] ver [] = NoMatch" for ver
    using match_sig_template [of "[0xfe, 0xac]" s cc ver "[]"] match_sig_template [of "[0x76, 0xa9, 0xfd, 0x88, 0xac]" s cc ver "[]"]
      match_multisig_template [of s cc ver "[]"] s(3) by (auto simp: sig_template_def sig_match_def)
  ultimately show ?thesis unfolding Solver_def mTemplates_def templates_bytes by auto
qed

lemma Solver_contract_templates:
  assumes "Solver s cc = Some (ty, sols)" "ty = TX_CREATE \<or> ty = TX_CALL"
  shows "match_template cc s (if ty = TX_CREATE then [0xf6, 0xf7, 0xf5, 0xf8, 0xc1] else [0xf6, 0xf7, 0xf5, 0xf8, 0xfd, 0xc2])
    (GetNoExec\<lparr>rootVM := 20\<rparr>) [] = Found sols"
  using assms by (auto simp: Solver_def mTemplates_def templates_bytes split: if_splits option.splits template_result.splits)

lemma match_create_iff:
  assumes "rootVM ver \<noteq> 0"
  shows "match_template cc s [0xf6, 0xf7, 0xf5, 0xf8, 0xc1] ver [] = Found sols \<longleftrightarrow>
    (\<exists>version lo limit po price data.
       instructions s = Some [version, (lo, limit), (po, price), data, (OP_CREATE, [])] \<and>
       contract_params_ok cc version limit price data \<and> sols = [])" (is "?l \<longleftrightarrow> ?r")
proof
  assume l: ?l
  obtain s1 vo v s2 lo l s3 po p tail dto d where g: "GetScriptOp s = Inr (s1, vo, v)" "GetScriptOp s1 = Inr (s2, lo, l)"
    "GetScriptOp s2 = Inr (s3, po, p)" "GetScriptOp s3 = Inr (tail, dto, d)" "contract_params_ok cc (vo, v) l p (dto, d)"
    using match_contract_needs [OF l assms] by (elim exE conjE) (rule that)
  obtain ver' where "match_template cc tail [0xc1] ver' [] = Found sols"
    using match_contract_prefix [OF g assms, of "[0xc1]"] l by auto
  then have "instructions tail = Some [(OP_CREATE, [])]" "sols = []" by (auto simp: match_create_end split: if_splits)
  then have "instructions s = Some [(vo, v), (lo, l), (po, p), (dto, d), (OP_CREATE, [])]" "sols = []"
    using g(1-4) by (simp_all add: instructions_Cons)
  then show ?r using g(5) by blast
next
  assume ?r
  then obtain vo v lo l po p dto d where i: "instructions s = Some [(vo, v), (lo, l), (po, p), (dto, d), (OP_CREATE, [])]"
    and ok: "contract_params_ok cc (vo, v) l p (dto, d)" "sols = []" by auto
  obtain s1 s2 s3 tail where g: "GetScriptOp s = Inr (s1, vo, v)" "GetScriptOp s1 = Inr (s2, lo, l)"
    "GetScriptOp s2 = Inr (s3, po, p)" "GetScriptOp s3 = Inr (tail, dto, d)" "instructions tail = Some [(OP_CREATE, [])]"
    using i unfolding instructions_Cons [of s] instructions_Cons [of _ lo] instructions_Cons [of _ po] instructions_Cons [of _ dto]
    by (elim exE conjE) (rule that)
  obtain ver' where "match_template cc s [0xf6, 0xf7, 0xf5, 0xf8, 0xc1] ver [] = match_template cc tail [0xc1] ver' []"
    using match_contract_prefix [OF g(1-4) ok(1) assms, of "[0xc1]"] by blast
  then show ?l using g(5) ok(2) by (simp add: match_create_end)
qed

lemma match_call_iff:
  assumes "rootVM ver \<noteq> 0"
  shows "match_template cc s [0xf6, 0xf7, 0xf5, 0xf8, 0xfd, 0xc2] ver [] = Found sols \<longleftrightarrow>
    (\<exists>version lo limit po price data ao address.
       instructions s = Some [version, (lo, limit), (po, price), data, (ao, address), (OP_CALL, [])] \<and>
       contract_params_ok cc version limit price data \<and> length address = 20 \<and> sols = [address])" (is "?l \<longleftrightarrow> ?r")
    "match_template cc s [0xf6, 0xf7, 0xf5, 0xf8, 0xfd, 0xc2] ver [] = Found sols \<Longrightarrow>
     match_template cc s [0xf6, 0xf7, 0xf5, 0xf8, 0xc1] ver [] = NoMatch"
proof -
  have l_r: "?r \<and> match_template cc s [0xf6, 0xf7, 0xf5, 0xf8, 0xc1] ver [] = NoMatch" if l: ?l
  proof -
    obtain s1 vo v s2 lo l s3 po p tail dto d where g: "GetScriptOp s = Inr (s1, vo, v)" "GetScriptOp s1 = Inr (s2, lo, l)"
      "GetScriptOp s2 = Inr (s3, po, p)" "GetScriptOp s3 = Inr (tail, dto, d)" "contract_params_ok cc (vo, v) l p (dto, d)"
      using match_contract_needs [OF l assms] by (elim exE conjE) (rule that)
    obtain ver' where "match_template cc tail [0xfd, 0xc2] ver' [] = Found sols"
      using match_contract_prefix [OF g assms, of "[0xfd, 0xc2]"] l by auto
    then obtain ao address where t: "instructions tail = Some [(ao, address), (OP_CALL, [])]" "length address = 20" "sols = [address]"
      by (auto simp: match_call_end(1))
    then have "instructions s = Some [(vo, v), (lo, l), (po, p), (dto, d), (ao, address), (OP_CALL, [])]"
      using g(1-4) by (simp add: instructions_Cons)
    moreover have "match_template cc s [0xf6, 0xf7, 0xf5, 0xf8, 0xc1] ver [] = NoMatch"
      using match_contract_prefix [OF g assms, of "[0xc1]"] t(1) by (auto simp: match_create_end)
    ultimately show ?thesis using g(5) t by blast
  qed
  have ?l if r: ?r
  proof -
    obtain vo v lo l po p dto d ao address where
      i: "instructions s = Some [(vo, v), (lo, l), (po, p), (dto, d), (ao, address), (OP_CALL, [])]"
      and ok: "contract_params_ok cc (vo, v) l p (dto, d)" "length address = 20" "sols = [address]" using r by auto
    obtain s1 s2 s3 tail where g: "GetScriptOp s = Inr (s1, vo, v)" "GetScriptOp s1 = Inr (s2, lo, l)"
      "GetScriptOp s2 = Inr (s3, po, p)" "GetScriptOp s3 = Inr (tail, dto, d)" "instructions tail = Some [(ao, address), (OP_CALL, [])]"
      using i unfolding instructions_Cons [of s] instructions_Cons [of _ lo] instructions_Cons [of _ po] instructions_Cons [of _ dto]
      by (elim exE conjE) (rule that)
    obtain ver' where "match_template cc s [0xf6, 0xf7, 0xf5, 0xf8, 0xfd, 0xc2] ver [] = match_template cc tail [0xfd, 0xc2] ver' []"
      using match_contract_prefix [OF g(1-4) ok(1) assms, of "[0xfd, 0xc2]"] by blast
    then show ?l using g(5) ok(2,3) match_call_end(1) [of cc tail ver' sols] by auto
  qed
  then show "?l \<longleftrightarrow> ?r" "?l \<Longrightarrow> match_template cc s [0xf6, 0xf7, 0xf5, 0xf8, 0xc1] ver [] = NoMatch"
    using l_r by blast+
qed

text \<open>C39: the contract outputs that are recognised.  A script is recognised as a contract creation
  exactly when its instructions are a version, a gas limit, a gas price, data and \<open>OP_CREATE\<close>, and
  as a contract call exactly when they are these four, a contract address and \<open>OP_CALL\<close>, under the
  same conditions: a version that is a data push is that of no execution or of the default machine,
  data that are a data push are not empty, the gas limit is within the block limit, and a version that
  is not that of no execution has gas at a price.  A version or data given by any other opcode, such
  as a small integer, is held to no condition.\<close>

theorem Solver_contract:
  "(Solver s cc = Some (TX_CREATE, sols) \<longleftrightarrow>
      (\<exists>version lo limit po price data.
         instructions s = Some [version, (lo, limit), (po, price), data, (OP_CREATE, [])] \<and>
         contract_params_ok cc version limit price data \<and> sols = [])) \<and>
   (Solver s cc = Some (TX_CALL, sols) \<longleftrightarrow>
      (\<exists>version lo limit po price data ao address.
         instructions s = Some [version, (lo, limit), (po, price), data, (ao, address), (OP_CALL, [])] \<and>
         contract_params_ok cc version limit price data \<and> length address = 20 \<and> sols = [address]))"
  (is "(?l1 \<longleftrightarrow> ?r1) \<and> (?l2 \<longleftrightarrow> ?r2)")
proof -
  let ?ver = "GetNoExec\<lparr>rootVM := 20\<rparr>"
  have ver: "rootVM ?ver \<noteq> 0" by simp
  note create = match_create_iff [OF ver, of cc s sols] and call = match_call_iff [OF ver, of cc s sols]
  have "?l1 \<Longrightarrow> ?r1" "?l2 \<Longrightarrow> ?r2"
    using Solver_contract_templates [of s cc _ sols] create call(1) by force+
  moreover have ?l1 if r: ?r1
  proof -
    obtain a b c d where "instructions s = Some (a # b # [c, d] @ [(OP_CREATE, [])])" using r by auto
    from Solver_contract_scan [OF this, of cc] show ?l1 using create r by auto
  qed
  moreover have ?l2 if r: ?r2
  proof -
    obtain a b c d e where "instructions s = Some (a # b # [c, d, e] @ [(OP_CALL, [])])" using r by auto
    from Solver_contract_scan [OF this, of cc] show ?l2 using call r by auto
  qed
  ultimately show ?thesis by blast
qed

theorem Solver_contract_witness:
  "Solver [1, 4, 2, 0x10, 0x27, 1, 1, 1, 0x60, 0xc1] True = Some (TX_CREATE, []) \<and>
   Solver [1, 4, 2, 0x10, 0x27, 0, 1, 0x60, 0xc1] True \<noteq> Some (TX_CREATE, []) \<and>
   Solver [0x51, 1, 5, 1, 1, 1, 0x60, 0xc1] True = Some (TX_CREATE, []) \<and>
   Solver [0x60, 1, 5, 1, 1, 0x51, 0xc1] True = Some (TX_CREATE, [])"
proof -
  have "instructions [1, 4, 2, 0x10, 0x27, 1, 1, 1, 0x60, 0xc1] = Some [(1, [4]), (2, [0x10, 0x27]), (1, [1]), (1, [0x60]), (OP_CREATE, [])]"
    "instructions [1, 4, 2, 0x10, 0x27, 0, 1, 0x60, 0xc1] = Some [(1, [4]), (2, [0x10, 0x27]), (0, []), (1, [0x60]), (OP_CREATE, [])]"
    "instructions [0x51, 1, 5, 1, 1, 1, 0x60, 0xc1] = Some [(0x51, []), (1, [5]), (1, [1]), (1, [0x60]), (OP_CREATE, [])]"
    "instructions [0x60, 1, 5, 1, 1, 0x51, 0xc1] = Some [(0x60, []), (1, [5]), (1, [1]), (0x51, []), (OP_CREATE, [])]"
    by code_simp+
  moreover have "contract_params_ok True (1, [4]) [0x10, 0x27] [1] (1, [0x60])" "\<not> contract_params_ok True (1, [4]) [0x10, 0x27] [] (1, [0x60])"
    "contract_params_ok True (0x51, []) [5] [1] (1, [0x60])" "contract_params_ok True (0x60, []) [5] [1] (0x51, [])"
    by code_simp+
  ultimately show ?thesis
    using Solver_contract [of "[1, 4, 2, 0x10, 0x27, 1, 1, 1, 0x60, 0xc1]" True "[]"]
      Solver_contract [of "[1, 4, 2, 0x10, 0x27, 0, 1, 0x60, 0xc1]" True "[]"]
      Solver_contract [of "[0x51, 1, 5, 1, 1, 1, 0x60, 0xc1]" True "[]"] Solver_contract [of "[0x60, 1, 5, 1, 1, 0x51, 0xc1]" True "[]"]
    by auto
qed

end
