(* ===== verification/Tx_Verify.thy ===== *)
theory Tx_Verify
  imports Coins_Refine Standard Script_Verify Chain_Time
begin

unbundle bit_operations_syntax

text \<open>
  \<open>consensus/tx_verify.cpp\<close>: the checks of a transaction on its own and against the coins it spends,
  relative and absolute lock times, and signature operation counts.  The block weight limit
  \<open>dgpMaxBlockWeight\<close>, a global variable, is an argument.
\<close>

section \<open>Lock times\<close>

definition IsFinalTx :: "CTransaction \<Rightarrow> int \<Rightarrow> int \<Rightarrow> bool" where
  "IsFinalTx tx nBlockHeight nBlockTime =
     (if nLockTime tx = 0 then True
      else if uint (nLockTime tx) < (if uint (nLockTime tx) < int LOCKTIME_THRESHOLD then nBlockHeight else nBlockTime) then True
      else list_all (\<lambda>txin. nSequence txin = SEQUENCE_FINAL) (vin tx))"

definition SEQUENCE_LOCKTIME_TYPE_FLAG :: u32 where "SEQUENCE_LOCKTIME_TYPE_FLAG = push_bit 22 1"
definition SEQUENCE_LOCKTIME_MASK :: u32 where "SEQUENCE_LOCKTIME_MASK = 0x0000ffff"
definition SEQUENCE_LOCKTIME_GRANULARITY :: nat where "SEQUENCE_LOCKTIME_GRANULARITY = 9"
definition LOCKTIME_VERIFY_SEQUENCE :: u32 where "LOCKTIME_VERIFY_SEQUENCE = push_bit 0 1"

text \<open>The loop over inputs and heights; it also clears the heights of inputs without a lock.\<close>

fun sequence_locks_loop :: "index_store \<Rightarrow> ptr \<Rightarrow> (CTxIn \<times> int) list \<Rightarrow> int \<Rightarrow> int \<Rightarrow> chain_error + (int \<times> int) \<times> int list" where
  "sequence_locks_loop st block [] nMinHeight nMinTime = Inr ((nMinHeight, nMinTime), [])"
| "sequence_locks_loop st block ((txin, nCoinHeight) # ins) nMinHeight nMinTime =
     (if nSequence txin AND SEQUENCE_LOCKTIME_DISABLE_FLAG \<noteq> 0 then
        bindE (sequence_locks_loop st block ins nMinHeight nMinTime) (\<lambda>(lock, hs). Inr (lock, 0 # hs))
      else
        bindE
          (if nSequence txin AND SEQUENCE_LOCKTIME_TYPE_FLAG \<noteq> 0 then
             bindE (GetAncestor st block (max (nCoinHeight - 1) 0)) (\<lambda>a.
             bindE (case a of None \<Rightarrow> Inl NullDeref | Some q \<Rightarrow> GetMedianTimePast st q) (\<lambda>nCoinTime.
             Inr (nMinHeight, max nMinTime
               (nCoinTime + uint (push_bit SEQUENCE_LOCKTIME_GRANULARITY (nSequence txin AND SEQUENCE_LOCKTIME_MASK)) - 1))))
           else Inr (max nMinHeight (nCoinHeight + uint (nSequence txin AND SEQUENCE_LOCKTIME_MASK) - 1), nMinTime)) (\<lambda>(nMinHeight, nMinTime).
        bindE (sequence_locks_loop st block ins nMinHeight nMinTime) (\<lambda>(lock, hs). Inr (lock, nCoinHeight # hs))))"

definition CalculateSequenceLocks :: "index_store \<Rightarrow> CTransaction \<Rightarrow> u32 \<Rightarrow> int list \<Rightarrow> ptr \<Rightarrow> chain_error + (int \<times> int) \<times> int list" where
  "CalculateSequenceLocks st tx fl prevHeights block =
     bindE (guardE (length prevHeights = length (vin tx)) AssertFail) (\<lambda>_.
     let fEnforceBIP68 = ((of_int (nVersion tx) :: u32) \<ge> 2 \<and> fl AND LOCKTIME_VERIFY_SEQUENCE \<noteq> 0) in
     if \<not> fEnforceBIP68 then Inr ((- 1, - 1), prevHeights)
     else sequence_locks_loop st block (zip (vin tx) prevHeights) (- 1) (- 1))"

definition EvaluateSequenceLocks :: "index_store \<Rightarrow> ptr \<Rightarrow> int \<times> int \<Rightarrow> chain_error + bool" where
  "EvaluateSequenceLocks st block lockPair =
     bindE (deref st block) (\<lambda>b.
     bindE (case pprev b of None \<Rightarrow> Inl AssertFail | Some q \<Rightarrow> GetMedianTimePast st q) (\<lambda>nBlockTime.
     Inr (\<not> (fst lockPair \<ge> int (nHeight b) \<or> snd lockPair \<ge> nBlockTime))))"

definition SequenceLocks :: "index_store \<Rightarrow> CTransaction \<Rightarrow> u32 \<Rightarrow> int list \<Rightarrow> ptr \<Rightarrow> chain_error + bool \<times> int list" where
  "SequenceLocks st tx fl prevHeights block =
     bindE (CalculateSequenceLocks st tx fl prevHeights block) (\<lambda>(lockPair, prevHeights).
     bindE (EvaluateSequenceLocks st block lockPair) (\<lambda>r. Inr (r, prevHeights)))"

section \<open>Results of the checks\<close>

text \<open>\<open>TxReject\<close> is a rejection with its penalty and reason.\<close>

datatype tx_error = TxReject nat string | TxAssert | TxAmount amount_error

definition liftA :: "amount_error + 'a \<Rightarrow> tx_error + 'a" where
  "liftA r = (case r of Inl e \<Rightarrow> Inl (TxAmount e) | Inr x \<Rightarrow> Inr x)"

section \<open>Signature operations\<close>

definition WITNESS_SCALE_FACTOR :: nat where "WITNESS_SCALE_FACTOR = 4"

definition GetLegacySigOpCount :: "CTransaction \<Rightarrow> u32" where
  "GetLegacySigOpCount tx =
     foldl (\<lambda>nSigOps txout. nSigOps + of_nat (GetSigOpCount False (scriptPubKey txout)))
       (foldl (\<lambda>nSigOps txin. nSigOps + of_nat (GetSigOpCount False (scriptSig txin))) 0 (vin tx)) (vout tx)"

fun p2sh_sigops_loop :: "CTxIn list \<Rightarrow> u32 \<Rightarrow> cache_state \<Rightarrow> tx_error + u32 \<times> cache_state" where
  "p2sh_sigops_loop [] nSigOps inputs = Inr (nSigOps, inputs)"
| "p2sh_sigops_loop (txin # ins) nSigOps inputs =
     (case AccessCoin inputs (prevout txin) of
        (coin, inputs) \<Rightarrow>
          bindE (guardE (\<not> IsSpent coin) TxAssert) (\<lambda>_.
          p2sh_sigops_loop ins
            (if IsPayToScriptHash (scriptPubKey (coin_out coin))
             then nSigOps + of_nat (GetSigOpCount_P2SH (scriptPubKey (coin_out coin)) (scriptSig txin)) else nSigOps) inputs))"

definition GetP2SHSigOpCount :: "CTransaction \<Rightarrow> cache_state \<Rightarrow> tx_error + u32 \<times> cache_state" where
  "GetP2SHSigOpCount tx inputs = (if IsCoinBase tx then Inr (0, inputs) else p2sh_sigops_loop (vin tx) 0 inputs)"

fun witness_sigops_loop :: "u32 \<Rightarrow> CTxIn list \<Rightarrow> int \<Rightarrow> cache_state \<Rightarrow> tx_error + int \<times> cache_state" where
  "witness_sigops_loop fl [] nSigOps inputs = Inr (nSigOps, inputs)"
| "witness_sigops_loop fl (txin # ins) nSigOps inputs =
     (case AccessCoin inputs (prevout txin) of
        (coin, inputs) \<Rightarrow>
          bindE (guardE (\<not> IsSpent coin) TxAssert) (\<lambda>_.
          case CountWitnessSigOps (scriptSig txin) (scriptPubKey (coin_out coin)) (scriptWitness txin) fl of
            None \<Rightarrow> Inl TxAssert
          | Some n \<Rightarrow> witness_sigops_loop fl ins (nSigOps + int n) inputs))"

definition GetTransactionSigOpCost :: "CTransaction \<Rightarrow> cache_state \<Rightarrow> u32 \<Rightarrow> tx_error + int \<times> cache_state" where
  "GetTransactionSigOpCost tx inputs fl =
     (let nSigOps = uint (GetLegacySigOpCount tx * of_nat WITNESS_SCALE_FACTOR) in
      if IsCoinBase tx then Inr (nSigOps, inputs)
      else
        bindE (if has_flag fl SCRIPT_VERIFY_P2SH then
                 bindE (GetP2SHSigOpCount tx inputs) (\<lambda>(n, inputs). Inr (nSigOps + uint (n * of_nat WITNESS_SCALE_FACTOR), inputs))
               else Inr (nSigOps, inputs)) (\<lambda>(nSigOps, inputs).
        witness_sigops_loop fl (vin tx) nSigOps inputs))"

section \<open>Checks without context\<close>

definition MAX_TRANSACTION_BASE_SIZE :: nat where "MAX_TRANSACTION_BASE_SIZE = 1000000"

fun check_outputs :: "bool \<Rightarrow> CAmount \<Rightarrow> CTxOut list \<Rightarrow> tx_error + unit" where
  "check_outputs special nValueOut [] = Inr ()"
| "check_outputs special nValueOut (txout # outs) =
     bindE (guardE (\<not> (CTxOut_IsEmpty txout \<and> \<not> special)) (TxReject 100 ''bad-txns-vout-empty'')) (\<lambda>_.
     bindE (guardE (\<not> nValue txout < 0) (TxReject 100 ''bad-txns-vout-negative'')) (\<lambda>_.
     bindE (guardE (\<not> nValue txout > MAX_MONEY) (TxReject 100 ''bad-txns-vout-toolarge'')) (\<lambda>_.
     bindE (liftA (amount_add nValueOut (nValue txout))) (\<lambda>nValueOut.
     bindE (guardE (MoneyRange nValueOut) (TxReject 100 ''bad-txns-txouttotal-toolarge'')) (\<lambda>_.
     bindE (guardE (\<not> ((HasOpCall (scriptPubKey txout) \<or> HasOpCreate (scriptPubKey txout)) \<and>
         Solver (scriptPubKey txout) True = None)) (TxReject 100 ''bad-txns-contract-nonstandard'')) (\<lambda>_.
     check_outputs special nValueOut outs))))))"

fun check_duplicates :: "COutPoint set \<Rightarrow> CTxIn list \<Rightarrow> tx_error + unit" where
  "check_duplicates vInOutPoints [] = Inr ()"
| "check_duplicates vInOutPoints (txin # ins) =
     bindE (guardE (prevout txin \<notin> vInOutPoints) (TxReject 100 ''bad-txns-inputs-duplicate'')) (\<lambda>_.
     check_duplicates (insert (prevout txin) vInOutPoints) ins)"

fun check_null_prevouts :: "CTxIn list \<Rightarrow> tx_error + unit" where
  "check_null_prevouts [] = Inr ()"
| "check_null_prevouts (txin # ins) =
     bindE (guardE (\<not> COutPoint_IsNull (prevout txin)) (TxReject 10 ''bad-txns-prevout-null'')) (\<lambda>_. check_null_prevouts ins)"

definition CheckTransaction :: "nat \<Rightarrow> CTransaction \<Rightarrow> bool \<Rightarrow> tx_error + unit" where
  "CheckTransaction dgpMaxBlockWeight tx fCheckDuplicateInputs =
     bindE (guardE (vin tx \<noteq> []) (TxReject 10 ''bad-txns-vin-empty'')) (\<lambda>_.
     bindE (guardE (vout tx \<noteq> []) (TxReject 10 ''bad-txns-vout-empty'')) (\<lambda>_.
     bindE (guardE (\<not> (length (SerializeTransaction False tx) > MAX_TRANSACTION_BASE_SIZE \<or>
         length (SerializeTransaction False tx) * WITNESS_SCALE_FACTOR > dgpMaxBlockWeight)) (TxReject 100 ''bad-txns-oversize'')) (\<lambda>_.
     bindE (check_outputs (IsCoinBase tx \<or> IsCoinStake tx) 0 (vout tx)) (\<lambda>_.
     bindE (if fCheckDuplicateInputs then check_duplicates {} (vin tx) else Inr ()) (\<lambda>_.
     if IsCoinBase tx then
       guardE (\<not> (length (scriptSig (vin tx ! 0)) < 2 \<or> length (scriptSig (vin tx ! 0)) > 100)) (TxReject 100 ''bad-cb-length'')
     else check_null_prevouts (vin tx))))))"

section \<open>Checks against the coins\<close>

definition COINBASE_MATURITY :: int where "COINBASE_MATURITY = 100"

fun check_inputs_loop :: "int \<Rightarrow> CTxIn list \<Rightarrow> CAmount \<Rightarrow> cache_state \<Rightarrow> tx_error + CAmount \<times> cache_state" where
  "check_inputs_loop nSpendHeight [] nValueIn inputs = Inr (nValueIn, inputs)"
| "check_inputs_loop nSpendHeight (txin # ins) nValueIn inputs =
     (case AccessCoin inputs (prevout txin) of
        (coin, inputs) \<Rightarrow>
          bindE (guardE (\<not> IsSpent coin) TxAssert) (\<lambda>_.
          bindE (guardE (\<not> ((fCoinBase coin \<or> fCoinStake coin) \<and> nSpendHeight - int (coin_nHeight coin) < COINBASE_MATURITY))
            (TxReject 0 ''bad-txns-premature-spend-of-coinbase'')) (\<lambda>_.
          bindE (liftA (amount_add nValueIn (nValue (coin_out coin)))) (\<lambda>nValueIn.
          bindE (guardE (\<not> (\<not> MoneyRange (nValue (coin_out coin)) \<or> \<not> MoneyRange nValueIn))
            (TxReject 100 ''bad-txns-inputvalues-outofrange'')) (\<lambda>_.
          check_inputs_loop nSpendHeight ins nValueIn inputs)))))"

text \<open>The fee is \<open>None\<close> for a coinstake, where \<open>txfee\<close> is left unassigned.\<close>

definition CheckTxInputs :: "CTransaction \<Rightarrow> cache_state \<Rightarrow> int \<Rightarrow> tx_error + CAmount option \<times> cache_state" where
  "CheckTxInputs tx inputs nSpendHeight =
     (case HaveInputs inputs tx of
        (have, inputs) \<Rightarrow>
          bindE (guardE have (TxReject 100 ''bad-txns-inputs-missingorspent'')) (\<lambda>_.
          bindE (check_inputs_loop nSpendHeight (vin tx) 0 inputs) (\<lambda>(nValueIn, inputs).
          if \<not> IsCoinStake tx then
            bindE (liftA (GetValueOut tx)) (\<lambda>value_out.
            bindE (guardE (\<not> nValueIn < value_out) (TxReject 100 ''bad-txns-in-belowout'')) (\<lambda>_.
            bindE (guardE (MoneyRange (nValueIn - value_out)) (TxReject 100 ''bad-txns-fee-outofrange'')) (\<lambda>_.
            Inr (Some (nValueIn - value_out), inputs))))
          else Inr (None, inputs))))"

end
