(* ===== verification/Coins_Value.thy ===== *)
theory Coins_Value
  imports Undo
begin

text \<open>
  The value of a set of unspent coins, and how a transaction changes it.
\<close>

definition coin_value :: "Coin option \<Rightarrow> CAmount" where
  "coin_value c = (case c of None \<Rightarrow> 0 | Some c \<Rightarrow> nValue (coin_out c))"

abbreviation inputs_value :: "(COutPoint \<rightharpoonup> Coin) \<Rightarrow> CTxIn list \<Rightarrow> CAmount" where
  "inputs_value m ins \<equiv> sum_list (map (\<lambda>i. coin_value (m (prevout i))) ins)"

text \<open>The value of all unspent coins.\<close>

definition total_value :: "(COutPoint \<rightharpoonup> Coin) \<Rightarrow> CAmount" where
  "total_value m = (\<Sum>p\<in>dom m. coin_value (m p))"

lemma total_value_remove:
  assumes "finite (dom m)"
  shows "total_value (m(p := None)) = total_value m - coin_value (m p)"
proof (cases "p \<in> dom m")
  case True
  have "total_value (m(p := None)) = (\<Sum>q\<in>dom m - {p}. coin_value (m q))"
    unfolding total_value_def by (rule sum.cong) auto
  then show ?thesis using True assms by (simp add: total_value_def sum_diff1)
next
  case False
  then have "m(p := None) = m" by (auto simp: fun_eq_iff domIff)
  then show ?thesis using False by (simp add: coin_value_def domIff)
qed

lemma total_value_add:
  assumes "finite (dom m)" "m p = None"
  shows "total_value (m(p \<mapsto> c)) = total_value m + nValue (coin_out c)"
  using total_value_remove [of "m(p \<mapsto> c)" p] assms by (simp add: coin_value_def fun_upd_idem)

lemma total_value_spend:
  assumes "finite (dom m)" "distinct ps"
  shows "total_value (m |` (- set ps)) = total_value m - sum_list (map (\<lambda>p. coin_value (m p)) ps)"
  using assms
proof (induction ps arbitrary: m)
  case Nil
  then show ?case by (simp add: restrict_UNIV)
next
  case (Cons p ps)
  have "m |` (- set (p # ps)) = (m(p := None)) |` (- set ps)" by (auto simp: restrict_map_def fun_eq_iff)
  moreover have "map (\<lambda>q. coin_value ((m(p := None)) q)) ps = map (\<lambda>q. coin_value (m q)) ps" using Cons.prems(2) by auto
  moreover have "finite (dom (m(p := None)))" using Cons.prems(1) by simp
  ultimately show ?case
    using Cons.IH [of "m(p := None)"] Cons.prems(2) total_value_remove [OF Cons.prems(1), of p]
    by (metis (no_types, lifting) diff_diff_add distinct.simps(2) list.simps(9) sum_list.Cons)
qed

lemma total_value_outputs:
  assumes "finite (dom m)" "n + length outs \<le> 2 ^ 32" "\<forall>p\<in>fst ` set (outputs_from txid h cb cs n outs). m p = None"
  shows "total_value (m ++ map_of (outputs_from txid h cb cs n outs)) =
    total_value m + sum_list (map nValue (filter (\<lambda>out. \<not> IsUnspendable (scriptPubKey out)) outs))"
  using assms
proof (induction outs arbitrary: n)
  case (Cons out outs)
  let ?p = "\<lparr>op_hash = txid, op_n = of_nat n\<rparr> :: COutPoint" and ?c = "Coin_of out h cb cs"
  let ?rest = "outputs_from txid h cb cs (n + 1) outs"
  have rest: "\<forall>p\<in>fst ` set ?rest. m p = None" using Cons.prems(3) by (auto simp: ball_Un)
  have ih: "total_value (m ++ map_of ?rest) =
      total_value m + sum_list (map nValue (filter (\<lambda>out. \<not> IsUnspendable (scriptPubKey out)) outs))"
    using Cons.IH [of "n + 1"] Cons.prems(1,2) rest by simp
  show ?case
  proof (cases "IsUnspendable (scriptPubKey out)")
    case True
    then show ?thesis using ih by simp
  next
    case False
    have "outputs_from txid h cb cs n (out # outs) = (?p, ?c) # ?rest" using False by simp
    then have eq: "m ++ map_of (outputs_from txid h cb cs n (out # outs)) = (m ++ map_of ?rest)(?p \<mapsto> ?c)" using map_add_Cons by metis
    have "(m ++ map_of ?rest) ?p = None"
      using outputs_from_fresh [OF Cons.prems(2)] Cons.prems(3) False by (simp add: map_add_None)
    moreover have "finite (dom (m ++ map_of ?rest))" using Cons.prems(1) by (simp add: finite_dom_map_of)
    ultimately have "total_value ((m ++ map_of ?rest)(?p \<mapsto> ?c)) = total_value m +
        sum_list (map nValue (filter (\<lambda>out. \<not> IsUnspendable (scriptPubKey out)) (out # outs)))"
      using ih total_value_add [of "m ++ map_of ?rest" ?p ?c] False by simp
    then show ?thesis by (simp only: eq)
  qed
qed simp

lemma spendable_split:
  "sum_list (map nValue (filter (\<lambda>out. \<not> P out) outs)) = sum_list (map nValue outs) - sum_list (map nValue (filter P outs))"
  by (induction outs) simp_all

definition burned :: "CTransaction \<Rightarrow> CAmount" where
  "burned tx = sum_list (map nValue (filter (\<lambda>out. IsUnspendable (scriptPubKey out)) (vout tx)))"

lemma total_value_apply_tx:
  assumes "finite (dom m)" "tx_fits H h False tx m"
  shows "total_value (apply_tx H h tx m) =
    total_value m - inputs_value m (vin tx) + sum_list (map nValue (vout tx)) - burned tx"
proof -
  let ?m1 = "m |` (- set (tx_prevouts tx))"
  have prev: "tx_prevouts tx = map prevout (vin tx)" using assms(2) by (simp add: tx_fits_def tx_prevouts_def)
  have m1: "total_value ?m1 = total_value m - inputs_value m (vin tx)"
    using total_value_spend [of m "tx_prevouts tx"] assms by (simp add: tx_fits_def prev o_def)
  have "finite (dom ?m1)" using assms(1) by simp
  moreover have "\<forall>p\<in>fst ` set (tx_outputs H h tx). ?m1 p = None" using assms(2) by (auto simp: tx_fits_def restrict_map_def)
  ultimately have "total_value (apply_tx H h tx m) =
      total_value ?m1 + sum_list (map nValue (filter (\<lambda>out. \<not> IsUnspendable (scriptPubKey out)) (vout tx)))"
    using total_value_outputs [of ?m1 0 "vout tx" "ComputeHash H tx" h "IsCoinBase tx" "IsCoinStake tx"] assms(2)
    unfolding apply_tx_def tx_outputs_def tx_fits_def by simp
  moreover have "sum_list (map nValue (filter (\<lambda>out. \<not> IsUnspendable (scriptPubKey out)) (vout tx))) = sum_list (map nValue (vout tx)) - burned tx"
    unfolding burned_def by (rule spendable_split)
  ultimately show ?thesis using m1 by simp
qed

end
