(* ===== verification/Tx_Checks.thy ===== *)
theory Tx_Checks
  imports Tx_Verify Coins_Value
begin

text \<open>
  What the transaction checks establish: the conditions of \<open>CheckTransaction\<close> and \<open>CheckTxInputs\<close>
  without their loops, and that an accepted transaction does not create money.
\<close>


section \<open>Checks without context\<close>

lemma MoneyRange_add: "MoneyRange a \<Longrightarrow> MoneyRange b \<Longrightarrow> amount_add a b = Inr (a + b)"
  by (simp add: amount_add_def MoneyRange_def MAX_MONEY_def COIN_def CENT_def)

definition output_ok :: "bool \<Rightarrow> CTxOut \<Rightarrow> bool" where
  "output_ok special out \<longleftrightarrow> (special \<or> \<not> CTxOut_IsEmpty out) \<and> MoneyRange (nValue out) \<and>
     (HasOpCall (scriptPubKey out) \<or> HasOpCreate (scriptPubKey out) \<longrightarrow> Solver (scriptPubKey out) True \<noteq> None)"

lemma check_outputs_cases:
  assumes "MoneyRange a"
  shows "(check_outputs special a outs = Inr () \<longleftrightarrow>
      (\<forall>out\<in>set outs. output_ok special out) \<and> a + sum_list (map nValue outs) \<le> MAX_MONEY) \<and>
    (check_outputs special a outs \<noteq> Inr () \<longrightarrow> (\<exists>reason. check_outputs special a outs = Inl (TxReject 100 reason)))"
  using assms
proof (induction outs arbitrary: a)
  case Nil
  then show ?case by (simp add: MoneyRange_def)
next
  case (Cons out outs)
  show ?case
  proof (cases "MoneyRange (nValue out)")
    case False
    then show ?thesis by (auto simp: output_ok_def MoneyRange_def guardE_def)
  next
    case True
    then have add: "amount_add a (nValue out) = Inr (a + nValue out)" using Cons.prems by (intro MoneyRange_add)
    have nn: "0 \<le> a + nValue out" using True Cons.prems by (simp add: MoneyRange_def)
    show ?thesis
    proof (cases "a + nValue out \<le> MAX_MONEY")
      case le: True
      then have "MoneyRange (a + nValue out)" using nn by (simp add: MoneyRange_def)
      with Cons.IH [OF this] True add show ?thesis
        by (auto simp: output_ok_def MoneyRange_def liftA_def guardE_def add.assoc)
    next
      case False
      have "0 \<le> sum_list (map nValue outs)" if "\<forall>out\<in>set outs. output_ok special out"
        using that by (intro sum_list_nonneg) (auto simp: output_ok_def MoneyRange_def)
      then show ?thesis using False True add by (auto simp: MoneyRange_def liftA_def guardE_def)
    qed
  qed
qed

lemma check_duplicates_iff:
  "check_duplicates seen ins = Inr () \<longleftrightarrow> distinct (map prevout ins) \<and> seen \<inter> prevout ` set ins = {}"
  by (induction seen ins rule: check_duplicates.induct) auto

lemma check_duplicates_reject: "check_duplicates seen ins = Inl e \<Longrightarrow> e = TxReject 100 ''bad-txns-inputs-duplicate''"
  by (induction seen ins rule: check_duplicates.induct) (auto split: if_splits)

lemma check_null_prevouts_iff: "check_null_prevouts ins = Inr () \<longleftrightarrow> (\<forall>i\<in>set ins. \<not> COutPoint_IsNull (prevout i))"
  by (induction ins) auto

lemma check_null_prevouts_reject: "check_null_prevouts ins = Inl e \<Longrightarrow> e = TxReject 10 ''bad-txns-prevout-null''"
  by (induction ins) (auto split: if_splits)

definition tx_wellformed :: "nat \<Rightarrow> bool \<Rightarrow> CTransaction \<Rightarrow> bool" where
  "tx_wellformed max_weight dup tx \<longleftrightarrow> vin tx \<noteq> [] \<and> vout tx \<noteq> [] \<and>
     length (SerializeTransaction False tx) \<le> 1000000 \<and> 4 * length (SerializeTransaction False tx) \<le> max_weight \<and>
     (\<forall>out\<in>set (vout tx). output_ok (IsCoinBase tx \<or> IsCoinStake tx) out) \<and> sum_list (map nValue (vout tx)) \<le> MAX_MONEY \<and>
     (dup \<longrightarrow> distinct (map prevout (vin tx))) \<and>
     (if IsCoinBase tx then 2 \<le> length (scriptSig (vin tx ! 0)) \<and> length (scriptSig (vin tx ! 0)) \<le> 100
      else \<forall>i\<in>set (vin tx). \<not> COutPoint_IsNull (prevout i))"

lemma CheckTransaction_wellformed: "CheckTransaction w tx dup = Inr () \<longleftrightarrow> tx_wellformed w dup tx"
proof -
  have "MoneyRange 0" by (simp add: MoneyRange_def MAX_MONEY_def COIN_def CENT_def)
  from check_outputs_cases [OF this, of "IsCoinBase tx \<or> IsCoinStake tx" "vout tx"]
  show ?thesis
    by (auto simp: CheckTransaction_def tx_wellformed_def bindE_Inr_iff check_duplicates_iff check_null_prevouts_iff
        MAX_TRANSACTION_BASE_SIZE_def WITNESS_SCALE_FACTOR_def not_less mult.commute)
qed

lemma GetValueOut_sum:
  assumes "\<forall>out\<in>set (vout tx). MoneyRange (nValue out)" "sum_list (map nValue (vout tx)) \<le> MAX_MONEY"
  shows "GetValueOut tx = Inr (sum_list (map nValue (vout tx)))"
proof -
  have "0 \<le> sum_list (map nValue (vout tx))" using assms(1) by (intro sum_list_nonneg) (auto simp: MoneyRange_def)
  then show ?thesis
    using value_out_loop_sum [of 0 "vout tx"] assms by (simp add: GetValueOut_def MoneyRange_def MAX_MONEY_def COIN_def CENT_def)
qed

lemma CheckTransaction_rejects: "CheckTransaction w tx dup = Inl e \<Longrightarrow> \<exists>dos reason. e = TxReject dos reason \<and> 10 \<le> dos"
proof -
  assume e: "CheckTransaction w tx dup = Inl e"
  have "MoneyRange 0" by (simp add: MoneyRange_def MAX_MONEY_def COIN_def CENT_def)
  then have "check_outputs special 0 outs = Inl e \<Longrightarrow> \<exists>reason. e = TxReject 100 reason" for special outs
    using check_outputs_cases [of 0 special outs] by auto
  with e check_duplicates_reject check_null_prevouts_reject show ?thesis
    by (fastforce simp: CheckTransaction_def bindE_Inl_iff guardE_def split: if_splits)
qed

text \<open>C5: the checks of a transaction without context.  \<open>CheckTransaction\<close> accepts exactly the
  transactions with inputs and outputs, within the size and weight limits, with output values in
  range and in total, with recognised contract outputs, without duplicate inputs where that is
  asked, and with a coinbase script of 2 to 100 bytes or no null inputs.  It rejects the others with
  a penalty of at least 10 and overflows nowhere; of an accepted transaction \<open>GetValueOut\<close> returns
  the sum.\<close>

theorem CheckTransaction_iff:
  "(CheckTransaction w tx dup = Inr () \<longleftrightarrow> tx_wellformed w dup tx) \<and>
   (\<forall>e. CheckTransaction w tx dup = Inl e \<longrightarrow> (\<exists>dos reason. e = TxReject dos reason \<and> 10 \<le> dos)) \<and>
   (CheckTransaction w tx dup = Inr () \<longrightarrow> GetValueOut tx = Inr (sum_list (map nValue (vout tx))))"
  using CheckTransaction_wellformed CheckTransaction_rejects GetValueOut_sum [of tx]
  by (auto simp: tx_wellformed_def output_ok_def)

theorem CheckTransaction_iff_witness:
  "CheckTransaction 4000000 sample_coinbase True = Inr () \<and> GetValueOut sample_coinbase = Inr 5 \<and>
   (\<exists>dos reason. CheckTransaction 40 sample_coinbase True = Inl (TxReject dos reason) \<and> 10 \<le> dos)"
proof -
  have a: "CheckTransaction 4000000 sample_coinbase True = Inr ()" by code_simp
  have b: "CheckTransaction 40 sample_coinbase True = Inl (TxReject 100 ''bad-txns-oversize'')" by code_simp
  have c: "sum_list (map nValue (vout sample_coinbase)) = 5" by code_simp
  show ?thesis
    using a b CheckTransaction_iff [of 4000000 sample_coinbase True] CheckTransaction_iff [of 40 sample_coinbase True]
    unfolding c by metis
qed

section \<open>Checks against the coins\<close>

definition input_ok :: "(COutPoint \<rightharpoonup> Coin) \<Rightarrow> int \<Rightarrow> CTxIn \<Rightarrow> bool" where
  "input_ok m height i \<longleftrightarrow> (\<exists>c. m (prevout i) = Some c \<and> MoneyRange (nValue (coin_out c)) \<and>
     (fCoinBase c \<or> fCoinStake c \<longrightarrow> 100 \<le> height - int (coin_nHeight c)))"

lemma have_inputs_loop_ok:
  assumes "view_ok (as_view cv)"
  shows "\<exists>cv'. have_inputs_loop ins cv = (\<forall>i\<in>set ins. utxo (as_view cv) (prevout i) \<noteq> None, cv') \<and> changed_to cv (utxo (as_view cv)) cv'"
  using assms
proof (induction ins arbitrary: cv)
  case Nil
  then show ?case by (simp add: changed_to_refl)
next
  case (Cons i ins)
  obtain b cv1 where b: "HaveCoin cv (prevout i) = (b, cv1)" by (rule prod.exhaust)
  have cv1: "b \<longleftrightarrow> utxo (as_view cv) (prevout i) \<noteq> None" "changed_to cv (utxo (as_view cv)) cv1"
    using HaveCoin_ok [OF Cons.prems b] by (simp_all add: same_view_def changed_to_def)
  then have "view_ok (as_view cv1)" "utxo (as_view cv1) = utxo (as_view cv)" by (simp_all add: changed_to_def)
  with Cons.IH [of cv1] obtain cv' where "have_inputs_loop ins cv1 = (\<forall>i\<in>set ins. utxo (as_view cv) (prevout i) \<noteq> None, cv')"
    "changed_to cv1 (utxo (as_view cv)) cv'" by auto
  then show ?case using b cv1 changed_to_trans by (cases b) auto
qed

lemma HaveInputs_ok:
  assumes "view_ok (as_view cv)" "\<not> IsCoinBase tx"
  shows "\<exists>cv'. HaveInputs cv tx = (\<forall>i\<in>set (vin tx). utxo (as_view cv) (prevout i) \<noteq> None, cv') \<and> changed_to cv (utxo (as_view cv)) cv'"
  using have_inputs_loop_ok [OF assms(1)] assms(2) by (simp add: HaveInputs_def)

lemma AccessCoin_present:
  assumes "view_ok (as_view cv)" "utxo (as_view cv) p = Some c"
  shows "\<exists>cv'. AccessCoin cv p = (c, cv') \<and> changed_to cv (utxo (as_view cv)) cv'"
proof -
  obtain d cv' where d: "AccessCoin cv p = (d, cv')" by (rule prod.exhaust)
  note access = AccessCoin_ok [OF assms(1) d]
  have "d = c" using access(1) assms(2) by (simp add: unspent_def split: if_splits)
  then show ?thesis using d access(2,3) by (simp add: same_view_def changed_to_def)
qed

lemma check_inputs_loop_cases:
  assumes "view_ok (as_view cv)" "MoneyRange a" "\<forall>i\<in>set ins. utxo (as_view cv) (prevout i) \<noteq> None"
  shows "if (\<forall>i\<in>set ins. input_ok (utxo (as_view cv)) h i) \<and> a + inputs_value (utxo (as_view cv)) ins \<le> MAX_MONEY
    then \<exists>cv'. check_inputs_loop h ins a cv = Inr (a + inputs_value (utxo (as_view cv)) ins, cv') \<and> changed_to cv (utxo (as_view cv)) cv'
    else \<exists>e. check_inputs_loop h ins a cv = Inl e \<and> e \<noteq> TxAssert"
  using assms
proof (induction ins arbitrary: a cv)
  case Nil
  then show ?case by (simp add: changed_to_refl MoneyRange_def)
next
  case (Cons i ins)
  let ?m = "utxo (as_view cv)"
  obtain c where c: "?m (prevout i) = Some c" using Cons.prems(3) by auto
  obtain cv1 where cv1: "AccessCoin cv (prevout i) = (c, cv1)" "changed_to cv ?m cv1" using AccessCoin_present [OF Cons.prems(1) c] by blast
  then have u1: "view_ok (as_view cv1)" "utxo (as_view cv1) = ?m" by (simp_all add: changed_to_def)
  have unsp: "\<not> IsSpent c" using c by (rule utxo_unspent)
  let ?v = "nValue (coin_out c)"
  let ?premature = "(fCoinBase c \<or> fCoinStake c) \<and> h - int (coin_nHeight c) < COINBASE_MATURITY"
  show ?case
  proof (cases "?premature \<or> \<not> MoneyRange ?v \<or> \<not> MoneyRange (a + ?v)")
    case True
    have bad: "\<not> input_ok ?m h i \<or> \<not> MoneyRange (a + ?v)" using True c by (auto simp: input_ok_def COINBASE_MATURITY_def)
    have nn: "0 \<le> inputs_value ?m ins" if "\<forall>i\<in>set ins. input_ok ?m h i"
      using that by (intro sum_list_nonneg) (auto simp: input_ok_def coin_value_def MoneyRange_def)
    have "\<not> ((\<forall>i\<in>set (i # ins). input_ok ?m h i) \<and> a + inputs_value ?m (i # ins) \<le> MAX_MONEY)"
    proof
      assume all: "(\<forall>i\<in>set (i # ins). input_ok ?m h i) \<and> a + inputs_value ?m (i # ins) \<le> MAX_MONEY"
      then have "input_ok ?m h i" "0 \<le> inputs_value ?m ins" using nn by simp_all
      moreover from this have "MoneyRange ?v" by (auto simp: input_ok_def c)
      moreover have "a + ?v + inputs_value ?m ins \<le> MAX_MONEY" using all by (simp add: coin_value_def c)
      ultimately have "MoneyRange (a + ?v)" using Cons.prems(2) unfolding MoneyRange_def by linarith
      then show False using bad \<open>input_ok ?m h i\<close> by simp
    qed
    moreover have "\<exists>e. check_inputs_loop h (i # ins) a cv = Inl e \<and> e \<noteq> TxAssert"
      using True cv1(1) unsp by (auto simp: guardE_def liftA_def amount_add_def)
    ultimately show ?thesis by (metis (no_types, lifting))
  next
    case False
    then have good: "input_ok ?m h i" using c by (auto simp: input_ok_def COINBASE_MATURITY_def)
    have "amount_add a ?v = Inr (a + ?v)" using False Cons.prems(2) by (intro MoneyRange_add) auto
    then have "check_inputs_loop h (i # ins) a cv = check_inputs_loop h ins (a + ?v) cv1"
      using False cv1(1) unsp by (auto simp: liftA_def)
    then show ?thesis
      using Cons.IH [OF u1(1), of "a + ?v"] False Cons.prems(3) good u1(2) changed_to_trans [OF cv1(2)]
      by (auto simp: c coin_value_def add.assoc)
  qed
qed

lemma CheckTxInputs_cases:
  fixes height :: int
  assumes ok: "view_ok (as_view cv)" and tx: "\<not> IsCoinBase tx"
  defines "m \<equiv> utxo (as_view cv)"
  defines "fits \<equiv> (\<forall>i\<in>set (vin tx). input_ok m height i) \<and> inputs_value m (vin tx) \<le> MAX_MONEY"
  shows "CheckTxInputs tx cv height \<noteq> Inl TxAssert"
    "CheckTxInputs tx cv height = Inr (fee, cv') \<Longrightarrow> fits \<and> changed_to cv m cv' \<and>
       (if IsCoinStake tx then fee = None
        else \<exists>vo. GetValueOut tx = Inr vo \<and> vo \<le> inputs_value m (vin tx) \<and> fee = Some (inputs_value m (vin tx) - vo))"
    "fits \<Longrightarrow> IsCoinStake tx \<or> (\<exists>vo. GetValueOut tx = Inr vo \<and> vo \<le> inputs_value m (vin tx)) \<Longrightarrow>
       \<exists>fee cv'. CheckTxInputs tx cv height = Inr (fee, cv')"
proof -
  have zero: "MoneyRange 0" by (simp add: MoneyRange_def MAX_MONEY_def COIN_def CENT_def)
  obtain cv1 where cv1: "HaveInputs cv tx = (\<forall>i\<in>set (vin tx). m (prevout i) \<noteq> None, cv1)" "changed_to cv m cv1"
    using HaveInputs_ok [OF ok tx] unfolding m_def by blast
  then have u1: "view_ok (as_view cv1)" "utxo (as_view cv1) = m" by (simp_all add: changed_to_def)
  let ?all = "\<forall>i\<in>set (vin tx). m (prevout i) \<noteq> None"
  have fits_all: "fits \<Longrightarrow> ?all" by (auto simp: fits_def input_ok_def)
  note loop = check_inputs_loop_cases [OF u1(1) zero, of "vin tx" height, unfolded u1(2)]
  have vo: "GetValueOut tx = Inr vo \<Longrightarrow> 0 \<le> vo" for vo
    using value_out_loop_Inr [of 0 "vout tx" vo] zero by (simp add: GetValueOut_def MoneyRange_def)
  show "CheckTxInputs tx cv height \<noteq> Inl TxAssert"
    using loop cv1(1) by (cases ?all) (auto simp: CheckTxInputs_def bindE_Inl_iff liftA_def split: if_splits sum.splits)
  show "fits \<and> changed_to cv m cv' \<and>
       (if IsCoinStake tx then fee = None
        else \<exists>vo. GetValueOut tx = Inr vo \<and> vo \<le> inputs_value m (vin tx) \<and> fee = Some (inputs_value m (vin tx) - vo))"
    if r: "CheckTxInputs tx cv height = Inr (fee, cv')"
  proof -
    have all: ?all using r cv1(1) by (auto simp: CheckTxInputs_def split: if_splits)
    have f: fits using r cv1(1) all loop by (auto simp: CheckTxInputs_def fits_def split: if_splits)
    obtain cv2 where cv2: "check_inputs_loop height (vin tx) 0 cv1 = Inr (inputs_value m (vin tx), cv2)" "changed_to cv1 m cv2"
      using loop all f by (auto simp: fits_def)
    then show ?thesis
      using r cv1(1) all f changed_to_trans [OF cv1(2) cv2(2)]
      by (auto simp: CheckTxInputs_def bindE_Inr_iff liftA_def split: if_splits sum.splits)
  qed
  show "\<exists>fee cv'. CheckTxInputs tx cv height = Inr (fee, cv')"
    if f: fits and outs: "IsCoinStake tx \<or> (\<exists>vo. GetValueOut tx = Inr vo \<and> vo \<le> inputs_value m (vin tx))"
  proof -
    obtain cv2 where l: "check_inputs_loop height (vin tx) 0 cv1 = Inr (inputs_value m (vin tx), cv2)"
      using loop fits_all [OF f] f by (auto simp: fits_def)
    show ?thesis
    proof (cases "IsCoinStake tx")
      case True
      then show ?thesis using l cv1(1) fits_all [OF f] by (simp add: CheckTxInputs_def)
    next
      case False
      then obtain w where w: "GetValueOut tx = Inr w" "w \<le> inputs_value m (vin tx)" using outs by blast
      have "MoneyRange (inputs_value m (vin tx) - w)" using w vo [OF w(1)] f by (simp add: MoneyRange_def fits_def)
      then show ?thesis using l cv1(1) fits_all [OF f] False w by (simp add: CheckTxInputs_def liftA_def)
    qed
  qed
qed

section \<open>No money is created\<close>

lemma length_vout_size: "length (vout tx) \<le> length (SerializeTransaction False tx)"
proof -
  have "length outs \<le> length (concat (map ser_txout outs))" for outs
    by (induction outs) (simp_all add: ser_txout_def ser_bytes_def ser_i64_def length_WriteLE)
  then have "length (vout tx) \<le> length (ser_vector ser_txout (vout tx))" by (simp add: ser_vector_def trans_le_add2)
  then show ?thesis by (simp add: SerializeTransaction_def Let_def)
qed

lemma checked_tx_fits:
  assumes "tx_wellformed w True tx" "\<not> IsCoinBase tx" "\<forall>i\<in>set (vin tx). input_ok m height i"
    "\<forall>p\<in>fst ` set (tx_outputs H height tx). m p = None"
  shows "tx_fits H height False tx m"
  using assms length_vout_size [of tx]
  by (auto simp: tx_fits_def tx_prevouts_def tx_wellformed_def output_ok_def MoneyRange_def input_ok_def CTxOut_IsNull_def)

text \<open>C4: an accepted transaction creates no money.  If a transaction that is neither coinbase nor
  coinstake passes \<open>CheckTransaction\<close> and \<open>CheckTxInputs\<close> and its outputs are new, then the fee is in
  range, \<open>UpdateCoins\<close> fails no assertion, and the value of all unspent coins falls by exactly the fee
  and the value of the unspendable outputs.\<close>

theorem CheckTxInputs_conserves:
  assumes "coins_ok cv" "finite (dom (us_coins (coins_abs cv)))" "\<not> IsCoinBase tx" "\<not> IsCoinStake tx"
    "CheckTransaction w tx True = Inr ()" "CheckTxInputs tx cv height = Inr (fee, cv1)"
    "\<forall>p\<in>fst ` set (tx_outputs H height tx). us_coins (coins_abs cv) p = None"
  shows "\<exists>f undo cv2. fee = Some f \<and> MoneyRange f \<and> UpdateCoins H tx cv1 height = Inr (undo, cv2) \<and> coins_ok cv2 \<and>
    total_value (us_coins (coins_abs cv2)) + f + burned tx = total_value (us_coins (coins_abs cv))"
proof -
  let ?m = "utxo (as_view cv)"
  have m: "us_coins (coins_abs c) = utxo (as_view c)" for c by (simp add: coins_abs_def)
  have ok: "view_ok (as_view cv)" using assms(1) by (simp add: coins_ok_def)
  have wf: "tx_wellformed w True tx" using assms(5) CheckTransaction_wellformed by blast
  have sum: "GetValueOut tx = Inr (sum_list (map nValue (vout tx)))" "0 \<le> sum_list (map nValue (vout tx))"
    using wf by (auto simp: tx_wellformed_def output_ok_def MoneyRange_def intro!: GetValueOut_sum sum_list_nonneg)
  note checked = CheckTxInputs_cases(2) [OF ok assms(3,6)]
  have in_ok: "\<forall>i\<in>set (vin tx). input_ok ?m height i" and cv1: "changed_to cv ?m cv1" using checked by auto
  have fee: "fee = Some (inputs_value ?m (vin tx) - sum_list (map nValue (vout tx)))"
    "sum_list (map nValue (vout tx)) \<le> inputs_value ?m (vin tx)" "inputs_value ?m (vin tx) \<le> MAX_MONEY"
    using checked assms(4) sum(1) by auto
  have fits: "tx_fits H height False tx ?m" using checked_tx_fits [OF wf assms(3) in_ok] assms(7) m by metis
  have u1: "view_ok (as_view cv1)" "utxo (as_view cv1) = ?m" using cv1 by (simp_all add: changed_to_def)
  obtain undo cv2 where cv2: "UpdateCoins H tx cv1 height = Inr (undo, cv2)" "changed_to cv1 (apply_tx H height tx ?m) cv2"
    using UpdateCoins_ok [OF u1(1)] fits unfolding u1(2) by blast
  have "total_value (utxo (as_view cv2)) = total_value (apply_tx H height tx ?m)" using cv2(2) by (simp add: changed_to_def)
  also have "\<dots> = total_value ?m - inputs_value ?m (vin tx) + sum_list (map nValue (vout tx)) - burned tx"
    using total_value_apply_tx [OF _ fits] assms(2) m by metis
  finally show ?thesis
    using fee cv2 sum(2) by (auto simp: m MoneyRange_def coins_ok_def changed_to_def)
qed

definition mature_cache :: cache_state where
  "mature_cache = CCoinsViewCache_new (CCoinsViewDB (sample_db\<lparr>db_coins := map_of (tx_outputs sample_hash 7 sample_coinbase)\<rparr>))"

theorem CheckTxInputs_conserves_witness:
  "\<exists>fee cv1 f undo cv2. CheckTxInputs sample_spend mature_cache 107 = Inr (fee, cv1) \<and> fee = Some f \<and> MoneyRange f \<and>
    UpdateCoins sample_hash sample_spend cv1 107 = Inr (undo, cv2) \<and> coins_ok cv2 \<and>
    total_value (us_coins (coins_abs cv2)) + f + burned sample_spend = total_value (us_coins (coins_abs mature_cache))"
proof -
  let ?o = "tx_outputs sample_hash 7 sample_coinbase"
  have "\<forall>c\<in>snd ` set ?o. \<not> IsSpent c" by code_simp
  then have o: "\<not> IsSpent c" if "map_of ?o p = Some c" for p c using map_of_SomeD [OF that] by force
  have u: "utxo (as_view mature_cache) = map_of ?o"
  proof (rule ext)
    show "utxo (as_view mature_cache) p = map_of ?o p" for p
      using o [of p] by (cases "map_of ?o p") (simp_all add: mature_cache_def CCoinsViewCache_new_def utxo.simps unspent_def)
  qed
  have ok: "coins_ok mature_cache"
    using o by (auto simp: coins_ok_def mature_cache_def CCoinsViewCache_new_def view_ok.simps map_ok_def sample_db_def)
  have "case CheckTxInputs sample_spend mature_cache 107 of Inr (Some f, _) \<Rightarrow> True | _ \<Rightarrow> False" by code_simp
  then obtain fee cv1 where chk: "CheckTxInputs sample_spend mature_cache 107 = Inr (fee, cv1)"
    by (auto split: sum.splits prod.splits)
  have tx: "\<not> IsCoinBase sample_spend" "\<not> IsCoinStake sample_spend" "CheckTransaction 4000000 sample_spend True = Inr ()"
    by code_simp+
  have "list_all (\<lambda>p. map_of ?o p = None) (map fst (tx_outputs sample_hash 107 sample_spend))" by code_simp
  then have fresh: "\<forall>p\<in>fst ` set (tx_outputs sample_hash 107 sample_spend). us_coins (coins_abs mature_cache) p = None"
    by (simp add: coins_abs_def u list_all_iff)
  have fin: "finite (dom (us_coins (coins_abs mature_cache)))" by (simp add: coins_abs_def u finite_dom_map_of)
  show ?thesis
    by (rule exI [of _ fee], rule exI [of _ cv1]) (simp only: chk simp_thms CheckTxInputs_conserves [OF ok fin tx chk fresh])
qed

end
