(* ===== verification/Condensing.thy ===== *)
theory Condensing
  imports Undo "HOL-Library.RBT" "HOL-Library.List_Lexorder"
begin

unbundle bit_operations_syntax

text \<open>
  \<open>silubium/silubiumstate.cpp\<close>: the coins of contracts (\<open>SilubiumState\<close>, its cache over the stored trie)
  and the transaction that condenses the transfers of one contract execution (\<open>CondensingTX\<close>).
  \<open>std::map\<close> is a red-black tree, which fixes the order of iteration; the trie of contract coins is
  the map it stores.  Values are 256-bit words.  What the EVM state says of an account, whether it is
  alive, is an argument, and so is the conversion of a 256-bit value to \<open>CAmount\<close>.
\<close>

section \<open>Data\<close>

type_synonym Address = "byte list"
type_synonym h256 = "byte list"
type_synonym u256 = "256 word"

record TransferInfo =
  ti_from :: Address
  ti_to :: Address
  ti_value :: u256

record Vin =
  vin_hash :: h256
  vin_nVout :: u32
  vin_value :: u256
  vin_alive :: byte

text \<open>The part of \<open>SilubiumTransaction\<close> the condensing transaction reads.\<close>

record SilubiumTransaction =
  tx_sender :: Address
  tx_value :: u256
  tx_hashWith :: h256
  tx_nVout :: u32

record SilubiumState =
  cacheUTXO :: "(Address, Vin) rbt"
  stateUTXO :: "(Address, Vin) rbt"

definition h256Touint :: "h256 \<Rightarrow> uint256" where "h256Touint h = h"

definition uintToh256 :: "uint256 \<Rightarrow> h256" where "uintToh256 h = h"

section \<open>The coins of contracts\<close>

definition state_vin :: "Address \<Rightarrow> SilubiumState \<Rightarrow> Vin option \<times> SilubiumState" where
  "state_vin addr s =
     (case RBT.lookup (cacheUTXO s) addr of
        None \<Rightarrow>
          (case RBT.lookup (stateUTXO s) addr of
             None \<Rightarrow> (None, s)
           | Some v \<Rightarrow> (Some v, s\<lparr>cacheUTXO := RBT.insert addr v (cacheUTXO s)\<rparr>))
      | Some v \<Rightarrow> (Some v, s))"

text \<open>Marking the coin of an address as dead, as \<open>kill\<close> and \<open>deleteAccounts\<close> do.\<close>

definition kill_vin :: "Address \<Rightarrow> SilubiumState \<Rightarrow> SilubiumState" where
  "kill_vin addr s =
     (case state_vin addr s of
        (None, s) \<Rightarrow> s
      | (Some v, s) \<Rightarrow> s\<lparr>cacheUTXO := RBT.insert addr (v\<lparr>vin_alive := 0\<rparr>) (cacheUTXO s)\<rparr>)"

definition deleteAccounts :: "Address list \<Rightarrow> SilubiumState \<Rightarrow> SilubiumState" where
  "deleteAccounts addrs s = fold kill_vin addrs s"

definition update_vin :: "Address \<times> Vin \<Rightarrow> SilubiumState \<Rightarrow> SilubiumState" where
  "update_vin v s =
     (case state_vin (fst v) s of
        (Some _, s) \<Rightarrow> s\<lparr>cacheUTXO := RBT.insert (fst v) (snd v) (cacheUTXO s)\<rparr>
      | (None, s) \<Rightarrow>
          if vin_alive (snd v) > 0 then s\<lparr>cacheUTXO := RBT.insert (fst v) (snd v) (cacheUTXO s)\<rparr> else s)"

definition updateUTXO :: "(Address, Vin) rbt \<Rightarrow> SilubiumState \<Rightarrow> SilubiumState" where
  "updateUTXO vins s = fold update_vin (RBT.entries vins) s"

definition commit_vin :: "Address \<times> Vin \<Rightarrow> (Address, Vin) rbt \<Rightarrow> (Address, Vin) rbt" where
  "commit_vin i state = (if vin_alive (snd i) = 0 then RBT.delete (fst i) state else RBT.insert (fst i) (snd i) state)"

text \<open>\<open>silubium::commit\<close> and the clearing of the cache that follows it in \<open>execute\<close>.\<close>

definition commit_utxo :: "SilubiumState \<Rightarrow> SilubiumState" where
  "commit_utxo s = \<lparr>cacheUTXO = RBT.empty, stateUTXO = fold commit_vin (RBT.entries (cacheUTXO s)) (stateUTXO s)\<rparr>"

section \<open>The condensing transaction\<close>

record CondensingTX =
  plusMinusInfo :: "(Address, u256 \<times> u256) rbt"
  balances :: "(Address, u256) rbt"
  nVouts :: "(Address, u32) rbt"
  vins :: "(Address, Vin) rbt"
  voutOverflow :: bool

definition CondensingTX_new :: CondensingTX where
  "CondensingTX_new = \<lparr>plusMinusInfo = RBT.empty, balances = RBT.empty, nVouts = RBT.empty, vins = RBT.empty, voutOverflow = False\<rparr>"

abbreviation rbt_count :: "('a::linorder, 'b) rbt \<Rightarrow> 'a \<Rightarrow> bool" where
  "rbt_count m k \<equiv> RBT.lookup m k \<noteq> None"

fun selectionVin :: "SilubiumTransaction \<Rightarrow> TransferInfo list \<Rightarrow> (Address, Vin) rbt \<Rightarrow> SilubiumState \<Rightarrow> (Address, Vin) rbt \<times> SilubiumState" where
  "selectionVin t [] vs s = (vs, s)"
| "selectionVin t (ti # tis) vs s =
     (let (vs, s) =
        (if \<not> rbt_count vs (ti_from ti) then
           (let (a, s) = state_vin (ti_from ti) s;
                vs = (case a of Some v \<Rightarrow> RBT.insert (ti_from ti) v vs | None \<Rightarrow> vs);
                vs = (if ti_from ti = tx_sender t \<and> tx_value t > 0 then
                        RBT.insert (ti_from ti) \<lparr>vin_hash = tx_hashWith t, vin_nVout = tx_nVout t, vin_value = tx_value t, vin_alive = 1\<rparr> vs
                      else vs) in (vs, s))
         else (vs, s));
       (vs, s) =
        (if \<not> rbt_count vs (ti_to ti) then
           (let (a, s) = state_vin (ti_to ti) s in
            (case a of Some v \<Rightarrow> RBT.insert (ti_to ti) v vs | None \<Rightarrow> vs, s))
         else (vs, s))
      in selectionVin t tis vs s)"

fun calculatePlusAndMinus :: "TransferInfo list \<Rightarrow> (Address, u256 \<times> u256) rbt \<Rightarrow> (Address, u256 \<times> u256) rbt" where
  "calculatePlusAndMinus [] pm = pm"
| "calculatePlusAndMinus (ti # tis) pm =
     (let pm = (case RBT.lookup pm (ti_from ti) of
                  None \<Rightarrow> RBT.insert (ti_from ti) (0, ti_value ti) pm
                | Some (p, m) \<Rightarrow> RBT.insert (ti_from ti) (p, m + ti_value ti) pm);
          pm = (case RBT.lookup pm (ti_to ti) of
                  None \<Rightarrow> RBT.insert (ti_to ti) (ti_value ti, 0) pm
                | Some (p, m) \<Rightarrow> RBT.insert (ti_to ti) (p + ti_value ti, m) pm)
      in calculatePlusAndMinus tis pm)"

definition Vin_zero :: Vin where
  "Vin_zero = \<lparr>vin_hash = replicate 32 0, vin_nVout = 0, vin_value = 0, vin_alive = 0\<rparr>"

text \<open>\<open>vins[k]\<close> creates a zero entry where there is none.\<close>

fun new_balances :: "(Address \<Rightarrow> bool) \<Rightarrow> (Address \<times> u256 \<times> u256) list \<Rightarrow> (Address, Vin) rbt \<Rightarrow> (Address, u256) rbt \<Rightarrow>
    bool \<times> (Address, Vin) rbt \<times> (Address, u256) rbt" where
  "new_balances deleted [] vs bs = (True, vs, bs)"
| "new_balances deleted ((k, pl, mi) # ps) vs bs =
     (let vs = (if rbt_count vs k then vs else RBT.insert k Vin_zero vs);
          v = the (RBT.lookup vs k);
          balance = (if vin_alive v \<noteq> 0 \<or> (vin_alive v = 0 \<and> \<not> deleted k) then vin_value v else 0) + pl
      in if balance < mi then (False, vs, bs)
         else new_balances deleted ps vs (RBT.insert k (balance - mi) bs))"

definition createVins :: "(Address \<Rightarrow> bool) \<Rightarrow> (Address, Vin) rbt \<Rightarrow> CTxIn list" where
  "createVins deleted vs =
     map (\<lambda>(a, v). \<lparr>prevout = \<lparr>op_hash = h256Touint (vin_hash v), op_n = vin_nVout v\<rparr>, scriptSig = push_opcode [] OP_SPEND,
        nSequence = SEQUENCE_FINAL, scriptWitness = []\<rparr>)
       (filter (\<lambda>(a, v). (vin_value v > 0 \<and> vin_alive v \<noteq> 0) \<or> (vin_value v > 0 \<and> vin_alive v = 0 \<and> \<not> deleted a)) (RBT.entries vs))"

definition MAX_CONTRACT_VOUTS :: nat where "MAX_CONTRACT_VOUTS = 1000"

definition condensing_script :: "(Address \<Rightarrow> bool) \<Rightarrow> Address \<Rightarrow> CScript" where
  "condensing_script contract a =
     (if contract a then
        push_opcode (push_data (push_data (push_data (push_data (push_data [] [0]) [0]) [0]) [0]) a) OP_CALL
      else push_opcode (push_opcode (push_data (push_opcode (push_opcode [] OP_DUP) OP_HASH160) a) OP_EQUALVERIFY) OP_CHECKSIG)"

fun create_vout :: "(u256 \<Rightarrow> CAmount) \<Rightarrow> (Address \<Rightarrow> bool) \<Rightarrow> (Address \<times> u256) list \<Rightarrow> nat \<Rightarrow> CTxOut list \<Rightarrow> (Address, u32) rbt \<Rightarrow>
    CTxOut list \<times> (Address, u32) rbt \<times> bool" where
  "create_vout to_amount contract [] count outs nv = (outs, nv, False)"
| "create_vout to_amount contract ((a, b) # bs) count outs nv =
     (let (count, outs, nv) =
        (if b > 0 then (count + 1, outs @ [\<lparr>nValue = to_amount b, scriptPubKey = condensing_script contract a\<rparr>],
           RBT.insert a (of_nat count) nv)
         else (count, outs, nv))
      in if count > MAX_CONTRACT_VOUTS then (outs, nv, True)
         else create_vout to_amount contract bs count outs nv)"

definition CTransaction_empty :: CTransaction where
  "CTransaction_empty = \<lparr>vin = [], vout = [], nVersion = 2, nLockTime = 0\<rparr>"

definition createCondensingTX :: "(u256 \<Rightarrow> CAmount) \<Rightarrow> (Address \<Rightarrow> bool) \<Rightarrow> (Address \<Rightarrow> bool) \<Rightarrow> SilubiumTransaction \<Rightarrow> TransferInfo list \<Rightarrow>
    SilubiumState \<Rightarrow> CTransaction \<times> CondensingTX \<times> SilubiumState" where
  "createCondensingTX to_amount contract deleted t transfers s =
     (let (vs, s) = selectionVin t transfers RBT.empty s;
          pm = calculatePlusAndMinus transfers RBT.empty;
          (ok, vs, bs) = new_balances deleted (RBT.entries pm) vs RBT.empty;
          ctx = CondensingTX_new\<lparr>plusMinusInfo := pm, balances := bs, vins := vs\<rparr>
      in if \<not> ok then (CTransaction_empty, ctx, s)
         else
           (let ins = createVins deleted vs;
                (outs, nv, over) = create_vout to_amount contract (RBT.entries bs) 0 [] RBT.empty
            in (if ins = [] \<or> outs = [] then CTransaction_empty else CTransaction_empty\<lparr>vin := ins, vout := outs\<rparr>,
                ctx\<lparr>nVouts := nv, voutOverflow := over\<rparr>, s)))"

definition createVin :: "(byte list \<Rightarrow> uint256) \<Rightarrow> SilubiumTransaction \<Rightarrow> CTransaction \<Rightarrow> CondensingTX \<Rightarrow> (Address, Vin) rbt" where
  "createVin H t tx ctx =
     fold (\<lambda>(a, b) vs.
         if a = tx_sender t then vs
         else if b > 0 then
           RBT.insert a \<lparr>vin_hash = uintToh256 (ComputeHash H tx),
             vin_nVout = (case RBT.lookup (nVouts ctx) a of Some n \<Rightarrow> n | None \<Rightarrow> 0), vin_value = b, vin_alive = 1\<rparr> vs
         else RBT.insert a \<lparr>vin_hash = uintToh256 (ComputeHash H tx), vin_nVout = 0, vin_value = 0, vin_alive = 0\<rparr> vs)
       (RBT.entries (balances ctx)) RBT.empty"

text \<open>The commit of a successful execution in \<open>SilubiumState::execute\<close>: the condensing transaction, and the new
  coins of the contracts unless there are too many outputs.\<close>

definition condense :: "(byte list \<Rightarrow> uint256) \<Rightarrow> (u256 \<Rightarrow> CAmount) \<Rightarrow> (Address \<Rightarrow> bool) \<Rightarrow> Address list \<Rightarrow> SilubiumTransaction \<Rightarrow>
    TransferInfo list \<Rightarrow> SilubiumState \<Rightarrow> (CTransaction \<times> SilubiumState) option" where
  "condense H to_amount contract deleteAddresses t transfers s =
     (let s = deleteAccounts deleteAddresses s;
          (tx, ctx, s) = createCondensingTX to_amount contract (\<lambda>a. a \<in> set deleteAddresses) t transfers s
      in if voutOverflow ctx then None
         else Some (tx, commit_utxo (updateUTXO (createVin H t tx ctx) s)))"

end
