(* ===== verification/Condense_Laws.thy ===== *)
theory Condense_Laws
  imports Condensing
begin

text \<open>What the condensing transaction of an execution spends, pays and leaves to the contracts.\<close>

section \<open>Ordered maps\<close>

lemma entries_of_lookup:
  assumes "finite S" "\<And>a. RBT.lookup t a = (if a \<in> S then Some (f a) else None)"
  shows "RBT.entries t = map (\<lambda>a. (a, f a)) (sorted_list_of_set S)"
proof -
  have k: "map fst (RBT.entries t) = sorted_list_of_set S"
  proof (rule sorted_distinct_set_unique)
    have "a \<in> fst ` set (RBT.entries t) \<longleftrightarrow> a \<in> S" for a
      using assms(2) [of a] by (metis (no_types, lifting) RBT.keys_def_alt RBT.lookup_keys domIff image_set option.distinct(1))
    then show "set (map fst (RBT.entries t)) = set (sorted_list_of_set S)" using assms(1) by auto
  qed (simp_all add: RBT.sorted_entries RBT.distinct_entries)
  have "e = (fst e, f (fst e))" if "e \<in> set (RBT.entries t)" for e
    using that assms(2) [of "fst e"] RBT.lookup_in_tree [of t "fst e" "snd e"] by (cases e) (auto split: if_splits)
  then have "RBT.entries t = map (\<lambda>a. (a, f a)) (map fst (RBT.entries t))" by (simp add: map_idI)
  then show ?thesis unfolding k .
qed

section \<open>The coins of contracts as one map\<close>

definition contract_coins :: "SilubiumState \<Rightarrow> Address \<Rightarrow> Vin option" where
  "contract_coins s a = (case RBT.lookup (cacheUTXO s) a of None \<Rightarrow> RBT.lookup (stateUTXO s) a | Some v \<Rightarrow> Some v)"

lemma state_vin_coins:
  "fst (state_vin a s) = contract_coins s a" "contract_coins (snd (state_vin a s)) = contract_coins s"
  by (auto simp: state_vin_def contract_coins_def split: option.splits)

lemma cache_insert_coins: "contract_coins (s\<lparr>cacheUTXO := RBT.insert a v (cacheUTXO s)\<rparr>) = (contract_coins s)(a \<mapsto> v)"
  by (rule ext) (simp add: contract_coins_def split: option.split)

lemma kill_vin_coins: "contract_coins (kill_vin a s) = (contract_coins s)(a := map_option (\<lambda>v. v\<lparr>vin_alive := 0\<rparr>) (contract_coins s a))"
  using state_vin_coins [of a s]
  by (cases "state_vin a s") (auto simp: kill_vin_def cache_insert_coins split: option.splits)

lemma deleteAccounts_coins:
  "contract_coins (deleteAccounts D s) a = (if a \<in> set D then map_option (\<lambda>v. v\<lparr>vin_alive := 0\<rparr>) (contract_coins s a) else contract_coins s a)"
  unfolding deleteAccounts_def
  by (induction D arbitrary: s) (auto simp: kill_vin_coins option.map_comp o_def)

lemma update_vin_coins:
  "contract_coins (update_vin (a, v) s) =
     (if contract_coins s a \<noteq> None \<or> vin_alive v > 0 then (contract_coins s)(a := Some v) else contract_coins s)"
  using state_vin_coins [of a s]
  by (cases "state_vin a s") (auto simp: update_vin_def cache_insert_coins split: option.splits)

text \<open>What the trie holds after the commit.\<close>

definition live :: "Vin option \<Rightarrow> Vin option" where
  "live v = (case v of Some v \<Rightarrow> if vin_alive v = 0 then None else Some v | None \<Rightarrow> None)"

lemma fold_update_coins:
  "distinct (map fst es) \<Longrightarrow> live (contract_coins (fold update_vin es s) a) =
     (case map_of es a of Some v \<Rightarrow> live (Some v) | None \<Rightarrow> live (contract_coins s a))"
proof (induction es arbitrary: s)
  case (Cons e es)
  obtain k v where e: "e = (k, v)" by (cases e)
  have "map_of es k = None" using Cons.prems e by (simp add: map_of_eq_None_iff)
  then show ?case using Cons.IH [of "update_vin e s"] Cons.prems e
    by (cases "vin_alive v = 0") (auto simp: update_vin_coins live_def word_neq_0_conv [symmetric] split: option.splits)
qed simp

lemma updateUTXO_coins:
  "live (contract_coins (updateUTXO vs s) a) =
     (case RBT.lookup vs a of Some v \<Rightarrow> live (Some v) | None \<Rightarrow> live (contract_coins s a))"
  using fold_update_coins [of "RBT.entries vs" s a] by (simp add: updateUTXO_def RBT.distinct_entries)

lemma fold_commit:
  "distinct (map fst es) \<Longrightarrow> RBT.lookup (fold commit_vin es t) a = (case map_of es a of Some v \<Rightarrow> live (Some v) | None \<Rightarrow> RBT.lookup t a)"
proof (induction es arbitrary: t)
  case (Cons e es)
  obtain k v where e: "e = (k, v)" by (cases e)
  have "map_of es k = None" using Cons.prems e by (simp add: map_of_eq_None_iff)
  then show ?case using Cons.IH [of "commit_vin e t"] Cons.prems e
    by (auto simp: commit_vin_def live_def split: option.splits)
qed simp

text \<open>The trie holds no dead coins.\<close>

definition trie_live :: "SilubiumState \<Rightarrow> bool" where
  "trie_live s \<longleftrightarrow> (\<forall>a v. RBT.lookup (stateUTXO s) a = Some v \<longrightarrow> vin_alive v \<noteq> 0)"

lemma commit_utxo_coins: "trie_live s \<Longrightarrow> contract_coins (commit_utxo s) a = live (contract_coins s a)"
  using fold_commit [of "RBT.entries (cacheUTXO s)" "stateUTXO s" a]
  by (auto simp: commit_utxo_def contract_coins_def RBT.distinct_entries trie_live_def live_def split: option.splits)

lemma stateUTXO_unchanged:
  "stateUTXO (snd (state_vin a s)) = stateUTXO s" "stateUTXO (kill_vin a s) = stateUTXO s" "stateUTXO (update_vin e s) = stateUTXO s"
  by (auto simp: state_vin_def kill_vin_def update_vin_def split: option.splits prod.splits)

section \<open>Coins selected and balances\<close>

definition participants :: "TransferInfo list \<Rightarrow> Address set" where
  "participants ts = ti_from ` set ts \<union> ti_to ` set ts"

definition received :: "TransferInfo list \<Rightarrow> Address \<Rightarrow> int" where
  "received ts a = sum_list (map (\<lambda>ti. if ti_to ti = a then uint (ti_value ti) else 0) ts)"

definition sent :: "TransferInfo list \<Rightarrow> Address \<Rightarrow> int" where
  "sent ts a = sum_list (map (\<lambda>ti. if ti_from ti = a then uint (ti_value ti) else 0) ts)"

text \<open>The coin an address brings into the execution: the sender the output that called the contract,
  the others their recorded coin.\<close>

definition own_vin :: "SilubiumTransaction \<Rightarrow> Vin" where
  "own_vin t = \<lparr>vin_hash = tx_hashWith t, vin_nVout = tx_nVout t, vin_value = tx_value t, vin_alive = 1\<rparr>"

definition coin_in :: "SilubiumTransaction \<Rightarrow> SilubiumState \<Rightarrow> Address \<Rightarrow> Vin option" where
  "coin_in t s a = (if a = tx_sender t \<and> tx_value t > 0 then Some (own_vin t) else contract_coins s a)"

definition first_from_sender :: "SilubiumTransaction \<Rightarrow> TransferInfo list \<Rightarrow> bool" where
  "first_from_sender t ts \<longleftrightarrow> (tx_value t > 0 \<longrightarrow> (case ts of [] \<Rightarrow> False | ti # _ \<Rightarrow> ti_from ti = tx_sender t))"

lemma selectionVin_loop:
  assumes "\<And>a. RBT.lookup vs a = None \<or> RBT.lookup vs a = coin_in t s a"
    "tx_value t > 0 \<longrightarrow> RBT.lookup vs (tx_sender t) \<noteq> None \<or> ts = [] \<or> ti_from (hd ts) = tx_sender t"
    "selectionVin t ts vs s = (vs', s')"
  shows "RBT.lookup vs' a = (if a \<in> participants ts then coin_in t s a else RBT.lookup vs a) \<and> contract_coins s' = contract_coins s \<and> stateUTXO s' = stateUTXO s"
  using assms
proof (induction ts arbitrary: vs s)
  case (Cons ti tis)
  define r1 where "r1 = (if \<not> rbt_count vs (ti_from ti) then
           (let (a, s) = state_vin (ti_from ti) s;
                vs = (case a of Some v \<Rightarrow> RBT.insert (ti_from ti) v vs | None \<Rightarrow> vs);
                vs = (if ti_from ti = tx_sender t \<and> tx_value t > 0 then
                        RBT.insert (ti_from ti) (own_vin t) vs else vs) in (vs, s))
         else (vs, s))"
  obtain vs1 s1 where r1: "r1 = (vs1, s1)" by (rule prod.exhaust)
  define r2 where "r2 = (if \<not> rbt_count vs1 (ti_to ti) then
           (let (a, s) = state_vin (ti_to ti) s1 in (case a of Some v \<Rightarrow> RBT.insert (ti_to ti) v vs1 | None \<Rightarrow> vs1, s)) else (vs1, s1))"
  obtain vs2 s2 where r2: "r2 = (vs2, s2)" by (rule prod.exhaust)
  have rest: "selectionVin t tis vs2 s2 = (vs', s')"
    using Cons.prems(3) r1 r2 unfolding r1_def r2_def own_vin_def by (simp add: Let_def)
  have s1: "contract_coins s1 = contract_coins s" "stateUTXO s1 = stateUTXO s"
    using r1 state_vin_coins [of "ti_from ti" s] stateUTXO_unchanged(1) [of "ti_from ti" s] unfolding r1_def
    by (auto simp: Let_def split: if_splits prod.splits)
  have vs1: "RBT.lookup vs1 = (RBT.lookup vs)(ti_from ti := coin_in t s (ti_from ti))"
    using r1 state_vin_coins [of "ti_from ti" s] Cons.prems(1) [of "ti_from ti"] unfolding r1_def
    by (auto simp: Let_def coin_in_def fun_eq_iff split: if_splits prod.splits option.splits)
  have own: "RBT.lookup vs1 (tx_sender t) \<noteq> None" if "tx_value t > 0"
    using Cons.prems(2) that unfolding vs1 by (auto simp: coin_in_def)
  have inv1: "RBT.lookup vs1 b = None \<or> RBT.lookup vs1 b = coin_in t s b" for b using Cons.prems(1) [of b] unfolding vs1 by auto
  have s2: "contract_coins s2 = contract_coins s" "stateUTXO s2 = stateUTXO s"
    using r2 s1 state_vin_coins [of "ti_to ti" s1] stateUTXO_unchanged(1) [of "ti_to ti" s1] unfolding r2_def
    by (auto simp: Let_def split: if_splits prod.splits)
  have vs2: "RBT.lookup vs2 = (RBT.lookup vs1)(ti_to ti := coin_in t s (ti_to ti))"
    using r2 s1 state_vin_coins [of "ti_to ti" s1] inv1 [of "ti_to ti"] own unfolding r2_def
    by (auto simp: Let_def coin_in_def fun_eq_iff split: if_splits prod.splits option.splits)
  have c2: "coin_in t s2 = coin_in t s" by (rule ext) (simp add: coin_in_def s2)
  have i1: "RBT.lookup vs2 b = None \<or> RBT.lookup vs2 b = coin_in t s2 b" for b using inv1 [of b] unfolding vs2 c2 by simp
  have i2: "0 < tx_value t \<longrightarrow> rbt_count vs2 (tx_sender t) \<or> tis = [] \<or> ti_from (hd tis) = tx_sender t"
    using own unfolding vs2 by (auto simp: coin_in_def)
  show ?case using Cons.IH [OF i1 i2 rest] vs1 vs2 unfolding c2 s2 by (auto simp: participants_def)
qed (auto simp: participants_def)

lemma selectionVin_coins:
  assumes "first_from_sender t ts" "selectionVin t ts RBT.empty s = (vs, s')"
  shows "RBT.lookup vs a = (if a \<in> participants ts then coin_in t s a else None)" "contract_coins s' = contract_coins s" "stateUTXO s' = stateUTXO s"
  using selectionVin_loop [OF _ _ assms(2), of a] assms(1) by (auto simp: first_from_sender_def split: list.splits)

lemma received_outside: "a \<notin> participants ts \<Longrightarrow> received ts a = 0"
  and sent_outside: "a \<notin> participants ts \<Longrightarrow> sent ts a = 0"
  unfolding received_def sent_def participants_def by (induction ts) auto

lemma flow_Cons:
  "received (ti # ts) a = (if ti_to ti = a then uint (ti_value ti) else 0) + received ts a"
  "sent (ti # ts) a = (if ti_from ti = a then uint (ti_value ti) else 0) + sent ts a"
  "a \<in> participants (ti # ts) \<longleftrightarrow> a = ti_from ti \<or> a = ti_to ti \<or> a \<in> participants ts"
  by (auto simp: received_def sent_def participants_def)

definition pm_get :: "(u256 \<times> u256) option \<Rightarrow> u256 \<times> u256" where
  "pm_get x = (case x of None \<Rightarrow> (0, 0) | Some x \<Rightarrow> x)"

lemma pm_plus:
  "RBT.lookup (case RBT.lookup pm k of None \<Rightarrow> RBT.insert k (v, 0) pm | Some (p, m) \<Rightarrow> RBT.insert k (p + v, m) pm) =
     (RBT.lookup pm)(k \<mapsto> (fst (pm_get (RBT.lookup pm k)) + v, snd (pm_get (RBT.lookup pm k))))"
  by (auto simp: pm_get_def split: option.splits)

lemma pm_minus:
  "RBT.lookup (case RBT.lookup pm k of None \<Rightarrow> RBT.insert k (0, v) pm | Some (p, m) \<Rightarrow> RBT.insert k (p, m + v) pm) =
     (RBT.lookup pm)(k \<mapsto> (fst (pm_get (RBT.lookup pm k)), snd (pm_get (RBT.lookup pm k)) + v))"
  by (auto simp: pm_get_def split: option.splits)

lemma pm_get_Some [simp]: "pm_get (Some x) = x" by (simp add: pm_get_def)

lemma calculatePlusAndMinus_loop:
  "RBT.lookup (calculatePlusAndMinus ts pm) a =
     (if a \<in> participants ts then
        Some (fst (pm_get (RBT.lookup pm a)) + of_int (received ts a), snd (pm_get (RBT.lookup pm a)) + of_int (sent ts a))
      else RBT.lookup pm a)"
proof (induction ts arbitrary: pm)
  case (Cons ti ts)
  define pm1 where "pm1 = (case RBT.lookup pm (ti_from ti) of None \<Rightarrow> RBT.insert (ti_from ti) (0, ti_value ti) pm
    | Some (p, m) \<Rightarrow> RBT.insert (ti_from ti) (p, m + ti_value ti) pm)"
  define pm2 where "pm2 = (case RBT.lookup pm1 (ti_to ti) of None \<Rightarrow> RBT.insert (ti_to ti) (ti_value ti, 0) pm1
    | Some (p, m) \<Rightarrow> RBT.insert (ti_to ti) (p + ti_value ti, m) pm1)"
  have "calculatePlusAndMinus (ti # ts) pm = calculatePlusAndMinus ts pm2" by (simp only: pm1_def pm2_def calculatePlusAndMinus.simps Let_def)
  then show ?case
    using Cons.IH [of pm2] received_outside [of a ts] sent_outside [of a ts]
    unfolding pm2_def pm_plus unfolding pm1_def pm_minus
    by (cases "a \<in> participants ts") (auto simp: flow_Cons)
qed (simp add: participants_def received_def sent_def)

lemma finite_participants [simp]: "finite (participants ts)" by (simp add: participants_def)

lemma transfers_balance: "(\<Sum>a\<in>participants ts. received ts a) = (\<Sum>a\<in>participants ts. sent ts a)"
proof -
  have "finite S \<Longrightarrow> participants ts \<subseteq> S \<Longrightarrow> (\<Sum>a\<in>S. received ts a) = (\<Sum>a\<in>S. sent ts a)" for S
  proof (induction ts)
    case (Cons ti ts)
    have "participants ts \<subseteq> S" "ti_from ti \<in> S" "ti_to ti \<in> S" using Cons.prems(2) by (auto simp: participants_def)
    then show ?case using Cons.IH Cons.prems(1) by (simp add: flow_Cons sum.distrib)
  qed (simp add: received_def sent_def)
  then show ?thesis by simp
qed

text \<open>The value an address brings: a dead coin counts unless the address is to be deleted.\<close>

definition spendable :: "(Address \<Rightarrow> bool) \<Rightarrow> Address \<Rightarrow> Vin \<Rightarrow> bool" where
  "spendable deleted a v \<longleftrightarrow> vin_alive v \<noteq> 0 \<or> \<not> deleted a"

definition worth :: "(Address \<Rightarrow> bool) \<Rightarrow> Address \<Rightarrow> Vin option \<Rightarrow> u256" where
  "worth deleted a c = (case c of None \<Rightarrow> 0 | Some v \<Rightarrow> if spendable deleted a v then vin_value v else 0)"

lemma new_balances_loop:
  assumes "distinct (map fst ps)" "\<forall>(k, p, m) \<in> set ps. m \<le> worth deleted k (RBT.lookup vs k) + p"
  shows "\<exists>vs' bs'. new_balances deleted ps vs bs = (True, vs', bs') \<and>
    (\<forall>a. RBT.lookup vs' a = (if a \<in> fst ` set ps \<and> RBT.lookup vs a = None then Some Vin_zero else RBT.lookup vs a)) \<and>
    (\<forall>a. RBT.lookup bs' a = (case map_of ps a of None \<Rightarrow> RBT.lookup bs a
       | Some (p, m) \<Rightarrow> Some (worth deleted a (RBT.lookup vs a) + p - m)))"
  using assms
proof (induction ps arbitrary: vs bs)
  case (Cons e ps)
  obtain k p m where e: "e = (k, p, m)" by (cases e)
  let ?vs = "if rbt_count vs k then vs else RBT.insert k Vin_zero vs"
  let ?w = "worth deleted k (RBT.lookup vs k)"
  have w: "worth deleted a (RBT.lookup ?vs a) = worth deleted a (RBT.lookup vs a)" for a
    by (simp add: worth_def Vin_zero_def)
  have k: "k \<notin> fst ` set ps" "map_of ps k = None" using Cons.prems(1) e by (auto simp: map_of_eq_None_iff)
  have "(if vin_alive (the (RBT.lookup ?vs k)) \<noteq> 0 \<or> (vin_alive (the (RBT.lookup ?vs k)) = 0 \<and> \<not> deleted k)
      then vin_value (the (RBT.lookup ?vs k)) else 0) = ?w"
    by (auto simp: worth_def spendable_def Vin_zero_def split: option.splits)
  moreover have "m \<le> ?w + p" using Cons.prems(2) e by simp
  ultimately have step: "new_balances deleted (e # ps) vs bs = new_balances deleted ps ?vs (RBT.insert k (?w + p - m) bs)"
    unfolding e new_balances.simps Let_def by (simp only: not_less [symmetric] if_False)
  have "\<forall>(k, p, m) \<in> set ps. m \<le> worth deleted k (RBT.lookup ?vs k) + p" using Cons.prems(2) unfolding w by auto
  then obtain vs' bs' where IH: "new_balances deleted ps ?vs (RBT.insert k (?w + p - m) bs) = (True, vs', bs')"
    "\<forall>a. RBT.lookup vs' a = (if a \<in> fst ` set ps \<and> RBT.lookup ?vs a = None then Some Vin_zero else RBT.lookup ?vs a)"
    "\<forall>a. RBT.lookup bs' a = (case map_of ps a of None \<Rightarrow> RBT.lookup (RBT.insert k (?w + p - m) bs) a
       | Some (p, m) \<Rightarrow> Some (worth deleted a (RBT.lookup vs a) + p - m))"
    using Cons.IH [of ?vs "RBT.insert k (?w + p - m) bs"] Cons.prems(1) e unfolding w by auto
  then show ?case using step k by (auto simp: e split: option.splits)
qed simp

section \<open>Outputs\<close>

abbreviation positive :: "Address \<times> u256 \<Rightarrow> bool" where
  "positive e \<equiv> snd e > 0"

definition pay :: "(u256 \<Rightarrow> CAmount) \<Rightarrow> (Address \<Rightarrow> bool) \<Rightarrow> Address \<times> u256 \<Rightarrow> CTxOut" where
  "pay to_amount contract e = \<lparr>nValue = to_amount (snd e), scriptPubKey = condensing_script contract (fst e)\<rparr>"

lemma create_vout_loop:
  assumes "create_vout to_amount contract bs count outs nv = (outs', nv', over)" "distinct (map fst bs)" "count \<le> 1000"
  shows "over \<longleftrightarrow> 1000 < count + length (filter positive bs)"
    "\<not> over \<Longrightarrow> outs' = outs @ map (pay to_amount contract) (filter positive bs)"
    "\<not> over \<Longrightarrow> i < length (filter positive bs) \<Longrightarrow> RBT.lookup nv' (fst (filter positive bs ! i)) = Some (of_nat (count + i))"
    "\<not> over \<Longrightarrow> a \<notin> fst ` set bs \<Longrightarrow> RBT.lookup nv' a = RBT.lookup nv a"
  using assms
proof (induction bs arbitrary: count outs nv i a)
  case (Cons e bs)
  obtain k b where e: "e = (k, b)" by (cases e)
  {
    case 1
    then show ?case
      using Cons.IH(1) [of count outs nv]
        Cons.IH(1) [of "Suc count" "outs @ [pay to_amount contract e]" "RBT.insert k (of_nat count) nv"]
      by (auto simp: e MAX_CONTRACT_VOUTS_def pay_def split: if_splits)
  next
    case 2
    then show ?case
      using Cons.IH(2) [of count outs nv]
        Cons.IH(2) [of "Suc count" "outs @ [pay to_amount contract e]" "RBT.insert k (of_nat count) nv"]
      by (auto simp: e MAX_CONTRACT_VOUTS_def pay_def split: if_splits)
  next
    case 3
    note prems = this
    show ?case
    proof (cases "positive e")
      case True
      then have rest: "create_vout to_amount contract bs (count + 1) (outs @ [pay to_amount contract e]) (RBT.insert k (of_nat count) nv) = (outs', nv', over)"
        and c: "count + 1 \<le> 1000"
        using prems by (auto simp: e MAX_CONTRACT_VOUTS_def pay_def split: if_splits)
      show ?thesis
      proof (cases i)
        case 0
        then show ?thesis using Cons.IH(4) [OF prems(1) _ rest, of k] prems(4) c True e by auto
      next
        case (Suc j)
        then show ?thesis using Cons.IH(3) [OF prems(1) _ rest, of j] prems(2,4) c True e by auto
      qed
    next
      case False
      then show ?thesis using prems Cons.IH(3) [of i count outs nv] by (auto simp: e MAX_CONTRACT_VOUTS_def split: if_splits)
    qed
  next
    case 4
    note prems = this
    show ?case
    proof (cases "positive e")
      case True
      then have "create_vout to_amount contract bs (count + 1) (outs @ [pay to_amount contract e]) (RBT.insert k (of_nat count) nv) = (outs', nv', over)"
        "count + 1 \<le> 1000"
        using prems by (auto simp: e MAX_CONTRACT_VOUTS_def pay_def split: if_splits)
      from Cons.IH(4) [OF prems(1) _ this(1) _ this(2)] show ?thesis using prems(2,4) e by simp
    next
      case False
      then have "create_vout to_amount contract bs count outs nv = (outs', nv', over)"
        using prems by (simp add: e MAX_CONTRACT_VOUTS_def)
      from Cons.IH(4) [OF prems(1) _ this _ prems(5)] show ?thesis using prems(2,4) by simp
    qed
  }
qed auto

section \<open>The condensing transaction\<close>

text \<open>The balance of an address after the execution.\<close>

definition closing :: "(Address \<Rightarrow> bool) \<Rightarrow> SilubiumTransaction \<Rightarrow> TransferInfo list \<Rightarrow> SilubiumState \<Rightarrow> Address \<Rightarrow> int" where
  "closing deleted t ts s a = uint (worth deleted a (coin_in t s a)) + received ts a - sent ts a"

text \<open>What the virtual machine guarantees of the transfers it records: nobody sends more than they have.\<close>

definition funded :: "(Address \<Rightarrow> bool) \<Rightarrow> SilubiumTransaction \<Rightarrow> TransferInfo list \<Rightarrow> SilubiumState \<Rightarrow> bool" where
  "funded deleted t ts s \<longleftrightarrow> first_from_sender t ts \<and>
     (\<forall>a\<in>participants ts. 0 \<le> closing deleted t ts s a \<and> uint (worth deleted a (coin_in t s a)) + received ts a < 2 ^ 256)"

lemma received_nonneg: "0 \<le> received ts a" "0 \<le> sent ts a"
  by (auto simp: received_def sent_def intro!: sum_list_nonneg)

lemma uint_u256: "0 \<le> x \<Longrightarrow> x < 2 ^ 256 \<Longrightarrow> uint (of_int x :: u256) = x"
  by (simp add: uint_word_of_int)

lemma balances_exact:
  assumes "funded deleted t ts s" "selectionVin t ts RBT.empty s = (vs, s')"
  shows "\<exists>vs' bs. new_balances deleted (RBT.entries (calculatePlusAndMinus ts RBT.empty)) vs RBT.empty = (True, vs', bs) \<and>
    RBT.entries bs = map (\<lambda>a. (a, of_int (closing deleted t ts s a))) (sorted_list_of_set (participants ts)) \<and>
    (\<forall>a. RBT.lookup vs' a = (if a \<in> participants ts then Some (case coin_in t s a of None \<Rightarrow> Vin_zero | Some v \<Rightarrow> v) else None))"
proof -
  let ?S = "participants ts" and ?w = "\<lambda>a. worth deleted a (coin_in t s a)"
  have vs: "RBT.lookup vs a = (if a \<in> ?S then coin_in t s a else None)" for a
    using selectionVin_coins [OF _ assms(2)] assms(1) by (simp add: funded_def)
  let ?ps = "map (\<lambda>a. (a, of_int (received ts a) :: u256, of_int (sent ts a) :: u256)) (sorted_list_of_set ?S)"
  have ps: "RBT.entries (calculatePlusAndMinus ts RBT.empty) = ?ps"
    by (rule entries_of_lookup) (simp_all add: calculatePlusAndMinus_loop pm_get_def)
  have fits: "of_int (sent ts a) \<le> ?w a + of_int (received ts a)" if "a \<in> ?S" for a
  proof -
    have b: "0 \<le> closing deleted t ts s a" "uint (?w a) + received ts a < 2 ^ 256" using assms(1) that by (auto simp: funded_def)
    have "0 \<le> uint (?w a) + received ts a" using received_nonneg(1) [of ts a] by simp
    note u1 = uint_u256 [OF this b(2)]
    have "sent ts a < 2 ^ 256" using b by (simp add: closing_def)
    note u2 = uint_u256 [OF received_nonneg(2) this]
    have "?w a + of_int (received ts a) = of_int (uint (?w a) + received ts a)" by simp
    then show ?thesis using b(1) u1 u2 unfolding word_le_def closing_def by simp
  qed
  have "\<forall>(k, p, m) \<in> set ?ps. m \<le> worth deleted k (RBT.lookup vs k) + p" using fits by (auto simp: vs)
  moreover have "distinct (map fst ?ps)" by (simp add: o_def)
  ultimately obtain vs' bs where nb: "new_balances deleted ?ps vs RBT.empty = (True, vs', bs)"
    "\<And>a. RBT.lookup vs' a = (if a \<in> fst ` set ?ps \<and> RBT.lookup vs a = None then Some Vin_zero else RBT.lookup vs a)"
    "\<And>a. RBT.lookup bs a = (case map_of ?ps a of None \<Rightarrow> RBT.lookup RBT.empty a | Some (p, m) \<Rightarrow> Some (worth deleted a (RBT.lookup vs a) + p - m))"
    using new_balances_loop [of ?ps deleted vs RBT.empty] by blast
  have "map_of ?ps a = (if a \<in> ?S then Some (of_int (received ts a), of_int (sent ts a)) else None)" for a
    by (simp add: map_of_map_restrict restrict_map_def)
  then have "RBT.lookup bs a = (if a \<in> ?S then Some (of_int (closing deleted t ts s a)) else None)" for a
    unfolding nb(3) by (simp add: closing_def vs)
  then have "RBT.entries bs = map (\<lambda>a. (a, of_int (closing deleted t ts s a))) (sorted_list_of_set ?S)"
    by (intro entries_of_lookup) simp_all
  moreover have "RBT.lookup vs' a = (if a \<in> ?S then Some (case coin_in t s a of None \<Rightarrow> Vin_zero | Some v \<Rightarrow> v) else None)" for a
    unfolding nb(2) by (auto simp: image_image vs split: option.splits)
  ultimately show ?thesis using nb(1) unfolding ps by blast
qed

text \<open>What the transaction spends and pays: the coin of each participant that has one, and one output for
  each participant with a balance.\<close>

definition spend :: "Vin \<Rightarrow> CTxIn" where
  "spend v = \<lparr>prevout = \<lparr>op_hash = vin_hash v, op_n = vin_nVout v\<rparr>, scriptSig = [0xc3], nSequence = SEQUENCE_FINAL, scriptWitness = []\<rparr>"

definition spenders :: "(Address \<Rightarrow> bool) \<Rightarrow> SilubiumTransaction \<Rightarrow> TransferInfo list \<Rightarrow> SilubiumState \<Rightarrow> Address list" where
  "spenders deleted t ts s = filter (\<lambda>a. worth deleted a (coin_in t s a) > 0) (sorted_list_of_set (participants ts))"

definition payees :: "(Address \<Rightarrow> bool) \<Rightarrow> SilubiumTransaction \<Rightarrow> TransferInfo list \<Rightarrow> SilubiumState \<Rightarrow> Address list" where
  "payees deleted t ts s = filter (\<lambda>a. closing deleted t ts s a > 0) (sorted_list_of_set (participants ts))"

lemma condensing_totals:
  assumes "\<forall>a\<in>participants ts. 0 \<le> closing deleted t ts s a"
  shows "sum_list (map (closing deleted t ts s) (payees deleted t ts s)) =
    sum_list (map (\<lambda>a. uint (worth deleted a (coin_in t s a))) (spenders deleted t ts s))"
proof -
  have pos: "sum_list (map f (filter (\<lambda>a. f a > 0) (sorted_list_of_set S))) = (\<Sum>a\<in>S. f a)"
    if "finite S" "\<forall>a\<in>S. 0 \<le> f a" for f :: "Address \<Rightarrow> int" and S
  proof -
    have "sum_list (map f (filter (\<lambda>a. f a > 0) (sorted_list_of_set S))) = (\<Sum>a\<in>{a\<in>S. f a > 0}. f a)"
      using that(1) by (simp add: sum_list_distinct_conv_sum_set Int_def conj_commute)
    also have "\<dots> = (\<Sum>a\<in>S. f a)" using that by (intro sum.mono_neutral_left) force+
    finally show ?thesis .
  qed
  have "spenders deleted t ts s = filter (\<lambda>a. uint (worth deleted a (coin_in t s a)) > 0) (sorted_list_of_set (participants ts))"
    by (simp add: spenders_def word_less_def)
  then show ?thesis
    using pos [of "participants ts" "closing deleted t ts s"] pos [of "participants ts" "\<lambda>a. uint (worth deleted a (coin_in t s a))"]
      assms transfers_balance [of ts]
    by (simp add: payees_def closing_def sum.distrib sum_subtractf)
qed

lemma createVins_spend:
  assumes "\<And>a. RBT.lookup vs a = (if a \<in> participants ts then Some (case coin_in t s a of None \<Rightarrow> Vin_zero | Some v \<Rightarrow> v) else None)"
  shows "createVins deleted vs = map (\<lambda>a. spend (the (coin_in t s a))) (spenders deleted t ts s)"
proof -
  let ?v = "\<lambda>a. case coin_in t s a of None \<Rightarrow> Vin_zero | Some v \<Rightarrow> v"
  have "RBT.entries vs = map (\<lambda>a. (a, ?v a)) (sorted_list_of_set (participants ts))"
    by (rule entries_of_lookup) (simp_all add: assms)
  moreover have "(0 < vin_value (?v a) \<and> vin_alive (?v a) \<noteq> 0 \<or> 0 < vin_value (?v a) \<and> vin_alive (?v a) = 0 \<and> \<not> deleted a) \<longleftrightarrow>
      0 < worth deleted a (coin_in t s a)" for a
    by (auto simp: worth_def spendable_def Vin_zero_def split: option.splits)
  ultimately have "createVins deleted vs = map (\<lambda>a. spend (?v a)) (spenders deleted t ts s)"
    by (simp add: createVins_def spenders_def filter_map o_def spend_def h256Touint_def push_opcode_def)
  also have "\<dots> = map (\<lambda>a. spend (the (coin_in t s a))) (spenders deleted t ts s)"
    by (auto simp: spenders_def worth_def split: option.splits)
  finally show ?thesis .
qed

definition condensed :: "(Address \<Rightarrow> bool) \<Rightarrow> (Address \<Rightarrow> bool) \<Rightarrow> SilubiumTransaction \<Rightarrow> TransferInfo list \<Rightarrow> SilubiumState \<Rightarrow> CTransaction" where
  "condensed contract deleted t ts s =
     \<lparr>vin = map (\<lambda>a. spend (the (coin_in t s a))) (spenders deleted t ts s),
      vout = map (\<lambda>a. \<lparr>nValue = closing deleted t ts s a, scriptPubKey = condensing_script contract a\<rparr>) (payees deleted t ts s),
      nVersion = 2, nLockTime = 0\<rparr>"

lemma condensing_empty_iff:
  assumes "\<forall>a\<in>participants ts. 0 \<le> closing deleted t ts s a"
  shows "spenders deleted t ts s = [] \<longleftrightarrow> payees deleted t ts s = []"
proof -
  have pos: "0 < sum_list (map f xs)" if "\<forall>x\<in>set xs. f x > 0" "xs \<noteq> []" for f :: "Address \<Rightarrow> int" and xs
    using that by (induction xs) (auto intro!: add_pos_nonneg sum_list_nonneg simp: less_imp_le)
  have "\<forall>a\<in>set (payees deleted t ts s). closing deleted t ts s a > 0" by (simp add: payees_def)
  note p = pos [OF this]
  have "\<forall>a\<in>set (spenders deleted t ts s). uint (worth deleted a (coin_in t s a)) > 0" by (simp add: spenders_def word_less_def)
  note q = pos [OF this]
  show ?thesis
  proof
    assume "spenders deleted t ts s = []"
    then have "sum_list (map (closing deleted t ts s) (payees deleted t ts s)) = 0" using condensing_totals [OF assms] by simp
    then show "payees deleted t ts s = []" using p by (cases "payees deleted t ts s = []") simp_all
  next
    assume "payees deleted t ts s = []"
    then have "sum_list (map (\<lambda>a. uint (worth deleted a (coin_in t s a))) (spenders deleted t ts s)) = 0" using condensing_totals [OF assms] by simp
    then show "spenders deleted t ts s = []" using q by (cases "spenders deleted t ts s = []") simp_all
  qed
qed

lemma createCondensingTX_exact:
  assumes "funded deleted t ts s" "\<forall>v. uint v < 2 ^ 63 \<longrightarrow> to_amount v = uint v" "\<forall>a\<in>participants ts. closing deleted t ts s a < 2 ^ 63"
    "createCondensingTX to_amount contract deleted t ts s = (tx, ctx, s')"
  shows "contract_coins s' = contract_coins s" "stateUTXO s' = stateUTXO s"
    "voutOverflow ctx \<longleftrightarrow> 1000 < length (payees deleted t ts s)"
    "RBT.entries (balances ctx) = map (\<lambda>a. (a, of_int (closing deleted t ts s a))) (sorted_list_of_set (participants ts))"
    "\<not> voutOverflow ctx \<Longrightarrow> tx = condensed contract deleted t ts s"
    "\<not> voutOverflow ctx \<Longrightarrow> i < length (payees deleted t ts s) \<Longrightarrow> RBT.lookup (nVouts ctx) (payees deleted t ts s ! i) = Some (of_nat i)"
proof -
  let ?S = "sorted_list_of_set (participants ts)" and ?c = "closing deleted t ts s"
  obtain vs s1 where sel: "selectionVin t ts RBT.empty s = (vs, s1)" by (rule prod.exhaust)
  obtain vs' bs where bal: "new_balances deleted (RBT.entries (calculatePlusAndMinus ts RBT.empty)) vs RBT.empty = (True, vs', bs)"
    "RBT.entries bs = map (\<lambda>a. (a, of_int (?c a))) ?S"
    "\<And>a. RBT.lookup vs' a = (if a \<in> participants ts then Some (case coin_in t s a of None \<Rightarrow> Vin_zero | Some v \<Rightarrow> v) else None)"
    using balances_exact [OF assms(1) sel] by blast
  obtain outs nv over where out: "create_vout to_amount contract (RBT.entries bs) 0 [] RBT.empty = (outs, nv, over)" by (metis prod.exhaust)
  have nonneg: "\<forall>a\<in>participants ts. 0 \<le> ?c a" using assms(1) by (simp add: funded_def)
  have c: "uint (of_int (?c a) :: u256) = ?c a" if "a \<in> participants ts" for a
    using that nonneg assms(3) by (intro uint_u256) fastforce+
  then have "(0 < (of_int (?c a) :: u256)) = (0 < ?c a)" if "a \<in> participants ts" for a using that by (simp add: word_less_def)
  then have pos: "filter positive (RBT.entries bs) = map (\<lambda>a. (a, of_int (?c a))) (payees deleted t ts s)"
    unfolding bal(2) payees_def filter_map o_def snd_conv by (intro arg_cong [where f = "map _"] filter_cong) auto
  have pay: "map (pay to_amount contract) (filter positive (RBT.entries bs)) = vout (condensed contract deleted t ts s)"
    using c assms(2,3) unfolding pos condensed_def by (auto simp: pay_def payees_def)
  have distinct: "distinct (map fst (RBT.entries bs))" by (rule RBT.distinct_entries)
  note vouts = create_vout_loop [OF out distinct]
  have ins: "createVins deleted vs' = vin (condensed contract deleted t ts s)"
    using createVins_spend [OF bal(3)] by (simp add: condensed_def)
  have empty: "vin (condensed contract deleted t ts s) = [] \<longleftrightarrow> vout (condensed contract deleted t ts s) = []"
    using condensing_empty_iff [OF nonneg] by (simp add: condensed_def)
  have res: "tx = (if createVins deleted vs' = [] \<or> outs = [] then CTransaction_empty else CTransaction_empty\<lparr>vin := createVins deleted vs', vout := outs\<rparr>)"
    "balances ctx = bs" "nVouts ctx = nv" "voutOverflow ctx = over" "s' = s1"
    using assms(4) sel bal(1) out by (auto simp: createCondensingTX_def Let_def)
  show "contract_coins s' = contract_coins s" "stateUTXO s' = stateUTXO s"
    using selectionVin_coins(2,3) [OF _ sel] assms(1) res(5) by (auto simp: funded_def)
  show "voutOverflow ctx \<longleftrightarrow> 1000 < length (payees deleted t ts s)" using vouts(1) pos res(4) by simp
  show "RBT.entries (balances ctx) = map (\<lambda>a. (a, of_int (?c a))) ?S" using bal(2) res(2) by simp
  show "tx = condensed contract deleted t ts s" if "\<not> voutOverflow ctx"
    using vouts(2) that res(1,4) ins empty pay by (auto simp: CTransaction_empty_def condensed_def)
  show "RBT.lookup (nVouts ctx) (payees deleted t ts s ! i) = Some (of_nat i)" if "\<not> voutOverflow ctx" "i < length (payees deleted t ts s)"
    using vouts(3) [of i] that res(3,4) pos by simp
qed

section \<open>The new coins\<close>

lemma stateUTXO_folds: "stateUTXO (deleteAccounts D s) = stateUTXO s" "stateUTXO (updateUTXO vs s) = stateUTXO s"
proof -
  show "stateUTXO (deleteAccounts D s) = stateUTXO s"
    unfolding deleteAccounts_def by (induction D arbitrary: s) (simp_all add: stateUTXO_unchanged)
  have "stateUTXO (fold update_vin es s) = stateUTXO s" for es
    by (induction es arbitrary: s) (simp_all add: stateUTXO_unchanged)
  then show "stateUTXO (updateUTXO vs s) = stateUTXO s" by (simp add: updateUTXO_def)
qed

lemma map_of_participants:
  "map_of (map (\<lambda>a. (a, f a)) (sorted_list_of_set (participants ts))) a = (if a \<in> participants ts then Some (f a) else None)"
  by (simp add: map_of_map_restrict restrict_map_def)

definition new_vin :: "(byte list \<Rightarrow> uint256) \<Rightarrow> CTransaction \<Rightarrow> CondensingTX \<Rightarrow> Address \<Rightarrow> u256 \<Rightarrow> Vin" where
  "new_vin H tx ctx a b =
     (if b > 0 then \<lparr>vin_hash = ComputeHash H tx, vin_nVout = (case RBT.lookup (nVouts ctx) a of Some n \<Rightarrow> n | None \<Rightarrow> 0), vin_value = b, vin_alive = 1\<rparr>
      else \<lparr>vin_hash = ComputeHash H tx, vin_nVout = 0, vin_value = 0, vin_alive = 0\<rparr>)"

lemma createVin_lookup:
  "RBT.lookup (createVin H t tx ctx) a =
     (if a = tx_sender t then None else map_option (new_vin H tx ctx a) (RBT.lookup (balances ctx) a))"
proof -
  have "RBT.lookup (fold (\<lambda>(a, b) vs. if a = tx_sender t then vs else RBT.insert a (new_vin H tx ctx a b) vs) es vs) a =
      (if a = tx_sender t then RBT.lookup vs a
       else case map_of es a of None \<Rightarrow> RBT.lookup vs a | Some b \<Rightarrow> Some (new_vin H tx ctx a b))"
    if "distinct (map fst es)" for es vs
    using that
  proof (induction es arbitrary: vs)
    case (Cons e es)
    obtain k b where e: "e = (k, b)" by (cases e)
    have "map_of es k = None" using Cons.prems e by (simp add: map_of_eq_None_iff)
    then show ?case using Cons.IH Cons.prems e by (auto split: option.splits)
  qed simp
  from this [OF RBT.distinct_entries, of "balances ctx" RBT.empty] show ?thesis
    by (simp add: createVin_def new_vin_def uintToh256_def if_distrib [of "\<lambda>v. RBT.insert _ v _"] split: option.splits cong: if_cong)
qed

lemma committed_coins:
  assumes "trie_live s" "tx_sender t \<in> set D"
    "RBT.entries (balances ctx) = map (\<lambda>a. (a, of_int (f a))) (sorted_list_of_set (participants ts))"
    "contract_coins s2 = contract_coins (deleteAccounts D s)" "stateUTXO s2 = stateUTXO (deleteAccounts D s)"
  shows "contract_coins (commit_utxo (updateUTXO (createVin H t tx ctx) s2)) a = (if a = tx_sender t then None else
      if a \<in> participants ts then live (Some (new_vin H tx ctx a (of_int (f a))))
      else if a \<in> set D then None else live (contract_coins s a))"
proof -
  have "contract_coins (commit_utxo (updateUTXO (createVin H t tx ctx) s2)) a = live (contract_coins (updateUTXO (createVin H t tx ctx) s2) a)"
    by (rule commit_utxo_coins) (use assms(1,5) in \<open>simp add: trie_live_def stateUTXO_folds\<close>)
  moreover have "RBT.lookup (balances ctx) a = (if a \<in> participants ts then Some (of_int (f a)) else None)"
    using assms(3) unfolding RBT.map_of_entries [symmetric] by (simp only: map_of_participants)
  moreover have "live (contract_coins s2 a) = (if a \<in> set D then None else live (contract_coins s a))"
    unfolding assms(4) deleteAccounts_coins by (auto simp: live_def split: option.splits)
  ultimately show ?thesis
    using assms(2) unfolding updateUTXO_coins createVin_lookup
    by (cases "a = tx_sender t"; cases "a \<in> participants ts") simp_all
qed

text \<open>C6: contracts keep exact books.  For transfers the virtual machine can record, nobody sending more than
  they have, the condensing transaction spends the coin of every participant that brings one, pays
  every participant its closing balance in one output, and its outputs sum to its inputs.  It is
  refused exactly when it would have more than 1000 outputs.  Afterwards the coin recorded for a
  participant is its output of this transaction, participants without a balance, the sender and the
  addresses to be deleted have none, and all other coins are untouched.\<close>

theorem condense_exact:
  fixes t ts s D contract
  defines "s1 \<equiv> deleteAccounts D s" and "deleted \<equiv> \<lambda>a. a \<in> set D"
  assumes "funded deleted t ts s1" and "trie_live s" and "tx_sender t \<in> set D"
    and "\<forall>v. uint v < 2 ^ 63 \<longrightarrow> to_amount v = uint v" and "\<forall>a\<in>participants ts. closing deleted t ts s1 a < 2 ^ 63"
  shows "if length (payees deleted t ts s1) > 1000 then condense H to_amount contract D t ts s = None
    else \<exists>tx s'. condense H to_amount contract D t ts s = Some (tx, s') \<and> tx = condensed contract deleted t ts s1 \<and>
      sum_list (map nValue (vout tx)) = sum_list (map (\<lambda>a. uint (worth deleted a (coin_in t s1 a))) (spenders deleted t ts s1)) \<and>
      (\<forall>i<length (vout tx). payees deleted t ts s1 ! i \<noteq> tx_sender t \<longrightarrow>
         contract_coins s' (payees deleted t ts s1 ! i) =
           Some \<lparr>vin_hash = ComputeHash H tx, vin_nVout = of_nat i, vin_value = of_int (nValue (vout tx ! i)), vin_alive = 1\<rparr>) \<and>
      (\<forall>a. a = tx_sender t \<or> a \<notin> set (payees deleted t ts s1) \<longrightarrow>
         contract_coins s' a = (if a \<in> set D \<union> participants ts then None else live (contract_coins s a)))"
proof -
  obtain tx ctx s2 where cc: "createCondensingTX to_amount contract deleted t ts s1 = (tx, ctx, s2)" by (metis prod.exhaust)
  note exact = createCondensingTX_exact [OF assms(3,6,7) cc]
  define s' where "s' = commit_utxo (updateUTXO (createVin H t tx ctx) s2)"
  have run: "condense H to_amount contract D t ts s = (if voutOverflow ctx then None else Some (tx, s'))"
    using cc by (simp add: condense_def s1_def deleted_def s'_def)
  have nonneg: "\<forall>a\<in>participants ts. 0 \<le> closing deleted t ts s1 a" using assms(3) by (simp add: funded_def)
  have coins: "contract_coins s' a = (if a = tx_sender t then None else
      if a \<in> participants ts then live (Some (new_vin H tx ctx a (of_int (closing deleted t ts s1 a))))
      else if a \<in> set D then None else live (contract_coins s a))" for a
    unfolding s'_def by (rule committed_coins [OF assms(4,5) exact(4) exact(1) [unfolded s1_def] exact(2) [unfolded s1_def]])
  show ?thesis
  proof (cases "voutOverflow ctx")
    case True
    then show ?thesis using run exact(3) by simp
  next
    case False
    have tx: "tx = condensed contract deleted t ts s1" by (rule exact(5) [OF False])
    let ?P = "payees deleted t ts s1"
    have out: "nValue (vout tx ! i) = closing deleted t ts s1 (?P ! i)" if "i < length ?P" for i using that by (simp add: tx condensed_def)
    have len: "length (vout tx) = length ?P" by (simp add: tx condensed_def)
    have P: "set ?P = {a \<in> participants ts. closing deleted t ts s1 a > 0}" by (auto simp: payees_def)
    have zero: "of_int (closing deleted t ts s1 a) = (0 :: u256) \<longleftrightarrow> closing deleted t ts s1 a = 0" if "a \<in> participants ts" for a
      using that nonneg assms(7) uint_u256 [of "closing deleted t ts s1 a"] by (fastforce simp: word_uint_eq_iff)
    have "sum_list (map nValue (vout tx)) = sum_list (map (closing deleted t ts s1) ?P)" by (simp add: tx condensed_def o_def)
    moreover have "contract_coins s' (?P ! i) =
        Some \<lparr>vin_hash = ComputeHash H tx, vin_nVout = of_nat i, vin_value = of_int (nValue (vout tx ! i)), vin_alive = 1\<rparr>"
      if i: "i < length (vout tx)" "?P ! i \<noteq> tx_sender t" for i
    proof -
      have "?P ! i \<in> participants ts" "closing deleted t ts s1 (?P ! i) > 0" using i(1) len P nth_mem [of i ?P] by auto
      then show ?thesis
        using i len coins [of "?P ! i"] zero exact(6) [OF False, of i] by (simp add: new_vin_def live_def out word_neq_0_conv [symmetric])
    qed
    moreover have "contract_coins s' a = (if a \<in> set D \<union> participants ts then None else live (contract_coins s a))"
      if "a = tx_sender t \<or> a \<notin> set ?P" for a
      using that coins [of a] nonneg P assms(5) by (auto simp: new_vin_def live_def dest: order_antisym)
    ultimately show ?thesis using run False tx exact(3) condensing_totals [OF nonneg] by simp
  qed
qed

definition sample_call :: SilubiumTransaction where
  "sample_call = \<lparr>tx_sender = [1], tx_value = 5, tx_hashWith = replicate 32 7, tx_nVout = 1\<rparr>"

definition sample_transfers :: "TransferInfo list" where
  "sample_transfers = [\<lparr>ti_from = [1], ti_to = [2], ti_value = 5\<rparr>, \<lparr>ti_from = [2], ti_to = [3], ti_value = 4\<rparr>]"

definition sample_contracts :: SilubiumState where
  "sample_contracts = \<lparr>cacheUTXO = RBT.empty,
     stateUTXO = RBT.insert [2] \<lparr>vin_hash = replicate 32 9, vin_nVout = 0, vin_value = 7, vin_alive = 1\<rparr> RBT.empty\<rparr>"

definition sample_deleted :: "Address list" where
  "sample_deleted = [[1], [3]]"

abbreviation sample_state :: SilubiumState where
  "sample_state \<equiv> deleteAccounts sample_deleted sample_contracts"

lemma sample_participants: "sorted_list_of_set (participants sample_transfers) = [[1], [2], [3]]"
  "participants sample_transfers = {[1], [2], [3]}"
  by (code_simp, simp add: participants_def sample_transfers_def insert_commute)

lemma sample_call_sel: "tx_sender sample_call = [1]" "tx_value sample_call = 5" by (simp_all add: sample_call_def)

lemma sample_coins:
  "coin_in sample_call sample_state [1] = Some (own_vin sample_call)"
  "coin_in sample_call sample_state [2] = Some \<lparr>vin_hash = replicate 32 9, vin_nVout = 0, vin_value = 7, vin_alive = 1\<rparr>"
  "coin_in sample_call sample_state [3] = None"
  unfolding coin_in_def deleteAccounts_coins sample_call_sel
  by (simp_all add: contract_coins_def sample_contracts_def sample_deleted_def)

lemma sample_worth:
  "worth (\<lambda>a. a \<in> set sample_deleted) [1] (Some (own_vin sample_call)) = 5"
  "worth (\<lambda>a. a \<in> set sample_deleted) [2] (Some \<lparr>vin_hash = replicate 32 9, vin_nVout = 0, vin_value = 7, vin_alive = 1\<rparr>) = 7"
  "worth (\<lambda>a. a \<in> set sample_deleted) [3] None = 0"
  by (simp_all add: worth_def spendable_def own_vin_def sample_call_sel)

lemma sample_flow:
  "received sample_transfers [1] = 0" "sent sample_transfers [1] = 5"
  "received sample_transfers [2] = 5" "sent sample_transfers [2] = 4"
  "received sample_transfers [3] = 4" "sent sample_transfers [3] = 0"
  by (simp_all add: received_def sent_def sample_transfers_def)

lemmas sample_values = sample_participants sample_coins sample_worth sample_flow closing_def

lemma sample_funded: "funded (\<lambda>a. a \<in> set sample_deleted) sample_call sample_transfers sample_state"
  by (simp add: funded_def sample_values, simp add: first_from_sender_def sample_call_def sample_transfers_def)

lemma sample_condensed:
  "payees (\<lambda>a. a \<in> set sample_deleted) sample_call sample_transfers sample_state = [[2], [3]]"
  "spenders (\<lambda>a. a \<in> set sample_deleted) sample_call sample_transfers sample_state = [[1], [2]]"
  by (simp_all add: payees_def spenders_def sample_values)

theorem condense_exact_witness:
  "\<exists>tx s'. condense sample_hash uint (\<lambda>a. a = [2]) sample_deleted sample_call sample_transfers sample_contracts = Some (tx, s') \<and>
     map nValue (vout tx) = [8, 4] \<and> length (vin tx) = 2 \<and>
     contract_coins s' [2] = Some \<lparr>vin_hash = ComputeHash sample_hash tx, vin_nVout = 0, vin_value = 8, vin_alive = 1\<rparr> \<and>
     contract_coins s' [1] = None"
proof -
  have "trie_live sample_contracts" "tx_sender sample_call \<in> set sample_deleted"
    by (simp_all add: trie_live_def sample_contracts_def sample_call_def sample_deleted_def)
  moreover have "\<forall>a\<in>participants sample_transfers. closing (\<lambda>a. a \<in> set sample_deleted) sample_call sample_transfers sample_state a < 2 ^ 63"
    by (simp add: sample_values)
  ultimately obtain tx s' where r: "condense sample_hash uint (\<lambda>a. a = [2]) sample_deleted sample_call sample_transfers sample_contracts = Some (tx, s')"
    "tx = condensed (\<lambda>a. a = [2]) (\<lambda>a. a \<in> set sample_deleted) sample_call sample_transfers sample_state"
    "\<forall>i<length (vout tx). [[2], [3]] ! i \<noteq> tx_sender sample_call \<longrightarrow> contract_coins s' ([[2], [3]] ! i) =
       Some \<lparr>vin_hash = ComputeHash sample_hash tx, vin_nVout = of_nat i, vin_value = of_int (nValue (vout tx ! i)), vin_alive = 1\<rparr>"
    "\<forall>a. a = tx_sender sample_call \<or> a \<notin> set [[2], [3]] \<longrightarrow> contract_coins s' a =
       (if a \<in> set sample_deleted \<union> participants sample_transfers then None else live (contract_coins sample_contracts a))"
    using condense_exact [OF sample_funded, of uint sample_hash "\<lambda>a. a = [2]"] unfolding sample_condensed by auto
  have out: "map nValue (vout tx) = [8, 4]" "length (vin tx) = 2"
    unfolding r(2) condensed_def by (simp_all add: sample_condensed sample_values)
  then have "length (vout tx) = 2" "nValue (vout tx ! 0) = 8" by (auto dest: arg_cong [where f = length])
  then show ?thesis
    using r(1) out spec [OF r(3), of 0] spec [OF r(4), of "[1]"] by (auto simp: sample_call_def sample_participants)
qed

end
