(* ===== verification/Tx_Locks.thy ===== *)
theory Tx_Locks
  imports Tx_Verify
begin

unbundle bit_operations_syntax

text \<open>Relative lock times: the code's lock pair against the rule of each input.\<close>

abbreviation median_past :: "index_store \<Rightarrow> ptr \<Rightarrow> int" where
  "median_past st p \<equiv> median (past_times st 11 (Some p))"

abbreviation lock_disabled :: "CTxIn \<Rightarrow> bool" where
  "lock_disabled i \<equiv> nSequence i AND SEQUENCE_LOCKTIME_DISABLE_FLAG \<noteq> 0"

abbreviation lock_value :: "CTxIn \<Rightarrow> int" where
  "lock_value i \<equiv> uint (nSequence i AND SEQUENCE_LOCKTIME_MASK)"

text \<open>The lock of one input of a coin created at height \<open>h\<close>, for a block at height \<open>H\<close> whose predecessor
  has median time \<open>T\<close>: a number of blocks since the coin, or of 512 second units since the median
  time before the coin's block.\<close>

definition lock_ok :: "index_store \<Rightarrow> ptr \<Rightarrow> int \<Rightarrow> int \<Rightarrow> CTxIn \<times> int \<Rightarrow> bool" where
  "lock_ok st p H T ih = (case ih of (i, h) \<Rightarrow> lock_disabled i \<or>
     (if nSequence i AND SEQUENCE_LOCKTIME_TYPE_FLAG \<noteq> 0
      then median_past st (the (anc st p (nat (max (h - 1) 0)))) + 512 * lock_value i \<le> T
      else h + lock_value i \<le> H))"

lemma lock_seconds: "uint (push_bit SEQUENCE_LOCKTIME_GRANULARITY (s AND SEQUENCE_LOCKTIME_MASK)) = 512 * uint (s AND SEQUENCE_LOCKTIME_MASK)"
proof -
  have "s AND SEQUENCE_LOCKTIME_MASK = take_bit 16 s" unfolding SEQUENCE_LOCKTIME_MASK_def take_bit_eq_mask by (simp add: mask_eq_exp_minus_1)
  then have "uint (s AND SEQUENCE_LOCKTIME_MASK) < 2 ^ 16" "0 \<le> uint (s AND SEQUENCE_LOCKTIME_MASK)" using take_bit_int_less_exp [of 16 "uint s"] by (simp_all add: unsigned_take_bit_eq)
  then show ?thesis
    unfolding SEQUENCE_LOCKTIME_GRANULARITY_def unsigned_push_bit_eq push_bit_eq_mult [of _ "uint _"]
    by (subst take_bit_int_eq_self) simp_all
qed

lemma GetMedianTimePast_median: "linked st \<Longrightarrow> st p = Some b \<Longrightarrow> GetMedianTimePast st p = Inr (median_past st p)"
  using GetMedianTimePast_past by (simp add: median_def)

lemma sequence_locks_loop_ok:
  assumes "index_ok st" "st p = Some b" "\<forall>ih\<in>set ins. snd ih \<le> int (nHeight b)"
  shows "\<exists>mh' mt'. sequence_locks_loop st p ins mh mt =
      Inr ((mh', mt'), map (\<lambda>(i, h). if lock_disabled i then 0 else h) ins) \<and>
    (\<forall>H T. mh' < H \<and> mt' < T \<longleftrightarrow> mh < H \<and> mt < T \<and> (\<forall>ih\<in>set ins. lock_ok st p H T ih))"
  using assms(3)
proof (induction ins arbitrary: mh mt)
  case (Cons ih ins)
  obtain i h where ih: "ih = (i, h)" by (cases ih)
  have tl: "\<forall>ih\<in>set ins. snd ih \<le> int (nHeight b)" using Cons.prems by simp
  note IH = Cons.IH [OF tl]
  show ?case
  proof (cases "lock_disabled i")
    case True
    then show ?thesis using IH [of mh mt] by (auto simp: ih lock_ok_def [of _ _ _ _ "(i, h)"])
  next
    case False
    note enabled = this
    show ?thesis
    proof (cases "nSequence i AND SEQUENCE_LOCKTIME_TYPE_FLAG \<noteq> 0")
      case True
      have l: "linked st" using assms(1) by (simp add: index_ok_def)
      have "nat (max (h - 1) 0) \<le> nHeight b" using Cons.prems ih by auto
      then obtain q c where q: "anc st p (nat (max (h - 1) 0)) = Some q" "st q = Some c" using anc_Some [OF l assms(2)] by blast
      show ?thesis
        using IH [of mh "max mt (median_past st q + 512 * lock_value i - 1)"] enabled True q
        by (auto simp: ih GetAncestor_anc [OF assms(1,2)] GetMedianTimePast_median [OF l q(2)] lock_seconds lock_ok_def [of _ _ _ _ "(i, h)"] simp del: push_bit_and)
    next
      case False
      show ?thesis using IH [of "max mh (h + lock_value i - 1)" mt] enabled False by (auto simp: ih lock_ok_def [of _ _ _ _ "(i, h)"])
    qed
  qed
qed simp

text \<open>The lock times bind transactions of version 2 and later, read as unsigned, where the flag asks for it.\<close>

definition locks_enforced :: "CTransaction \<Rightarrow> u32 \<Rightarrow> bool" where
  "locks_enforced tx fl \<longleftrightarrow> 2 \<le> uint (of_int (nVersion tx) :: u32) \<and> fl AND 1 \<noteq> 0"

lemma past_times_nonneg: "\<forall>t\<in>set (past_times st n p). 0 \<le> t"
proof (induction n arbitrary: p)
  case (Suc n)
  then show ?case by (auto simp: GetBlockTime_def split: option.splits)
qed simp

lemma median_past_nonneg: "st p = Some b \<Longrightarrow> 0 \<le> median_past st p"
proof -
  assume "st p = Some b"
  then have "past_times st 11 (Some p) \<noteq> []" by (simp add: eval_nat_numeral)
  then have "median_past st p \<in> set (past_times st 11 (Some p))"
    using nth_mem [of "length (past_times st 11 (Some p)) div 2" "sort (past_times st 11 (Some p))"] by (simp add: median_def)
  then show ?thesis using past_times_nonneg by blast
qed

lemma SequenceLocks_cases:
  assumes "index_ok st" "st p = Some b" "pprev b = Some q" "length hs = length (vin tx)" "\<forall>h\<in>set hs. h \<le> int (nHeight b)"
  shows "\<exists>hs'. SequenceLocks st tx fl hs p =
    Inr (locks_enforced tx fl \<longrightarrow> (\<forall>ih\<in>set (zip (vin tx) hs). lock_ok st p (int (nHeight b)) (median_past st q) ih), hs')"
proof -
  have l: "linked st" using assms(1) by (simp add: index_ok_def)
  obtain c where c: "st q = Some c" using linked_prev [OF l assms(2,3)] by auto
  have in_range: "\<forall>ih\<in>set (zip (vin tx) hs). snd ih \<le> int (nHeight b)" using assms(5) by (auto dest: set_zip_rightD)
  have e: "locks_enforced tx fl \<longleftrightarrow> (of_int (nVersion tx) :: u32) \<ge> 2 \<and> fl AND LOCKTIME_VERIFY_SEQUENCE \<noteq> 0"
    by (simp add: locks_enforced_def LOCKTIME_VERIFY_SEQUENCE_def word_le_def)
  have m: "0 \<le> median_past st q" using median_past_nonneg [of st q c] c by simp
  obtain mh mt where loop: "sequence_locks_loop st p (zip (vin tx) hs) (- 1) (- 1) =
      Inr ((mh, mt), map (\<lambda>(i, h). if lock_disabled i then 0 else h) (zip (vin tx) hs))"
    "\<forall>H T. mh < H \<and> mt < T \<longleftrightarrow> - 1 < H \<and> - 1 < T \<and> (\<forall>ih\<in>set (zip (vin tx) hs). lock_ok st p H T ih)"
    using sequence_locks_loop_ok [OF assms(1,2) in_range] by blast
  have ev: "EvaluateSequenceLocks st p (x, y) = Inr (x < int (nHeight b) \<and> y < median_past st q)" for x y
    using assms(2,3) c by (auto simp: EvaluateSequenceLocks_def deref_def GetMedianTimePast_median [OF l c])
  show ?thesis
    using assms(4) loop(1) spec [OF spec [OF loop(2), of "int (nHeight b)"], of "median_past st q"] m
    by (cases "locks_enforced tx fl") (auto simp: SequenceLocks_def CalculateSequenceLocks_def ev e [symmetric] Let_def guardE_def)
qed

lemma lock_ok_later: "lock_ok st p H T ih \<Longrightarrow> H \<le> H' \<Longrightarrow> T \<le> T' \<Longrightarrow> lock_ok st p H' T' ih"
  by (auto simp: lock_ok_def split: prod.splits if_splits)

lemma lock_ok_child:
  assumes "linked st" "st p = Some b" "pprev b = Some q" "st q = Some c" "snd ih \<le> int (nHeight c)"
  shows "lock_ok st p H T ih = lock_ok st q H T ih"
proof -
  obtain i h where ih: "ih = (i, h)" by (cases ih)
  have "nat (max (h - 1) 0) < nHeight b" using assms(5) linked_prev [OF assms(1-3)] assms(4) ih by auto
  then show ?thesis using anc_prev [OF assms(1-3)] by (simp add: lock_ok_def ih)
qed


definition sample_locked :: CTransaction where
  "sample_locked = \<lparr>vin = [\<lparr>prevout = COutPoint_SetNull, scriptSig = [], nSequence = 2, scriptWitness = []\<rparr>],
     vout = [], nVersion = 2, nLockTime = 0\<rparr>"

lemma sample_locks:
  "lock_ok sample_store 3 3 (median_past sample_store 2) (vin sample_locked ! 0, 1)"
  "\<not> lock_ok sample_store 3 3 (median_past sample_store 2) (vin sample_locked ! 0, 2)"
  "locks_enforced sample_locked 1" "median_past sample_store 2 \<le> 40"
  by code_simp+

lemma sample_locked_vin: "vin sample_locked = [vin sample_locked ! 0]" by (simp add: sample_locked_def)


end
