(* ===== verification/Sighash.thy ===== *)
theory Sighash
  imports Tx_Locks
begin

unbundle bit_operations_syntax

text \<open>
  \<open>script/interpreter.cpp\<close>: the hash a signature covers, and the checker of signatures and lock times of
  one input of a transaction.  The double hash \<open>H\<close> and the verification of a signature on a hash,
  which are cryptography, are arguments.
\<close>

section \<open>The serialisation that is signed\<close>

text \<open>The script code is written without its \<open>OP_CODESEPARATOR\<close>s.  Iterators are the rest of the
  script.\<close>

function count_separators :: "CScript \<Rightarrow> nat" where
  "count_separators it =
     (case GetScriptOp it of
        Inl _ \<Rightarrow> 0
      | Inr (it', opcode, _) \<Rightarrow> (if opcode = OP_CODESEPARATOR then 1 else 0) + count_separators it')"
  by pat_completeness auto
termination by (relation "measure length") (auto dest: GetScriptOp_length)

declare count_separators.simps [simp del]

function write_code :: "CScript \<Rightarrow> CScript \<Rightarrow> byte list" where
  "write_code itBegin it =
     (case GetScriptOp it of
        Inl it' \<Rightarrow> (if itBegin \<noteq> [] then take (length itBegin - length it') itBegin else [])
      | Inr (it', opcode, _) \<Rightarrow>
          if opcode = OP_CODESEPARATOR then take (length itBegin - length it' - 1) itBegin @ write_code it' it'
          else write_code itBegin it')"
  by pat_completeness auto
termination by (relation "measure (\<lambda>(_, it). length it)") (auto dest: GetScriptOp_length)

declare write_code.simps [simp del]

definition SerializeScriptCode :: "CScript \<Rightarrow> byte list" where
  "SerializeScriptCode scriptCode =
     WriteCompactSize (of_nat (length scriptCode) - of_nat (count_separators scriptCode)) @ write_code scriptCode scriptCode"

text \<open>The flags of a hash type.\<close>

definition fAnyoneCanPay :: "u32 \<Rightarrow> bool" where "fAnyoneCanPay nHashType \<longleftrightarrow> nHashType AND of_nat SIGHASH_ANYONECANPAY \<noteq> 0"
definition fHashSingle :: "u32 \<Rightarrow> bool" where "fHashSingle nHashType \<longleftrightarrow> nHashType AND 0x1f = of_nat SIGHASH_SINGLE"
definition fHashNone :: "u32 \<Rightarrow> bool" where "fHashNone nHashType \<longleftrightarrow> nHashType AND 0x1f = of_nat SIGHASH_NONE"

definition SerializeInput :: "CTransaction \<Rightarrow> CScript \<Rightarrow> nat \<Rightarrow> u32 \<Rightarrow> nat \<Rightarrow> byte list" where
  "SerializeInput txTo scriptCode nIn nHashType nInput =
     (let nInput = (if fAnyoneCanPay nHashType then nIn else nInput) in
      ser_outpoint (prevout (vin txTo ! nInput)) @
      (if nInput \<noteq> nIn then ser_bytes [] else SerializeScriptCode scriptCode) @
      (if nInput \<noteq> nIn \<and> (fHashSingle nHashType \<or> fHashNone nHashType) then ser_i32 0
       else WriteLE32 (nSequence (vin txTo ! nInput))))"

definition SerializeOutput :: "CTransaction \<Rightarrow> nat \<Rightarrow> u32 \<Rightarrow> nat \<Rightarrow> byte list" where
  "SerializeOutput txTo nIn nHashType nOutput =
     (if fHashSingle nHashType \<and> nOutput \<noteq> nIn then ser_txout CTxOut_SetNull else ser_txout (vout txTo ! nOutput))"

definition SerializeForSignature :: "CTransaction \<Rightarrow> CScript \<Rightarrow> nat \<Rightarrow> u32 \<Rightarrow> byte list" where
  "SerializeForSignature txTo scriptCode nIn nHashType =
     (let nInputs = (if fAnyoneCanPay nHashType then 1 else length (vin txTo));
          nOutputs = (if fHashNone nHashType then 0 else if fHashSingle nHashType then nIn + 1 else length (vout txTo))
      in ser_i32 (nVersion txTo) @
         WriteCompactSize (of_nat nInputs) @ concat (map (SerializeInput txTo scriptCode nIn nHashType) [0..<nInputs]) @
         WriteCompactSize (of_nat nOutputs) @ concat (map (SerializeOutput txTo nIn nHashType) [0..<nOutputs]) @
         WriteLE32 (nLockTime txTo))"

section \<open>Hashes kept for a transaction\<close>

definition GetPrevoutHash :: "(byte list \<Rightarrow> uint256) \<Rightarrow> CTransaction \<Rightarrow> uint256" where
  "GetPrevoutHash H txTo = H (concat (map (\<lambda>txin. ser_outpoint (prevout txin)) (vin txTo)))"

definition GetSequenceHash :: "(byte list \<Rightarrow> uint256) \<Rightarrow> CTransaction \<Rightarrow> uint256" where
  "GetSequenceHash H txTo = H (concat (map (\<lambda>txin. WriteLE32 (nSequence txin)) (vin txTo)))"

definition GetOutputsHash :: "(byte list \<Rightarrow> uint256) \<Rightarrow> CTransaction \<Rightarrow> uint256" where
  "GetOutputsHash H txTo = H (concat (map ser_txout (vout txTo)))"

record PrecomputedTransactionData =
  hashPrevouts :: uint256
  hashSequence :: uint256
  hashOutputs :: uint256
  ready :: bool

definition PrecomputedTransactionData_of :: "(byte list \<Rightarrow> uint256) \<Rightarrow> CTransaction \<Rightarrow> PrecomputedTransactionData" where
  "PrecomputedTransactionData_of H txTo =
     (if HasWitness txTo then
        \<lparr>hashPrevouts = GetPrevoutHash H txTo, hashSequence = GetSequenceHash H txTo, hashOutputs = GetOutputsHash H txTo, ready = True\<rparr>
      else \<lparr>hashPrevouts = uint256_zero, hashSequence = uint256_zero, hashOutputs = uint256_zero, ready = False\<rparr>)"

section \<open>The hash\<close>

definition uint256_one :: uint256 where "uint256_one = 1 # replicate 31 0"

text \<open>The message hashed for witness version 0.\<close>

definition witness_message :: "(byte list \<Rightarrow> uint256) \<Rightarrow> CScript \<Rightarrow> CTransaction \<Rightarrow> nat \<Rightarrow> u32 \<Rightarrow> CAmount \<Rightarrow>
    PrecomputedTransactionData option \<Rightarrow> byte list" where
  "witness_message H scriptCode txTo nIn nHashType amount cache =
     (let cached = (case cache of Some c \<Rightarrow> if ready c then Some c else None | None \<Rightarrow> None);
          hPrevouts =
            (if \<not> fAnyoneCanPay nHashType
             then (case cached of Some c \<Rightarrow> hashPrevouts c | None \<Rightarrow> GetPrevoutHash H txTo) else uint256_zero);
          hSequence =
            (if \<not> fAnyoneCanPay nHashType \<and> \<not> fHashSingle nHashType \<and> \<not> fHashNone nHashType
             then (case cached of Some c \<Rightarrow> hashSequence c | None \<Rightarrow> GetSequenceHash H txTo) else uint256_zero);
          hOutputs =
            (if \<not> fHashSingle nHashType \<and> \<not> fHashNone nHashType
             then (case cached of Some c \<Rightarrow> hashOutputs c | None \<Rightarrow> GetOutputsHash H txTo)
             else if fHashSingle nHashType \<and> nIn < length (vout txTo) then H (ser_txout (vout txTo ! nIn)) else uint256_zero)
      in ser_i32 (nVersion txTo) @ hPrevouts @ hSequence @ ser_outpoint (prevout (vin txTo ! nIn)) @ ser_bytes scriptCode @
         ser_i64 amount @ WriteLE32 (nSequence (vin txTo ! nIn)) @ hOutputs @ WriteLE32 (nLockTime txTo) @ WriteLE32 nHashType)"

text \<open>\<open>None\<close> is the failing assertion on the index.\<close>

definition SignatureHash :: "(byte list \<Rightarrow> uint256) \<Rightarrow> CScript \<Rightarrow> CTransaction \<Rightarrow> nat \<Rightarrow> u32 \<Rightarrow> CAmount \<Rightarrow> SigVersion \<Rightarrow>
    PrecomputedTransactionData option \<Rightarrow> uint256 option" where
  "SignatureHash H scriptCode txTo nIn nHashType amount sv cache =
     (if \<not> nIn < length (vin txTo) then None
      else if sv = WITNESS_V0 then Some (H (witness_message H scriptCode txTo nIn nHashType amount cache))
      else if fHashSingle nHashType \<and> nIn \<ge> length (vout txTo) then Some uint256_one
      else Some (H (SerializeForSignature txTo scriptCode nIn nHashType @ WriteLE32 nHashType)))"

section \<open>The checker\<close>

definition tx_CheckSig :: "(byte list \<Rightarrow> uint256) \<Rightarrow> (valtype \<Rightarrow> uint256 \<Rightarrow> valtype \<Rightarrow> bool) \<Rightarrow> CTransaction \<Rightarrow> nat \<Rightarrow> CAmount \<Rightarrow>
    PrecomputedTransactionData option \<Rightarrow> valtype \<Rightarrow> valtype \<Rightarrow> CScript \<Rightarrow> SigVersion \<Rightarrow> bool option" where
  "tx_CheckSig H verify txTo nIn amount txdata vchSigIn vchPubKey scriptCode sv =
     (if \<not> pubkey_IsValid vchPubKey then Some False
      else if vchSigIn = [] then Some False
      else
        (case SignatureHash H scriptCode txTo nIn (ucast (last vchSigIn)) amount sv txdata of
           None \<Rightarrow> None
         | Some sighash \<Rightarrow> Some (verify vchPubKey sighash (butlast vchSigIn))))"

definition tx_CheckLockTime :: "CTransaction \<Rightarrow> nat \<Rightarrow> int \<Rightarrow> bool" where
  "tx_CheckLockTime txTo nIn nLock =
     (if \<not> ((uint (nLockTime txTo) < int LOCKTIME_THRESHOLD \<and> nLock < int LOCKTIME_THRESHOLD) \<or>
            (uint (nLockTime txTo) \<ge> int LOCKTIME_THRESHOLD \<and> nLock \<ge> int LOCKTIME_THRESHOLD)) then False
      else if nLock > uint (nLockTime txTo) then False
      else if SEQUENCE_FINAL = nSequence (vin txTo ! nIn) then False
      else True)"

definition tx_CheckSequence :: "CTransaction \<Rightarrow> nat \<Rightarrow> int \<Rightarrow> bool" where
  "tx_CheckSequence txTo nIn nSeq =
     (let txToSequence = uint (nSequence (vin txTo ! nIn)) in
      if (word_of_int (nVersion txTo) :: u32) < 2 then False
      else if txToSequence AND uint SEQUENCE_LOCKTIME_DISABLE_FLAG \<noteq> 0 then False
      else
        (let nLockTimeMask = uint (SEQUENCE_LOCKTIME_TYPE_FLAG OR SEQUENCE_LOCKTIME_MASK);
             txToSequenceMasked = txToSequence AND nLockTimeMask;
             nSequenceMasked = nSeq AND nLockTimeMask in
         if \<not> ((txToSequenceMasked < uint SEQUENCE_LOCKTIME_TYPE_FLAG \<and> nSequenceMasked < uint SEQUENCE_LOCKTIME_TYPE_FLAG) \<or>
               (txToSequenceMasked \<ge> uint SEQUENCE_LOCKTIME_TYPE_FLAG \<and> nSequenceMasked \<ge> uint SEQUENCE_LOCKTIME_TYPE_FLAG)) then False
         else if nSequenceMasked > txToSequenceMasked then False
         else True))"

text \<open>The checker of input \<open>nIn\<close>; it is only built for an input of the transaction, where
  \<open>tx_CheckSig\<close> is never \<open>None\<close>.\<close>

definition TransactionSignatureChecker :: "(byte list \<Rightarrow> uint256) \<Rightarrow> (valtype \<Rightarrow> uint256 \<Rightarrow> valtype \<Rightarrow> bool) \<Rightarrow> CTransaction \<Rightarrow> nat \<Rightarrow> CAmount \<Rightarrow>
    PrecomputedTransactionData option \<Rightarrow> sig_checker" where
  "TransactionSignatureChecker H verify txTo nIn amount txdata =
     \<lparr>CheckSig = (\<lambda>sig key code sv. tx_CheckSig H verify txTo nIn amount txdata sig key code sv = Some True),
      CheckLockTime = tx_CheckLockTime txTo nIn, CheckSequence = tx_CheckSequence txTo nIn\<rparr>"

end
