(* ===== verification/Sighash_Laws.thy ===== *)
theory Sighash_Laws
  imports Sighash Undo
begin

unbundle bit_operations_syntax

text \<open>What a signature commits to, and what the lock time opcodes enforce.\<close>

section \<open>Commitment of witness signatures\<close>

context decoder
begin

lemma concat_inj:
  assumes ne: "\<And>a. ser a \<noteq> []"
  shows "\<forall>a\<in>set v \<union> set w. ok a \<Longrightarrow> concat (map ser v) = concat (map ser w) \<Longrightarrow> v = w"
proof (induction v arbitrary: w)
  case Nil
  then show ?case using ne by (cases w) simp_all
next
  case (Cons a v)
  obtain b u where w: "w = b # u" using Cons.prems(2) ne [of a] by (cases w) simp_all
  have "ok a" "ok b" using Cons.prems(1) w by simp_all
  moreover have "ser a @ concat (map ser v) = ser b @ concat (map ser u)" using Cons.prems(2) w by simp
  ultimately have ab: "a = b" "concat (map ser v) = concat (map ser u)" using prefix_free by blast+
  have "v = u" by (rule Cons.IH [OF _ ab(2)]) (use Cons.prems(1) w in simp)
  then show ?case using ab(1) w by simp
qed

lemma hash_concat_inj:
  assumes "\<And>a. ser a \<noteq> []" "\<forall>a\<in>set v \<union> set w. ok a" "H (concat (map ser v)) = H (concat (map ser w))"
  shows "v = w \<or> collision H (concat (map ser v)) (concat (map ser w))"
  using concat_inj [OF assms(1,2)] assms(3) unfolding collision_def by blast

end

lemma ser_nonempty: "ser_outpoint p \<noteq> []" "ser_txout out \<noteq> []" "WriteLE32 w \<noteq> []"
proof -
  have "0 < length (ser_outpoint p)" "0 < length (ser_txout out)" "0 < length (WriteLE32 w)"
    by (simp_all add: ser_outpoint_def ser_txout_def ser_i64_def del: length_greater_0_conv)
  then show "ser_outpoint p \<noteq> []" "ser_txout out \<noteq> []" "WriteLE32 w \<noteq> []" by (simp_all only: length_greater_0_conv simp_thms)
qed

lemma GetPrevoutHash_inj:
  assumes "wf_tx tx" "wf_tx tx'" "GetPrevoutHash H tx = GetPrevoutHash H tx'"
  shows "map prevout (vin tx) = map prevout (vin tx') \<or>
    collision H (concat (map ser_outpoint (map prevout (vin tx)))) (concat (map ser_outpoint (map prevout (vin tx'))))"
proof (rule outpoint.hash_concat_inj [OF ser_nonempty(1)])
  show "\<forall>p\<in>set (map prevout (vin tx)) \<union> set (map prevout (vin tx')). ok_outpoint p"
    using assms(1,2) by (auto simp: wf_tx_def ok_txin_def)
qed (use assms(3) in \<open>simp add: GetPrevoutHash_def o_def\<close>)

lemma GetSequenceHash_inj:
  assumes "GetSequenceHash H tx = GetSequenceHash H tx'"
  shows "map nSequence (vin tx) = map nSequence (vin tx') \<or>
    collision H (concat (map WriteLE32 (map nSequence (vin tx)))) (concat (map WriteLE32 (map nSequence (vin tx'))))"
  by (rule u32.hash_concat_inj [OF ser_nonempty(3)]) (use assms in \<open>simp_all add: GetSequenceHash_def o_def\<close>)

lemma GetOutputsHash_inj:
  assumes "wf_tx tx" "wf_tx tx'" "GetOutputsHash H tx = GetOutputsHash H tx'"
  shows "vout tx = vout tx' \<or> collision H (concat (map ser_txout (vout tx))) (concat (map ser_txout (vout tx')))"
proof (rule txout.hash_concat_inj [OF ser_nonempty(2)])
  show "\<forall>out\<in>set (vout tx) \<union> set (vout tx'). ok_txout out" using assms(1,2) by (auto simp: wf_tx_def)
qed (use assms(3) in \<open>simp add: GetOutputsHash_def\<close>)

text \<open>The hashes kept for a transaction change nothing.\<close>

definition cache_of :: "(byte list \<Rightarrow> uint256) \<Rightarrow> CTransaction \<Rightarrow> PrecomputedTransactionData option \<Rightarrow> bool" where
  "cache_of H tx c \<longleftrightarrow> c = None \<or> c = Some (PrecomputedTransactionData_of H tx)"

lemma witness_message_cache: "cache_of H tx c \<Longrightarrow> witness_message H code tx n ht amount c = witness_message H code tx n ht amount None"
  by (auto simp: cache_of_def PrecomputedTransactionData_of_def witness_message_def)

definition message_prevouts :: "(byte list \<Rightarrow> uint256) \<Rightarrow> CTransaction \<Rightarrow> u32 \<Rightarrow> uint256" where
  "message_prevouts H tx ht = (if fAnyoneCanPay ht then uint256_zero else GetPrevoutHash H tx)"

definition message_sequence :: "(byte list \<Rightarrow> uint256) \<Rightarrow> CTransaction \<Rightarrow> u32 \<Rightarrow> uint256" where
  "message_sequence H tx ht = (if \<not> fAnyoneCanPay ht \<and> \<not> fHashSingle ht \<and> \<not> fHashNone ht then GetSequenceHash H tx else uint256_zero)"

definition message_outputs :: "(byte list \<Rightarrow> uint256) \<Rightarrow> CTransaction \<Rightarrow> nat \<Rightarrow> u32 \<Rightarrow> uint256" where
  "message_outputs H tx n ht =
     (if \<not> fHashSingle ht \<and> \<not> fHashNone ht then GetOutputsHash H tx
      else if fHashSingle ht \<and> n < length (vout tx) then H (ser_txout (vout tx ! n)) else uint256_zero)"

lemma message_length:
  assumes "\<And>x. length (H x) = 32"
  shows "length (message_prevouts H tx ht) = 32" "length (message_sequence H tx ht) = 32" "length (message_outputs H tx n ht) = 32"
  using assms
  by (simp_all add: message_prevouts_def message_sequence_def message_outputs_def uint256_zero_def GetPrevoutHash_def GetSequenceHash_def GetOutputsHash_def)

lemma witness_message_parts:
  "witness_message H code tx n ht amount None =
     ser_i32 (nVersion tx) @ message_prevouts H tx ht @ message_sequence H tx ht @ ser_outpoint (prevout (vin tx ! n)) @ ser_bytes code @
     ser_i64 amount @ WriteLE32 (nSequence (vin tx ! n)) @ message_outputs H tx n ht @ WriteLE32 (nLockTime tx) @ WriteLE32 ht"
  by (simp add: witness_message_def message_prevouts_def message_sequence_def message_outputs_def)

lemma same_length_split: "length a = length b \<Longrightarrow> a @ r = b @ r' \<Longrightarrow> a = b \<and> r = r'"
  by simp

lemma witness_message_inj:
  assumes eq: "witness_message H code tx n ht amount None = witness_message H code' tx' n' ht' amount' None"
    and wf: "wf_tx tx" "wf_tx tx'" "n < length (vin tx)" "n' < length (vin tx')" and H: "\<And>x. length (H x) = 32"
    and code: "length code \<le> MAX_SIZE" "length code' \<le> MAX_SIZE"
    and amount: "- (2 ^ 63) \<le> amount \<and> amount < 2 ^ 63" "- (2 ^ 63) \<le> amount' \<and> amount' < 2 ^ 63"
  shows "nVersion tx = nVersion tx' \<and> nLockTime tx = nLockTime tx' \<and> ht = ht' \<and> code = code' \<and> amount = amount' \<and>
    prevout (vin tx ! n) = prevout (vin tx' ! n') \<and> nSequence (vin tx ! n) = nSequence (vin tx' ! n') \<and>
    message_prevouts H tx ht = message_prevouts H tx' ht' \<and> message_sequence H tx ht = message_sequence H tx' ht' \<and>
    message_outputs H tx n ht = message_outputs H tx' n' ht'"
proof -
  note len = message_length [of H, OF H]
  have v: "- (2 ^ 31) \<le> nVersion tx \<and> nVersion tx < 2 ^ 31" "- (2 ^ 31) \<le> nVersion tx' \<and> nVersion tx' < 2 ^ 31"
    using wf by (simp_all add: wf_tx_def)
  have p: "ok_outpoint (prevout (vin tx ! n))" "ok_outpoint (prevout (vin tx' ! n'))"
    using wf by (simp_all add: wf_tx_def ok_txin_def)
  note eq1 = eq [unfolded witness_message_parts]
  note 1 = si32.prefix_free [OF v eq1]
  note 2 = same_length_split [OF _ conjunct2 [OF 1], unfolded len, OF refl]
  note 3 = same_length_split [OF _ conjunct2 [OF 2], unfolded len, OF refl]
  note 4 = outpoint.prefix_free [OF p conjunct2 [OF 3]]
  note 5 = bytes.prefix_free [OF code conjunct2 [OF 4]]
  note 6 = si64.prefix_free [OF amount conjunct2 [OF 5]]
  note 7 = u32.prefix_free [OF TrueI TrueI conjunct2 [OF 6]]
  note 8 = same_length_split [OF _ conjunct2 [OF 7], unfolded len, OF refl]
  note 9 = u32.prefix_free [OF TrueI TrueI conjunct2 [OF 8]]
  have "ht = ht'" using 9 u32.prefix_free [OF TrueI TrueI, of ht "[]" ht' "[]"] by simp
  then show ?thesis using 1 2 3 4 5 6 7 8 9 by blast
qed

text \<open>C7: what a witness version 0 signature commits to.  Whichever of them use precomputed hashes, two
  signature hashes are equal only if they are for the same hash type, script code, amount, version,
  lock time and the same input with its sequence number, and, as far as the hash type asks for it,
  for the same inputs, sequence numbers and outputs, unless one of the named messages collides.\<close>

theorem SignatureHash_commits:
  assumes "wf_tx tx" "wf_tx tx'" "n < length (vin tx)" "n' < length (vin tx')" "\<And>x. length (H x) = 32"
    "length code \<le> MAX_SIZE" "length code' \<le> MAX_SIZE"
    "- (2 ^ 63) \<le> amount \<and> amount < 2 ^ 63" "- (2 ^ 63) \<le> amount' \<and> amount' < 2 ^ 63"
    "cache_of H tx c" "cache_of H tx' c'"
    "SignatureHash H code tx n ht amount WITNESS_V0 c = SignatureHash H code' tx' n' ht' amount' WITNESS_V0 c'"
  shows "collision H (witness_message H code tx n ht amount c) (witness_message H code' tx' n' ht' amount' c') \<or>
    ht = ht' \<and> code = code' \<and> amount = amount' \<and> nVersion tx = nVersion tx' \<and> nLockTime tx = nLockTime tx' \<and>
    prevout (vin tx ! n) = prevout (vin tx' ! n') \<and> nSequence (vin tx ! n) = nSequence (vin tx' ! n') \<and>
    (\<not> fAnyoneCanPay ht \<longrightarrow> map prevout (vin tx) = map prevout (vin tx') \<or>
       collision H (concat (map ser_outpoint (map prevout (vin tx)))) (concat (map ser_outpoint (map prevout (vin tx'))))) \<and>
    (\<not> fAnyoneCanPay ht \<and> \<not> fHashSingle ht \<and> \<not> fHashNone ht \<longrightarrow> map nSequence (vin tx) = map nSequence (vin tx') \<or>
       collision H (concat (map WriteLE32 (map nSequence (vin tx)))) (concat (map WriteLE32 (map nSequence (vin tx'))))) \<and>
    (\<not> fHashSingle ht \<and> \<not> fHashNone ht \<longrightarrow> vout tx = vout tx' \<or>
       collision H (concat (map ser_txout (vout tx))) (concat (map ser_txout (vout tx')))) \<and>
    (fHashSingle ht \<and> n < length (vout tx) \<and> n' < length (vout tx') \<longrightarrow> vout tx ! n = vout tx' ! n' \<or>
       collision H (ser_txout (vout tx ! n)) (ser_txout (vout tx' ! n')))"
proof (cases "witness_message H code tx n ht amount c = witness_message H code' tx' n' ht' amount' c'")
  case False
  then show ?thesis using assms(3,4,12) by (simp add: SignatureHash_def collision_def)
next
  case True
  then have "witness_message H code tx n ht amount None = witness_message H code' tx' n' ht' amount' None"
    using witness_message_cache assms(10,11) by metis
  note inj = witness_message_inj [OF this assms(1-9)]
  then have ht: "ht' = ht" by simp
  have "message_prevouts H tx ht = message_prevouts H tx' ht" "message_sequence H tx ht = message_sequence H tx' ht"
    "message_outputs H tx n ht = message_outputs H tx' n' ht" using inj unfolding ht by auto
  note parts = this [unfolded message_prevouts_def message_sequence_def message_outputs_def]
  have single: "vout tx ! n = vout tx' ! n' \<or> collision H (ser_txout (vout tx ! n)) (ser_txout (vout tx' ! n'))"
    if "fHashSingle ht" "n < length (vout tx)" "n' < length (vout tx')"
    using that parts(3) assms(1,2) txout.prefix_free [of "vout tx ! n" "vout tx' ! n'" "[]" "[]"] by (auto simp: collision_def wf_tx_def)
  have "map prevout (vin tx) = map prevout (vin tx') \<or>
      collision H (concat (map ser_outpoint (map prevout (vin tx)))) (concat (map ser_outpoint (map prevout (vin tx'))))" if "\<not> fAnyoneCanPay ht"
    by (rule GetPrevoutHash_inj [OF assms(1,2)]) (use parts(1) that in simp)
  moreover have "map nSequence (vin tx) = map nSequence (vin tx') \<or>
      collision H (concat (map WriteLE32 (map nSequence (vin tx)))) (concat (map WriteLE32 (map nSequence (vin tx'))))"
    if "\<not> fAnyoneCanPay ht \<and> \<not> fHashSingle ht \<and> \<not> fHashNone ht"
    by (rule GetSequenceHash_inj) (use parts(2) that in simp)
  moreover have "vout tx = vout tx' \<or> collision H (concat (map ser_txout (vout tx))) (concat (map ser_txout (vout tx')))"
    if "\<not> fHashSingle ht \<and> \<not> fHashNone ht"
    by (rule GetOutputsHash_inj [OF assms(1,2)]) (use parts(3) that in simp)
  ultimately show ?thesis using inj single by blast
qed

lemma wf_sample_spend: "wf_tx sample_spend"
  by (simp add: wf_tx_def sample_spend_def ok_txin_def ok_outpoint_def sample_hash_def ok_witness_def ok_txout_def MAX_SIZE_def)

theorem SignatureHash_commits_witness:
  "SignatureHash sample_hash [0x51] sample_spend 0 1 5 WITNESS_V0 None =
     SignatureHash sample_hash [0x51] sample_spend 0 1 5 WITNESS_V0 (Some (PrecomputedTransactionData_of sample_hash sample_spend)) \<and>
   \<not> collision sample_hash (witness_message sample_hash [0x51] sample_spend 0 1 5 None)
     (witness_message sample_hash [0x51] sample_spend 0 1 5 (Some (PrecomputedTransactionData_of sample_hash sample_spend)))"
proof -
  let ?c = "Some (PrecomputedTransactionData_of sample_hash sample_spend)"
  have c: "cache_of sample_hash sample_spend None" "cache_of sample_hash sample_spend ?c" by (simp_all add: cache_of_def)
  have eq: "SignatureHash sample_hash [0x51] sample_spend 0 1 5 WITNESS_V0 None = SignatureHash sample_hash [0x51] sample_spend 0 1 5 WITNESS_V0 ?c"
    by (simp add: SignatureHash_def witness_message_cache [OF c(2)])
  have "0 < length (vin sample_spend)" "length [0x51 :: byte] \<le> MAX_SIZE" by (simp_all add: sample_spend_def MAX_SIZE_def)
  then show ?thesis
    using SignatureHash_commits [OF wf_sample_spend wf_sample_spend _ _ _ _ _ _ _ c eq] eq witness_message_cache [OF c(2)]
    by (simp add: sample_hash_def collision_def)
qed

section \<open>Lock times in scripts\<close>

lemma CheckLockTime_final:
  assumes "tx_CheckLockTime tx n lock" "n < length (vin tx)" "0 \<le> lock" "IsFinalTx tx height time" "0 < height"
  shows "if lock < 500000000 then lock < height else lock < time"
proof -
  have "\<not> list_all (\<lambda>txin. nSequence txin = SEQUENCE_FINAL) (vin tx)"
    using assms(1,2) by (auto simp: tx_CheckLockTime_def list_all_length split: if_splits)
  then have "nLockTime tx = 0 \<or> uint (nLockTime tx) < (if uint (nLockTime tx) < 500000000 then height else time)"
    using assms(4) by (auto simp: IsFinalTx_def LOCKTIME_THRESHOLD_def split: if_splits)
  then show ?thesis using assms(1,3,5) by (auto simp: tx_CheckLockTime_def LOCKTIME_THRESHOLD_def split: if_splits)
qed

lemma sequence_mask: "x AND 0x40ffff = (if bit x 22 then 2 ^ 22 else 0) + x mod 2 ^ 16" for x :: int
proof -
  have m: "(0x40ffff :: int) = mask 16 OR push_bit 22 1" by (simp add: mask_eq_exp_minus_1)
  have "x AND push_bit 22 1 = (if bit x 22 then 2 ^ 22 else 0)"
    using bit_exp_iff [of 22, where 'a = int] by (intro bit_eqI) (auto simp: bit_and_iff bit_push_bit_iff)
  moreover have "x AND (mask 16 OR push_bit 22 1) = (x AND mask 16) OR (x AND push_bit 22 1)"
    by (rule bit_eqI) (auto simp: bit_and_iff bit_or_iff)
  ultimately have "x AND 0x40ffff = take_bit 16 x OR (if bit x 22 then 2 ^ 22 else 0)"
    unfolding m take_bit_eq_mask by simp
  also have "\<dots> = take_bit 16 x + (if bit x 22 then 2 ^ 22 else 0)"
    using bit_exp_iff [of 22, where 'a = int]
    by (intro disjunctive_add_eq_or [symmetric] bit_eqI) (auto simp: bit_take_bit_iff bit_and_iff)
  finally show ?thesis by (simp add: take_bit_eq_mod)
qed

lemma sequence_flags: "uint SEQUENCE_LOCKTIME_TYPE_FLAG = 2 ^ 22" "uint (SEQUENCE_LOCKTIME_TYPE_FLAG OR SEQUENCE_LOCKTIME_MASK) = 0x40ffff"
  "uint SEQUENCE_LOCKTIME_DISABLE_FLAG = 2 ^ 31"
  by (simp_all add: SEQUENCE_LOCKTIME_TYPE_FLAG_def SEQUENCE_LOCKTIME_MASK_def SEQUENCE_LOCKTIME_DISABLE_FLAG_def)

lemma sequence_parts:
  "lock_disabled i \<longleftrightarrow> uint (nSequence i) AND 2 ^ 31 \<noteq> 0" "lock_value i = uint (nSequence i) mod 2 ^ 16"
  "nSequence i AND SEQUENCE_LOCKTIME_TYPE_FLAG \<noteq> 0 \<longleftrightarrow> bit (uint (nSequence i)) 22"
proof -
  show "lock_disabled i \<longleftrightarrow> uint (nSequence i) AND 2 ^ 31 \<noteq> 0"
    unfolding sequence_flags(3) [symmetric] by (simp add: word_uint_eq_iff unsigned_and_eq)
  have "nSequence i AND SEQUENCE_LOCKTIME_MASK = take_bit 16 (nSequence i)"
    unfolding SEQUENCE_LOCKTIME_MASK_def take_bit_eq_mask by (simp add: mask_eq_exp_minus_1)
  then show "lock_value i = uint (nSequence i) mod 2 ^ 16"
    by (metis unsigned_take_bit_eq take_bit_eq_mod)
  show "nSequence i AND SEQUENCE_LOCKTIME_TYPE_FLAG \<noteq> 0 \<longleftrightarrow> bit (uint (nSequence i)) 22"
    unfolding SEQUENCE_LOCKTIME_TYPE_FLAG_def push_bit_of_1 and_exp_eq_0_iff_not_bit by (simp add: bit_uint_iff)
qed

lemma CheckSequence_lock:
  assumes "tx_CheckSequence tx n seq" "lock_ok st p H T (vin tx ! n, h)"
  shows "if bit seq 22 then median_past st (the (anc st p (nat (max (h - 1) 0)))) + 512 * (seq mod 2 ^ 16) \<le> T
    else h + seq mod 2 ^ 16 \<le> H"
proof -
  let ?s = "uint (nSequence (vin tx ! n))"
  have s: "?s AND 2 ^ 31 = 0" "bit ?s 22 \<longleftrightarrow> bit seq 22" "seq mod 2 ^ 16 \<le> ?s mod 2 ^ 16"
    using assms(1) pos_mod_bound [of "2 ^ 16" ?s] pos_mod_bound [of "2 ^ 16" seq] pos_mod_sign [of "2 ^ 16" ?s] pos_mod_sign [of "2 ^ 16" seq]
    unfolding tx_CheckSequence_def Let_def sequence_flags sequence_mask by (auto split: if_splits)
  then show ?thesis using assms(2) unfolding lock_ok_def prod.case sequence_parts by (auto split: if_splits)
qed

text \<open>C12: the lock time opcodes hold coins back.  If \<open>OP_CHECKLOCKTIMEVERIFY\<close> passes in the script of an
  input of a final transaction, its operand is a height below the block's height or a time before
  the block's time.  If \<open>OP_CHECKSEQUENCEVERIFY\<close> passes in a transaction whose relative locks are met,
  the operand's number of blocks, or of 512 second units of median time, has passed since the coin.\<close>

theorem lock_opcodes_enforced:
  assumes "checker env = TransactionSignatureChecker H verify tx n amount txdata" and "n < length (vin tx)"
  shows "(op_checklocktimeverify env st = Inr st' \<and> has_flag (flags env) SCRIPT_VERIFY_CHECKLOCKTIMEVERIFY \<and>
      IsFinalTx tx height time \<and> 0 < height \<longrightarrow>
      (\<exists>v lock. v = hd (stack st) \<and> script_num env v 5 = Inr lock \<and> 0 \<le> lock \<and> (if lock < 500000000 then lock < height else lock < time))) \<and>
    (op_checksequenceverify env st = Inr st' \<and> has_flag (flags env) SCRIPT_VERIFY_CHECKSEQUENCEVERIFY \<and>
      index_ok index \<and> index p = Some b \<and> pprev b = Some q \<and> length hs = length (vin tx) \<and> (\<forall>h\<in>set hs. h \<le> int (nHeight b)) \<and>
      locks_enforced tx fl \<and> SequenceLocks index tx fl hs p = Inr (True, hs') \<longrightarrow>
      (\<exists>v seq. v = hd (stack st) \<and> script_num env v 5 = Inr seq \<and> 0 \<le> seq \<and>
        (bit seq 31 \<or>
         (if bit seq 22 then median_past index (the (anc index p (nat (max (hs ! n - 1) 0)))) + 512 * (seq mod 2 ^ 16) \<le> median_past index q
          else hs ! n + seq mod 2 ^ 16 \<le> int (nHeight b)))))"
proof (intro conjI impI; elim conjE)
  assume op: "op_checklocktimeverify env st = Inr st'" "has_flag (flags env) SCRIPT_VERIFY_CHECKLOCKTIMEVERIFY"
    and fin: "IsFinalTx tx height time" "0 < height"
  from op obtain lock where lock: "stack st \<noteq> []" "script_num env (hd (stack st)) 5 = Inr lock" "0 \<le> lock" "tx_CheckLockTime tx n lock"
    using assms(1) unfolding op_checklocktimeverify_def TransactionSignatureChecker_def
    by (cases "stack st") (auto simp: bindE_iffs need_def stacktop_def guardE_def split: if_splits)
  then show "\<exists>v lock. v = hd (stack st) \<and> script_num env v 5 = Inr lock \<and> 0 \<le> lock \<and> (if lock < 500000000 then lock < height else lock < time)"
    using CheckLockTime_final [OF lock(4) assms(2) lock(3) fin] by blast
next
  assume op: "op_checksequenceverify env st = Inr st'" "has_flag (flags env) SCRIPT_VERIFY_CHECKSEQUENCEVERIFY"
    and ix: "index_ok index" "index p = Some b" "pprev b = Some q" "length hs = length (vin tx)" "\<forall>h\<in>set hs. h \<le> int (nHeight b)"
    and locks: "locks_enforced tx fl" "SequenceLocks index tx fl hs p = Inr (True, hs')"
  from op obtain seq where seq: "stack st \<noteq> []" "script_num env (hd (stack st)) 5 = Inr seq" "0 \<le> seq"
      "seq AND uint SEQUENCE_LOCKTIME_DISABLE_FLAG \<noteq> 0 \<or> tx_CheckSequence tx n seq"
    using assms(1) unfolding op_checksequenceverify_def TransactionSignatureChecker_def
    by (cases "stack st") (auto simp: bindE_iffs need_def stacktop_def guardE_def split: if_splits)
  have "(vin tx ! n, hs ! n) \<in> set (zip (vin tx) hs)" using assms(2) ix(4) by (auto simp: in_set_zip)
  then have "lock_ok index p (int (nHeight b)) (median_past index q) (vin tx ! n, hs ! n)"
    using SequenceLocks_cases [OF ix, of fl] locks by auto
  then have "bit seq 31 \<or> (if bit seq 22 then median_past index (the (anc index p (nat (max (hs ! n - 1) 0)))) + 512 * (seq mod 2 ^ 16) \<le> median_past index q
      else hs ! n + seq mod 2 ^ 16 \<le> int (nHeight b))"
    using seq(4) CheckSequence_lock unfolding sequence_flags(3) and_exp_eq_0_iff_not_bit by blast
  then show "\<exists>v seq. v = hd (stack st) \<and> script_num env v 5 = Inr seq \<and> 0 \<le> seq \<and> (bit seq 31 \<or>
      (if bit seq 22 then median_past index (the (anc index p (nat (max (hs ! n - 1) 0)))) + 512 * (seq mod 2 ^ 16) \<le> median_past index q
       else hs ! n + seq mod 2 ^ 16 \<le> int (nHeight b)))"
    using seq by blast
qed

definition sample_lock_env :: eval_env where
  "sample_lock_env = (sample_env (SCRIPT_VERIFY_CHECKLOCKTIMEVERIFY OR SCRIPT_VERIFY_CHECKSEQUENCEVERIFY))
     \<lparr>checker := TransactionSignatureChecker sample_hash (\<lambda>_ _ _. True) sample_locked 0 0 None\<rparr>"

definition sample_lock_state :: "valtype \<Rightarrow> exec_state" where
  "sample_lock_state v = \<lparr>stack = [v], altstack = [], vfExec = [], pbegincodehash = [], nOpCount = 0\<rparr>"

theorem lock_opcodes_enforced_witness:
  "op_checklocktimeverify sample_lock_env (sample_lock_state []) = Inr (sample_lock_state []) \<and>
   (\<exists>lock. script_num sample_lock_env [] 5 = Inr lock \<and> lock < 1) \<and>
   op_checksequenceverify sample_lock_env (sample_lock_state [2]) = Inr (sample_lock_state [2]) \<and>
   (\<exists>seq. script_num sample_lock_env [2] 5 = Inr seq \<and> 1 + seq mod 2 ^ 16 \<le> 3)"
proof -
  have c: "checker sample_lock_env = TransactionSignatureChecker sample_hash (\<lambda>_ _ _. True) sample_locked 0 0 None"
    by (simp add: sample_lock_env_def)
  have n: "0 < length (vin sample_locked)" by (simp add: sample_locked_def)
  have st: "hd (stack (sample_lock_state v)) = v" for v by (simp add: sample_lock_state_def)
  have fl: "has_flag (flags sample_lock_env) SCRIPT_VERIFY_CHECKLOCKTIMEVERIFY" "has_flag (flags sample_lock_env) SCRIPT_VERIFY_CHECKSEQUENCEVERIFY"
    "IsFinalTx sample_locked 1 0" by code_simp+
  have ops: "op_checklocktimeverify sample_lock_env (sample_lock_state []) = Inr (sample_lock_state [])"
    "op_checksequenceverify sample_lock_env (sample_lock_state [2]) = Inr (sample_lock_state [2])" by code_simp+
  have ix: "sample_store 3 = Some (entry (Some 2) (Some 1) 3 40)" by (simp add: sample_store_def)
  have len: "length [1 :: int] = length (vin sample_locked)" "\<forall>h\<in>set [1]. h \<le> int (nHeight (entry (Some 2) (Some 1) 3 40))"
    by (simp_all add: sample_locked_def)
  have zip_locked: "zip (vin sample_locked) [1 :: int] = [(vin sample_locked ! 0, 1)]" by (subst sample_locked_vin) simp
  obtain hs where locks: "SequenceLocks sample_store sample_locked 1 [1] 3 = Inr (True, hs)"
    using SequenceLocks_cases [OF sample_index_ok ix _ len, of 2 1] sample_locks(1,3) zip_locked by auto
  obtain lock where l: "script_num sample_lock_env [] 5 = Inr lock" "if lock < 500000000 then lock < 1 else lock < 0"
    using lock_opcodes_enforced [OF c n, of "sample_lock_state []" "sample_lock_state []" 1 0 sample_store 3 "entry (Some 2) (Some 1) 3 40" 2 "[1]" 1 hs]
      ops(1) fl unfolding st by auto
  have "script_num sample_lock_env [2] 5 = Inr 2" by code_simp
  moreover obtain seq where "script_num sample_lock_env [2] 5 = Inr seq"
      "bit seq 31 \<or> (if bit seq 22 then median_past sample_store (the (anc sample_store 3 (nat (max ([1] ! 0 - 1) 0)))) + 512 * (seq mod 2 ^ 16) \<le> median_past sample_store 2
       else [1] ! 0 + seq mod 2 ^ 16 \<le> int (nHeight (entry (Some 2) (Some 1) 3 40)))"
    using lock_opcodes_enforced [OF c n, of "sample_lock_state [2]" "sample_lock_state [2]" 1 0 sample_store 3 "entry (Some 2) (Some 1) 3 40" 2 "[1]" 1 hs]
      ops(2) fl sample_locks(3) sample_index_ok ix locks len unfolding st entry_sel(1) by blast
  ultimately show ?thesis using ops l by (auto split: if_splits)
qed

end
