(* ===== verification/Pos.thy ===== *)
theory Pos
  imports Sighash Pow Undo Standard
begin

unbundle bit_operations_syntax

text \<open>
  \<open>pos.cpp\<close>: the proof-of-stake kernel.  The double hash \<open>H\<close>, the verification of a signature, the
  recovery of public keys from a signature and the lookup of spent coins in the undo files of the
  main chain (\<open>GetSpentCoinFromMainChain\<close>) are arguments.
\<close>

definition STAKE_TIMESTAMP_MASK :: u32 where "STAKE_TIMESTAMP_MASK = 15"

record CStakeCache =
  blockFromTime :: u32
  amount :: CAmount

definition ComputeStakeModifier :: "(byte list \<Rightarrow> uint256) \<Rightarrow> CBlockIndex option \<Rightarrow> uint256 \<Rightarrow> uint256" where
  "ComputeStakeModifier H pindexPrev kernelHash =
     (case pindexPrev of None \<Rightarrow> uint256_zero | Some b \<Rightarrow> H (kernelHash @ nStakeModifier b))"

text \<open>The result, and the hash and the target where they are set.\<close>

definition CheckStakeKernelHash :: "(byte list \<Rightarrow> uint256) \<Rightarrow> CBlockIndex \<Rightarrow> u32 \<Rightarrow> u32 \<Rightarrow> CAmount \<Rightarrow> COutPoint \<Rightarrow> u32 \<Rightarrow> bool \<times> (uint256 \<times> uint256) option" where
  "CheckStakeKernelHash H pindexPrev blockBits fromTime prevoutValue out nTimeBlock =
     (if nTimeBlock < fromTime then (False, None)
      else
        (let bnTarget = fst (SetCompact blockBits);
             bnWeight = base_uint_u64 (of_int prevoutValue);
             bnTarget = uint_mul bnTarget bnWeight;
             targetProofOfStake = ArithToUint256 bnTarget;
             hashProofOfStake = H (nStakeModifier pindexPrev @ WriteLE32 fromTime @ COutPoint.op_hash out @ WriteLE32 (op_n out) @ WriteLE32 nTimeBlock)
         in if CompareTo (UintToArith256 hashProofOfStake) bnTarget > 0 then (False, Some (hashProofOfStake, targetProofOfStake))
            else (True, Some (hashProofOfStake, targetProofOfStake))))"

section \<open>Proof of stake\<close>

text \<open>\<open>VerifySignature\<close> of \<open>script/sign.cpp\<close>: without a witness, with amount 0.\<close>

definition VerifySignature :: "(byte list \<Rightarrow> uint256) \<Rightarrow> (valtype \<Rightarrow> uint256 \<Rightarrow> valtype \<Rightarrow> bool) \<Rightarrow> crypto \<Rightarrow>
    Coin \<Rightarrow> uint256 \<Rightarrow> CTransaction \<Rightarrow> nat \<Rightarrow> u32 \<Rightarrow> script_fail + bool" where
  "VerifySignature H verify cr coin txFromHash txTo nIn fl =
     (let txin = vin txTo ! nIn in
      if COutPoint.op_hash (prevout txin) \<noteq> txFromHash then Inr False
      else
        (case VerifyScript \<lparr>flags = fl, checker = TransactionSignatureChecker H verify txTo nIn 0 None, sigversion = BASE, crypt = cr\<rparr>
            (scriptSig txin) (scriptPubKey (coin_out coin)) [] of
           Inr () \<Rightarrow> Inr True
         | Inl (Fail _) \<Rightarrow> Inr False
         | Inl e \<Rightarrow> Inl e))"

datatype pos_error = PosReject nat | PosChain chain_error | PosScript script_fail | PosError

definition liftC :: "chain_error + 'a \<Rightarrow> pos_error + 'a" where
  "liftC r = (case r of Inl e \<Rightarrow> Inl (PosChain e) | Inr x \<Rightarrow> Inr x)"

definition liftS :: "script_fail + 'a \<Rightarrow> pos_error + 'a" where
  "liftS r = (case r of Inl e \<Rightarrow> Inl (PosScript e) | Inr x \<Rightarrow> Inr x)"

text \<open>\<open>PosReject\<close> carries the penalty, \<open>PosError\<close> is a plain \<open>error(...)\<close>.  On success the hash and the
  target.\<close>

definition CheckProofOfStake :: "(byte list \<Rightarrow> uint256) \<Rightarrow> (valtype \<Rightarrow> uint256 \<Rightarrow> valtype \<Rightarrow> bool) \<Rightarrow> crypto \<Rightarrow> index_store \<Rightarrow>
    ptr \<Rightarrow> CTransaction \<Rightarrow> u32 \<Rightarrow> u32 \<Rightarrow> CCoinsView \<Rightarrow> pos_error + (uint256 \<times> uint256) \<times> CCoinsView" where
  "CheckProofOfStake H verify cr st pindexPrev tx blockBits nTimeBlock view =
     bindE (guardE (IsCoinStake tx) PosError) (\<lambda>_.
     case GetCoin view (prevout (vin tx ! 0)) of
       (None, view) \<Rightarrow> Inl (PosReject 100)
     | (Some coinPrev, view) \<Rightarrow>
         bindE (liftC (deref st pindexPrev)) (\<lambda>b.
         bindE (guardE (\<not> int (nHeight b) + 1 - int (coin_nHeight coinPrev) < COINBASE_MATURITY) (PosReject 100)) (\<lambda>_.
         bindE (liftC (GetAncestor st pindexPrev (int (coin_nHeight coinPrev)))) (\<lambda>blockFrom.
         case blockFrom of
           None \<Rightarrow> Inl (PosReject 100)
         | Some q \<Rightarrow>
             bindE (liftS (VerifySignature H verify cr coinPrev (COutPoint.op_hash (prevout (vin tx ! 0))) tx 0 0)) (\<lambda>ok.
             bindE (guardE ok (PosReject 100)) (\<lambda>_.
             bindE (liftC (deref st q)) (\<lambda>f.
             (case CheckStakeKernelHash H b blockBits (nTime f) (nValue (coin_out coinPrev)) (prevout (vin tx ! 0)) nTimeBlock of
                (True, Some ht) \<Rightarrow> Inr (ht, view)
              | _ \<Rightarrow> Inl (PosReject 1)))))))))"

definition CheckCoinStakeTimestamp :: "u32 \<Rightarrow> bool" where
  "CheckCoinStakeTimestamp nTimeBlock = (nTimeBlock AND STAKE_TIMESTAMP_MASK = 0)"

definition CheckCoinStakeTimestampSW :: "u32 \<Rightarrow> bool" where
  "CheckCoinStakeTimestampSW nTimeBlock =
     (nTimeBlock AND 3 = 0 \<or> nTimeBlock AND 7 = 0 \<or> nTimeBlock AND 11 = 0 \<or> nTimeBlock AND 15 = 0)"

text \<open>The type and the destination \<open>ExtractDestination\<close> finds.\<close>

definition extract_typed :: "crypto \<Rightarrow> CScript \<Rightarrow> (txnouttype \<times> CTxDestination) option" where
  "extract_typed cr s =
     (case (Solver s False, ExtractDestination (Hash160 cr) s) of (Some (ty, _), Some dest) \<Rightarrow> Some (ty, dest) | _ \<Rightarrow> None)"

definition CheckBlockInputPubKeyMatchesOutputPubKey :: "crypto \<Rightarrow> COutPoint \<Rightarrow> CTransaction \<Rightarrow> CCoinsView \<Rightarrow> bool \<times> CCoinsView" where
  "CheckBlockInputPubKeyMatchesOutputPubKey cr stake coinstakeTx view =
     (case GetCoin view stake of
        (None, view) \<Rightarrow> (False, view)
      | (Some coinIn, view) \<Rightarrow>
          if length (vout coinstakeTx) < 2 then (False, view)
          else if scriptPubKey (coin_out coinIn) = scriptPubKey (vout coinstakeTx ! 1) then (True, view)
          else
            (case extract_typed cr (scriptPubKey (coin_out coinIn)) of
               Some (TX_PUBKEYHASH, CKeyID inputAddress) \<Rightarrow>
                 (case extract_typed cr (scriptPubKey (vout coinstakeTx ! 1)) of
                    Some (TX_PUBKEY, CKeyID outputAddress) \<Rightarrow> (inputAddress = outputAddress, view)
                  | _ \<Rightarrow> (False, view))
             | _ \<Rightarrow> (False, view)))"

definition CheckRecoveredPubKeyFromBlockSignature :: "(byte list \<Rightarrow> uint256) \<Rightarrow> crypto \<Rightarrow>
    (uint256 \<Rightarrow> valtype \<Rightarrow> nat \<Rightarrow> bool \<Rightarrow> valtype option) \<Rightarrow> (ptr \<Rightarrow> COutPoint \<Rightarrow> Coin option) \<Rightarrow> ptr \<Rightarrow> CBlockHeader \<Rightarrow> CCoinsView \<Rightarrow> bool \<times> CCoinsView" where
  "CheckRecoveredPubKeyFromBlockSignature H cr RecoverLaxDER GetSpentCoin pindexPrev block view =
     (case GetCoin view (hdr_prevoutStake block) of
        (c, view) \<Rightarrow>
          (case (case c of Some coin \<Rightarrow> Some coin | None \<Rightarrow> GetSpentCoin pindexPrev (hdr_prevoutStake block)) of
             None \<Rightarrow> (False, view)
           | Some coinPrev \<Rightarrow>
               if hdr_vchBlockSig block = [] then (False, view)
               else
                 (list_ex (\<lambda>(recid, compressed).
                    case RecoverLaxDER (GetHashWithoutSign H block) (hdr_vchBlockSig block) recid compressed of
                      None \<Rightarrow> False
                    | Some pubkey \<Rightarrow>
                        (case extract_typed cr (scriptPubKey (coin_out coinPrev)) of
                           Some (ty, CKeyID address) \<Rightarrow> (ty = TX_PUBKEY \<or> ty = TX_PUBKEYHASH) \<and> Hash160 cr pubkey = address
                         | _ \<Rightarrow> False))
                    [(0, False), (0, True), (1, False), (1, True), (2, False), (2, True), (3, False), (3, True)], view)))"

section \<open>The kernel search\<close>

definition check_kernel :: "(byte list \<Rightarrow> uint256) \<Rightarrow> (ptr \<Rightarrow> COutPoint \<Rightarrow> Coin option) \<Rightarrow> index_store \<Rightarrow> ptr \<Rightarrow> u32 \<Rightarrow> u32 \<Rightarrow> COutPoint \<Rightarrow> CCoinsView \<Rightarrow>
    chain_error + bool \<times> CCoinsView" where
  "check_kernel H GetSpentCoin st pindexPrev blockBits nTimeBlock out view =
     (case GetCoin view out of
        (c, view) \<Rightarrow>
          (case (case c of Some coin \<Rightarrow> Some coin | None \<Rightarrow> GetSpentCoin pindexPrev out) of
             None \<Rightarrow> Inr (False, view)
           | Some coinPrev \<Rightarrow>
               bindE (deref st pindexPrev) (\<lambda>b.
               if int (nHeight b) + 1 - int (coin_nHeight coinPrev) < COINBASE_MATURITY then Inr (False, view)
               else
                 bindE (GetAncestor st pindexPrev (int (coin_nHeight coinPrev))) (\<lambda>blockFrom.
                 case blockFrom of
                   None \<Rightarrow> Inr (False, view)
                 | Some q \<Rightarrow>
                     if IsSpent coinPrev then Inr (False, view)
                     else bindE (deref st q) (\<lambda>f.
                       Inr (fst (CheckStakeKernelHash H b blockBits (nTime f) (nValue (coin_out coinPrev)) out nTimeBlock), view))))))"

definition CheckKernel :: "(byte list \<Rightarrow> uint256) \<Rightarrow> (ptr \<Rightarrow> COutPoint \<Rightarrow> Coin option) \<Rightarrow> index_store \<Rightarrow> ptr \<Rightarrow> u32 \<Rightarrow> u32 \<Rightarrow> COutPoint \<Rightarrow> CCoinsView \<Rightarrow>
    (COutPoint \<rightharpoonup> CStakeCache) \<Rightarrow> chain_error + bool \<times> CCoinsView" where
  "CheckKernel H GetSpentCoin st pindexPrev blockBits nTimeBlock out view cache =
     (case cache out of
        None \<Rightarrow> check_kernel H GetSpentCoin st pindexPrev blockBits nTimeBlock out view
      | Some stake \<Rightarrow>
          bindE (deref st pindexPrev) (\<lambda>b.
          if fst (CheckStakeKernelHash H b blockBits (blockFromTime stake) (amount stake) out nTimeBlock)
          then check_kernel H GetSpentCoin st pindexPrev blockBits nTimeBlock out view
          else Inr (False, view)))"

definition CheckKernelSW :: "ptr \<Rightarrow> u32 \<Rightarrow> u32 \<Rightarrow> COutPoint \<Rightarrow> CCoinsView \<Rightarrow> (COutPoint \<rightharpoonup> CStakeCache) \<Rightarrow> bool" where
  "CheckKernelSW pindexPrev blockBits nTimeBlock out view cache = True"

definition CacheKernel :: "index_store \<Rightarrow> (COutPoint \<rightharpoonup> CStakeCache) \<Rightarrow> COutPoint \<Rightarrow> ptr \<Rightarrow> CCoinsView \<Rightarrow>
    chain_error + (COutPoint \<rightharpoonup> CStakeCache) \<times> CCoinsView" where
  "CacheKernel st cache out pindexPrev view =
     (if cache out \<noteq> None then Inr (cache, view)
      else
        (case GetCoin view out of
           (None, view) \<Rightarrow> Inr (cache, view)
         | (Some coinPrev, view) \<Rightarrow>
             bindE (deref st pindexPrev) (\<lambda>b.
             if int (nHeight b) + 1 - int (coin_nHeight coinPrev) < COINBASE_MATURITY then Inr (cache, view)
             else
               bindE (GetAncestor st pindexPrev (int (coin_nHeight coinPrev))) (\<lambda>blockFrom.
               case blockFrom of
                 None \<Rightarrow> Inr (cache, view)
               | Some q \<Rightarrow> bindE (deref st q) (\<lambda>f.
                   Inr (cache(out \<mapsto> \<lparr>blockFromTime = nTime f, amount = nValue (coin_out coinPrev)\<rparr>), view))))))"

end
