(* ===== verification/Pos_Laws.thy ===== *)
theory Pos_Laws
  imports Pos
begin

unbundle bit_operations_syntax

text \<open>The stake kernel: its target, and the cache of the kernel search.\<close>

section \<open>The kernel hash\<close>

definition kernel_hash :: "(byte list \<Rightarrow> uint256) \<Rightarrow> CBlockIndex \<Rightarrow> u32 \<Rightarrow> COutPoint \<Rightarrow> u32 \<Rightarrow> uint256" where
  "kernel_hash H b fromTime out t = H (nStakeModifier b @ WriteLE32 fromTime @ COutPoint.op_hash out @ WriteLE32 (op_n out) @ WriteLE32 t)"

lemma CheckStakeKernelHash_value:
  assumes "\<And>x. length (H x) = 32"
  shows "fst (CheckStakeKernelHash H b c from v out t) \<longleftrightarrow>
    from \<le> t \<and> le_nat (kernel_hash H b from out t) \<le> (compact_value c * nat (v mod 2 ^ 64)) mod 2 ^ 256"
proof -
  obtain tg where tg: "SetCompact c = (tg, compact_value c \<noteq> 0 \<and> bit c 23, 2 ^ 256 \<le> compact_value c)"
    "wf_uint tg" "limbs tg = compact_value c mod 2 ^ 256" by (rule SetCompact_value)
  have w: "unat (of_int v :: u64) = nat (v mod 2 ^ 64)" by (simp add: unat_eq_nat_uint uint_word_of_int)
  let ?m = "uint_mul tg (base_uint_u64 (of_int v))"
  have m: "limbs ?m = (compact_value c * nat (v mod 2 ^ 64)) mod 2 ^ 256" "wf_uint ?m"
    using tg(2,3) limbs_u64 [of "of_int v"] length_u64 [of "of_int v"] limbs_mul [of tg "base_uint_u64 (of_int v)"] w
    by (simp_all add: wf_uint_def WIDTH_def mod_mult_left_eq)
  have h: "length (kernel_hash H b from out t) = 32" by (simp add: kernel_hash_def assms(1))
  have "length (UintToArith256 (kernel_hash H b from out t)) = length ?m" using m(2) by (simp add: UintToArith256_def wf_uint_def)
  then have "CompareTo (UintToArith256 (kernel_hash H b from out t)) ?m > 0 \<longleftrightarrow> limbs ?m < le_nat (kernel_hash H b from out t)"
    using CompareTo_limbs limbs_UintToArith256 [OF h] by simp
  then show ?thesis
    using m(1) tg(1) by (simp add: CheckStakeKernelHash_def kernel_hash_def Let_def not_less [symmetric])
qed

text \<open>The formula of the comment, \<open>hash < bnTarget * nWeight\<close>, is what is tested unless the two sides are
  equal, where the hash passes, or the product reaches \<open>2 ^ 256\<close>, where it is reduced.\<close>

lemma CheckStakeKernelHash_formula:
  assumes "\<And>x. length (H x) = 32" "compact_value c * nat (v mod 2 ^ 64) < 2 ^ 256"
    "le_nat (kernel_hash H b from out t) \<noteq> compact_value c * nat (v mod 2 ^ 64)"
  shows "fst (CheckStakeKernelHash H b c from v out t) \<longleftrightarrow>
    from \<le> t \<and> le_nat (kernel_hash H b from out t) < compact_value c * nat (v mod 2 ^ 64)"
  using CheckStakeKernelHash_value [OF assms(1), where b = b and c = c and v = v] assms(2,3) by auto

text \<open>A target of \<open>2 ^ 224\<close> and a coin of \<open>2 ^ 32\<close> units: the product is \<open>2 ^ 256\<close> and the weighted target 0,
  which refuses the hash 1.\<close>

lemma CheckStakeKernelHash_wraps:
  assumes "H = (\<lambda>_. 1 # replicate 31 0)"
  shows "le_nat (kernel_hash H b from out t) < compact_value 0x1d010000 * 2 ^ 32"
    "\<not> fst (CheckStakeKernelHash H b 0x1d010000 from (2 ^ 32) out t)"
proof -
  have h: "le_nat (kernel_hash H b from out t) = 1" unfolding kernel_hash_def assms by code_simp
  have c: "compact_value 0x1d010000 = 2 ^ 224" by code_simp
  show "le_nat (kernel_hash H b from out t) < compact_value 0x1d010000 * 2 ^ 32" by (simp add: h c)
  have "length (H x) = 32" for x by (simp add: assms)
  from CheckStakeKernelHash_value [OF this, where b = b and c = "0x1d010000" and v = "2 ^ 32"]
  show "\<not> fst (CheckStakeKernelHash H b 0x1d010000 from (2 ^ 32) out t)" by (simp add: h c)
qed

section \<open>The kernel search\<close>

text \<open>A coin that may stake on top of \<open>p\<close>, and the time of its block.\<close>

definition stakeable :: "index_store \<Rightarrow> ptr \<Rightarrow> CBlockIndex \<Rightarrow> Coin \<Rightarrow> u32 option" where
  "stakeable st p b coin =
     (if int (nHeight b) + 1 - int (coin_nHeight coin) < 100 then None
      else Some (nTime (the (st (the (anc st p (coin_nHeight coin)))))))"

lemma stake_ancestor:
  assumes "index_ok st" "st p = Some b" "\<not> int (nHeight b) + 1 - int h < 100"
  obtains q f where "GetAncestor st p (int h) = Inr (Some q)" "st q = Some f" "anc st p h = Some q"
proof -
  have "h \<le> nHeight b" using assms(3) by simp
  then obtain q f where "anc st p h = Some q" "st q = Some f" using assms(1,2) anc_Some [of st p b h] by (auto simp: index_ok_def)
  then show ?thesis using that assms GetAncestor_anc [OF assms(1,2), of "int h"] by simp
qed

lemma check_kernel_eq:
  assumes ix: "index_ok st" "st p = Some b" and ok: "view_ok view"
  shows "\<exists>view'. same_view view view' \<and> check_kernel H spent st p c t out view =
    Inr (case (case utxo view out of Some coin \<Rightarrow> Some coin | None \<Rightarrow> spent p out) of
           None \<Rightarrow> False
         | Some coin \<Rightarrow>
             (case stakeable st p b coin of
                None \<Rightarrow> False
              | Some from \<Rightarrow> \<not> IsSpent coin \<and> fst (CheckStakeKernelHash H b c from (nValue (coin_out coin)) out t)), view')"
proof -
  obtain r view' where g: "GetCoin view out = (r, view')" by (rule prod.exhaust)
  have r: "r = utxo view out" and v: "same_view view view'" using GetCoin_ok [OF ok g] by auto
  show ?thesis
  proof (cases "case r of Some coin \<Rightarrow> Some coin | None \<Rightarrow> spent p out")
    case None
    then show ?thesis using v g r by (auto simp: check_kernel_def)
  next
    case (Some coin)
    show ?thesis
    proof (cases "int (nHeight b) + 1 - int (coin_nHeight coin) < 100")
      case True
      then show ?thesis using v g r Some ix(2) by (auto simp: check_kernel_def deref_def COINBASE_MATURITY_def stakeable_def)
    next
      case False
      then obtain q f where "GetAncestor st p (int (coin_nHeight coin)) = Inr (Some q)" "st q = Some f" "anc st p (coin_nHeight coin) = Some q"
        using stake_ancestor [OF ix] by blast
      then show ?thesis using v g r Some ix(2) False
        by (auto simp: check_kernel_def deref_def COINBASE_MATURITY_def stakeable_def)
    qed
  qed
qed

text \<open>What the cache holds: the stake of coins that may stake on top of \<open>p\<close>.\<close>

definition fresh_cache :: "index_store \<Rightarrow> ptr \<Rightarrow> CBlockIndex \<Rightarrow> CCoinsView \<Rightarrow> (COutPoint \<rightharpoonup> CStakeCache) \<Rightarrow> bool" where
  "fresh_cache st p b view cache \<longleftrightarrow> (\<forall>out e. cache out = Some e \<longrightarrow>
     (\<exists>coin. utxo view out = Some coin \<and> stakeable st p b coin = Some (blockFromTime e) \<and> amount e = nValue (coin_out coin)))"

lemma CacheKernel_fresh:
  assumes ix: "index_ok st" "st p = Some b" and ok: "view_ok view" and fresh: "fresh_cache st p b view cache"
  shows "\<exists>cache' view'. CacheKernel st cache out p view = Inr (cache', view') \<and> same_view view view' \<and> fresh_cache st p b view' cache'"
proof -
  obtain r view' where g: "GetCoin view out = (r, view')" by (rule prod.exhaust)
  have r: "r = utxo view out" and v: "same_view view view'" using GetCoin_ok [OF ok g] by auto
  have refl: "same_view view view" using ok by (simp add: same_view_def)
  have fresh': "fresh_cache st p b view' cache" using fresh v by (simp add: fresh_cache_def same_view_def)
  show ?thesis
  proof (cases "cache out \<noteq> None \<or> r = None")
    case True
    then show ?thesis using refl v g fresh fresh' by (auto simp: CacheKernel_def)
  next
    case False
    then obtain coin where c: "cache out = None" "utxo view out = Some coin" "r = Some coin" using r by auto
    show ?thesis
    proof (cases "int (nHeight b) + 1 - int (coin_nHeight coin) < 100")
      case True
      then show ?thesis using c g v ix(2) fresh' by (auto simp: CacheKernel_def deref_def COINBASE_MATURITY_def)
    next
      case False
      then obtain q f where q: "GetAncestor st p (int (coin_nHeight coin)) = Inr (Some q)" "st q = Some f" "anc st p (coin_nHeight coin) = Some q"
        using stake_ancestor [OF ix] by blast
      have "fresh_cache st p b view' (cache(out \<mapsto> \<lparr>blockFromTime = nTime f, amount = nValue (coin_out coin)\<rparr>))"
        using fresh' v c q False by (auto simp: fresh_cache_def same_view_def stakeable_def)
      then show ?thesis using c g v ix(2) q False by (auto simp: CacheKernel_def deref_def COINBASE_MATURITY_def)
    qed
  qed
qed

text \<open>A cache filled by any sequence of calls.\<close>

fun cache_kernels :: "index_store \<Rightarrow> ptr \<Rightarrow> COutPoint list \<Rightarrow> (COutPoint \<rightharpoonup> CStakeCache) \<Rightarrow> CCoinsView \<Rightarrow>
    chain_error + (COutPoint \<rightharpoonup> CStakeCache) \<times> CCoinsView" where
  "cache_kernels st p [] cache view = Inr (cache, view)"
| "cache_kernels st p (out # outs) cache view =
     bindE (CacheKernel st cache out p view) (\<lambda>(cache, view). cache_kernels st p outs cache view)"

lemma cache_kernels_fresh:
  assumes "index_ok st" "st p = Some b" "view_ok view" "fresh_cache st p b view cache"
  shows "\<exists>cache' view'. cache_kernels st p outs cache view = Inr (cache', view') \<and> same_view view view' \<and> fresh_cache st p b view' cache'"
  using assms(3,4)
proof (induction outs arbitrary: cache view)
  case Nil
  then show ?case by (simp add: same_view_def)
next
  case (Cons out outs)
  obtain c1 v1 where 1: "CacheKernel st cache out p view = Inr (c1, v1)" "same_view view v1" "fresh_cache st p b v1 c1"
    using CacheKernel_fresh [OF assms(1,2) Cons.prems] by blast
  then obtain c2 v2 where "cache_kernels st p outs c1 v1 = Inr (c2, v2)" "same_view v1 v2" "fresh_cache st p b v2 c2"
    using Cons.IH [of v1 c1] by (auto simp: same_view_def)
  then show ?case using 1 by (auto simp: same_view_def)
qed

lemma CheckKernel_fresh:
  assumes ix: "index_ok st" "st p = Some b" and ok: "view_ok view" and fresh: "fresh_cache st p b view cache"
  shows "\<exists>r v v'. CheckKernel H spent st p c t out view cache = Inr (r, v) \<and> CheckKernel H spent st p c t out view Map.empty = Inr (r, v')"
proof (cases "cache out")
  case None
  then show ?thesis using check_kernel_eq [OF ix ok, of H spent c t out] by (auto simp: CheckKernel_def)
next
  case (Some e)
  then obtain coin where coin: "utxo view out = Some coin" "stakeable st p b coin = Some (blockFromTime e)" "amount e = nValue (coin_out coin)"
    using fresh by (auto simp: fresh_cache_def)
  then have "\<not> IsSpent coin" using utxo_unspent by blast
  then show ?thesis using Some coin ix(2) check_kernel_eq [OF ix ok, of H spent c t out] by (auto simp: CheckKernel_def deref_def)
qed


definition deep_store :: index_store where
  "deep_store p = (if p \<le> 200 then Some (entry (if p = 0 then None else Some (p - 1)) None p 10) else None)"

lemma deep_store_ok: "index_ok deep_store"
  by (auto simp: index_ok_def linked_def skips_ok_def deep_store_def split: if_splits)

definition stake_view :: CCoinsView where
  "stake_view = CCoinsViewDB (sample_db\<lparr>db_coins := [COutPoint_SetNull \<mapsto> sample_coin]\<rparr>)"


section \<open>Timestamps\<close>

text \<open>The masks 7, 11 and 15 of \<open>CheckCoinStakeTimestampSW\<close> are implied by the mask 3.\<close>

lemma CheckCoinStakeTimestampSW_mask: "CheckCoinStakeTimestampSW t \<longleftrightarrow> t AND 3 = 0"
proof -
  have "t AND 3 = (t AND 7) AND 3" "t AND 3 = (t AND 11) AND 3" "t AND 3 = (t AND 15) AND 3" by (simp_all add: and.assoc)
  then show ?thesis unfolding CheckCoinStakeTimestampSW_def by (metis and_zero_eq and.commute)
qed

end
