(* ===== verification/Merkle.thy ===== *)
theory Merkle
  imports Block
begin

unbundle bit_operations_syntax

text \<open>
  \<open>consensus/merkle.cpp\<close> and \<open>merkleblock.{h,cpp}\<close>: the Merkle root of a block, with the detection of
  duplicated branches, and partial Merkle trees.  The double hash \<open>H\<close> is an argument; \<open>SHA256D64\<close>
  hashes every 64 bytes of its input.
\<close>

section \<open>The root\<close>

fun SHA256D64 :: "(byte list \<Rightarrow> uint256) \<Rightarrow> uint256 list \<Rightarrow> uint256 list" where
  "SHA256D64 H (left # right # hashes) = H (left @ right) # SHA256D64 H hashes"
| "SHA256D64 H hashes = []"

fun has_twins :: "uint256 list \<Rightarrow> bool" where
  "has_twins (left # right # hashes) = (left = right \<or> has_twins hashes)"
| "has_twins hashes = False"

definition pad_even :: "uint256 list \<Rightarrow> uint256 list" where
  "pad_even hashes = (if odd (length hashes) then hashes @ [last hashes] else hashes)"

lemma length_SHA256D64: "length (SHA256D64 H hashes) = length hashes div 2"
  by (induction H hashes rule: SHA256D64.induct) simp_all

lemma length_pad_even: "length (pad_even hashes) = (length hashes + 1) div 2 * 2"
  by (auto simp: pad_even_def elim!: oddE evenE)

text \<open>The loop; the flag is the \<open>mutation\<close> found so far.\<close>

function merkle_loop :: "(byte list \<Rightarrow> uint256) \<Rightarrow> uint256 list \<Rightarrow> bool \<Rightarrow> uint256 list \<times> bool" where
  "merkle_loop H hashes mutation =
     (if length hashes > 1 then merkle_loop H (SHA256D64 H (pad_even hashes)) (mutation \<or> has_twins hashes)
      else (hashes, mutation))"
  by pat_completeness auto
termination by (relation "measure (\<lambda>(_, hashes, _). length hashes)") (auto simp: length_SHA256D64 length_pad_even)

declare merkle_loop.simps [simp del]

definition ComputeMerkleRoot :: "(byte list \<Rightarrow> uint256) \<Rightarrow> uint256 list \<Rightarrow> uint256 \<times> bool" where
  "ComputeMerkleRoot H hashes =
     (case merkle_loop H hashes False of (hashes, mutation) \<Rightarrow> (if hashes = [] then uint256_zero else hashes ! 0, mutation))"

definition BlockMerkleRoot :: "(byte list \<Rightarrow> uint256) \<Rightarrow> CBlock \<Rightarrow> uint256 \<times> bool" where
  "BlockMerkleRoot H block = ComputeMerkleRoot H (map (ComputeHash H) (vtx block))"

text \<open>\<open>None\<close>: a write behind the end of \<open>leaves\<close>.\<close>

definition BlockWitnessMerkleRoot :: "(byte list \<Rightarrow> uint256) \<Rightarrow> CBlock \<Rightarrow> bool option \<Rightarrow> (uint256 \<times> bool) option" where
  "BlockWitnessMerkleRoot H block pfProofOfStake =
     (let fProofOfStake = (case pfProofOfStake of Some b \<Rightarrow> b | None \<Rightarrow> hdr_IsProofOfStake block);
          skip = (if fProofOfStake then 2 else 1) in
      if length (vtx block) < skip then None
      else Some (ComputeMerkleRoot H (replicate skip uint256_zero @ map (ComputeWitnessHash H) (drop skip (vtx block)))))"

section \<open>Partial Merkle trees\<close>

text \<open>Counts and positions are 32-bit words.  The flag \<open>fBad\<close> belongs to the traversal state: both the
  constructor and the deserialisation clear it.\<close>

record CPartialMerkleTree =
  nTransactions :: u32
  vBits :: "bool list"
  vHash :: "uint256 list"

definition CalcTreeWidth :: "u32 \<Rightarrow> nat \<Rightarrow> u32" where
  "CalcTreeWidth nTx height = drop_bit height (nTx + push_bit height 1 - 1)"

fun CalcHash :: "(byte list \<Rightarrow> uint256) \<Rightarrow> uint256 list \<Rightarrow> nat \<Rightarrow> u32 \<Rightarrow> uint256" where
  "CalcHash H vTxid 0 pos = vTxid ! unat pos"
| "CalcHash H vTxid (Suc height) pos =
     (let left = CalcHash H vTxid height (pos * 2);
          right = (if pos * 2 + 1 < CalcTreeWidth (of_nat (length vTxid)) height then CalcHash H vTxid height (pos * 2 + 1) else left)
      in H (left @ right))"

definition parent_of_match :: "u32 \<Rightarrow> bool list \<Rightarrow> nat \<Rightarrow> u32 \<Rightarrow> bool" where
  "parent_of_match nTx vMatch height pos =
     list_ex (\<lambda>p. vMatch ! p) [unat (push_bit height pos)..<min (unat (push_bit height (pos + 1))) (unat nTx)]"

text \<open>The bits and hashes appended by the traversal.\<close>

fun TraverseAndBuild :: "(byte list \<Rightarrow> uint256) \<Rightarrow> uint256 list \<Rightarrow> bool list \<Rightarrow> nat \<Rightarrow> u32 \<Rightarrow> bool list \<times> uint256 list" where
  "TraverseAndBuild H vTxid vMatch 0 pos = ([parent_of_match (of_nat (length vTxid)) vMatch 0 pos], [CalcHash H vTxid 0 pos])"
| "TraverseAndBuild H vTxid vMatch (Suc height) pos =
     (if \<not> parent_of_match (of_nat (length vTxid)) vMatch (Suc height) pos then ([False], [CalcHash H vTxid (Suc height) pos])
      else
        (let (b1, h1) = TraverseAndBuild H vTxid vMatch height (pos * 2);
             (b2, h2) = (if pos * 2 + 1 < CalcTreeWidth (of_nat (length vTxid)) height
                         then TraverseAndBuild H vTxid vMatch height (pos * 2 + 1) else ([], []))
         in (True # b1 @ b2, h1 @ h2)))"

lemma CalcTreeWidth_high: "31 \<le> h \<Longrightarrow> CalcTreeWidth n h \<le> 1"
proof -
  assume "31 \<le> h"
  then have "unat (CalcTreeWidth n h) \<le> unat (n + push_bit h 1 - 1) div 2 ^ 31"
    unfolding CalcTreeWidth_def unat_drop_bit_eq using power_increasing [of 31 h "2 :: nat"]
    by (simp add: drop_bit_eq_div div_le_mono2)
  also have "\<dots> \<le> 1" using unat_lt2p [of "n + push_bit h 1 - 1"] by simp
  finally show ?thesis by (simp add: word_le_nat_alt)
qed

text \<open>The loop that finds the height ends by 31.\<close>

function tree_height :: "u32 \<Rightarrow> nat \<Rightarrow> nat" where
  "tree_height nTx nHeight = (if CalcTreeWidth nTx nHeight > 1 then tree_height nTx (nHeight + 1) else nHeight)"
  by pat_completeness auto
termination
proof (relation "measure (\<lambda>(n, h). 31 - h)")
  fix n :: u32 and h :: nat
  assume "1 < CalcTreeWidth n h"
  then have "h < 31" using CalcTreeWidth_high [of h n] by (auto simp: not_le [symmetric])
  then show "((n, h + 1), n, h) \<in> measure (\<lambda>(n, h). 31 - h)" by simp
qed simp

declare tree_height.simps [simp del]

definition CPartialMerkleTree_of :: "(byte list \<Rightarrow> uint256) \<Rightarrow> uint256 list \<Rightarrow> bool list \<Rightarrow> CPartialMerkleTree" where
  "CPartialMerkleTree_of H vTxid vMatch =
     (case TraverseAndBuild H vTxid vMatch (tree_height (of_nat (length vTxid)) 0) 0 of
        (b, h) \<Rightarrow> \<lparr>nTransactions = of_nat (length vTxid), vBits = b, vHash = h\<rparr>)"

text \<open>The traversal state: what is left of the bits and hashes, the matches and the flag \<open>fBad\<close>.\<close>

record extract_state =
  bits_left :: "bool list"
  hashes_left :: "uint256 list"
  matched :: "(uint256 \<times> u32) list"
  fBad :: bool

fun TraverseAndExtract :: "(byte list \<Rightarrow> uint256) \<Rightarrow> u32 \<Rightarrow> nat \<Rightarrow> u32 \<Rightarrow> extract_state \<Rightarrow> uint256 \<times> extract_state" where
  "TraverseAndExtract H nTx height pos s =
     (case bits_left s of
        [] \<Rightarrow> (uint256_zero, s\<lparr>fBad := True\<rparr>)
      | fParentOfMatch # bs \<Rightarrow>
          let s = s\<lparr>bits_left := bs\<rparr> in
          if height = 0 \<or> \<not> fParentOfMatch then
            (case hashes_left s of
               [] \<Rightarrow> (uint256_zero, s\<lparr>fBad := True\<rparr>)
             | hash # hs \<Rightarrow>
                 (hash, s\<lparr>hashes_left := hs,
                   matched := (if height = 0 \<and> fParentOfMatch then matched s @ [(hash, pos)] else matched s)\<rparr>))
          else
            (let (left, s) = TraverseAndExtract H nTx (height - 1) (pos * 2) s in
             if pos * 2 + 1 < CalcTreeWidth nTx (height - 1) then
               (let (right, s) = TraverseAndExtract H nTx (height - 1) (pos * 2 + 1) s in
                (H (left @ right), if right = left then s\<lparr>fBad := True\<rparr> else s))
             else (H (left @ left), s)))"

declare TraverseAndExtract.simps [simp del]

text \<open>The root, zero where the tree is refused, and the matches with their indices.  The block size
  limit times \<open>WITNESS_SCALE_FACTOR\<close> is a 32-bit product; \<open>MIN_TRANSACTION_WEIGHT\<close> is 240.  A bit is
  used up by every node visited, of which there are less than \<open>2 ^ 32\<close>.\<close>

definition ExtractMatches :: "(byte list \<Rightarrow> uint256) \<Rightarrow> u32 \<Rightarrow> CPartialMerkleTree \<Rightarrow> uint256 \<times> (uint256 \<times> u32) list" where
  "ExtractMatches H dgpMaxBlockSize t =
     (if nTransactions t = 0 then (uint256_zero, [])
      else if unat (nTransactions t) > unat (dgpMaxBlockSize * 4) div 240 then (uint256_zero, [])
      else if length (vHash t) > unat (nTransactions t) then (uint256_zero, [])
      else if length (vBits t) < length (vHash t) then (uint256_zero, [])
      else
        (let (root, s) = TraverseAndExtract H (nTransactions t) (tree_height (nTransactions t) 0) 0
               \<lparr>bits_left = vBits t, hashes_left = vHash t, matched = [], fBad = False\<rparr>;
             nBitsUsed = of_nat (length (vBits t) - length (bits_left s)) :: u32
         in if fBad s then (uint256_zero, matched s)
            else if unat (nBitsUsed + 7) div 8 \<noteq> (length (vBits t) + 7) div 8 then (uint256_zero, matched s)
            else if hashes_left s \<noteq> [] then (uint256_zero, matched s)
            else (root, matched s)))"

section \<open>Serialisation\<close>

definition bits_to_bytes :: "bool list \<Rightarrow> byte list" where
  "bits_to_bytes bs = map (\<lambda>i. horner_sum of_bool 2 (take 8 (drop (8 * i) bs))) [0..<(length bs + 7) div 8]"

definition bytes_to_bits :: "byte list \<Rightarrow> bool list" where
  "bytes_to_bits v = map (\<lambda>p. v ! (p div 8) AND push_bit (p mod 8) 1 \<noteq> 0) [0..<length v * 8]"

definition ser_tree :: "CPartialMerkleTree \<Rightarrow> byte list" where
  "ser_tree t = WriteLE32 (nTransactions t) @ ser_vector (\<lambda>h. h) (vHash t) @ ser_bytes (bits_to_bytes (vBits t))"

definition unser_tree :: "CPartialMerkleTree reader" where
  "unser_tree s =
     bindE (ser_readdata32 s) (\<lambda>(n, s).
     bindE (unser_vector (stream_read 32) s) (\<lambda>(hs, s).
     bindE (unser_bytes s) (\<lambda>(v, s).
     Inr (\<lparr>nTransactions = n, vBits = bytes_to_bits v, vHash = hs\<rparr>, s))))"

end
