(* ===== verification/Merkle_Laws.thy ===== *)
theory Merkle_Laws
  imports Merkle
begin

text \<open>What a Merkle root commits to, and partial trees against the root.\<close>

section \<open>Levels of the tree\<close>

abbreviation level :: "(byte list \<Rightarrow> uint256) \<Rightarrow> uint256 list \<Rightarrow> uint256 list" where
  "level H hashes \<equiv> SHA256D64 H (pad_even hashes)"

text \<open>The lists the loop goes through.\<close>

function stages :: "(byte list \<Rightarrow> uint256) \<Rightarrow> uint256 list \<Rightarrow> uint256 list list" where
  "stages H hashes = (if length hashes > 1 then hashes # stages H (level H hashes) else [hashes])"
  by pat_completeness auto
termination by (relation "measure (\<lambda>(_, hashes). length hashes)") (auto simp: length_SHA256D64 length_pad_even)

declare stages.simps [simp del]

lemma length_level: "length (level H hashes) = (length hashes + 1) div 2"
  by (simp add: length_SHA256D64 length_pad_even)

lemma stages_Cons: "length hashes > 1 \<Longrightarrow> stages H hashes = hashes # stages H (level H hashes)"
  and stages_single: "\<not> length hashes > 1 \<Longrightarrow> stages H hashes = [hashes]"
  by (subst stages.simps, simp)+

lemma merkle_loop_stages:
  "merkle_loop H hashes m = (last (stages H hashes), m \<or> list_ex (\<lambda>l. length l > 1 \<and> has_twins l) (stages H hashes))"
proof (induction H hashes m rule: merkle_loop.induct)
  case (1 H hashes m)
  show ?case
  proof (cases "length hashes > 1")
    case True
    have "stages H (level H hashes) \<noteq> []" by (subst stages.simps) simp
    then show ?thesis using 1 True by (subst merkle_loop.simps) (simp add: stages_Cons disj_assoc)
  next
    case False
    then show ?thesis by (subst merkle_loop.simps) (simp add: stages_single)
  qed
qed

lemma stages_last_length: "hashes \<noteq> [] \<Longrightarrow> length (last (stages H hashes)) = 1"
proof (induction H hashes rule: stages.induct)
  case (1 H hashes)
  show ?case
  proof (cases "length hashes > 1")
    case True
    then have "level H hashes \<noteq> []" using length_level [of H hashes] by auto
    moreover have "stages H (level H hashes) \<noteq> []" by (subst stages.simps) simp
    ultimately show ?thesis using 1 True by (simp add: stages_Cons)
  next
    case False
    then show ?thesis using 1(2) by (cases hashes) (simp_all add: stages_single)
  qed
qed

section \<open>The root commits to the leaves\<close>

text \<open>The 64-byte messages hashed on the way to the root.\<close>

fun messages :: "uint256 list \<Rightarrow> byte list list" where
  "messages (left # right # hashes) = (left @ right) # messages hashes"
| "messages hashes = []"

definition hashed :: "(byte list \<Rightarrow> uint256) \<Rightarrow> uint256 list \<Rightarrow> byte list set" where
  "hashed H hashes = (\<Union>l\<in>set (stages H hashes). if length l > 1 then set (messages (pad_even l)) else {})"

lemma SHA256D64_messages: "SHA256D64 H hashes = map H (messages hashes)"
  by (induction H hashes rule: SHA256D64.induct) simp_all

lemma messages_inj:
  "even (length xs) \<Longrightarrow> even (length ys) \<Longrightarrow> \<forall>h\<in>set xs \<union> set ys. length h = 32 \<Longrightarrow> messages xs = messages ys \<Longrightarrow> xs = ys"
proof (induction xs arbitrary: ys rule: messages.induct)
  case (1 l r xs)
  obtain l' r' ys' where ys: "ys = l' # r' # ys'" using "1.prems"(2,4) by (cases ys rule: messages.cases) simp_all
  have "l @ r = l' @ r'" "messages xs = messages ys'" using "1.prems"(4) ys by simp_all
  moreover have "length l = length l'" using "1.prems"(3) ys by simp
  moreover have "xs = ys'" by (rule "1.IH") (use "1.prems" ys calculation(2) in simp_all)
  ultimately show ?case using ys by simp
qed (auto elim: messages.elims [OF sym])

lemma pad_even_inj:
  assumes "\<not> has_twins xs" "\<not> has_twins ys" "xs \<noteq> []" "ys \<noteq> []" "pad_even xs = pad_even ys"
  shows "xs = ys"
proof -
  have twins: "has_twins (zs @ [z, z])" if "even (length zs)" for zs and z :: uint256
    using that by (induction zs rule: messages.induct) auto
  have odd: False if "odd (length us)" "vs = us @ [last us]" "\<not> has_twins vs" for us vs :: "uint256 list"
  proof -
    have "us \<noteq> []" using that(1) by auto
    then have "vs = butlast us @ [last us, last us]" using that(2) by (metis append.assoc append_Cons append_Nil append_butlast_last_id)
    moreover have "even (length (butlast us))" using that(1) by simp
    ultimately show False using that(3) twins [of "butlast us" "last us"] by metis
  qed
  show ?thesis
  proof (cases "odd (length xs)")
    case True
    then show ?thesis using assms(2,5) odd [OF True, of ys] by (cases "odd (length ys)") (simp_all add: pad_even_def)
  next
    case False
    then show ?thesis using assms(1,5) odd [of ys xs] by (cases "odd (length ys)") (simp_all add: pad_even_def)
  qed
qed

lemma pad_even_set: "xs \<noteq> [] \<Longrightarrow> set (pad_even xs) = set xs"
  by (auto simp: pad_even_def)

lemma level_inj:
  assumes "\<not> has_twins xs" "\<not> has_twins ys" "length xs > 1" "length ys > 1" "\<forall>h\<in>set xs \<union> set ys. length h = 32"
    "level H xs = level H ys"
  shows "xs = ys \<or> (\<exists>x\<in>set (messages (pad_even xs)). \<exists>y\<in>set (messages (pad_even ys)). collision H x y)"
proof (cases "messages (pad_even xs) = messages (pad_even ys)")
  case True
  have ne: "xs \<noteq> []" "ys \<noteq> []" using assms(3,4) by auto
  have "even (length (pad_even zs))" for zs by (simp add: length_pad_even)
  then have "pad_even xs = pad_even ys" using messages_inj [OF _ _ _ True] assms(5) pad_even_set ne by simp
  then show ?thesis using pad_even_inj [OF assms(1,2) ne] by simp
next
  case False
  have eq: "map H (messages (pad_even xs)) = map H (messages (pad_even ys))" using assms(6) by (simp add: SHA256D64_messages)
  then have len: "length (messages (pad_even xs)) = length (messages (pad_even ys))" by (rule map_eq_imp_length_eq)
  then obtain i where i: "i < length (messages (pad_even xs))" "messages (pad_even xs) ! i \<noteq> messages (pad_even ys) ! i"
    using False nth_equalityI by blast
  then have "collision H (messages (pad_even xs) ! i) (messages (pad_even ys) ! i)"
    using eq len unfolding collision_def by (metis nth_map)
  then show ?thesis using i(1) len nth_mem by metis
qed

lemma stages_head: "hashes \<in> set (stages H hashes)"
  by (subst stages.simps) simp

lemma stages_level:
  "l \<in> set (stages H (level H hashes)) \<Longrightarrow> length hashes > 1 \<Longrightarrow>
   \<exists>m\<in>set (stages H hashes). length m > 1 \<and> l = level H m"
proof (induction "level H hashes" arbitrary: hashes rule: length_induct)
  case 1
  show ?case
  proof (cases "l = level H hashes")
    case True
    then show ?thesis using stages_head "1.prems"(2) by blast
  next
    case False
    then have long: "length (level H hashes) > 1" 
      using "1.prems"(1) stages_single [of "level H hashes" H] by (cases "length (level H hashes) > 1") simp_all
    then have "l \<in> set (stages H (level H (level H hashes)))" using "1.prems"(1) False by (simp add: stages_Cons)
    moreover have "length (level H (level H hashes)) < length (level H hashes)" using long by (subst length_level) linarith
    ultimately show ?thesis using "1.hyps" long "1.prems"(2) by (auto simp: stages_Cons)
  qed
qed

lemma level_sizes: "(\<And>x. length (H x) = 32) \<Longrightarrow> h \<in> set (level H hashes) \<Longrightarrow> length h = 32"
  by (auto simp: SHA256D64_messages)

lemma stages_sizes:
  assumes "\<And>x. length (H x) = 32" "\<forall>h\<in>set hashes. length h = 32" "l \<in> set (stages H hashes)"
  shows "\<forall>h\<in>set l. length h = 32"
proof (cases "l = hashes")
  case False
  have "length hashes > 1" using assms(3) False stages_single [of hashes H] by (cases "length hashes > 1") simp_all
  then obtain m where "l = level H m" using assms(3) False stages_level [of l H hashes] by (auto simp: stages_Cons)
  then show ?thesis using level_sizes [of H, OF assms(1)] by blast
qed (use assms in simp)

definition unmutated :: "(byte list \<Rightarrow> uint256) \<Rightarrow> uint256 list \<Rightarrow> bool" where
  "unmutated H hashes \<longleftrightarrow> (\<forall>l\<in>set (stages H hashes). length l > 1 \<longrightarrow> \<not> has_twins l)"

lemma tail_of_tree:
  assumes "length hashes > 1"
  shows "unmutated H hashes \<Longrightarrow> unmutated H (level H hashes)" "hashed H (level H hashes) \<subseteq> hashed H hashes"
    "last (stages H (level H hashes)) = last (stages H hashes)" "set (stages H (level H hashes)) \<subseteq> set (stages H hashes)"
proof -
  have "stages H (level H hashes) \<noteq> []" by (subst stages.simps) simp
  then show "last (stages H (level H hashes)) = last (stages H hashes)" using assms by (simp add: stages_Cons)
  show "set (stages H (level H hashes)) \<subseteq> set (stages H hashes)" using assms by (auto simp: stages_Cons)
  then show "unmutated H hashes \<Longrightarrow> unmutated H (level H hashes)" "hashed H (level H hashes) \<subseteq> hashed H hashes"
    by (auto simp: unmutated_def hashed_def)
qed

text \<open>One step down from a level that is reached on the other side.\<close>

lemma level_reached:
  assumes "\<And>x. length (H x) = 32" "\<forall>h\<in>set xs \<union> set ys. length h = 32" "unmutated H xs" "unmutated H ys" "length xs > 1" "length ys > 1"
    "level H xs \<in> set (stages H (level H ys))"
  shows "xs \<in> set (stages H ys) \<or> (\<exists>x\<in>hashed H xs. \<exists>y\<in>hashed H ys. collision H x y)"
proof -
  obtain m where m: "m \<in> set (stages H ys)" "length m > 1" "level H xs = level H m" using stages_level [OF assms(7,6)] by blast
  have "\<forall>h\<in>set xs \<union> set m. length h = 32" using stages_sizes [of H ys m, OF assms(1) _ m(1)] assms(2) by blast
  then have "xs = m \<or> (\<exists>x\<in>set (messages (pad_even xs)). \<exists>y\<in>set (messages (pad_even m)). collision H x y)"
    using level_inj [OF _ _ assms(5) m(2) _ m(3)] assms(3,4) m(1,2) stages_head [of xs H] assms(5) by (auto simp: unmutated_def)
  moreover have "set (messages (pad_even xs)) \<subseteq> hashed H xs" "set (messages (pad_even m)) \<subseteq> hashed H ys"
    using stages_head [of xs H] m(1,2) assms(5) by (force simp: hashed_def)+
  ultimately show ?thesis using m(1) by blast
qed

lemma root_inj:
  assumes H: "\<And>x. length (H x) = 32"
  shows "\<forall>h\<in>set xs \<union> set ys. length h = 32 \<Longrightarrow> xs \<noteq> [] \<Longrightarrow> ys \<noteq> [] \<Longrightarrow> unmutated H xs \<Longrightarrow> unmutated H ys \<Longrightarrow>
    last (stages H xs) = last (stages H ys) \<Longrightarrow>
    xs \<in> set (stages H ys) \<or> ys \<in> set (stages H xs) \<or> (\<exists>x\<in>hashed H xs. \<exists>y\<in>hashed H ys. collision H x y)"
proof (induction "length xs + length ys" arbitrary: xs ys rule: less_induct)
  case less
  have ne: "stages H zs \<noteq> []" for zs by (subst stages.simps) simp
  consider "length xs \<le> 1" | "length ys \<le> 1" | "length xs > 1" "length ys > 1" by linarith
  then show ?case
  proof cases
    case 1
    then have "stages H xs = [xs]" by (simp add: stages_single)
    then have "xs = last (stages H ys)" using less.prems(6) by simp
    then show ?thesis using ne last_in_set by blast
  next
    case 2
    then have "stages H ys = [ys]" by (simp add: stages_single)
    then have "ys = last (stages H xs)" using less.prems(6) by simp
    then show ?thesis using ne last_in_set by blast
  next
    case 3
    note tx = tail_of_tree [OF 3(1), of H] and ty = tail_of_tree [OF 3(2), of H]
    have "length (level H xs) + length (level H ys) < length xs + length ys" using 3 by (simp add: length_level)
    moreover have "\<forall>h\<in>set (level H xs) \<union> set (level H ys). length h = 32" using level_sizes [of H, OF H] by blast
    moreover have "level H xs \<noteq> []" "level H ys \<noteq> []" using length_level [of H xs] length_level [of H ys] 3 by auto
    ultimately have "level H xs \<in> set (stages H (level H ys)) \<or> level H ys \<in> set (stages H (level H xs)) \<or>
        (\<exists>x\<in>hashed H (level H xs). \<exists>y\<in>hashed H (level H ys). collision H x y)"
      using less.hyps [of "level H xs" "level H ys"] tx(1,3) ty(1,3) less.prems(4-6) by simp
    then show ?thesis
    proof (elim disjE)
      assume "level H xs \<in> set (stages H (level H ys))"
      then show ?thesis using level_reached [OF H less.prems(1,4,5) 3] by blast
    next
      assume "level H ys \<in> set (stages H (level H xs))"
      moreover have "\<forall>h\<in>set ys \<union> set xs. length h = 32" using less.prems(1) by blast
      ultimately have "ys \<in> set (stages H xs) \<or> (\<exists>x\<in>hashed H ys. \<exists>y\<in>hashed H xs. collision H x y)"
        using level_reached [OF H _ less.prems(5,4) 3(2,1)] by blast
      then show ?thesis unfolding collision_def by metis
    next
      assume "\<exists>x\<in>hashed H (level H xs). \<exists>y\<in>hashed H (level H ys). collision H x y"
      then show ?thesis using tx(2) ty(2) by blast
    qed
  qed
qed

lemma stages_shorter: "l \<in> set (stages H hashes) \<Longrightarrow> l = hashes \<or> length l < length hashes"
proof (induction H hashes rule: stages.induct)
  case (1 H hashes)
  show ?case
  proof (cases "length hashes > 1")
    case True
    then have "length (level H hashes) < length hashes" by (simp add: length_level)
    then show ?thesis using 1 True by (auto simp: stages_Cons)
  next
    case False
    then show ?thesis using 1(2) by (simp add: stages_single)
  qed
qed

lemma ComputeMerkleRoot_stages:
  assumes "hashes \<noteq> []"
  shows "ComputeMerkleRoot H hashes = (last (stages H hashes) ! 0, \<not> unmutated H hashes)"
  using stages_last_length [OF assms, of H]
  by (auto simp: ComputeMerkleRoot_def merkle_loop_stages unmutated_def list_ex_iff)

text \<open>C10: a Merkle root commits to its leaves.  If two lists of hashes have the same root and neither
  is reported as mutated, they are equal, or the shorter one is a level of inner nodes of the
  other's tree, or two messages hashed on the way collide.  The duplication of the last hash of an
  odd level, which makes different lists share a root, is always reported.\<close>

theorem ComputeMerkleRoot_commits:
  assumes "\<And>x. length (H x) = 32" "\<forall>h\<in>set xs \<union> set ys. length h = 32" "xs \<noteq> []" "ys \<noteq> []"
    "ComputeMerkleRoot H xs = (root, False)" "ComputeMerkleRoot H ys = (root, False)"
  shows "xs = ys \<or> length xs < length ys \<and> xs \<in> set (stages H ys) \<or> length ys < length xs \<and> ys \<in> set (stages H xs) \<or>
    (\<exists>x\<in>hashed H xs. \<exists>y\<in>hashed H ys. collision H x y)"
proof -
  have "length (last (stages H xs)) = 1" "length (last (stages H ys)) = 1" using stages_last_length assms(3,4) by auto
  moreover have "last (stages H xs) ! 0 = last (stages H ys) ! 0" and m: "unmutated H xs" "unmutated H ys"
    using assms(5,6) ComputeMerkleRoot_stages [OF assms(3), of H] ComputeMerkleRoot_stages [OF assms(4), of H] by auto
  ultimately have "last (stages H xs) = last (stages H ys)" by (intro nth_equalityI) auto
  then show ?thesis using root_inj [of H, OF assms(1-4) m] stages_shorter by blast
qed

definition zero_hash :: "byte list \<Rightarrow> uint256" where "zero_hash v = replicate 32 0"

definition leaf :: "byte \<Rightarrow> uint256" where "leaf b = replicate 32 b"

lemma leaf_inj: "leaf a = leaf b \<longleftrightarrow> a = b" by (simp add: leaf_def)

theorem ComputeMerkleRoot_commits_witness:
  "ComputeMerkleRoot zero_hash [leaf 1, leaf 2] = (leaf 0, False) \<and> ComputeMerkleRoot zero_hash [leaf 3, leaf 4] = (leaf 0, False) \<and>
   (\<exists>x\<in>hashed zero_hash [leaf 1, leaf 2]. \<exists>y\<in>hashed zero_hash [leaf 3, leaf 4]. collision zero_hash x y)"
proof -
  have root: "ComputeMerkleRoot zero_hash [leaf a, leaf b] = (leaf 0, False)" if "a \<noteq> b" for a b
    using that by (simp add: ComputeMerkleRoot_def merkle_loop.simps pad_even_def leaf_inj) (simp add: zero_hash_def leaf_def)
  have sizes: "length (zero_hash v) = 32" "\<forall>h\<in>set [leaf 1, leaf 2] \<union> set [leaf 3, leaf 4]. length h = 32" for v
    by (simp_all add: zero_hash_def leaf_def)
  show ?thesis
    using root [of 1 2] root [of 3 4] ComputeMerkleRoot_commits [of zero_hash, OF sizes] by (simp add: leaf_inj)
qed

end
