(* ===== verification/Merkle_Nodes.thy ===== *)
theory Merkle_Nodes
  imports Merkle
begin

unbundle bit_operations_syntax

text \<open>
  The nodes of a Merkle tree by natural numbers, and the proof that the 32-bit arithmetic of
  \<open>merkleblock.cpp\<close> computes with them in trees of less than \<open>2 ^ 31\<close> transactions.
\<close>

section \<open>Nodes by natural numbers\<close>

definition tree_width :: "nat \<Rightarrow> nat \<Rightarrow> nat" where
  "tree_width n h = (n + 2 ^ h - 1) div 2 ^ h"

fun node_hash :: "(byte list \<Rightarrow> uint256) \<Rightarrow> uint256 list \<Rightarrow> nat \<Rightarrow> nat \<Rightarrow> uint256" where
  "node_hash H vTxid 0 pos = vTxid ! pos"
| "node_hash H vTxid (Suc height) pos =
     (let left = node_hash H vTxid height (pos * 2);
          right = (if pos * 2 + 1 < tree_width (length vTxid) height then node_hash H vTxid height (pos * 2 + 1) else left)
      in H (left @ right))"

definition node_matched :: "nat \<Rightarrow> bool list \<Rightarrow> nat \<Rightarrow> nat \<Rightarrow> bool" where
  "node_matched n vMatch height pos = list_ex (\<lambda>p. vMatch ! p) [pos * 2 ^ height..<min ((pos + 1) * 2 ^ height) n]"

fun build_nodes :: "(byte list \<Rightarrow> uint256) \<Rightarrow> uint256 list \<Rightarrow> bool list \<Rightarrow> nat \<Rightarrow> nat \<Rightarrow> bool list \<times> uint256 list" where
  "build_nodes H vTxid vMatch 0 pos = ([node_matched (length vTxid) vMatch 0 pos], [node_hash H vTxid 0 pos])"
| "build_nodes H vTxid vMatch (Suc height) pos =
     (if \<not> node_matched (length vTxid) vMatch (Suc height) pos then ([False], [node_hash H vTxid (Suc height) pos])
      else
        (let (b1, h1) = build_nodes H vTxid vMatch height (pos * 2);
             (b2, h2) = (if pos * 2 + 1 < tree_width (length vTxid) height
                         then build_nodes H vTxid vMatch height (pos * 2 + 1) else ([], []))
         in (True # b1 @ b2, h1 @ h2)))"

fun extract_nodes :: "(byte list \<Rightarrow> uint256) \<Rightarrow> nat \<Rightarrow> nat \<Rightarrow> nat \<Rightarrow> extract_state \<Rightarrow> uint256 \<times> extract_state" where
  "extract_nodes H n height pos s =
     (case bits_left s of
        [] \<Rightarrow> (uint256_zero, s\<lparr>fBad := True\<rparr>)
      | fParentOfMatch # bs \<Rightarrow>
          let s = s\<lparr>bits_left := bs\<rparr> in
          if height = 0 \<or> \<not> fParentOfMatch then
            (case hashes_left s of
               [] \<Rightarrow> (uint256_zero, s\<lparr>fBad := True\<rparr>)
             | hash # hs \<Rightarrow>
                 (hash, s\<lparr>hashes_left := hs,
                   matched := (if height = 0 \<and> fParentOfMatch then matched s @ [(hash, of_nat pos)] else matched s)\<rparr>))
          else
            (let (left, s) = extract_nodes H n (height - 1) (pos * 2) s in
             if pos * 2 + 1 < tree_width n (height - 1) then
               (let (right, s) = extract_nodes H n (height - 1) (pos * 2 + 1) s in
                (H (left @ right), if right = left then s\<lparr>fBad := True\<rparr> else s))
             else (H (left @ left), s)))"

declare extract_nodes.simps [simp del]

lemma width_iff: "pos < tree_width n h \<longleftrightarrow> pos * 2 ^ h < n"
proof -
  have "pos < tree_width n h \<longleftrightarrow> (pos + 1) * 2 ^ h \<le> n + 2 ^ h - 1"
    unfolding tree_width_def by (metis Suc_eq_plus1 Suc_le_eq less_eq_div_iff_mult_less_eq zero_less_numeral zero_less_power)
  also have "\<dots> \<longleftrightarrow> pos * 2 ^ h + 2 ^ h \<le> n + 2 ^ h - 1" by (simp add: add.commute)
  also have "\<dots> \<longleftrightarrow> pos * 2 ^ h < n" using zero_less_power [of "2 :: nat" h] by linarith
  finally show ?thesis .
qed

function height_of :: "nat \<Rightarrow> nat \<Rightarrow> nat" where
  "height_of n h = (if tree_width n h > 1 then height_of n (h + 1) else h)"
  by pat_completeness auto
termination
proof (relation "measure (\<lambda>(n, h). n - h)")
  fix n h :: nat
  assume "1 < tree_width n h"
  then have "2 ^ h < n" by (simp add: width_iff)
  then have "h < n" using less_exp [of h] by linarith
  then show "((n, h + 1), n, h) \<in> measure (\<lambda>(n, h). n - h)" by simp
qed simp

declare height_of.simps [simp del]

section \<open>The code computes with them\<close>

lemma CalcTreeWidth_nat:
  assumes "n < 2 ^ 31" "h \<le> 31"
  shows "unat (CalcTreeWidth (of_nat n) h) = tree_width n h"
proof -
  have h: "(2 :: nat) ^ h \<le> 2 ^ 31" using assms(2) by (intro power_increasing) simp_all
  have "of_nat n + push_bit h 1 - 1 = (of_nat (n + 2 ^ h - 1) :: u32)" using zero_less_power [of "2 :: nat" h] by (subst of_nat_diff) (simp_all add: Suc_le_eq)
  moreover have "unat (of_nat (n + 2 ^ h - 1) :: u32) = n + 2 ^ h - 1" using assms(1) h by (subst unat_of_nat_less) simp_all
  ultimately have "unat (of_nat n + push_bit h 1 - 1 :: u32) = n + 2 ^ h - 1" by simp
  then show ?thesis unfolding CalcTreeWidth_def tree_width_def unat_drop_bit_eq by (simp only: drop_bit_eq_div)
qed

lemma right_child_nat:
  assumes "n < 2 ^ 31" "h \<le> 31" "pos < 2 ^ 31"
  shows "of_nat pos * 2 + 1 < CalcTreeWidth (of_nat n) h \<longleftrightarrow> pos * 2 + 1 < tree_width n h"
proof -
  have "unat (of_nat (pos * 2 + 1) :: u32) = pos * 2 + 1" using assms(3) by (subst unat_of_nat_less) simp_all
  moreover have "of_nat pos * 2 + 1 = (of_nat (pos * 2 + 1) :: u32)" by simp
  ultimately show ?thesis by (simp only: word_less_nat_alt CalcTreeWidth_nat [OF assms(1,2)])
qed

lemma children_of_nat: "of_nat pos * 2 = (of_nat (pos * 2) :: u32)" "of_nat pos * 2 + 1 = (of_nat (pos * 2 + 1) :: u32)"
  by simp_all

lemma children_nat:
  assumes "pos < tree_width n (Suc h)"
  shows "pos * 2 < tree_width n h"
  using assms by (simp add: width_iff mult.assoc)

lemma pos_bound: "pos < tree_width n h \<Longrightarrow> n < 2 ^ 31 \<Longrightarrow> pos < 2 ^ 31"
proof -
  assume "pos < tree_width n h" "n < 2 ^ 31"
  then have "pos * 2 ^ h < 2 ^ 31" by (simp add: width_iff)
  moreover have "pos \<le> pos * 2 ^ h" by simp
  ultimately show ?thesis by linarith
qed

lemma tree_height_nat:
  assumes "n < 2 ^ 31" "h \<le> 31"
  shows "tree_height (of_nat n) h = height_of n h \<and> height_of n h \<le> 31"
  using assms
proof (induction n h rule: height_of.induct)
  case (1 n h)
  have w: "1 < CalcTreeWidth (of_nat n) h \<longleftrightarrow> 1 < tree_width n h"
    using CalcTreeWidth_nat [OF "1.prems"] by (simp add: word_less_nat_alt)
  have "h < 31" if "1 < tree_width n h"
    using that w CalcTreeWidth_high [of h "of_nat n"] by (auto simp: not_le [symmetric])
  then show ?case using "1.IH" "1.prems"(1) w "1.prems"(2) by (auto simp: tree_height.simps [of "of_nat n" h] height_of.simps [of n h])
qed

lemma CalcHash_nat:
  assumes "length vTxid < 2 ^ 31" "h \<le> 31" "pos < tree_width (length vTxid) h"
  shows "CalcHash H vTxid h (of_nat pos) = node_hash H vTxid h pos"
  using assms(2,3)
proof (induction h arbitrary: pos)
  case 0
  then show ?case using pos_bound [OF 0(2) assms(1)] by (simp add: unat_of_nat_less)
next
  case (Suc h)
  note p = children_nat [OF Suc.prems(2)] and b = pos_bound [OF Suc.prems(2) assms(1)]
  have "CalcHash H vTxid h (of_nat pos * 2) = node_hash H vTxid h (pos * 2)" using Suc.IH [OF _ p] Suc.prems(1) unfolding children_of_nat(1) by simp
  moreover have "CalcHash H vTxid h (of_nat pos * 2 + 1) = node_hash H vTxid h (pos * 2 + 1)" if "pos * 2 + 1 < tree_width (length vTxid) h"
    using Suc.IH [OF _ that] Suc.prems(1) unfolding children_of_nat(2) by simp
  ultimately show ?case using right_child_nat [OF assms(1) _ b, of h] Suc.prems(1) by (simp add: Let_def)
qed

lemma parent_of_match_nat:
  assumes "n < 2 ^ 31" "h \<le> 31" "pos < tree_width n h"
  shows "parent_of_match (of_nat n) vMatch h (of_nat pos) = node_matched n vMatch h pos"
proof -
  have h: "(2 :: nat) ^ h \<le> 2 ^ 31" using assms(2) by (intro power_increasing) simp_all
  have p: "pos * 2 ^ h < 2 ^ 31" using assms(1,3) by (simp add: width_iff)
  have "push_bit h (of_nat pos) = (of_nat (pos * 2 ^ h) :: u32)" "push_bit h (of_nat pos + 1) = (of_nat ((pos + 1) * 2 ^ h) :: u32)"
    by (simp_all add: push_bit_eq_mult distrib_right)
  moreover have "unat (of_nat (pos * 2 ^ h) :: u32) = pos * 2 ^ h" "unat (of_nat ((pos + 1) * 2 ^ h) :: u32) = (pos + 1) * 2 ^ h"
    "unat (of_nat n :: u32) = n"
    using assms(1) p h by (subst unat_of_nat_less; simp)+
  ultimately show ?thesis by (simp only: parent_of_match_def node_matched_def)
qed

lemma TraverseAndBuild_nat:
  assumes "length vTxid < 2 ^ 31" "h \<le> 31" "pos < tree_width (length vTxid) h"
  shows "TraverseAndBuild H vTxid vMatch h (of_nat pos) = build_nodes H vTxid vMatch h pos"
  using assms(2,3)
proof (induction h arbitrary: pos)
  case 0
  then show ?case
    using parent_of_match_nat [OF assms(1) _ 0(2)] CalcHash_nat [OF assms(1) _ 0(2), of H] by simp
next
  case (Suc h)
  note p = children_nat [OF Suc.prems(2)] and b = pos_bound [OF Suc.prems(2) assms(1)]
  have "TraverseAndBuild H vTxid vMatch h (of_nat pos * 2) = build_nodes H vTxid vMatch h (pos * 2)" using Suc.IH [OF _ p] Suc.prems(1) unfolding children_of_nat(1) by simp
  moreover have "TraverseAndBuild H vTxid vMatch h (of_nat pos * 2 + 1) = build_nodes H vTxid vMatch h (pos * 2 + 1)"
    if "pos * 2 + 1 < tree_width (length vTxid) h"
    using Suc.IH [OF _ that] Suc.prems(1) unfolding children_of_nat(2) by simp
  ultimately show ?case
    using right_child_nat [OF assms(1) _ b, of h] Suc.prems(1) parent_of_match_nat [OF assms(1) Suc.prems]
      CalcHash_nat [OF assms(1) Suc.prems, of H] by (simp del: CalcHash.simps node_hash.simps)
qed

lemma TraverseAndExtract_nat:
  assumes "n < 2 ^ 31" "h \<le> 31" "pos < tree_width n h"
  shows "TraverseAndExtract H (of_nat n) h (of_nat pos) s = extract_nodes H n h pos s"
  using assms(2,3)
proof (induction h arbitrary: pos s)
  case 0
  then show ?case by (subst TraverseAndExtract.simps, subst extract_nodes.simps) (simp split: list.split)
next
  case (Suc h)
  note p = children_nat [OF Suc.prems(2)] and b = pos_bound [OF Suc.prems(2) assms(1)]
  have "TraverseAndExtract H (of_nat n) h (of_nat pos * 2) s = extract_nodes H n h (pos * 2) s" for s using Suc.IH [OF _ p] Suc.prems(1) unfolding children_of_nat(1) by simp
  moreover have "TraverseAndExtract H (of_nat n) h (of_nat pos * 2 + 1) s = extract_nodes H n h (pos * 2 + 1) s" if "pos * 2 + 1 < tree_width n h" for s
    using Suc.IH [OF _ that] Suc.prems(1) unfolding children_of_nat(2) by simp
  ultimately show ?case
    using right_child_nat [OF assms(1) _ b, of h] Suc.prems(1)
    by (subst TraverseAndExtract.simps, subst extract_nodes.simps) (auto simp: Let_def split: list.split prod.split)
qed

end
