(* ===== verification/Partial_Merkle.thy ===== *)
theory Partial_Merkle
  imports Merkle_Laws Merkle_Nodes
begin

text \<open>Partial Merkle trees (\<open>merkleblock.cpp\<close>): the tree built for a block and a set of its transactions
  gives back that set and the block's root, and a tree that gives the block's root names only
  transactions of the block.\<close>

section \<open>Nodes of the tree and levels of the computation\<close>


lemma level_nth:
  "i < length (level H hashes) \<Longrightarrow>
   level H hashes ! i = H (hashes ! (2 * i) @ (if 2 * i + 1 < length hashes then hashes ! (2 * i + 1) else hashes ! (2 * i)))"
proof -
  have m: "j < length zs div 2 \<Longrightarrow> SHA256D64 H zs ! j = H (zs ! (2 * j) @ zs ! (2 * j + 1))" for j zs
  proof (induction H zs arbitrary: j rule: SHA256D64.induct)
    case (1 H l r zs)
    then show ?case by (cases j) auto
  qed auto
  assume "i < length (level H hashes)"
  then have i: "i < length (pad_even hashes) div 2" "2 * i < length hashes" by (simp_all add: length_SHA256D64 length_pad_even)
  have "pad_even hashes ! (2 * i) = hashes ! (2 * i)" using i(2) by (simp add: pad_even_def nth_append)
  moreover have "pad_even hashes ! (2 * i + 1) = (if 2 * i + 1 < length hashes then hashes ! (2 * i + 1) else hashes ! (2 * i))"
  proof (cases "2 * i + 1 < length hashes")
    case False
    then have len: "length hashes = 2 * i + 1" using i(2) by simp
    then have "last hashes = hashes ! (2 * i)" by (subst last_conv_nth) auto
    then show ?thesis using len by (simp add: pad_even_def nth_append)
  qed (simp add: pad_even_def nth_append)
  ultimately show ?thesis using m [OF i(1)] by simp
qed

lemma tree_width_0 [simp]: "tree_width n 0 = n"
  by (simp add: tree_width_def)

lemma tree_width_Suc: "tree_width n (Suc h) = (tree_width n h + 1) div 2"
proof (cases "n = 0")
  case True
  have "(2 :: nat) ^ h - 1 < 2 ^ h" "(2 :: nat) * 2 ^ h - 1 < 2 * 2 ^ h" by simp_all
  then show ?thesis using True by (simp add: tree_width_def)
next
  case False
  have "(n + 2 ^ h - 1 + 2 ^ h) div 2 ^ h div 2 = (n + 2 ^ h - 1 + 2 ^ h) div (2 ^ h * 2)" by (simp add: div_mult2_eq)
  moreover have "(n + 2 ^ h - 1 + 2 ^ h) div 2 ^ h = (n + 2 ^ h - 1) div 2 ^ h + 1" by (subst div_add_self2) simp_all
  moreover have "n + 2 ^ h - 1 + 2 ^ h = n + 2 * 2 ^ h - 1" using False by simp
  ultimately show ?thesis by (simp add: tree_width_def mult.commute)
qed

abbreviation levels :: "(byte list \<Rightarrow> uint256) \<Rightarrow> nat \<Rightarrow> uint256 list \<Rightarrow> uint256 list" where
  "levels H h \<equiv> level H ^^ h"

lemma length_levels: "length (levels H h hashes) = tree_width (length hashes) h"
  by (induction h) (simp_all add: tree_width_Suc length_level)

lemma node_hash_levels: "pos < tree_width (length hashes) h \<Longrightarrow> node_hash H hashes h pos = levels H h hashes ! pos"
proof (induction h arbitrary: pos)
  case (Suc h)
  have p: "pos * 2 < tree_width (length hashes) h" using Suc.prems by (simp add: tree_width_Suc)
  have "pos < length (level H (levels H h hashes))" using Suc.prems length_levels [of "Suc h" H hashes] by simp
  from level_nth [OF this] show ?case
    using Suc.IH [OF p] Suc.IH [of "pos * 2 + 1"] by (simp add: length_levels mult.commute Let_def)
qed simp

lemma root_levels:
  "hashes \<noteq> [] \<Longrightarrow> last (stages H (levels H h hashes)) = levels H (height_of (length hashes) h) hashes"
proof (induction "length hashes" h rule: height_of.induct)
  case (1 h)
  show ?case
  proof (cases "tree_width (length hashes) h > 1")
    case True
    then have long: "length (levels H h hashes) > 1" by (simp add: length_levels)
    have "stages H (level H (levels H h hashes)) \<noteq> []" by (subst stages.simps) simp
    then have "last (stages H (levels H h hashes)) = last (stages H (levels H (h + 1) hashes))" using long by (simp add: stages_Cons)
    then show ?thesis using 1 True by (simp add: height_of.simps [of _ h])
  next
    case False
    then show ?thesis by (simp add: stages_single length_levels height_of.simps [of _ h])
  qed
qed

lemma height_of_width: "n > 0 \<Longrightarrow> tree_width n (height_of n h) = 1"
proof (induction n h rule: height_of.induct)
  case (1 n h)
  have "tree_width n h > 0" using 1(2) by (simp add: tree_width_def div_greater_zero_iff)
  then show ?case using 1 by (simp add: height_of.simps [of n h])
qed

text \<open>The leaves below a node, and the matches among them.\<close>

definition below :: "nat \<Rightarrow> nat \<Rightarrow> nat \<Rightarrow> nat list" where
  "below n h pos = [pos * 2 ^ h..<min ((pos + 1) * 2 ^ h) n]"

definition matches :: "uint256 list \<Rightarrow> bool list \<Rightarrow> nat list \<Rightarrow> (uint256 \<times> u32) list" where
  "matches vTxid vMatch ps = map (\<lambda>p. (vTxid ! p, of_nat p)) (filter (\<lambda>p. vMatch ! p) ps)"

lemma node_matched_below: "node_matched n vMatch h pos \<longleftrightarrow> (\<exists>p\<in>set (below n h pos). vMatch ! p)"
  by (simp add: node_matched_def below_def list_ex_iff)

lemma upt_split: "i \<le> j \<Longrightarrow> j \<le> k \<Longrightarrow> [i..<k] = [i..<j] @ [j..<k]"
  by (metis upt_add_eq_append le_Suc_ex)

lemma below_split:
  assumes "pos < tree_width n (Suc h)"
  shows "below n (Suc h) pos = below n h (pos * 2) @ (if pos * 2 + 1 < tree_width n h then below n h (pos * 2 + 1) else [])"
proof -
  have a: "pos * 2 ^ Suc h = pos * 2 * 2 ^ h" "(pos + 1) * 2 ^ Suc h = (pos * 2 + 1 + 1) * 2 ^ h" by simp_all
  have lt: "pos * 2 * 2 ^ h < n" using assms unfolding width_iff a .
  show ?thesis
  proof (cases "pos * 2 + 1 < tree_width n h")
    case True
    then have r: "(pos * 2 + 1) * 2 ^ h < n" by (simp only: width_iff)
    have "pos * 2 * 2 ^ h \<le> (pos * 2 + 1) * 2 ^ h" "(pos * 2 + 1) * 2 ^ h \<le> min ((pos * 2 + 1 + 1) * 2 ^ h) n" using r by simp_all
    from upt_split [OF this] show ?thesis using True r unfolding below_def a by (simp add: min_absorb1)
  next
    case False
    then have "n \<le> (pos * 2 + 1) * 2 ^ h" by (simp only: width_iff not_less)
    moreover have "(pos * 2 + 1) * 2 ^ h \<le> (pos * 2 + 1 + 1) * 2 ^ h" by simp
    ultimately have "min ((pos * 2 + 1 + 1) * 2 ^ h) n = n" "min ((pos * 2 + 1) * 2 ^ h) n = n" by linarith+
    then show ?thesis using False unfolding below_def a by simp
  qed
qed

definition no_twins :: "(byte list \<Rightarrow> uint256) \<Rightarrow> uint256 list \<Rightarrow> bool" where
  "no_twins H hashes \<longleftrightarrow> (\<forall>h pos. pos * 2 + 1 < tree_width (length hashes) h \<longrightarrow> node_hash H hashes h (pos * 2 + 1) \<noteq> node_hash H hashes h (pos * 2))"

lemma build_sizes:
  assumes "length vMatch = length vTxid" "pos < tree_width (length vTxid) h" "build_nodes H vTxid vMatch h pos = (b, hs)"
  shows "length hs \<le> length (below (length vTxid) h pos) \<and> length hs \<le> length b \<and> hs \<noteq> []"
  using assms(2,3)
proof (induction h arbitrary: pos b hs)
  case 0
  then show ?case by (auto simp: below_def)
next
  case (Suc h)
  let ?n = "length vTxid"
  have p: "pos * 2 < tree_width ?n h" using Suc.prems(1) by (simp add: tree_width_Suc)
  show ?case
  proof (cases "node_matched (length vTxid) vMatch (Suc h) pos")
    case False
    have "pos * 2 ^ Suc h < ?n" using Suc.prems(1) by (simp only: width_iff)
    then have "pos * 2 ^ Suc h < min ((pos + 1) * 2 ^ Suc h) ?n" by simp
    then have "below ?n (Suc h) pos \<noteq> []" unfolding below_def by (simp only: upt_eq_Nil_conv) linarith
    then show ?thesis using Suc.prems(2) False by (auto simp: Suc_le_eq)
  next
    case True
    obtain b1 h1 where 1: "build_nodes H vTxid vMatch h (pos * 2) = (b1, h1)" by (rule prod.exhaust)
    obtain b2 h2 where 2: "build_nodes H vTxid vMatch h (pos * 2 + 1) = (b2, h2)" by (rule prod.exhaust)
    show ?thesis using Suc.IH [OF p 1] Suc.IH [OF _ 2] Suc.prems(2) True 1 2 below_split [OF Suc.prems(1)] by (auto split: if_splits)
  qed
qed

lemma extract_build:
  assumes len: "length vMatch = length vTxid" and tw: "no_twins H vTxid" and "pos < tree_width (length vTxid) h"
    "build_nodes H vTxid vMatch h pos = (b, hs)" "bits_left s = b @ bs" "hashes_left s = hs @ hs'"
  shows "extract_nodes H (length vTxid) h pos s =
    (node_hash H vTxid h pos, s\<lparr>bits_left := bs, hashes_left := hs', matched := matched s @ matches vTxid vMatch (below (length vTxid) h pos)\<rparr>)"
  using assms(3-)
proof (induction h arbitrary: pos b hs s bs hs')
  case 0
  have "below (length vTxid) 0 pos = [pos]" using "0.prems"(1) by (simp add: below_def min_def)
  then show ?case using "0.prems" len
    by (subst extract_nodes.simps) (auto simp: node_matched_below matches_def)
next
  case (Suc h)
  let ?n = "length vTxid"
  show ?case
  proof (cases "node_matched (length vTxid) vMatch (Suc h) pos")
    case False
    then have "matches vTxid vMatch (below ?n (Suc h) pos) = []" using len by (auto simp: matches_def node_matched_below filter_empty_conv)
    then show ?thesis using Suc.prems False by (subst extract_nodes.simps) auto
  next
    case True
    have p: "pos * 2 < tree_width ?n h" using Suc.prems(1) by (simp add: tree_width_Suc)
    obtain b1 h1 where 1: "build_nodes H vTxid vMatch h (pos * 2) = (b1, h1)" by (rule prod.exhaust)
    obtain b2 h2 where 2: "build_nodes H vTxid vMatch h (pos * 2 + 1) = (b2, h2)" by (rule prod.exhaust)
    note split = below_split [OF Suc.prems(1)]
    show ?thesis
    proof (cases "pos * 2 + 1 < tree_width ?n h")
      case both: True
      then have b: "b = True # b1 @ b2" "hs = h1 @ h2" using Suc.prems(2) True 1 2 by simp_all
      let ?s = "s\<lparr>bits_left := b1 @ b2 @ bs\<rparr>"
      let ?s1 = "?s\<lparr>bits_left := b2 @ bs, hashes_left := h2 @ hs', matched := matched s @ matches vTxid vMatch (below ?n h (pos * 2))\<rparr>"
      have "extract_nodes H ?n h (pos * 2) ?s = (node_hash H vTxid h (pos * 2), ?s1)"
        using Suc.IH [OF p 1, of ?s "b2 @ bs" "h2 @ hs'"] Suc.prems(4) b by simp
      moreover have "extract_nodes H ?n h (pos * 2 + 1) ?s1 = (node_hash H vTxid h (pos * 2 + 1),
          ?s1\<lparr>bits_left := bs, hashes_left := hs', matched := matched ?s1 @ matches vTxid vMatch (below ?n h (pos * 2 + 1))\<rparr>)"
        using Suc.IH [OF both 2, of ?s1 bs hs'] by simp
      moreover have "node_hash H vTxid h (pos * 2 + 1) \<noteq> node_hash H vTxid h (pos * 2)" using tw both by (simp add: no_twins_def)
      ultimately show ?thesis
        using both split Suc.prems(3) b by (subst extract_nodes.simps) (simp add: matches_def Let_def)
    next
      case one: False
      then have b: "b = True # b1" "hs = h1" using Suc.prems(2) True 1 by simp_all
      have "extract_nodes H ?n h (pos * 2) (s\<lparr>bits_left := b1 @ bs\<rparr>) = (node_hash H vTxid h (pos * 2),
          s\<lparr>bits_left := bs, hashes_left := hs', matched := matched s @ matches vTxid vMatch (below ?n h (pos * 2))\<rparr>)"
        using Suc.IH [OF p 1, of "s\<lparr>bits_left := b1 @ bs\<rparr>" bs hs'] Suc.prems(4) b by simp
      then show ?thesis using one split Suc.prems(3) b by (subst extract_nodes.simps) (simp add: Let_def)
    qed
  qed
qed

lemma stages_closed: "m \<in> set (stages H hashes) \<Longrightarrow> length m > 1 \<Longrightarrow> level H m \<in> set (stages H hashes)"
proof (induction H hashes rule: stages.induct)
  case (1 H hashes)
  show ?case
  proof (cases "length hashes > 1")
    case True
    then show ?thesis using 1 stages_head [of "level H hashes" H] by (auto simp: stages_Cons)
  next
    case False
    then show ?thesis using 1 by (simp add: stages_single)
  qed
qed

lemma levels_in_stages: "length (levels H h hashes) > 1 \<Longrightarrow> levels H h hashes \<in> set (stages H hashes)"
proof (induction h)
  case (Suc h)
  then have "length (levels H h hashes) > 1" using length_level [of H "levels H h hashes"] by simp
  then show ?case using Suc.IH stages_closed by simp
qed (simp add: stages_head)

lemma has_twins_nth: "has_twins l \<longleftrightarrow> (\<exists>i. 2 * i + 1 < length l \<and> l ! (2 * i) = l ! (2 * i + 1))"
proof (induction l rule: has_twins.induct)
  case (1 x y l)
  show ?case
  proof
    assume "has_twins (x # y # l)"
    then consider "x = y" | i where "2 * i + 1 < length l" "l ! (2 * i) = l ! (2 * i + 1)" using "1.IH" by auto
    then show "\<exists>i. 2 * i + 1 < length (x # y # l) \<and> (x # y # l) ! (2 * i) = (x # y # l) ! (2 * i + 1)"
    proof cases
      case 1
      then show ?thesis by (intro exI [of _ 0]) simp
    next
      case (2 i)
      then show ?thesis by (intro exI [of _ "Suc i"]) simp
    qed
  next
    assume "\<exists>i. 2 * i + 1 < length (x # y # l) \<and> (x # y # l) ! (2 * i) = (x # y # l) ! (2 * i + 1)"
    then obtain i where "2 * i + 1 < length (x # y # l)" "(x # y # l) ! (2 * i) = (x # y # l) ! (2 * i + 1)" by blast
    then show "has_twins (x # y # l)" using "1.IH" by (cases i) auto
  qed
qed auto

lemma unmutated_no_twins: "unmutated H hashes \<Longrightarrow> no_twins H hashes"
  unfolding no_twins_def
proof (intro allI impI)
  fix h pos
  assume un: "unmutated H hashes" and p: "pos * 2 + 1 < tree_width (length hashes) h"
  then have l: "length (levels H h hashes) > 1" "2 * pos + 1 < length (levels H h hashes)" by (simp_all add: length_levels)
  then have "\<not> has_twins (levels H h hashes)" using un levels_in_stages by (auto simp: unmutated_def)
  then have "levels H h hashes ! (2 * pos) \<noteq> levels H h hashes ! (2 * pos + 1)" using l(2) by (auto simp: has_twins_nth)
  then show "node_hash H hashes h (pos * 2 + 1) \<noteq> node_hash H hashes h (pos * 2)"
    using p node_hash_levels [of "pos * 2 + 1" hashes h H] node_hash_levels [of "pos * 2" hashes h H] by (simp add: mult.commute)
qed

lemma bytes_of_bits: "bytes_to_bits (bits_to_bytes b) = b @ replicate ((length b + 7) div 8 * 8 - length b) False"
proof (rule nth_equalityI)
  have len: "length b \<le> (length b + 7) div 8 * 8" by linarith
  then show l: "length (bytes_to_bits (bits_to_bytes b)) = length (b @ replicate ((length b + 7) div 8 * 8 - length b) False)"
    by (simp add: bytes_to_bits_def bits_to_bytes_def)
  fix p
  assume "p < length (bytes_to_bits (bits_to_bytes b))"
  then have p: "p < (length b + 7) div 8 * 8" by (simp add: bytes_to_bits_def bits_to_bytes_def)
  then have i: "p div 8 < (length b + 7) div 8" by (simp add: less_mult_imp_div_less)
  have "bytes_to_bits (bits_to_bytes b) ! p \<longleftrightarrow> bit (bits_to_bytes b ! (p div 8)) (p mod 8)"
    using p unfolding bytes_to_bits_def push_bit_of_1 by (simp add: bits_to_bytes_def and_exp_eq_0_iff_not_bit)
  also have "\<dots> \<longleftrightarrow> p mod 8 < length (take 8 (drop (8 * (p div 8)) b)) \<and> take 8 (drop (8 * (p div 8)) b) ! (p mod 8)"
    using i by (simp add: bits_to_bytes_def bit_horner_sum_bit_iff)
  also have "\<dots> \<longleftrightarrow> p < length b \<and> b ! p"
  proof -
    have s: "8 * (p div 8) + p mod 8 = p" by simp
    then have "p mod 8 < length b - 8 * (p div 8) \<longleftrightarrow> p < length b" by linarith
    then show ?thesis using s by auto
  qed
  finally show "bytes_to_bits (bits_to_bytes b) ! p = (b @ replicate ((length b + 7) div 8 * 8 - length b) False) ! p"
    using p by (auto simp: nth_append)
qed

section \<open>The tree gives back what it was built for\<close>

lemma root_node_hash:
  assumes "vTxid \<noteq> []"
  shows "fst (ComputeMerkleRoot H vTxid) = node_hash H vTxid (height_of (length vTxid) 0) 0"
  using assms ComputeMerkleRoot_stages [OF assms, of H] root_levels [OF assms, of H 0] height_of_width [of "length vTxid" 0]
    node_hash_levels [of 0 vTxid "height_of (length vTxid) 0" H] by simp

lemma below_root: "n > 0 \<Longrightarrow> below n (height_of n 0) 0 = [0..<n]"
  using width_iff [of 1 n "height_of n 0"] height_of_width [of n 0] by (simp add: below_def min_def)

lemma hashes_build:
  assumes "\<And>x. length (H x) = 32" "\<forall>h\<in>set vTxid. length h = 32" "pos < tree_width (length vTxid) h"
  shows "length (node_hash H vTxid h pos) = 32"
  using assms by (cases h) (simp_all add: Let_def)

lemma vHash_build:
  assumes "\<And>x. length (H x) = 32" "\<forall>h\<in>set vTxid. length h = 32" "pos < tree_width (length vTxid) h"
    "build_nodes H vTxid vMatch h pos = (b, hs)"
  shows "\<forall>x\<in>set hs. length x = 32"
  using assms(3,4)
proof (induction h arbitrary: pos b hs)
  case 0
  then show ?case using assms(2) by auto
next
  case (Suc h)
  have p: "pos * 2 < tree_width (length vTxid) h" using Suc.prems(1) by (simp add: tree_width_Suc)
  have c: "length (node_hash H vTxid (Suc h) pos) = 32" using hashes_build [OF assms(1,2) Suc.prems(1)] .
  obtain b1 h1 where 1: "build_nodes H vTxid vMatch h (pos * 2) = (b1, h1)" by (rule prod.exhaust)
  obtain b2 h2 where 2: "build_nodes H vTxid vMatch h (pos * 2 + 1) = (b2, h2)" by (rule prod.exhaust)
  note both = Suc.IH [OF _ 2] and one = Suc.IH [OF p 1]
  show ?case using Suc.prems(2) both one c 1 2 by (auto simp del: node_hash.simps split: if_splits)
qed

lemma bits_build:
  "build_nodes H vTxid vMatch h pos = (b, hs) \<Longrightarrow> length b < 2 ^ Suc h"
proof (induction h arbitrary: pos b hs)
  case (Suc h)
  obtain b1 h1 where 1: "build_nodes H vTxid vMatch h (pos * 2) = (b1, h1)" by (rule prod.exhaust)
  obtain b2 h2 where 2: "build_nodes H vTxid vMatch h (pos * 2 + 1) = (b2, h2)" by (rule prod.exhaust)
  have "length b1 < 2 ^ Suc h" "length b2 < 2 ^ Suc h" using Suc.IH 1 2 by blast+
  then show ?case using Suc.prems 1 2 by (auto split: if_splits)
qed auto

lemma height_of_above: "h < height_of n 0 \<Longrightarrow> 1 < tree_width n h"
proof -
  have "k \<le> h \<Longrightarrow> h < height_of n k \<Longrightarrow> 1 < tree_width n h" for k
  proof (induction n k rule: height_of.induct)
    case (1 n k)
    then have "tree_width n k > 1" by (auto simp: height_of.simps [of n k] split: if_splits)
    then show ?case using 1 by (cases "k = h") (auto simp: height_of.simps [of n k])
  qed
  then show "h < height_of n 0 \<Longrightarrow> 1 < tree_width n h" by blast
qed

lemma height_of_bound: "n > 0 \<Longrightarrow> 2 ^ height_of n 0 < 2 * n"
proof (cases "height_of n 0")
  case (Suc h)
  then have "1 < tree_width n h" by (intro height_of_above) simp
  then show ?thesis using Suc by (simp add: width_iff)
qed simp

lemma tree_of_nodes:
  assumes "vTxid \<noteq> []" "length vTxid < 2 ^ 31"
  shows "CPartialMerkleTree_of H vTxid vMatch =
    (case build_nodes H vTxid vMatch (height_of (length vTxid) 0) 0 of
       (b, h) \<Rightarrow> \<lparr>nTransactions = of_nat (length vTxid), vBits = b, vHash = h\<rparr>)"
  using TraverseAndBuild_nat [of vTxid "height_of (length vTxid) 0" 0 H vMatch] tree_height_nat [OF assms(2), of 0]
    height_of_width [of "length vTxid" 0] assms by (simp add: CPartialMerkleTree_of_def)

lemma ExtractMatches_build:
  assumes len: "length vMatch = length vTxid" and tx: "vTxid \<noteq> []" "length vTxid \<le> unat (dgpMaxBlockSize * 4) div 240"
    and un: "unmutated H vTxid" and t: "CPartialMerkleTree_of H vTxid vMatch = t"
    and pad: "(length (vBits t) + length ps + 7) div 8 = (length (vBits t) + 7) div 8"
  shows "ExtractMatches H dgpMaxBlockSize (t\<lparr>vBits := vBits t @ ps\<rparr>) =
    (fst (ComputeMerkleRoot H vTxid), matches vTxid vMatch [0..<length vTxid])"
proof -
  let ?n = "length vTxid" and ?h = "height_of (length vTxid) 0"
  have n: "?n < 2 ^ 25" using tx(2) unat_lt2p [of "dgpMaxBlockSize * 4"] by simp
  obtain b hs where bh: "build_nodes H vTxid vMatch ?h 0 = (b, hs)" by (rule prod.exhaust)
  then have t': "t = \<lparr>nTransactions = of_nat ?n, vBits = b, vHash = hs\<rparr>" using t n tx(1) by (simp add: tree_of_nodes)
  have w: "0 < tree_width ?n ?h" using height_of_width [of ?n 0] tx(1) by simp
  have sizes: "length hs \<le> ?n" "length hs \<le> length b" using build_sizes [OF len w bh] below_root [of ?n] tx(1) by auto
  have "length b < 2 ^ 27" using bits_build [OF bh] height_of_bound [of ?n] tx(1) n by simp
  then have used: "unat (of_nat (length b) + 7 :: u32) = length b + 7"
    using unat_of_nat_less [of "length b + 7", where 'a = 32] by simp
  have nat: "unat (of_nat ?n :: u32) = ?n" "of_nat ?n \<noteq> (0 :: u32)"
    using n tx(1) by (simp_all add: unat_of_nat_less word_unat_eq_iff)
  have "extract_nodes H ?n ?h 0 \<lparr>bits_left = b @ ps, hashes_left = hs, matched = [], fBad = False\<rparr> =
      (node_hash H vTxid ?h 0, \<lparr>bits_left = ps, hashes_left = [], matched = matches vTxid vMatch [0..<?n], fBad = False\<rparr>)"
    using extract_build [OF len unmutated_no_twins [OF un] w bh, of "\<lparr>bits_left = b @ ps, hashes_left = hs, matched = [], fBad = False\<rparr>" ps "[]"]
      below_root [of ?n] tx(1) by simp
  then have "TraverseAndExtract H (of_nat ?n) (tree_height (of_nat ?n) 0) 0 \<lparr>bits_left = b @ ps, hashes_left = hs, matched = [], fBad = False\<rparr> =
      (node_hash H vTxid ?h 0, \<lparr>bits_left = ps, hashes_left = [], matched = matches vTxid vMatch [0..<?n], fBad = False\<rparr>)"
    using TraverseAndExtract_nat [of ?n ?h 0 H] tree_height_nat [of ?n 0] w n by simp
  then show ?thesis
    using sizes tx pad root_node_hash [OF tx(1), of H] nat used by (simp add: ExtractMatches_def t' not_less [symmetric])
qed

text \<open>C9: a partial Merkle tree carries the selected transactions of a block.  The tree built for the
  transaction ids of a block that fit in one, written to a stream and read back with the padding of
  its last byte, extracts to the Merkle root of the block and to exactly the selected ids with their
  positions, where no level of the block's tree has equal neighbours.\<close>

theorem partial_tree_roundtrip:
  assumes "\<And>x. length (H x) = 32" "\<forall>h\<in>set vTxid. length h = 32" "vTxid \<noteq> []" "length vMatch = length vTxid"
    "length vTxid \<le> unat (dgpMaxBlockSize * 4) div 240" "ComputeMerkleRoot H vTxid = (root, False)"
  shows "\<exists>t. unser_tree (ser_tree (CPartialMerkleTree_of H vTxid vMatch) @ r) = Inr (t, r) \<and>
    ExtractMatches H dgpMaxBlockSize t = (root, matches vTxid vMatch [0..<length vTxid])"
proof -
  let ?n = "length vTxid" and ?h = "height_of (length vTxid) 0"
  obtain b hs where bh: "build_nodes H vTxid vMatch ?h 0 = (b, hs)" by (rule prod.exhaust)
  have n: "?n < 2 ^ 25" using assms(5) unat_lt2p [of "dgpMaxBlockSize * 4"] by simp
  then have size: "?n \<le> MAX_SIZE" by (simp add: MAX_SIZE_def)
  define t where "t = CPartialMerkleTree_of H vTxid vMatch"
  then have t': "t = \<lparr>nTransactions = of_nat ?n, vBits = b, vHash = hs\<rparr>" using bh n assms(3) by (simp add: tree_of_nodes)
  define ps where "ps = replicate ((length b + 7) div 8 * 8 - length b) False"
  have w: "0 < tree_width ?n ?h" using height_of_width [of ?n 0] assms(3) by simp
  have un: "unmutated H vTxid" and root: "fst (ComputeMerkleRoot H vTxid) = root" using assms(3,6) ComputeMerkleRoot_stages by auto
  have hs: "length hs \<le> MAX_SIZE" "\<forall>h\<in>set hs. length h = 32"
    using build_sizes [OF assms(4) w bh] below_root [of ?n] assms(3) size vHash_build [OF assms(1,2) w bh] by auto
  have "length b < 4 * ?n" using bits_build [OF bh] height_of_bound [of ?n] assms(3) by simp
  then have bs: "length (bits_to_bytes b) \<le> MAX_SIZE" using size by (simp add: bits_to_bytes_def MAX_SIZE_def)
  have "unser_tree (ser_tree t @ r) = Inr (t\<lparr>vBits := b @ ps\<rparr>, r)"
    using hs bs by (simp add: t' unser_tree_def ser_tree_def u32.unser_ser hashes.unser_ser bytes.unser_ser bytes_of_bits ps_def)
  moreover have "(length (vBits t) + length ps + 7) div 8 = (length (vBits t) + 7) div 8" unfolding ps_def t' by simp
  ultimately show ?thesis
    using ExtractMatches_build [OF assms(4,3,5) un t_def [symmetric], of ps] root by (auto simp: t_def [symmetric] t')
qed

text \<open>A hash function for examples, which adds the bytes.\<close>

definition sum_hash :: "byte list \<Rightarrow> uint256" where "sum_hash v = leaf (sum_list v + 1)"

lemma sum_hash_leaves: "sum_hash (leaf a @ leaf b) = leaf (32 * (a + b) + 1)"
  by (simp add: sum_hash_def leaf_def sum_list_replicate distrib_left)

lemma sum_hash_length: "length (sum_hash v) = 32"
  by (simp add: sum_hash_def leaf_def)

lemma three_leaves:
  "ComputeMerkleRoot sum_hash [leaf 1, leaf 2, leaf 3] = (leaf 65, False)"
  by (simp add: ComputeMerkleRoot_def merkle_loop.simps pad_even_def leaf_inj sum_hash_leaves)

theorem partial_tree_roundtrip_witness:
  "\<exists>t. unser_tree (ser_tree (CPartialMerkleTree_of sum_hash [leaf 1, leaf 2, leaf 3] [False, True, False]) @ [7]) = Inr (t, [7]) \<and>
    ExtractMatches sum_hash 8000000 t = (leaf 65, [(leaf 2, 1)])"
proof -
  have "\<forall>h\<in>set [leaf 1, leaf 2, leaf 3]. length h = 32" by (simp add: leaf_def)
  then show ?thesis
    using partial_tree_roundtrip [OF sum_hash_length _ _ _ _ three_leaves, of "[False, True, False]" 8000000 "[7]"]
    by (simp add: MAX_SIZE_def matches_def upt_rec)
qed

section \<open>A tree for the root names only transactions of the block\<close>

text \<open>The messages the traversal hashes.\<close>

fun queries :: "(byte list \<Rightarrow> uint256) \<Rightarrow> nat \<Rightarrow> nat \<Rightarrow> nat \<Rightarrow> extract_state \<Rightarrow> byte list list" where
  "queries H nTx 0 pos s = []"
| "queries H nTx (Suc height) pos s =
     (case bits_left s of
        [] \<Rightarrow> []
      | fParentOfMatch # bs \<Rightarrow>
          let s = s\<lparr>bits_left := bs\<rparr> in
          if \<not> fParentOfMatch then []
          else
            (let (left, s1) = extract_nodes H nTx height (pos * 2) s;
                 (right, s2) = extract_nodes H nTx height (pos * 2 + 1) s1
             in if pos * 2 + 1 < tree_width nTx height
                then (left @ right) # queries H nTx height (pos * 2) s @ queries H nTx height (pos * 2 + 1) s1
                else (left @ left) # queries H nTx height (pos * 2) s))"

definition tree_queries :: "(byte list \<Rightarrow> uint256) \<Rightarrow> CPartialMerkleTree \<Rightarrow> byte list set" where
  "tree_queries H t = set (queries H (unat (nTransactions t)) (height_of (unat (nTransactions t)) 0) 0
     \<lparr>bits_left = vBits t, hashes_left = vHash t, matched = [], fBad = False\<rparr>)"

lemma messages_nth: "2 * i + 1 < length l \<Longrightarrow> l ! (2 * i) @ l ! (2 * i + 1) \<in> set (messages l)"
proof (induction l arbitrary: i rule: messages.induct)
  case (1 x y l)
  then show ?case by (cases i) auto
qed auto

lemma node_hashed:
  assumes "pos * 2 < tree_width (length vTxid) h" "1 < tree_width (length vTxid) h"
  shows "node_hash H vTxid h (pos * 2) @ (if pos * 2 + 1 < tree_width (length vTxid) h then node_hash H vTxid h (pos * 2 + 1)
    else node_hash H vTxid h (pos * 2)) \<in> hashed H vTxid"
proof -
  let ?l = "levels H h vTxid"
  have len: "length ?l = tree_width (length vTxid) h" by (rule length_levels)
  have "set (messages (pad_even ?l)) \<subseteq> hashed H vTxid"
    using levels_in_stages [where h = h and H = H and hashes = vTxid] assms(2) len unfolding hashed_def by fastforce
  moreover have "2 * pos + 1 < length (pad_even ?l)"
    using assms(1) len unfolding length_pad_even by presburger
  note messages_nth [OF this]
  moreover have "pad_even ?l ! (2 * pos) = ?l ! (2 * pos)" using assms(1) len by (simp add: pad_even_def nth_append)
  moreover have "pad_even ?l ! (2 * pos + 1) = (if pos * 2 + 1 < length ?l then ?l ! (2 * pos + 1) else ?l ! (2 * pos))"
  proof (cases "pos * 2 + 1 < length ?l")
    case False
    then have l: "length ?l = 2 * pos + 1" using assms(1) len by simp
    then have "last ?l = ?l ! (2 * pos)" by (subst last_conv_nth) auto
    then show ?thesis using l by (simp add: pad_even_def nth_append)
  qed (simp add: pad_even_def nth_append mult.commute)
  ultimately show ?thesis
    using assms(1) len node_hash_levels [of "pos * 2" vTxid h H] node_hash_levels [of "pos * 2 + 1" vTxid h H]
    by (auto simp: mult.commute split: if_splits)
qed

definition sizes_ok :: "extract_state \<Rightarrow> bool" where
  "sizes_ok s \<longleftrightarrow> (\<forall>h\<in>set (hashes_left s). length h = 32)"

lemma extract_sizes:
  assumes "\<And>x. length (H x) = 32" "extract_nodes H n h pos s = (x, s')" "sizes_ok s"
  shows "length x = 32 \<and> sizes_ok s'"
  using assms(2,3)
proof (induction h arbitrary: pos s x s')
  case 0
  then show ?case
    by (subst (asm) extract_nodes.simps) (auto simp: sizes_ok_def Let_def uint256_zero_def split: list.splits)
next
  case (Suc h)
  show ?case
  proof (cases "bits_left s")
    case Nil
    then show ?thesis using Suc.prems by (subst (asm) extract_nodes.simps) (auto simp: uint256_zero_def sizes_ok_def)
  next
    case (Cons f bs)
    let ?s = "s\<lparr>bits_left := bs\<rparr>"
    obtain l s1 where 1: "extract_nodes H n h (pos * 2) ?s = (l, s1)" by (rule prod.exhaust)
    obtain r s2 where 2: "extract_nodes H n h (pos * 2 + 1) s1 = (r, s2)" by (rule prod.exhaust)
    have "sizes_ok ?s" using Suc.prems(2) by (simp add: sizes_ok_def)
    then have "sizes_ok s1" "sizes_ok s2" using Suc.IH [OF 1] Suc.IH [OF 2] by blast+
    then show ?thesis using Suc.prems Cons 1 2 assms(1)
      by (subst (asm) extract_nodes.simps) (auto simp: sizes_ok_def Let_def uint256_zero_def split: list.splits if_splits)
  qed
qed

definition right_matches :: "uint256 list \<Rightarrow> (uint256 \<times> u32) list \<Rightarrow> bool" where
  "right_matches vTxid ms \<longleftrightarrow> (\<forall>(h, i)\<in>set ms. unat i < length vTxid \<and> vTxid ! unat i = h)"

lemma extract_sound:
  assumes H: "\<And>x. length (H x) = 32" and sz: "\<forall>h\<in>set vTxid. length h = 32" and n: "length vTxid < 2 ^ 31"
    and "pos < tree_width (length vTxid) h" "h \<le> height_of (length vTxid) 0" "sizes_ok s"
      "extract_nodes H (length vTxid) h pos s = (node_hash H vTxid h pos, s')"
      "\<forall>x\<in>hashed H vTxid. \<forall>y\<in>set (queries H (length vTxid) h pos s). \<not> collision H x y" "right_matches vTxid (matched s)"
  shows "right_matches vTxid (matched s')"
  using assms(4-)
proof (induction h arbitrary: pos s s')
  case 0
  then have "unat (of_nat pos :: u32) = pos" using n by (simp add: unat_of_nat_less)
  then show ?case using 0
    by (subst (asm) extract_nodes.simps) (auto simp: right_matches_def Let_def split: list.splits if_splits)
next
  case (Suc h)
  let ?n = "length vTxid"
  note step = Suc.prems(4) [unfolded extract_nodes.simps [of _ _ "Suc h"]]
  show ?case
  proof (cases "\<exists>bs. bits_left s = True # bs")
    case False
    then show ?thesis using Suc.prems(6) step by (auto simp: Let_def split: list.splits)
  next
    case True
    then obtain bs where bs: "bits_left s = True # bs" by blast
    let ?s = "s\<lparr>bits_left := bs\<rparr>"
    obtain l s1 where 1: "extract_nodes H ?n h (pos * 2) ?s = (l, s1)" by (rule prod.exhaust)
    obtain r s2 where 2: "extract_nodes H ?n h (pos * 2 + 1) s1 = (r, s2)" by (rule prod.exhaust)
    let ?both = "pos * 2 + 1 < tree_width ?n h"
    let ?L = "node_hash H vTxid h (pos * 2)" and ?R = "node_hash H vTxid h (pos * 2 + 1)"
    have p: "pos * 2 < tree_width ?n h" using Suc.prems(1) by (simp add: tree_width_Suc)
    have ss: "sizes_ok ?s" using Suc.prems(3) by (simp add: sizes_ok_def)
    have l: "length l = 32" "sizes_ok s1" using extract_sizes [OF H 1 ss] by auto
    have "1 < tree_width ?n h" using height_of_above Suc.prems(2) by simp
    note node = node_hashed [OF p this, of H]
    have q: "l @ (if ?both then r else l) \<in> set (queries H ?n (Suc h) pos s)" using bs 1 2 by (simp add: Let_def)
    have "H (l @ (if ?both then r else l)) = H (?L @ (if ?both then ?R else ?L))" using step bs 1 2 by (auto simp: Let_def)
    then have "l @ (if ?both then r else l) = ?L @ (if ?both then ?R else ?L)"
      using Suc.prems(5) node q unfolding collision_def by metis
    moreover have "length ?L = 32" using hashes_build [OF H sz p] .
    ultimately have lr: "l = ?L" "?both \<Longrightarrow> r = ?R" using l(1) by (auto split: if_splits)
    have qs: "set (queries H ?n h (pos * 2) ?s) \<subseteq> set (queries H ?n (Suc h) pos s)"
      "?both \<Longrightarrow> set (queries H ?n h (pos * 2 + 1) s1) \<subseteq> set (queries H ?n (Suc h) pos s)" using bs 1 2 by (auto simp: Let_def)
    have m1: "right_matches vTxid (matched s1)"
      using Suc.IH [OF p _ ss] 1 lr(1) Suc.prems(2,5,6) qs(1) by (simp add: subset_iff)
    moreover have "right_matches vTxid (matched s2)" if both: ?both
      using Suc.IH [OF both _ l(2)] 2 lr(2) [OF both] m1 Suc.prems(2,5) qs(2) [OF both] by (simp add: subset_iff)
    ultimately show ?thesis using step bs 1 2 by (auto simp: Let_def split: if_splits)
  qed
qed

text \<open>C8: a partial tree proves membership.  If a tree that declares as many transactions as the block
  has extracts to the block's Merkle root, then every match it reports is a transaction id of the
  block at the reported position, or a message hashed by the extraction collides with one hashed for
  the root.  The root zero, by which the extraction reports failure, is excluded.\<close>

theorem ExtractMatches_sound:
  assumes "\<And>x. length (H x) = 32" "\<forall>h\<in>set vTxid. length h = 32" "\<forall>h\<in>set (vHash t). length h = 32"
    "unat (nTransactions t) = length vTxid" "fst (ComputeMerkleRoot H vTxid) = root"
    "ExtractMatches H dgpMaxBlockSize t = (root, ms)" "root \<noteq> uint256_zero"
  shows "(\<forall>(h, i)\<in>set ms. unat i < length vTxid \<and> vTxid ! unat i = h) \<or>
    (\<exists>x\<in>hashed H vTxid. \<exists>y\<in>tree_queries H t. collision H x y)"
proof (cases "\<exists>x\<in>hashed H vTxid. \<exists>y\<in>tree_queries H t. collision H x y")
  case False
  let ?n = "length vTxid" and ?s = "\<lparr>bits_left = vBits t, hashes_left = vHash t, matched = [], fBad = False\<rparr>"
  have n: "vTxid \<noteq> []" "?n \<le> unat (dgpMaxBlockSize * 4) div 240"
    using assms(4,6,7) by (auto simp: ExtractMatches_def unat_eq_0 split: if_splits)
  have lt: "?n < 2 ^ 31" using n(2) unat_lt2p [of "dgpMaxBlockSize * 4"] by simp
  have nt: "nTransactions t = of_nat ?n" using assms(4) by (simp flip: assms(4))
  have w: "0 < tree_width ?n (height_of ?n 0)" using height_of_width [of ?n 0] n by simp
  obtain x s' where x: "extract_nodes H ?n (height_of ?n 0) 0 ?s = (x, s')" by (rule prod.exhaust)
  then have "TraverseAndExtract H (nTransactions t) (tree_height (nTransactions t) 0) 0 ?s = (x, s')"
    using TraverseAndExtract_nat [of ?n "height_of ?n 0" 0 H ?s] tree_height_nat [OF lt, of 0] w lt nt by simp
  then have ms: "x = root" "matched s' = ms" using assms(6,7) by (auto simp: ExtractMatches_def split: if_splits)
  have "sizes_ok ?s" using assms(3) by (simp add: sizes_ok_def)
  moreover have "right_matches vTxid (matched ?s)" by (simp add: right_matches_def)
  moreover have "root = node_hash H vTxid (height_of ?n 0) 0" using root_node_hash [OF n(1), of H] assms(5) by simp
  ultimately have "right_matches vTxid (matched s')"
    using extract_sound [where s = ?s and s' = s', OF assms(1,2) lt w] x ms(1) False assms(4) by (simp add: tree_queries_def)
  then show ?thesis using ms(2) by (simp add: right_matches_def)
qed simp

definition sample_tree :: CPartialMerkleTree where
  "sample_tree = \<lparr>nTransactions = 3, vBits = [True, True, False, True, False], vHash = [leaf 1, leaf 2, leaf 193]\<rparr>"

lemma sample_tree_count: "unat (nTransactions sample_tree) = 3"
  by (simp add: sample_tree_def)

lemma three_height: "height_of 3 0 = 2" "tree_width 3 0 = 3" "tree_width 3 1 = 2" "tree_width 3 (Suc 0) = 2"
  by (simp_all add: height_of.simps [of 3 0] height_of.simps [of 3 "Suc 0"] height_of.simps [of 3 "Suc (Suc 0)"] tree_width_def)

lemmas three_steps = extract_nodes.simps [of _ 3 2] extract_nodes.simps [of _ 3 "Suc 0"] extract_nodes.simps [of _ 3 0]

lemma sample_tree_extract:
  "extract_nodes sum_hash 3 2 0 \<lparr>bits_left = vBits sample_tree, hashes_left = vHash sample_tree, matched = [], fBad = False\<rparr> =
    (leaf 65, \<lparr>bits_left = [], hashes_left = [], matched = [(leaf 2, 1)], fBad = False\<rparr>)"
  by (simp add: sample_tree_def three_steps three_height sum_hash_leaves leaf_inj)

lemma sample_tree_queries: "tree_queries sum_hash sample_tree = {leaf 97 @ leaf 193, leaf 1 @ leaf 2}"
  by (auto simp: tree_queries_def sample_tree_count three_height) (auto simp: sample_tree_def three_height numeral_2_eq_2 three_steps sum_hash_leaves leaf_inj)

lemma three_hashed: "hashed sum_hash [leaf 1, leaf 2, leaf 3] = {leaf 97 @ leaf 193, leaf 1 @ leaf 2, leaf 3 @ leaf 3}"
  by (auto simp: hashed_def stages_Cons stages_single pad_even_def sum_hash_leaves)

theorem ExtractMatches_sound_witness:
  "ExtractMatches sum_hash 8000000 sample_tree = (leaf 65, [(leaf 2, 1)]) \<and>
   1 < length [leaf 1, leaf 2, leaf 3] \<and> [leaf 1, leaf 2, leaf 3] ! 1 = leaf 2"
proof -
  let ?tx = "[leaf 1, leaf 2, leaf 3]"
  have run: "ExtractMatches sum_hash 8000000 sample_tree = (leaf 65, [(leaf 2, 1)])"
  proof -
    have "nTransactions sample_tree = of_nat 3" by (simp add: sample_tree_def)
    then have "TraverseAndExtract sum_hash (nTransactions sample_tree) (tree_height (nTransactions sample_tree) 0) 0
        \<lparr>bits_left = vBits sample_tree, hashes_left = vHash sample_tree, matched = [], fBad = False\<rparr> =
      (leaf 65, \<lparr>bits_left = [], hashes_left = [], matched = [(leaf 2, 1)], fBad = False\<rparr>)"
      using TraverseAndExtract_nat [of 3 2 0 sum_hash] tree_height_nat [of 3 0] sample_tree_extract
      by (simp only: three_height of_nat_0) (simp add: tree_width_def)
    then show ?thesis by (simp add: ExtractMatches_def sample_tree_def)
  qed
  have free: "\<not> (\<exists>x\<in>hashed sum_hash ?tx. \<exists>y\<in>tree_queries sum_hash sample_tree. collision sum_hash x y)"
    by (simp add: three_hashed sample_tree_queries collision_def sum_hash_leaves leaf_inj)
  have sizes: "\<forall>h\<in>set ?tx. length h = 32" "\<forall>h\<in>set (vHash sample_tree). length h = 32" "unat (nTransactions sample_tree) = length ?tx"
    "fst (ComputeMerkleRoot sum_hash ?tx) = leaf 65" "leaf 65 \<noteq> uint256_zero"
    by (simp_all add: sample_tree_def leaf_def three_leaves [unfolded leaf_def] uint256_zero_def)
  show ?thesis
    using run free ExtractMatches_sound [OF sum_hash_length sizes(1-4) run sizes(5)] by simp
qed

end
