(* ===== verification/Version_Bits.thy ===== *)
theory Version_Bits
  imports Pow Tx_Locks
begin

unbundle bit_operations_syntax

text \<open>
  \<open>versionbits.{h,cpp}\<close> and its users in \<open>validation.cpp\<close>: the state of a soft fork deployment, computed
  per period of blocks and cached by the parent of the period.

  The abstract class \<open>AbstractThresholdConditionChecker\<close> is a record of its virtual methods at fixed
  parameters.  \<open>Condition\<close> may read and write a state of its own (the condition of the warning checker
  uses the global cache of deployment states), so it takes and returns one.  \<open>Period\<close> and \<open>Threshold\<close> return \<open>int\<close>: the unsigned parameters are converted.
\<close>

section \<open>Threshold states\<close>

datatype ThresholdState = DEFINED | STARTED | LOCKED_IN | ACTIVE | FAILED

type_synonym ThresholdConditionCache = "ptr option \<rightharpoonup> ThresholdState"

record 'g threshold_checker =
  Condition :: "index_store \<Rightarrow> ptr \<Rightarrow> 'g \<Rightarrow> (bool \<times> 'g) run"
  BeginTime :: int
  EndTime :: int
  Period :: int
  Threshold :: int

definition ALWAYS_ACTIVE :: int where "ALWAYS_ACTIVE = - 1"

text \<open>The last block before the period of the block after \<open>pindexPrev\<close>.  A period of zero, a division by
  zero in the code, is \<open>OutOfRange\<close>; the remainder has the sign of the dividend.\<close>

definition period_start :: "index_store \<Rightarrow> int \<Rightarrow> ptr \<Rightarrow> ptr option run" where
  "period_start st nPeriod p =
     bindR (Some (deref st p)) (\<lambda>b.
     if nPeriod = 0 then Some (Inl chain_error.OutOfRange)
     else Some (GetAncestor st p (int (nHeight b) - (int (nHeight b) + 1) mod \<bar>nPeriod\<bar>)))"

partial_function (option) walk_periods ::
  "index_store \<Rightarrow> 'g threshold_checker \<Rightarrow> ptr option \<Rightarrow> ThresholdConditionCache \<Rightarrow> ptr list \<Rightarrow>
   (ptr option \<times> ThresholdConditionCache \<times> ptr list) run" where
  "walk_periods st c pindexPrev cache vToCompute =
     (if cache pindexPrev \<noteq> None then Some (Inr (pindexPrev, cache, vToCompute))
      else
        (case pindexPrev of
           None \<Rightarrow> Some (Inr (None, cache(None \<mapsto> DEFINED), vToCompute))
         | Some p \<Rightarrow>
             (case GetMedianTimePast st p of
                Inl e \<Rightarrow> Some (Inl e)
              | Inr nMedian \<Rightarrow>
                  if nMedian < BeginTime c then Some (Inr (Some p, cache(Some p \<mapsto> DEFINED), vToCompute))
                  else
                    (case bindE (deref st p) (\<lambda>b. GetAncestor st p (int (nHeight b) - Period c)) of
                       Inl e \<Rightarrow> Some (Inl e)
                     | Inr q \<Rightarrow> walk_periods st c q cache (p # vToCompute)))))"

fun count_condition :: "index_store \<Rightarrow> 'g threshold_checker \<Rightarrow> nat \<Rightarrow> ptr option \<Rightarrow> int \<Rightarrow> 'g \<Rightarrow> (int \<times> 'g) run" where
  "count_condition st c 0 pindexCount nCount g = Some (Inr (nCount, g))"
| "count_condition st c (Suc i) pindexCount nCount g =
     (case pindexCount of
        None \<Rightarrow> Some (Inl NullDeref)
      | Some p \<Rightarrow>
          bindR (Condition c st p g) (\<lambda>(signals, g).
          bindR (Some (deref st p)) (\<lambda>b.
          count_condition st c i (pprev b) (if signals then nCount + 1 else nCount) g)))"

definition next_state :: "index_store \<Rightarrow> 'g threshold_checker \<Rightarrow> ThresholdState \<Rightarrow> ptr \<Rightarrow> 'g \<Rightarrow> (ThresholdState \<times> 'g) run" where
  "next_state st c state p g =
     (case state of
        DEFINED \<Rightarrow>
          bindR (Some (GetMedianTimePast st p)) (\<lambda>nMedian.
          Some (Inr (if nMedian \<ge> EndTime c then FAILED else if nMedian \<ge> BeginTime c then STARTED else DEFINED, g)))
      | STARTED \<Rightarrow>
          bindR (Some (GetMedianTimePast st p)) (\<lambda>nMedian.
          if nMedian \<ge> EndTime c then Some (Inr (FAILED, g))
          else
            bindR (count_condition st c (nat (Period c)) (Some p) 0 g) (\<lambda>(nCount, g).
            Some (Inr (if nCount \<ge> Threshold c then LOCKED_IN else STARTED, g))))
      | LOCKED_IN \<Rightarrow> Some (Inr (ACTIVE, g))
      | FAILED \<Rightarrow> Some (Inr (FAILED, g))
      | ACTIVE \<Rightarrow> Some (Inr (ACTIVE, g)))"

text \<open>The blocks of \<open>vToCompute\<close>, the last one pushed first.\<close>

fun walk_forward :: "index_store \<Rightarrow> 'g threshold_checker \<Rightarrow> ptr list \<Rightarrow> ThresholdState \<Rightarrow> ThresholdConditionCache \<Rightarrow> 'g \<Rightarrow>
    (ThresholdState \<times> ThresholdConditionCache \<times> 'g) run" where
  "walk_forward st c [] state cache g = Some (Inr (state, cache, g))"
| "walk_forward st c (p # vToCompute) state cache g =
     bindR (next_state st c state p g) (\<lambda>(stateNext, g).
     walk_forward st c vToCompute stateNext (cache(Some p \<mapsto> stateNext)) g)"

definition GetStateFor :: "index_store \<Rightarrow> 'g threshold_checker \<Rightarrow> ptr option \<Rightarrow> ThresholdConditionCache \<Rightarrow> 'g \<Rightarrow>
    (ThresholdState \<times> ThresholdConditionCache \<times> 'g) run" where
  "GetStateFor st c pindexPrev cache g =
     (if BeginTime c = ALWAYS_ACTIVE then Some (Inr (ACTIVE, cache, g))
      else
        bindR (case pindexPrev of None \<Rightarrow> Some (Inr None) | Some p \<Rightarrow> period_start st (Period c) p) (\<lambda>pindexPrev.
        bindR (walk_periods st c pindexPrev cache []) (\<lambda>(pindexPrev, cache, vToCompute).
        case cache pindexPrev of
          None \<Rightarrow> Some (Inl chain_error.AssertFail)
        | Some state \<Rightarrow> walk_forward st c vToCompute state cache g)))"

section \<open>Statistics and the start of the current state\<close>

record BIP9Stats =
  stats_period :: int
  stats_threshold :: int
  stats_elapsed :: int
  stats_count :: int
  stats_possible :: bool

partial_function (option) count_elapsed ::
  "index_store \<Rightarrow> 'g threshold_checker \<Rightarrow> nat \<Rightarrow> ptr option \<Rightarrow> int \<Rightarrow> 'g \<Rightarrow> (int \<times> 'g) run" where
  "count_elapsed st c nEnd currentIndex nCount g =
     (case currentIndex of
        None \<Rightarrow> Some (Inl NullDeref)
      | Some p \<Rightarrow>
          (case st p of
             None \<Rightarrow> Some (Inl NullDeref)
           | Some b \<Rightarrow>
               if nEnd \<noteq> nHeight b then
                 (case Condition c st p g of
                    None \<Rightarrow> None
                  | Some (Inl e) \<Rightarrow> Some (Inl e)
                  | Some (Inr (signals, g)) \<Rightarrow> count_elapsed st c nEnd (pprev b) (if signals then nCount + 1 else nCount) g)
               else Some (Inr (nCount, g))))"

definition GetStateStatisticsFor :: "index_store \<Rightarrow> 'g threshold_checker \<Rightarrow> ptr option \<Rightarrow> 'g \<Rightarrow> (BIP9Stats \<times> 'g) run" where
  "GetStateStatisticsFor st c pindex g =
     (let stats = \<lparr>stats_period = Period c, stats_threshold = Threshold c, stats_elapsed = 0, stats_count = 0, stats_possible = False\<rparr> in
      case pindex of
        None \<Rightarrow> Some (Inr (stats, g))
      | Some p \<Rightarrow>
          bindR (period_start st (Period c) p) (\<lambda>pindexEndOfPrevPeriod.
          case pindexEndOfPrevPeriod of
            None \<Rightarrow> Some (Inl NullDeref)
          | Some q \<Rightarrow>
              bindR (Some (deref st p)) (\<lambda>b.
              bindR (Some (deref st q)) (\<lambda>e.
              let elapsed = int (nHeight b) - int (nHeight e) in
              bindR (count_elapsed st c (nHeight e) (Some p) 0 g) (\<lambda>(nCount, g).
              Some (Inr (stats\<lparr>stats_elapsed := elapsed, stats_count := nCount,
                stats_possible := Period c - Threshold c \<ge> elapsed - nCount\<rparr>, g)))))))"

partial_function (option) since_loop ::
  "index_store \<Rightarrow> 'g threshold_checker \<Rightarrow> ThresholdState \<Rightarrow> ptr \<Rightarrow> ptr option \<Rightarrow> ThresholdConditionCache \<Rightarrow> 'g \<Rightarrow>
   (int \<times> ThresholdConditionCache \<times> 'g) run" where
  "since_loop st c initialState pindexPrev previousPeriodParent cache g =
     (case previousPeriodParent of
        None \<Rightarrow>
          (case st pindexPrev of None \<Rightarrow> Some (Inl NullDeref) | Some b \<Rightarrow> Some (Inr (int (nHeight b) + 1, cache, g)))
      | Some q \<Rightarrow>
          (case GetStateFor st c (Some q) cache g of
             None \<Rightarrow> None
           | Some (Inl e) \<Rightarrow> Some (Inl e)
           | Some (Inr (state, cache, g)) \<Rightarrow>
               if state = initialState then
                 (case bindE (deref st q) (\<lambda>d. GetAncestor st q (int (nHeight d) - Period c)) of
                    Inl e \<Rightarrow> Some (Inl e)
                  | Inr r \<Rightarrow> since_loop st c initialState q r cache g)
               else
                 (case st pindexPrev of None \<Rightarrow> Some (Inl NullDeref) | Some b \<Rightarrow> Some (Inr (int (nHeight b) + 1, cache, g)))))"

definition GetStateSinceHeightFor :: "index_store \<Rightarrow> 'g threshold_checker \<Rightarrow> ptr option \<Rightarrow> ThresholdConditionCache \<Rightarrow> 'g \<Rightarrow>
    (int \<times> ThresholdConditionCache \<times> 'g) run" where
  "GetStateSinceHeightFor st c pindexPrev cache g =
     (if BeginTime c = ALWAYS_ACTIVE then Some (Inr (0, cache, g))
      else
        bindR (GetStateFor st c pindexPrev cache g) (\<lambda>(initialState, cache, g).
        if initialState = DEFINED then Some (Inr (0, cache, g))
        else
          (case pindexPrev of
             None \<Rightarrow> Some (Inl NullDeref)
           | Some p \<Rightarrow>
               bindR (period_start st (Period c) p) (\<lambda>pindexPrev.
               case pindexPrev of
                 None \<Rightarrow> Some (Inl NullDeref)
               | Some p \<Rightarrow>
                   bindR (Some (bindE (deref st p) (\<lambda>b. GetAncestor st p (int (nHeight b) - Period c)))) (\<lambda>previousPeriodParent.
                   since_loop st c initialState p previousPeriodParent cache g)))))"

section \<open>Deployments\<close>

type_synonym DeploymentPos = nat

definition DEPLOYMENT_TESTDUMMY :: DeploymentPos where "DEPLOYMENT_TESTDUMMY = 0"
definition DEPLOYMENT_CSV :: DeploymentPos where "DEPLOYMENT_CSV = 1"
definition DEPLOYMENT_SEGWIT :: DeploymentPos where "DEPLOYMENT_SEGWIT = 2"
definition MAX_VERSION_BITS_DEPLOYMENTS :: nat where "MAX_VERSION_BITS_DEPLOYMENTS = 3"

definition VERSIONBITS_TOP_BITS :: u32 where "VERSIONBITS_TOP_BITS = 0x20000000"
definition VERSIONBITS_TOP_MASK :: u32 where "VERSIONBITS_TOP_MASK = 0xE0000000"
definition VERSIONBITS_NUM_BITS :: nat where "VERSIONBITS_NUM_BITS = 29"

definition VersionBitsMask :: "Params \<Rightarrow> DeploymentPos \<Rightarrow> u32" where
  "VersionBitsMask params pos = push_bit (dep_bit (vDeployments params ! pos)) 1"

text \<open>\<open>nVersion\<close> is a signed 32-bit integer; the bit operations read its two's complement.\<close>

definition signals_bit :: "Params \<Rightarrow> DeploymentPos \<Rightarrow> int \<Rightarrow> bool" where
  "signals_bit params pos version =
     (let v = (word_of_int version :: u32) in v AND VERSIONBITS_TOP_MASK = VERSIONBITS_TOP_BITS \<and> v AND VersionBitsMask params pos \<noteq> 0)"

definition VersionBitsConditionChecker :: "Params \<Rightarrow> DeploymentPos \<Rightarrow> unit threshold_checker" where
  "VersionBitsConditionChecker params pos =
     \<lparr>Condition = \<lambda>st p g. bindR (Some (deref st p)) (\<lambda>b. Some (Inr (signals_bit params pos (bi_nVersion b), g))),
      BeginTime = dep_nStartTime (vDeployments params ! pos), EndTime = dep_nTimeout (vDeployments params ! pos),
      Period = sint (nMinerConfirmationWindow params), Threshold = sint (nRuleChangeActivationThreshold params)\<rparr>"

text \<open>The cache has one map per deployment.\<close>

type_synonym VersionBitsCache = "ThresholdConditionCache list"

definition VersionBitsCache_Clear :: VersionBitsCache where
  "VersionBitsCache_Clear = replicate MAX_VERSION_BITS_DEPLOYMENTS Map.empty"

definition VersionBitsState :: "index_store \<Rightarrow> ptr option \<Rightarrow> Params \<Rightarrow> DeploymentPos \<Rightarrow> VersionBitsCache \<Rightarrow>
    (ThresholdState \<times> VersionBitsCache) run" where
  "VersionBitsState st pindexPrev params pos caches =
     bindR (GetStateFor st (VersionBitsConditionChecker params pos) pindexPrev (caches ! pos) ()) (\<lambda>(state, cache, _).
     Some (Inr (state, caches[pos := cache])))"

definition VersionBitsStatistics :: "index_store \<Rightarrow> ptr option \<Rightarrow> Params \<Rightarrow> DeploymentPos \<Rightarrow> BIP9Stats run" where
  "VersionBitsStatistics st pindexPrev params pos =
     bindR (GetStateStatisticsFor st (VersionBitsConditionChecker params pos) pindexPrev ()) (\<lambda>(stats, _). Some (Inr stats))"

definition VersionBitsStateSinceHeight :: "index_store \<Rightarrow> ptr option \<Rightarrow> Params \<Rightarrow> DeploymentPos \<Rightarrow> VersionBitsCache \<Rightarrow>
    (int \<times> VersionBitsCache) run" where
  "VersionBitsStateSinceHeight st pindexPrev params pos caches =
     bindR (GetStateSinceHeightFor st (VersionBitsConditionChecker params pos) pindexPrev (caches ! pos) ()) (\<lambda>(height, cache, _).
     Some (Inr (height, caches[pos := cache])))"

section \<open>Block versions and warnings\<close>

fun version_loop :: "index_store \<Rightarrow> ptr option \<Rightarrow> Params \<Rightarrow> DeploymentPos list \<Rightarrow> u32 \<Rightarrow> VersionBitsCache \<Rightarrow> (u32 \<times> VersionBitsCache) run" where
  "version_loop st pindexPrev params [] version caches = Some (Inr (version, caches))"
| "version_loop st pindexPrev params (i # is) version caches =
     bindR (VersionBitsState st pindexPrev params i caches) (\<lambda>(state, caches).
     version_loop st pindexPrev params is
       (if state = LOCKED_IN \<or> state = STARTED then version OR VersionBitsMask params i else version) caches)"

definition ComputeBlockVersion :: "index_store \<Rightarrow> ptr option \<Rightarrow> Params \<Rightarrow> VersionBitsCache \<Rightarrow> (int \<times> VersionBitsCache) run" where
  "ComputeBlockVersion st pindexPrev params versionbitscache =
     bindR (version_loop st pindexPrev params [0..<MAX_VERSION_BITS_DEPLOYMENTS] VERSIONBITS_TOP_BITS versionbitscache)
       (\<lambda>(version, versionbitscache). Some (Inr (sint version, versionbitscache)))"

definition WarningBitsConditionChecker :: "Params \<Rightarrow> nat \<Rightarrow> VersionBitsCache threshold_checker" where
  "WarningBitsConditionChecker params i =
     \<lparr>Condition = \<lambda>st p versionbitscache.
        bindR (Some (deref st p)) (\<lambda>b.
        let v = (word_of_int (bi_nVersion b) :: u32) in
        if v AND VERSIONBITS_TOP_MASK = VERSIONBITS_TOP_BITS \<and> bit v i then
          bindR (ComputeBlockVersion st (pprev b) params versionbitscache) (\<lambda>(version, versionbitscache).
          Some (Inr (\<not> bit version i, versionbitscache)))
        else Some (Inr (False, versionbitscache))),
      BeginTime = 0, EndTime = 2 ^ 63 - 1,
      Period = sint (nMinerConfirmationWindow params), Threshold = sint (nRuleChangeActivationThreshold params)\<rparr>"

end
