(* ===== verification/Version_Bits_Laws.thy ===== *)
theory Version_Bits_Laws
  imports Version_Bits
begin

unbundle bit_operations_syntax

text \<open>
  Deployment states against the state machine of BIP 9: the cached computation over period boundaries
  equals the recursion over all periods, whatever was asked before, and every deployment is decided in
  the end.
\<close>

section \<open>The reference\<close>

text \<open>Times grow along the chain, as header validation enforces.\<close>

definition times_ok :: "index_store \<Rightarrow> bool" where
  "times_ok st \<longleftrightarrow> (\<forall>p b q. st p = Some b \<longrightarrow> pprev b = Some q \<longrightarrow> median_past st q < GetBlockTime b)"

definition timed :: "index_store \<Rightarrow> bool" where
  "timed st \<longleftrightarrow> index_ok st \<and> times_ok st"

text \<open>The period as a number of blocks.\<close>

definition period :: "'g threshold_checker \<Rightarrow> nat" where
  "period c = nat (Period c)"

lemma Period_int: "0 < period c \<Longrightarrow> Period c = int (period c)"
  by (simp add: period_def)

text \<open>The last \<open>n\<close> blocks up to \<open>p\<close>.\<close>

fun blocks_back :: "index_store \<Rightarrow> nat \<Rightarrow> ptr option \<Rightarrow> ptr list" where
  "blocks_back st 0 p = []"
| "blocks_back st (Suc n) p =
     (case p of None \<Rightarrow> [] | Some q \<Rightarrow> q # blocks_back st n (case st q of None \<Rightarrow> None | Some b \<Rightarrow> pprev b))"

definition period_end :: "index_store \<Rightarrow> nat \<Rightarrow> ptr \<Rightarrow> nat \<Rightarrow> ptr" where
  "period_end st P p k = the (anc st p (k * P - 1))"

definition bip9_step :: "int \<Rightarrow> int \<Rightarrow> int \<Rightarrow> int \<Rightarrow> int \<Rightarrow> ThresholdState \<Rightarrow> ThresholdState" where
  "bip9_step start timeout threshold m signals state =
     (case state of
        DEFINED \<Rightarrow> if m \<ge> timeout then FAILED else if m \<ge> start then STARTED else DEFINED
      | STARTED \<Rightarrow> if m \<ge> timeout then FAILED else if signals \<ge> threshold then LOCKED_IN else STARTED
      | LOCKED_IN \<Rightarrow> ACTIVE
      | ACTIVE \<Rightarrow> ACTIVE
      | FAILED \<Rightarrow> FAILED)"

text \<open>The state after the first \<open>k\<close> periods of the chain of \<open>p\<close>, where \<open>cond\<close> says which blocks signal.\<close>

fun bip9 :: "index_store \<Rightarrow> 'g threshold_checker \<Rightarrow> (ptr \<Rightarrow> bool) \<Rightarrow> ptr \<Rightarrow> nat \<Rightarrow> ThresholdState" where
  "bip9 st c cond p 0 = DEFINED"
| "bip9 st c cond p (Suc k) =
     (let q = period_end st (period c) p (Suc k) in
      bip9_step (BeginTime c) (EndTime c) (Threshold c) (median_past st q)
        (int (length (filter cond (blocks_back st (period c) (Some q))))) (bip9 st c cond p k))"

definition deployment_state :: "index_store \<Rightarrow> 'g threshold_checker \<Rightarrow> (ptr \<Rightarrow> bool) \<Rightarrow> ptr option \<Rightarrow> ThresholdState" where
  "deployment_state st c cond p =
     (if BeginTime c = ALWAYS_ACTIVE then ACTIVE
      else case p of None \<Rightarrow> DEFINED | Some q \<Rightarrow> bip9 st c cond q (Suc (nHeight (the (st q))) div period c))"

lemma GetAncestor_before:
  assumes "index_ok st" "st p = Some b"
  shows "GetAncestor st p (int m - 1) = Inr (if m = 0 then None else anc st p (m - 1))"
  using GetAncestor_anc [OF assms, of "int m - 1"] by (cases m) simp_all

lemma median_past_mono:
  assumes "timed st" "anc st p i = Some q"
  shows "median_past st q \<le> median_past st p"
proof -
  have lk: "linked st" using assms(1) by (simp add: timed_def index_ok_def)
  obtain b where "st p = Some b" "i \<le> nHeight b" using anc_bound [OF assms(2)] by auto
  then show ?thesis using assms(2)
  proof (induction "nHeight b" arbitrary: p b)
    case 0
    then show ?case using anc_self [of st p b] by simp
  next
    case (Suc n)
    show ?case
    proof (cases "i = nHeight b")
      case True
      then show ?thesis using Suc.prems anc_self [of st p b] by simp
    next
      case False
      then have i: "i < nHeight b" using Suc.prems(2) by simp
      obtain r where r: "pprev b = Some r" using linked_root [OF lk Suc.prems(1)] Suc.hyps(2) by (cases "pprev b") auto
      obtain d where d: "st r = Some d" "nHeight b = Suc (nHeight d)" using linked_prev [OF lk Suc.prems(1) r] by blast
      have "anc st r i = Some q" using anc_prev [OF lk Suc.prems(1) r i] Suc.prems(3) by simp
      then have "median_past st q \<le> median_past st r" using Suc.hyps d i by simp
      also have "\<dots> \<le> median_past st p"
        using median_past_step [OF Suc.prems(1) r d(1)] assms(1) Suc.prems(1) r by (auto simp: timed_def times_ok_def less_imp_le)
      finally show ?thesis .
    qed
  qed
qed

lemma period_end_anc:
  assumes "linked st" "anc st p i = Some q" "k * P \<le> Suc i" "0 < k * P"
  shows "period_end st P p k = period_end st P q k"
  using assms anc_trans [OF assms(1,2), of "k * P - 1"] by (simp add: period_end_def)

lemma bip9_anc:
  assumes "linked st" "anc st p i = Some q" "0 < period c"
  shows "k * period c \<le> Suc i \<Longrightarrow> bip9 st c cond p k = bip9 st c cond q k"
proof (induction k)
  case (Suc k)
  then show ?case using period_end_anc [OF assms(1,2) Suc.prems] assms(3) by simp
qed simp

lemma bip9_early:
  assumes "timed st" "st p = Some b" "median_past st p < BeginTime c" "BeginTime c \<le> EndTime c" "0 < period c"
  shows "k * period c \<le> Suc (nHeight b) \<Longrightarrow> bip9 st c cond p k = DEFINED"
proof (induction k)
  case (Suc k)
  have lk: "linked st" using assms(1) by (simp add: timed_def index_ok_def)
  have "Suc k * period c - 1 \<le> nHeight b" using Suc.prems by simp
  then obtain q where q: "anc st p (Suc k * period c - 1) = Some q" using anc_Some [OF lk assms(2)] by blast
  then have "median_past st q < BeginTime c" using median_past_mono [OF assms(1) q] assms(3) by simp
  then show ?case using Suc q assms(4) by (simp add: bip9_step_def period_end_def)
qed simp

section \<open>Growing indexes\<close>

text \<open>Entries added to an index leave the chains of its blocks as they are.\<close>

lemma walk_back_ext:
  assumes "linked st" "st \<subseteq>\<^sub>m st'"
  shows "st p = Some b \<Longrightarrow> n \<le> nHeight b \<Longrightarrow> walk_back st' p n = walk_back st p n"
proof (induction n arbitrary: p b)
  case (Suc n)
  obtain r where r: "pprev b = Some r" using linked_root [OF assms(1) Suc.prems(1)] Suc.prems(2) by (cases "pprev b") auto
  obtain d where d: "st r = Some d" "nHeight b = Suc (nHeight d)" using linked_prev [OF assms(1) Suc.prems(1) r] by blast
  have "st' p = Some b" using assms(2) Suc.prems(1) by (auto simp: map_le_def dom_def)
  then show ?case using Suc.IH [OF d(1)] Suc.prems d r by simp
qed simp

lemma map_le_Some: "st \<subseteq>\<^sub>m st' \<Longrightarrow> st p = Some b \<Longrightarrow> st' p = Some b"
  by (auto simp: map_le_def dom_def)

lemma anc_ext:
  assumes "linked st" "st \<subseteq>\<^sub>m st'" "st p = Some b"
  shows "anc st' p i = anc st p i"
  using map_le_Some [OF assms(2,3)] assms(3) walk_back_ext [OF assms(1-3), of "nHeight b - i"] by (simp add: anc_def)

lemma past_times_ext:
  assumes "linked st" "st \<subseteq>\<^sub>m st'"
  shows "(\<And>q. p = Some q \<Longrightarrow> q \<in> dom st) \<Longrightarrow> past_times st' n p = past_times st n p"
proof (induction n arbitrary: p)
  case (Suc n)
  show ?case
  proof (cases p)
    case (Some q)
    then obtain b where b: "st q = Some b" using Suc.prems by blast
    have "past_times st' n (pprev b) = past_times st n (pprev b)"
      by (rule Suc.IH) (use linked_prev [OF assms(1) b] in blast)
    then show ?thesis using Some b map_le_Some [OF assms(2) b] by simp
  qed simp
qed simp

lemma blocks_back_dom:
  assumes "linked st"
  shows "(\<And>q. p = Some q \<Longrightarrow> q \<in> dom st) \<Longrightarrow> set (blocks_back st n p) \<subseteq> dom st"
proof (induction n arbitrary: p)
  case (Suc n)
  show ?case
  proof (cases p)
    case (Some q)
    then obtain b where b: "st q = Some b" using Suc.prems by blast
    have "set (blocks_back st n (pprev b)) \<subseteq> dom st" by (rule Suc.IH) (use linked_prev [OF assms b] in blast)
    then show ?thesis using Some b by (auto simp: dom_def)
  qed simp
qed simp

lemma blocks_back_ext:
  assumes "linked st" "st \<subseteq>\<^sub>m st'"
  shows "(\<And>q. p = Some q \<Longrightarrow> q \<in> dom st) \<Longrightarrow> blocks_back st' n p = blocks_back st n p"
proof (induction n arbitrary: p)
  case (Suc n)
  show ?case
  proof (cases p)
    case (Some q)
    then obtain b where b: "st q = Some b" using Suc.prems by blast
    have "blocks_back st' n (pprev b) = blocks_back st n (pprev b)"
      by (rule Suc.IH) (use linked_prev [OF assms(1) b] in blast)
    then show ?thesis using Some b map_le_Some [OF assms(2) b] by simp
  qed simp
qed simp

lemma bip9_ext:
  assumes "linked st" "st \<subseteq>\<^sub>m st'" "st p = Some b" "0 < period c" "\<And>q. q \<in> dom st \<Longrightarrow> cond' q = cond q"
  shows "k * period c \<le> Suc (nHeight b) \<Longrightarrow> bip9 st' c cond' p k = bip9 st c cond p k"
proof (induction k)
  case (Suc k)
  have "Suc k * period c - 1 \<le> nHeight b" using Suc.prems by simp
  then obtain q d where q: "anc st p (Suc k * period c - 1) = Some q" "st q = Some d" using anc_Some [OF assms(1,3)] by blast
  have e: "period_end st' (period c) p (Suc k) = q" "period_end st (period c) p (Suc k) = q"
    using q(1) anc_ext [OF assms(1-3)] by (simp_all add: period_end_def)
  have "past_times st' 11 (Some q) = past_times st 11 (Some q)" using past_times_ext [OF assms(1,2), of "Some q"] q(2) by auto
  moreover have bb: "blocks_back st' (period c) (Some q) = blocks_back st (period c) (Some q)"
    using blocks_back_ext [OF assms(1,2), of "Some q"] q(2) by auto
  moreover have "filter cond' (blocks_back st (period c) (Some q)) = filter cond (blocks_back st (period c) (Some q))"
  proof (rule filter_cong [OF refl])
    fix x
    assume "x \<in> set (blocks_back st (period c) (Some q))"
    then have "x \<in> dom st" using blocks_back_dom [OF assms(1), of "Some q" "period c"] q(2) by auto
    then show "cond' x = cond x" by (rule assms(5))
  qed
  ultimately show ?case using e Suc by (simp add: Let_def)
qed simp

section \<open>The cached computation\<close>

text \<open>The interface of \<open>AbstractThresholdConditionChecker\<close>: the condition of a block in the index is
  computed, depends on the block only, and keeps the invariant of the state it uses.\<close>

locale threshold_condition =
  fixes c :: "'g threshold_checker" and cond :: "index_store \<Rightarrow> ptr \<Rightarrow> bool" and inv :: "index_store \<Rightarrow> 'g \<Rightarrow> bool"
  assumes condition: "timed st \<Longrightarrow> st p = Some b \<Longrightarrow> inv st g \<Longrightarrow> \<exists>g'. Condition c st p g = Some (Inr (cond st p, g')) \<and> inv st g'"
    and cond_ext: "timed st \<Longrightarrow> timed st' \<Longrightarrow> st \<subseteq>\<^sub>m st' \<Longrightarrow> p \<in> dom st \<Longrightarrow> cond st' p = cond st p"
begin

lemma count_condition_ok:
  assumes "timed st"
  shows "st p = Some b \<Longrightarrow> n \<le> Suc (nHeight b) \<Longrightarrow> inv st g \<Longrightarrow>
    \<exists>g'. count_condition st c n (Some p) k g =
      Some (Inr (k + int (length (filter (cond st) (blocks_back st n (Some p)))), g')) \<and> inv st g'"
proof (induction n arbitrary: p b k g)
  case (Suc n)
  have lk: "linked st" using assms by (simp add: timed_def index_ok_def)
  obtain g1 where g1: "Condition c st p g = Some (Inr (cond st p, g1))" "inv st g1" using condition [OF assms Suc.prems(1,3)] by blast
  show ?case
  proof (cases n)
    case 0
    then show ?thesis using g1 Suc.prems by (simp add: deref_def)
  next
    case (Suc m)
    then obtain r where r: "pprev b = Some r" using linked_root [OF lk \<open>st p = Some b\<close>] \<open>Suc n \<le> Suc (nHeight b)\<close> by (cases "pprev b") auto
    obtain d where d: "st r = Some d" "nHeight b = Suc (nHeight d)" using linked_prev [OF lk \<open>st p = Some b\<close> r] by blast
    have "n \<le> Suc (nHeight d)" using \<open>Suc n \<le> Suc (nHeight b)\<close> d by simp
    from Suc.IH [OF d(1) this g1(2), of "if cond st p then k + 1 else k"]
    show ?thesis using g1(1) \<open>st p = Some b\<close> r by (auto simp: deref_def)
  qed
qed simp

lemma next_state_ok:
  assumes "timed st" "st p = Some b" "period c \<le> Suc (nHeight b)" "inv st g"
  shows "\<exists>g'. next_state st c state p g =
    Some (Inr (bip9_step (BeginTime c) (EndTime c) (Threshold c) (median_past st p)
      (int (length (filter (cond st) (blocks_back st (period c) (Some p))))) state, g')) \<and> inv st g'"
proof -
  have m: "GetMedianTimePast st p = Inr (median_past st p)"
    using GetMedianTimePast_median assms(1,2) by (simp add: timed_def index_ok_def)
  show ?thesis
    using count_condition_ok [OF assms, of 0] assms(4) by (cases state) (auto simp: next_state_def bip9_step_def m simp flip: period_def)
qed

definition cache_ok :: "index_store \<Rightarrow> ThresholdConditionCache \<Rightarrow> bool" where
  "cache_ok st cache \<longleftrightarrow>
     (\<forall>p s. cache p = Some s \<longrightarrow>
        (case p of None \<Rightarrow> s = DEFINED
         | Some q \<Rightarrow> \<exists>b k. st q = Some b \<and> Suc (nHeight b) = k * period c \<and> s = bip9 st c (cond st) q k))"

definition at_period :: "index_store \<Rightarrow> ptr option \<Rightarrow> nat \<Rightarrow> bool" where
  "at_period st p n \<longleftrightarrow> (case p of None \<Rightarrow> n = 0 | Some q \<Rightarrow> \<exists>b. st q = Some b \<and> Suc (nHeight b) = n * period c)"

definition period_state :: "index_store \<Rightarrow> ptr option \<Rightarrow> nat \<Rightarrow> ThresholdState" where
  "period_state st p n = (case p of None \<Rightarrow> DEFINED | Some q \<Rightarrow> bip9 st c (cond st) q n)"

lemma cache_ok_empty: "cache_ok st Map.empty"
  by (simp add: cache_ok_def)

lemma cache_ok_update:
  assumes "cache_ok st cache" "at_period st p n" "s = period_state st p n"
  shows "cache_ok st (cache(p \<mapsto> s))"
  using assms by (auto simp: cache_ok_def at_period_def period_state_def split: option.splits)

lemma cache_ok_read:
  assumes "cache_ok st cache" "at_period st p n" "cache p = Some s" "0 < period c"
  shows "s = period_state st p n"
proof (cases p)
  case (Some q)
  then obtain b k where "st q = Some b" "Suc (nHeight b) = k * period c" "s = bip9 st c (cond st) q k"
    using assms(1,3) by (fastforce simp: cache_ok_def)
  then show ?thesis using assms(2,4) Some by (auto simp: at_period_def period_state_def)
qed (use assms in \<open>fastforce simp: cache_ok_def at_period_def period_state_def\<close>)

lemma walk_periods_ok:
  assumes tm: "timed st" and P: "0 < period c" and le: "BeginTime c \<le> EndTime c"
  shows "at_period st p n \<Longrightarrow> cache_ok st cache \<Longrightarrow>
    \<exists>pp cache' k. walk_periods st c p cache v =
        Some (Inr (pp, cache', map (period_end st (period c) (the p)) [Suc k..<Suc n] @ v)) \<and>
      cache_ok st cache' \<and> k \<le> n \<and> cache' pp = Some (period_state st p k)"
proof (induction n arbitrary: p v)
  case 0
  have p: "p = None" using 0(1) P by (auto simp: at_period_def split: option.splits)
  show ?case
  proof (cases "cache None")
    case None
    then have "walk_periods st c p cache v = Some (Inr (None, cache(None \<mapsto> DEFINED), v))" using p by (subst walk_periods.simps) simp
    moreover have "cache_ok st (cache(None \<mapsto> DEFINED))" using cache_ok_update [OF 0(2,1)] p by (simp add: period_state_def)
    moreover have "(cache(None \<mapsto> DEFINED)) None = Some (period_state st p 0)" using p by (simp add: period_state_def)
    ultimately show ?thesis by (intro exI [of _ 0] exI conjI) (assumption | simp)+
  next
    case (Some s)
    then have "walk_periods st c p cache v = Some (Inr (None, cache, v))" using p by (subst walk_periods.simps) simp
    moreover have "cache None = Some (period_state st p 0)" using cache_ok_read [OF 0(2,1) _ P, of s] p Some by simp
    ultimately show ?thesis using 0(2) by (intro exI [of _ 0] exI conjI) (assumption | simp)+
  qed
next
  case (Suc n)
  obtain q b where q: "p = Some q" "st q = Some b" "Suc (nHeight b) = Suc n * period c"
    using Suc.prems(1) by (auto simp: at_period_def split: option.splits)
  have lk: "linked st" and ok: "index_ok st" using tm by (simp_all add: timed_def index_ok_def)
  have med: "GetMedianTimePast st q = Inr (median_past st q)" using GetMedianTimePast_median [OF lk q(2)] .
  have self: "anc st q (Suc n * period c - 1) = Some q" using anc_self [of st q b] q(2,3) by (metis diff_Suc_1)
  consider (cached) s where "cache p = Some s" | (early) "cache p = None" "median_past st q < BeginTime c"
    | (walk) "cache p = None" "\<not> median_past st q < BeginTime c" by fastforce
  then show ?case
  proof cases
    case cached
    then have "walk_periods st c p cache v = Some (Inr (p, cache, v))" by (subst walk_periods.simps) simp
    then show ?thesis using cached Suc.prems(2) cache_ok_read [OF Suc.prems(2,1) cached P]
      by (intro exI [of _ p] exI [of _ cache] exI [of _ "Suc n"]) simp
  next
    case early
    then have w: "walk_periods st c p cache v = Some (Inr (p, cache(p \<mapsto> DEFINED), v))" using q(1) med by (subst walk_periods.simps) simp
    have s: "DEFINED = period_state st p (Suc n)" using bip9_early [OF tm q(2) early(2) le P, of "Suc n"] q by (simp add: period_state_def)
    then show ?thesis using w cache_ok_update [OF Suc.prems(2,1) s]
      by (intro exI [of _ p] exI [of _ "cache(p \<mapsto> DEFINED)"] exI [of _ "Suc n"]) (simp add: fun_upd_same del: fun_upd_apply)
  next
    case walk
    define r where "r = (if n = 0 then None else anc st q (n * period c - 1))"
    have h: "int (nHeight b) - int (period c) = int (n * period c) - 1"
      using arg_cong [OF q(3), of int] unfolding mult_Suc of_nat_add by simp
    have anc_r: "bindE (deref st q) (\<lambda>b. GetAncestor st q (int (nHeight b) - Period c)) = Inr r"
      using q(2) GetAncestor_before [OF ok q(2), of "n * period c"] P by (simp add: deref_def r_def h Period_int [OF P] del: of_nat_mult)
    have bk: "walk_periods st c p cache v = walk_periods st c r cache (q # v)"
      using walk q(1) med anc_r by (subst walk_periods.simps) simp
    have rs: "\<exists>a. r = Some a \<and> anc st q (n * period c - 1) = Some a" if "0 < n"
    proof -
      have "n * period c - 1 \<le> nHeight b" using q(3) P by simp
      then show ?thesis using anc_Some [OF lk q(2)] that unfolding r_def by fastforce
    qed
    have at: "at_period st r n"
    proof (cases "n = 0")
      case False
      then obtain a where a: "r = Some a" "anc st q (n * period c - 1) = Some a" using rs by blast
      obtain d where "st a = Some d" "nHeight d = n * period c - 1" by (rule anc_height [OF lk a(2)])
      then show ?thesis using a(1) P False by (auto simp: at_period_def)
    qed (simp add: r_def at_period_def)
    obtain pp cache' k where ih: "walk_periods st c r cache (q # v) =
        Some (Inr (pp, cache', map (period_end st (period c) (the r)) [Suc k..<Suc n] @ q # v))"
      "cache_ok st cache'" "k \<le> n" "cache' pp = Some (period_state st r k)" using Suc.IH [OF at Suc.prems(2)] by blast
    have same: "period_end st (period c) (the r) j = period_end st (period c) q j" if j: "0 < j" "j \<le> n" for j
    proof -
      obtain a where a: "r = Some a" "anc st q (n * period c - 1) = Some a" using rs j by auto
      have "j * period c \<le> Suc (n * period c - 1)" using j P by simp
      from period_end_anc [OF lk a(2) this] show ?thesis using j P a(1) by simp
    qed
    have st: "period_state st r k = period_state st p k"
    proof (cases "n = 0")
      case False
      then obtain a where a: "r = Some a" "anc st q (n * period c - 1) = Some a" using rs by blast
      have "k * period c \<le> Suc (n * period c - 1)" using ih(3) P False by simp
      from bip9_anc [OF lk a(2) P this] show ?thesis using a(1) q(1) by (simp add: period_state_def)
    qed (use ih(3) in \<open>simp add: r_def period_state_def q(1)\<close>)
    have "map (period_end st (period c) (the r)) [Suc k..<Suc n] @ q # v = map (period_end st (period c) (the p)) [Suc k..<Suc (Suc n)] @ v"
      using same ih(3) self q(1) by (auto simp: period_end_def)
    then show ?thesis using bk ih st by (intro exI [of _ pp] exI [of _ cache'] exI [of _ k]) (simp only: le_SucI simp_thms)
  qed
qed

lemma walk_forward_ok:
  assumes tm: "timed st" and P: "0 < period c" and q: "st q = Some b" "n * period c \<le> Suc (nHeight b)"
  shows "k \<le> n \<Longrightarrow> cache_ok st cache \<Longrightarrow> inv st g \<Longrightarrow>
    \<exists>cache' g'. walk_forward st c (map (period_end st (period c) q) [Suc k..<Suc n]) (bip9 st c (cond st) q k) cache g =
      Some (Inr (bip9 st c (cond st) q n, cache', g')) \<and> cache_ok st cache' \<and> inv st g'"
proof (induction "n - k" arbitrary: k cache g)
  case 0
  then show ?case by simp
next
  case (Suc d)
  have lk: "linked st" using tm by (simp add: timed_def index_ok_def)
  let ?P = "period c" and ?e = "period_end st (period c) q (Suc k)" and ?s = "bip9 st c (cond st) q (Suc k)"
  have k: "Suc k * ?P \<le> Suc (nHeight b)" using q(2) Suc.hyps(2) mult_le_mono1 [of "Suc k" n ?P] by linarith
  then have "Suc k * ?P - 1 \<le> nHeight b" by simp
  then obtain e d' where e: "anc st q (Suc k * ?P - 1) = Some e" "st e = Some d'" "nHeight d' = Suc k * ?P - 1"
    using anc_Some [OF lk q(1)] by blast
  have eq: "?e = e" using e(1) by (simp add: period_end_def)
  have h: "Suc (nHeight d') = Suc k * ?P" using e(3) P by simp
  obtain g1 where g1: "next_state st c (bip9 st c (cond st) q k) e g = Some (Inr (?s, g1))" "inv st g1"
    using next_state_ok [OF tm e(2) _ Suc.prems(3), of "bip9 st c (cond st) q k"] h eq by (auto simp: Let_def)
  have "?s = bip9 st c (cond st) e (Suc k)" using bip9_anc [OF lk e(1) P, of "Suc k"] e(3) P by simp
  then have c1: "cache_ok st (cache(Some e \<mapsto> ?s))"
    using cache_ok_update [OF Suc.prems(2), of "Some e" "Suc k"] e(2) h by (simp add: at_period_def period_state_def del: bip9.simps)
  have "Suc k < Suc n" using Suc.hyps(2) by linarith
  then have "[Suc k..<Suc n] = Suc k # [Suc (Suc k)..<Suc n]" by (rule upt_conv_Cons)
  moreover obtain cache' g' where "walk_forward st c (map (period_end st ?P q) [Suc (Suc k)..<Suc n]) ?s (cache(Some e \<mapsto> ?s)) g1 =
      Some (Inr (bip9 st c (cond st) q n, cache', g'))" "cache_ok st cache'" "inv st g'"
    using Suc.hyps(1) [of "Suc k", OF _ _ c1 g1(2)] Suc.hyps(2) by fastforce
  ultimately show ?case using g1(1) eq by (auto simp del: bip9.simps upt_Suc)
qed

lemma period_start_ok:
  assumes tm: "timed st" and P: "0 < period c" and q: "st q = Some b"
  defines "n \<equiv> Suc (nHeight b) div period c"
  shows "period_start st (Period c) q = Some (Inr (if n = 0 then None else anc st q (n * period c - 1)))"
proof -
  have ok: "index_ok st" using tm by (simp add: timed_def)
  have "(int (nHeight b) + 1) mod \<bar>Period c\<bar> = int (Suc (nHeight b) mod period c)"
    unfolding Period_int [OF P] zmod_int by (simp add: add.commute)
  moreover have "int (nHeight b) - int (Suc (nHeight b) mod period c) = int (n * period c) - 1"
    using arg_cong [OF div_mult_mod_eq [of "Suc (nHeight b)" "period c"], of int] unfolding n_def of_nat_add by simp
  ultimately show ?thesis
    using q P GetAncestor_before [OF ok q, of "n * period c"] Period_int [OF P] by (simp add: period_start_def deref_def del: of_nat_mult)
qed

text \<open>A call returns the state of the reference and keeps the cache right.\<close>

lemma GetStateFor_ok:
  assumes tm: "timed st" and P: "0 < period c" and le: "BeginTime c \<le> EndTime c"
    and p: "\<And>q. p = Some q \<Longrightarrow> q \<in> dom st" and ca: "cache_ok st cache" and g: "inv st g"
  shows "\<exists>cache' g'. GetStateFor st c p cache g = Some (Inr (deployment_state st c (cond st) p, cache', g')) \<and>
    cache_ok st cache' \<and> inv st g'"
proof (cases "BeginTime c = ALWAYS_ACTIVE")
  case False
  have lk: "linked st" using tm by (simp add: timed_def index_ok_def)
  show ?thesis
  proof (cases p)
    case None
    have "at_period st p 0" using None by (simp add: at_period_def)
    then show ?thesis using walk_periods_ok [OF tm P le _ ca, of p 0 "[]"] None False ca g
      by (auto simp: GetStateFor_def deployment_state_def period_state_def)
  next
    case (Some q)
    then obtain b where b: "st q = Some b" using p by blast
    define n where "n = Suc (nHeight b) div period c"
    define r where "r = (if n = 0 then None else anc st q (n * period c - 1))"
    have start: "period_start st (Period c) q = Some (Inr r)" using period_start_ok [OF tm P b] by (simp add: n_def r_def)
    have nP: "n * period c \<le> Suc (nHeight b)" by (simp add: n_def)
    have rs: "\<exists>a d. r = Some a \<and> anc st q (n * period c - 1) = Some a \<and> st a = Some d \<and> Suc (nHeight d) = n * period c" if "0 < n"
    proof -
      have "n * period c - 1 \<le> nHeight b" "0 < n * period c" using nP that P by simp_all
      then show ?thesis using anc_Some [OF lk b] that unfolding r_def by fastforce
    qed
    have at: "at_period st r n" using rs by (cases "n = 0") (auto simp: at_period_def r_def)
    obtain pp cache1 k where w: "walk_periods st c r cache [] =
        Some (Inr (pp, cache1, map (period_end st (period c) (the r)) [Suc k..<Suc n]))"
      "cache_ok st cache1" "k \<le> n" "cache1 pp = Some (period_state st r k)"
      using walk_periods_ok [OF tm P le at ca, of "[]"] by auto
    show ?thesis
    proof (cases "n = 0")
      case True
      then show ?thesis using w start Some b False g by (auto simp: GetStateFor_def deployment_state_def n_def [symmetric] r_def period_state_def)
    next
      case n: False
      then obtain a d where a: "r = Some a" "anc st q (n * period c - 1) = Some a" "st a = Some d" "Suc (nHeight d) = n * period c"
        using rs by auto
      have "bip9 st c (cond st) q n = bip9 st c (cond st) a n" using bip9_anc [OF lk a(2) P, of n] n P by simp
      moreover obtain cache' g' where "walk_forward st c (map (period_end st (period c) a) [Suc k..<Suc n]) (bip9 st c (cond st) a k) cache1 g =
          Some (Inr (bip9 st c (cond st) a n, cache', g'))" "cache_ok st cache'" "inv st g'"
        using walk_forward_ok [OF tm P a(3) _ w(3,2) g] a(4) by auto
      ultimately show ?thesis using w start Some b False a(1)
        by (auto simp: GetStateFor_def deployment_state_def n_def [symmetric] period_state_def simp del: upt_Suc)
    qed
  qed
qed (use ca g in \<open>simp add: GetStateFor_def deployment_state_def\<close>)

lemma cache_ok_ext:
  assumes "timed st" "timed st'" "st \<subseteq>\<^sub>m st'" "0 < period c" "cache_ok st cache"
  shows "cache_ok st' cache"
  unfolding cache_ok_def
proof (intro allI impI)
  fix p s
  assume s: "cache p = Some s"
  show "case p of None \<Rightarrow> s = DEFINED
      | Some q \<Rightarrow> \<exists>b k. st' q = Some b \<and> Suc (nHeight b) = k * period c \<and> s = bip9 st' c (cond st') q k"
  proof (cases p)
    case None
    then show ?thesis using assms(5) s by (fastforce simp: cache_ok_def)
  next
    case (Some q)
    then obtain b k where b: "st q = Some b" "Suc (nHeight b) = k * period c" "s = bip9 st c (cond st) q k"
      using assms(5) s by (fastforce simp: cache_ok_def)
    have "linked st" using assms(1) by (simp add: timed_def index_ok_def)
    from bip9_ext [where k = k, OF this assms(3) b(1) assms(4) cond_ext [OF assms(1-3)]]
    show ?thesis using b map_le_Some [OF assms(3) b(1)] Some by auto
  qed
qed

lemma deployment_state_ext:
  assumes "timed st" "timed st'" "st \<subseteq>\<^sub>m st'" "\<And>q. p = Some q \<Longrightarrow> q \<in> dom st"
  shows "deployment_state st' c (cond st') p = deployment_state st c (cond st) p"
proof (cases p)
  case (Some q)
  then obtain b where b: "st q = Some b" using assms(4) by blast
  have lk: "linked st" using assms(1) by (simp add: timed_def index_ok_def)
  have "bip9 st' c (cond st') q (Suc (nHeight b) div period c) = bip9 st c (cond st) q (Suc (nHeight b) div period c)"
  proof (cases "period c")
    case (Suc n)
    then show ?thesis by (intro bip9_ext [OF lk assms(3) b _ cond_ext [OF assms(1-3)]] div_times_less_eq_dividend) simp_all
  qed simp
  then show ?thesis using Some b map_le_Some [OF assms(3) b] by (simp add: deployment_state_def)
qed (simp add: deployment_state_def)

text \<open>The start of the current state.\<close>

lemma deployment_state_period:
  assumes lk: "linked st" and P: "0 < period c" and na: "BeginTime c \<noteq> ALWAYS_ACTIVE" and p: "st p = Some b"
    and x: "x \<le> Suc (nHeight b)"
  shows "deployment_state st c (cond st) (if x = 0 then None else anc st p (x - 1)) = bip9 st c (cond st) p (x div period c)"
proof (cases x)
  case 0
  then show ?thesis using na by (simp add: deployment_state_def)
next
  case (Suc i)
  then obtain q d where q: "anc st p i = Some q" "st q = Some d" "nHeight d = i" using anc_Some [OF lk p, of i] x by auto
  have "bip9 st c (cond st) p (Suc i div period c) = bip9 st c (cond st) q (Suc i div period c)"
    by (rule bip9_anc [OF lk q(1) P]) simp
  then show ?thesis using q Suc na by (simp add: deployment_state_def)
qed

lemma since_loop_ok:
  assumes tm: "timed st" and P: "0 < period c" and le: "BeginTime c \<le> EndTime c" and na: "BeginTime c \<noteq> ALWAYS_ACTIVE"
    and p: "st p = Some b"
  shows "n * period c \<le> Suc (nHeight b) \<Longrightarrow> 0 < n \<Longrightarrow> anc st p (n * period c - 1) = Some q \<Longrightarrow> cache_ok st cache \<Longrightarrow> inv st g \<Longrightarrow>
    bip9 st c (cond st) p n = state \<Longrightarrow> state \<noteq> DEFINED \<Longrightarrow>
    \<exists>k cache' g'. since_loop st c state q (if n = 1 then None else anc st p ((n - 1) * period c - 1)) cache g =
        Some (Inr (int (k * period c), cache', g')) \<and>
      cache_ok st cache' \<and> inv st g' \<and> 0 < k \<and> k \<le> n \<and> (\<forall>j. k \<le> j \<and> j \<le> n \<longrightarrow> bip9 st c (cond st) p j = state) \<and>
      bip9 st c (cond st) p (k - 1) \<noteq> state"
proof (induction n arbitrary: q cache g)
  case (Suc n)
  have lk: "linked st" and ok: "index_ok st" using tm by (simp_all add: timed_def index_ok_def)
  obtain d where d: "st q = Some d" "nHeight d = Suc n * period c - 1" by (rule anc_height [OF lk Suc.prems(3)])
  have h: "int (nHeight d) + 1 = int (Suc n * period c)" using d(2) P by (metis Suc_eq_plus1 Suc_pred' add_gr_0 mult_Suc of_nat_Suc add.commute)
  show ?case
  proof (cases n)
    case 0
    have "since_loop st c state q None cache g = Some (Inr (int (Suc n * period c), cache, g))" using d(1) h by (subst since_loop.simps) simp
    then show ?thesis using 0 Suc.prems by (intro exI [of _ 1] exI conjI) (auto simp: le_Suc_eq)
  next
    case (Suc m)
    have n: "n * period c \<le> Suc (nHeight b)" "0 < n" using \<open>Suc n * period c \<le> Suc (nHeight b)\<close> Suc by simp_all
    then have "n * period c - 1 \<le> nHeight b" by simp
    then obtain r e where r: "anc st p (n * period c - 1) = Some r" "st r = Some e" "nHeight e = n * period c - 1" using anc_Some [OF lk p] by blast
    have "Suc (nHeight e) = n * period c" using r(3) n P by simp
    then have "deployment_state st c (cond st) (Some r) = bip9 st c (cond st) r n" using r(2) P na by (simp add: deployment_state_def)
    also have "\<dots> = bip9 st c (cond st) p n" using bip9_anc [OF lk r(1) P, of n] n P by simp
    finally obtain cache1 g1 where g1: "GetStateFor st c (Some r) cache g = Some (Inr (bip9 st c (cond st) p n, cache1, g1))"
      "cache_ok st cache1" "inv st g1"
      using GetStateFor_ok [OF tm P le _ Suc.prems(4,5), of "Some r"] r(2) by auto
    show ?thesis
    proof (cases "bip9 st c (cond st) p n = state")
      case False
      then have "since_loop st c state q (Some r) cache g = Some (Inr (int (Suc n * period c), cache1, g1))"
        using g1(1) d(1) h by (subst since_loop.simps) simp
      then show ?thesis using False Suc.prems(6) r(1) n(2) g1(2,3) by (intro exI [of _ "Suc n"] exI conjI) (auto simp: le_antisym)
    next
      case True
      have "Suc (nHeight e) = period c + m * period c" using \<open>Suc (nHeight e) = n * period c\<close> Suc by simp
      from arg_cong [OF this, of int] have "int (nHeight e) - int (period c) = int ((n - 1) * period c) - 1" using Suc by simp
      then have "bindE (deref st r) (\<lambda>d. GetAncestor st r (int (nHeight d) - Period c)) =
          Inr (if n = 1 then None else anc st p ((n - 1) * period c - 1))"
        using r(2) GetAncestor_before [OF ok r(2), of "(n - 1) * period c"] P Suc anc_trans [OF lk r(1), of "(n - 1) * period c - 1"]
        by (auto simp: deref_def Period_int [OF P] simp del: of_nat_mult)
      then have step: "since_loop st c state q (Some r) cache g = since_loop st c state r (if n = 1 then None else anc st p ((n - 1) * period c - 1)) cache1 g1"
        using g1(1) True by (subst since_loop.simps) simp
      obtain k cache' g' where k: "since_loop st c state r (if n = 1 then None else anc st p ((n - 1) * period c - 1)) cache1 g1 =
          Some (Inr (int (k * period c), cache', g'))" "cache_ok st cache'" "inv st g'" "0 < k" "k \<le> n"
          "\<forall>j. k \<le> j \<and> j \<le> n \<longrightarrow> bip9 st c (cond st) p j = state" "bip9 st c (cond st) p (k - 1) \<noteq> state"
        using Suc.IH [OF n r(1) g1(2,3) True Suc.prems(7)] by blast
      have "\<forall>j. k \<le> j \<and> j \<le> Suc n \<longrightarrow> bip9 st c (cond st) p j = state" using k(6) Suc.prems(6) by (metis le_Suc_eq)
      moreover have "since_loop st c state q (if Suc n = 1 then None else anc st p ((Suc n - 1) * period c - 1)) cache g =
          Some (Inr (int (k * period c), cache', g'))" using step k(1) r(1) n(2) by simp
      ultimately show ?thesis using k by (intro exI [of _ k] exI [of _ cache'] exI [of _ g']) (simp only: le_SucI simp_thms)
    qed
  qed
qed simp

lemma GetStateSinceHeightFor_ok:
  assumes tm: "timed st" and P: "0 < period c" and le: "BeginTime c \<le> EndTime c" and na: "BeginTime c \<noteq> ALWAYS_ACTIVE"
    and p: "st p = Some b" and ca: "cache_ok st cache" and g: "inv st g"
  shows "\<exists>h cache' g'. GetStateSinceHeightFor st c (Some p) cache g = Some (Inr (int h, cache', g')) \<and> cache_ok st cache' \<and> inv st g' \<and>
    h \<le> Suc (nHeight b) \<and>
    (\<forall>x. h \<le> x \<and> x \<le> Suc (nHeight b) \<longrightarrow>
       deployment_state st c (cond st) (if x = 0 then None else anc st p (x - 1)) = deployment_state st c (cond st) (Some p)) \<and>
    (0 < h \<longrightarrow> deployment_state st c (cond st) (if h = 1 then None else anc st p (h - 2)) \<noteq> deployment_state st c (cond st) (Some p))"
proof -
  have lk: "linked st" and ok: "index_ok st" using tm by (simp_all add: timed_def index_ok_def)
  let ?P = "period c" and ?n = "Suc (nHeight b) div period c" and ?B = "bip9 st c (cond st) p"
  note at = deployment_state_period [OF lk P na p]
  have top: "deployment_state st c (cond st) (Some p) = ?B ?n" using p na by (simp add: deployment_state_def)
  obtain cache1 g1 where g1: "GetStateFor st c (Some p) cache g = Some (Inr (?B ?n, cache1, g1))" "cache_ok st cache1" "inv st g1"
    using GetStateFor_ok [OF tm P le _ ca g, of "Some p"] top p by auto
  show ?thesis
  proof (cases "?B ?n = DEFINED")
    case True
    have "?B k = DEFINED" if "k \<le> ?n" for k
      using that
    proof (induction "?n - k" arbitrary: k)
      case 0
      then show ?case using True by simp
    next
      case (Suc d)
      have "?B (Suc k) = DEFINED" by (rule Suc.hyps(1)) (use Suc in linarith)+
      then show ?case by (auto simp: bip9_step_def Let_def split: ThresholdState.splits if_splits)
    qed
    then have "deployment_state st c (cond st) (if x = 0 then None else anc st p (x - 1)) = DEFINED" if "x \<le> Suc (nHeight b)" for x
      using at [OF that] div_le_mono [OF that, of ?P] by simp
    moreover have "GetStateSinceHeightFor st c (Some p) cache g = Some (Inr (int 0, cache1, g1))"
      using True g1(1) na by (simp add: GetStateSinceHeightFor_def)
    ultimately show ?thesis using True g1(2,3) unfolding top by (intro exI [of _ 0] exI [of _ cache1] exI [of _ g1]) simp
  next
    case False
    then have n: "0 < ?n" by (cases ?n) auto
    have nP: "?n * ?P \<le> Suc (nHeight b)" by simp
    then have "?n * ?P - 1 \<le> nHeight b" by linarith
    then obtain q d where q: "anc st p (?n * ?P - 1) = Some q" "st q = Some d" "nHeight d = ?n * ?P - 1" using anc_Some [OF lk p] by blast
    have hd: "Suc (nHeight d) = ?P + (?n - 1) * ?P" using q(3) n P by (cases ?n) simp_all
    from arg_cong [OF this, of int] have "int (nHeight d) - int ?P = int ((?n - 1) * ?P) - 1" by simp
    then have prev: "bindE (deref st q) (\<lambda>b. GetAncestor st q (int (nHeight b) - int ?P)) = Inr (if ?n = 1 then None else anc st p ((?n - 1) * ?P - 1))"
      using q(2) n GetAncestor_before [OF ok q(2), of "(?n - 1) * ?P"] P anc_trans [OF lk q(1), of "(?n - 1) * ?P - 1"]
      by (auto simp: deref_def diff_le_mono simp del: of_nat_mult)
    obtain k cache' g' where k: "since_loop st c (?B ?n) q (if ?n = 1 then None else anc st p ((?n - 1) * ?P - 1)) cache1 g1 =
          Some (Inr (int (k * ?P), cache', g'))" "cache_ok st cache'" "inv st g'" "0 < k" "k \<le> ?n"
        "\<And>j. k \<le> j \<Longrightarrow> j \<le> ?n \<Longrightarrow> ?B j = ?B ?n" "?B (k - 1) \<noteq> ?B ?n"
      using since_loop_ok [OF tm P le na p nP n q(1) g1(2,3) refl False] by blast
    have run: "GetStateSinceHeightFor st c (Some p) cache g = Some (Inr (int (k * ?P), cache', g'))"
      using na g1(1) False period_start_ok [OF tm P p] n q(1) prev k(1) by (simp add: GetStateSinceHeightFor_def Period_int [OF P])
    have kP: "k * ?P \<le> Suc (nHeight b)" using k(5) nP mult_le_mono1 [OF k(5), of ?P] by linarith
    have same: "deployment_state st c (cond st) (if x = 0 then None else anc st p (x - 1)) = ?B ?n" if "k * ?P \<le> x" "x \<le> Suc (nHeight b)" for x
      using at [OF that(2)] k(6) [of "x div ?P"] that div_le_mono [OF that(2), of ?P] P by (simp add: less_eq_div_iff_mult_less_eq)
    have "(k - 1) * ?P \<le> k * ?P - 1" "k * ?P - 1 < Suc (k - 1) * ?P" using k(4) P by (cases k; simp)+
    then have "(k * ?P - 1) div ?P = k - 1" by (intro div_nat_eqI) (simp_all add: mult.commute)
    then have "deployment_state st c (cond st) (if k * ?P = 1 then None else anc st p (k * ?P - 2)) \<noteq> ?B ?n"
    proof -
      have "0 < k * ?P" using k(4) P by simp
      then have e: "k * ?P - 1 = 0 \<longleftrightarrow> k * ?P = 1" "k * ?P - 1 - 1 = k * ?P - 2" "k * ?P - 1 \<le> Suc (nHeight b)" using kP by linarith+
      have "deployment_state st c (cond st) (if k * ?P = 1 then None else anc st p (k * ?P - 2)) = ?B (k - 1)"
        using at [OF e(3)] unfolding e(1,2) \<open>(k * ?P - 1) div ?P = k - 1\<close> .
      then show ?thesis using k(7) by (simp only: not_False_eq_True)
    qed
    then show ?thesis using same kP run k(2,3) unfolding top
      by (intro exI [of _ "k * ?P"] exI [of _ cache'] exI [of _ g'] conjI allI impI) (assumption | blast)+
  qed
qed

end

section \<open>Deployments\<close>

definition signalling :: "Params \<Rightarrow> DeploymentPos \<Rightarrow> index_store \<Rightarrow> ptr \<Rightarrow> bool" where
  "signalling params pos st p = (case st p of None \<Rightarrow> False | Some b \<Rightarrow> signals_bit params pos (bi_nVersion b))"

interpretation vb: threshold_condition "VersionBitsConditionChecker params pos" "signalling params pos" "\<lambda>_ _. True"
  for params pos
  by unfold_locales (auto simp: VersionBitsConditionChecker_def deref_def signalling_def map_le_def dom_def split: option.splits)

abbreviation fork_state :: "index_store \<Rightarrow> Params \<Rightarrow> DeploymentPos \<Rightarrow> ptr option \<Rightarrow> ThresholdState" where
  "fork_state st params pos p \<equiv> deployment_state st (VersionBitsConditionChecker params pos) (signalling params pos st) p"

definition deployments_ok :: "Params \<Rightarrow> bool" where
  "deployments_ok params \<longleftrightarrow> length (vDeployments params) = MAX_VERSION_BITS_DEPLOYMENTS \<and> 0 < sint (nMinerConfirmationWindow params) \<and>
     list_all (\<lambda>d. dep_nStartTime d \<le> dep_nTimeout d) (vDeployments params)"

definition in_index :: "index_store \<Rightarrow> ptr option \<Rightarrow> bool" where
  "in_index st p \<longleftrightarrow> (case p of None \<Rightarrow> True | Some q \<Rightarrow> q \<in> dom st)"

text \<open>The caches a node can hold: empty at the start, filled by queries, kept while the index grows.\<close>

inductive caches_reach :: "Params \<Rightarrow> index_store \<Rightarrow> VersionBitsCache \<Rightarrow> bool" for params where
  start: "timed st \<Longrightarrow> caches_reach params st VersionBitsCache_Clear"
| state: "caches_reach params st caches \<Longrightarrow> pos < MAX_VERSION_BITS_DEPLOYMENTS \<Longrightarrow> in_index st p \<Longrightarrow>
    VersionBitsState st p params pos caches = Some (Inr (s, caches')) \<Longrightarrow> caches_reach params st caches'"
| since: "caches_reach params st caches \<Longrightarrow> pos < MAX_VERSION_BITS_DEPLOYMENTS \<Longrightarrow> q \<in> dom st \<Longrightarrow>
    VersionBitsStateSinceHeight st (Some q) params pos caches = Some (Inr (h, caches')) \<Longrightarrow> caches_reach params st caches'"
| grow: "caches_reach params st caches \<Longrightarrow> st \<subseteq>\<^sub>m st' \<Longrightarrow> timed st' \<Longrightarrow> caches_reach params st' caches"

definition caches_ok :: "Params \<Rightarrow> index_store \<Rightarrow> VersionBitsCache \<Rightarrow> bool" where
  "caches_ok params st caches \<longleftrightarrow> length caches = MAX_VERSION_BITS_DEPLOYMENTS \<and>
     (\<forall>pos<MAX_VERSION_BITS_DEPLOYMENTS. vb.cache_ok params pos st (caches ! pos))"

lemma checker_sel [simp]:
  "period (VersionBitsConditionChecker params pos) = nat (sint (nMinerConfirmationWindow params))"
  "BeginTime (VersionBitsConditionChecker params pos) = dep_nStartTime (vDeployments params ! pos)"
  "EndTime (VersionBitsConditionChecker params pos) = dep_nTimeout (vDeployments params ! pos)"
  "Threshold (VersionBitsConditionChecker params pos) = sint (nRuleChangeActivationThreshold params)"
  by (simp_all add: VersionBitsConditionChecker_def period_def)

lemma deployments_ok_checker:
  assumes "deployments_ok params" "pos < MAX_VERSION_BITS_DEPLOYMENTS"
  shows "0 < period (VersionBitsConditionChecker params pos)"
    "BeginTime (VersionBitsConditionChecker params pos) \<le> EndTime (VersionBitsConditionChecker params pos)"
  using assms by (auto simp: deployments_ok_def word_gt_0 unat_gt_0 list_all_length)

lemma caches_ok_update:
  assumes "caches_ok params st caches" "pos < MAX_VERSION_BITS_DEPLOYMENTS" "vb.cache_ok params pos st cache"
  shows "caches_ok params st (caches[pos := cache])"
  using assms by (auto simp: caches_ok_def nth_list_update)

lemma VersionBitsState_ok:
  assumes "timed st" "deployments_ok params" "caches_ok params st caches" "pos < MAX_VERSION_BITS_DEPLOYMENTS" "in_index st p"
  shows "\<exists>caches'. VersionBitsState st p params pos caches = Some (Inr (fork_state st params pos p, caches')) \<and> caches_ok params st caches'"
proof -
  have "vb.cache_ok params pos st (caches ! pos)" using assms(3,4) by (simp add: caches_ok_def)
  moreover have "\<And>q. p = Some q \<Longrightarrow> q \<in> dom st" using assms(5) by (auto simp: in_index_def)
  ultimately obtain cache where "GetStateFor st (VersionBitsConditionChecker params pos) p (caches ! pos) () =
      Some (Inr (fork_state st params pos p, cache, ()))" "vb.cache_ok params pos st cache"
    using vb.GetStateFor_ok [OF assms(1) deployments_ok_checker [OF assms(2,4)], of p "caches ! pos" "()"] by auto
  then show ?thesis using caches_ok_update [OF assms(3,4)] by (simp add: VersionBitsState_def)
qed

lemma caches_reach_ok: "caches_reach params st caches \<Longrightarrow> deployments_ok params \<Longrightarrow> timed st \<and> caches_ok params st caches"
proof (induction rule: caches_reach.induct)
  case (start st)
  then show ?case by (simp add: caches_ok_def VersionBitsCache_Clear_def vb.cache_ok_empty)
next
  case (state st caches pos p s caches')
  then show ?case using VersionBitsState_ok [of st params caches pos p] by auto
next
  case (since st caches pos q h caches')
  then obtain b where b: "st q = Some b" by blast
  have ca: "vb.cache_ok params pos st (caches ! pos)" using since by (simp add: caches_ok_def)
  obtain cache where "vb.cache_ok params pos st cache" "caches' = caches[pos := cache]"
  proof (cases "dep_nStartTime (vDeployments params ! pos) = ALWAYS_ACTIVE")
    case True
    then have "caches' = caches[pos := caches ! pos]" using since(4) by (simp add: VersionBitsStateSinceHeight_def GetStateSinceHeightFor_def)
    then show ?thesis using that ca by blast
  next
    case False
    then show ?thesis
      using that since(4) vb.GetStateSinceHeightFor_ok [OF _ deployments_ok_checker [OF since.prems since.hyps(2)] _ b ca] since.IH [OF since.prems]
      by (auto simp: VersionBitsStateSinceHeight_def)
  qed
  then show ?case using since caches_ok_update by blast
next
  case (grow st caches st')
  then show ?case using vb.cache_ok_ext [of st st' params] deployments_ok_checker [OF grow.prems] by (auto simp: caches_ok_def)
qed


section \<open>Every deployment is decided\<close>

lemma bip9_final:
  assumes "bip9 st c cond p k \<in> {ACTIVE, FAILED}"
  shows "k \<le> n \<Longrightarrow> bip9 st c cond p n = bip9 st c cond p k"
proof (induction n)
  case (Suc n)
  then show ?case using assms by (cases "k = Suc n") (auto simp: Let_def bip9_step_def)
qed simp

lemma bip9_timeout:
  assumes "EndTime c \<le> median_past st (period_end st (period c) p (Suc k))"
  shows "bip9 st c cond p (Suc k) \<in> {ACTIVE, FAILED}"
  using assms by (cases "bip9 st c cond p k") (auto simp: Let_def bip9_step_def)

lemma period_end_at:
  assumes "anc st p e = Some q" "P dvd Suc e"
  shows "period_end st P p (Suc e div P) = q"
  using assms by (simp add: period_end_def)

lemma bip9_decided:
  assumes lk: "linked st" and P: "0 < period c" and q: "anc st r e = Some q" "period c dvd Suc e" and r: "st r = Some x"
    and t: "EndTime c \<le> median_past st q"
  shows "bip9 st c cond r (Suc (nHeight x) div period c) = bip9 st c cond q (Suc e div period c) \<and>
    bip9 st c cond q (Suc e div period c) \<in> {ACTIVE, FAILED}"
proof -
  let ?k = "Suc e div period c"
  have kp: "?k * period c = Suc e" using q(2) by simp
  then obtain j where j: "?k = Suc j" by (cases ?k) auto
  have "bip9 st c cond r ?k \<in> {ACTIVE, FAILED}" using bip9_timeout [of c st r j] t period_end_at [OF q] unfolding j by simp
  moreover have "e \<le> nHeight x" using anc_bound [OF q(1)] r by auto
  then have "?k \<le> Suc (nHeight x) div period c" by (intro div_le_mono) simp
  moreover have "bip9 st c cond r ?k = bip9 st c cond q ?k" using bip9_anc [OF lk q(1) P, of ?k] kp by simp
  ultimately show ?thesis using bip9_final [of st c cond r ?k "Suc (nHeight x) div period c"] by simp
qed

lemma bip9_activates:
  assumes lk: "linked st" and P: "0 < period c" and na: "BeginTime c \<noteq> ALWAYS_ACTIVE"
    and q: "anc st p e = Some q" "period c dvd Suc e" "st q = Some d" and p: "st p = Some b" "e + period c \<le> nHeight b"
    and a: "median_past st q < EndTime c" "deployment_state st c cond (pprev d) = STARTED"
      "Threshold c \<le> int (length (filter cond (blocks_back st (period c) (Some q))))"
  shows "bip9 st c cond p (Suc (nHeight b) div period c) = ACTIVE"
proof -
  let ?k = "Suc e div period c" and ?B = "bip9 st c cond"
  have kp: "?k * period c = Suc e" using q(2) by simp
  then obtain j where j: "?k = Suc j" by (cases ?k) auto
  have e: "Suc e = period c + j * period c" using kp unfolding j mult_Suc by simp
  have hd: "nHeight d = e" using anc_height [OF lk q(1)] q(3) by auto
  obtain x where x: "pprev d = Some x" using a(2) na by (cases "pprev d") (auto simp: deployment_state_def)
  obtain y where y: "st x = Some y" "e = Suc (nHeight y)" using linked_prev [OF lk q(3) x] hd by auto
  have "anc st q (nHeight y) = Some x" using anc_prev [OF lk q(3) x, of "nHeight y"] y anc_self [of st x y] hd by simp
  then have ax: "anc st p (nHeight y) = Some x" using anc_trans [OF lk q(1), of "nHeight y"] y(2) by simp
  have dj: "e div period c = j" using e P by (intro div_nat_eqI) (simp_all add: mult.commute)
  then have "?B x j = STARTED" using a(2) x y na by (simp add: deployment_state_def)
  moreover have "?B p j = ?B x j" using e P y(2) by (intro bip9_anc [OF lk ax P]) simp
  ultimately have "?B p (Suc j) = LOCKED_IN" using a(1,3) period_end_at [OF q(1,2)] unfolding j by (simp add: Let_def bip9_step_def)
  then have act: "?B p (Suc (Suc j)) = ACTIVE" unfolding bip9.simps(2) [of _ _ _ _ "Suc j"] by (simp add: Let_def bip9_step_def)
  have "Suc (Suc j) = (Suc e + period c) div period c" using P j div_add_self2 [of "period c" "Suc e"] by (simp del: add_Suc)
  also have "\<dots> \<le> Suc (nHeight b) div period c" using p(2) by (intro div_le_mono) simp
  finally show ?thesis using bip9_final [of st c cond p "Suc (Suc j)" "Suc (nHeight b) div period c"] act by simp
qed


section \<open>Block versions and warnings\<close>

definition expected_version :: "index_store \<Rightarrow> Params \<Rightarrow> ptr option \<Rightarrow> DeploymentPos list \<Rightarrow> u32 \<Rightarrow> u32" where
  "expected_version st params p is v =
     foldl (\<lambda>v i. if fork_state st params i p = LOCKED_IN \<or> fork_state st params i p = STARTED then v OR VersionBitsMask params i else v) v is"

lemma version_loop_ok:
  assumes "timed st" "deployments_ok params" "in_index st p"
  shows "caches_ok params st caches \<Longrightarrow> list_all (\<lambda>i. i < MAX_VERSION_BITS_DEPLOYMENTS) is \<Longrightarrow>
    \<exists>caches'. version_loop st p params is v caches = Some (Inr (expected_version st params p is v, caches')) \<and> caches_ok params st caches'"
proof (induction "is" arbitrary: v caches)
  case (Cons i "is")
  then obtain c1 where "VersionBitsState st p params i caches = Some (Inr (fork_state st params i p, c1))" "caches_ok params st c1"
    using VersionBitsState_ok [OF assms(1,2) _ _ assms(3), of caches i] by auto
  then show ?case using Cons by (simp add: expected_version_def)
qed (simp add: expected_version_def)

lemma ComputeBlockVersion_ok:
  assumes "timed st" "deployments_ok params" "in_index st p" "caches_ok params st caches"
  shows "\<exists>caches'. ComputeBlockVersion st p params caches =
      Some (Inr (sint (expected_version st params p [0..<MAX_VERSION_BITS_DEPLOYMENTS] VERSIONBITS_TOP_BITS), caches')) \<and> caches_ok params st caches'"
proof -
  have "list_all (\<lambda>i. i < MAX_VERSION_BITS_DEPLOYMENTS) [0..<MAX_VERSION_BITS_DEPLOYMENTS]" by (simp add: list_all_iff)
  from version_loop_ok [OF assms(1-4) this, of VERSIONBITS_TOP_BITS] show ?thesis by (auto simp: ComputeBlockVersion_def)
qed

lemma bit_expected_version:
  assumes "\<And>i. i \<in> set is \<Longrightarrow> dep_bit (vDeployments params ! i) < 32"
  shows "bit (expected_version st params p is v) n \<longleftrightarrow>
    bit v n \<or> (\<exists>i\<in>set is. n = dep_bit (vDeployments params ! i) \<and> fork_state st params i p \<in> {LOCKED_IN, STARTED})"
  using assms
proof (induction "is" arbitrary: v)
  case (Cons i "is")
  have "bit (VersionBitsMask params i) n \<longleftrightarrow> n = dep_bit (vDeployments params ! i)"
    using Cons.prems [of i] by (auto simp: VersionBitsMask_def bit_exp_iff)
  moreover have "expected_version st params p (i # is) v =
      expected_version st params p is (if fork_state st params i p \<in> {LOCKED_IN, STARTED} then v OR VersionBitsMask params i else v)"
    by (simp add: expected_version_def)
  ultimately show ?case using Cons.IH Cons.prems by (auto simp: bit_or_iff)
qed (simp add: expected_version_def)

text \<open>The condition of the warning checker reads the global deployment caches and keeps them right.\<close>

definition unexpected :: "Params \<Rightarrow> nat \<Rightarrow> index_store \<Rightarrow> ptr \<Rightarrow> bool" where
  "unexpected params i st p =
     (case st p of
        None \<Rightarrow> False
      | Some b \<Rightarrow>
          (let v = (word_of_int (bi_nVersion b) :: u32) in v AND VERSIONBITS_TOP_MASK = VERSIONBITS_TOP_BITS \<and> bit v i \<and>
            \<not> bit (sint (expected_version st params (pprev b) [0..<MAX_VERSION_BITS_DEPLOYMENTS] VERSIONBITS_TOP_BITS)) i))"

lemma expected_version_ext:
  assumes "timed st" "timed st'" "st \<subseteq>\<^sub>m st'" "in_index st p"
  shows "expected_version st' params p is v = expected_version st params p is v"
proof -
  have "fork_state st' params i p = fork_state st params i p" for i
    by (rule vb.deployment_state_ext [OF assms(1-3)]) (use assms(4) in \<open>auto simp: in_index_def\<close>)
  then show ?thesis by (simp add: expected_version_def)
qed

lemma in_index_prev: "timed st \<Longrightarrow> st p = Some b \<Longrightarrow> in_index st (pprev b)"
  using linked_prev [of st p b] by (auto simp: in_index_def timed_def index_ok_def split: option.splits)

interpretation warning: threshold_condition "WarningBitsConditionChecker params i" "unexpected params i"
  "\<lambda>st caches. deployments_ok params \<and> caches_ok params st caches" for params i
proof
  fix st p b g
  assume a: "timed st" "st p = Some b" "deployments_ok params \<and> caches_ok params st g"
  then show "\<exists>g'. Condition (WarningBitsConditionChecker params i) st p g = Some (Inr (unexpected params i st p, g')) \<and>
      deployments_ok params \<and> caches_ok params st g'"
    using ComputeBlockVersion_ok [OF a(1) _ in_index_prev [OF a(1,2)], of params g]
    by (auto simp: WarningBitsConditionChecker_def deref_def unexpected_def Let_def)
next
  fix st st' p
  assume a: "timed st" "timed st'" "st \<subseteq>\<^sub>m st'" "p \<in> dom st"
  then obtain b where b: "st p = Some b" by blast
  show "unexpected params i st' p = unexpected params i st p"
    using expected_version_ext [OF a(1-3) in_index_prev [OF a(1) b]] b map_le_Some [OF a(3) b] by (simp add: unexpected_def)
qed

lemma top_bits:
  "bit VERSIONBITS_TOP_BITS n \<longleftrightarrow> n = 29" "bit VERSIONBITS_TOP_MASK n \<longleftrightarrow> 29 \<le> n \<and> n < 32"
proof -
  have "VERSIONBITS_TOP_BITS = 2 ^ 29" "VERSIONBITS_TOP_MASK = NOT (mask 29)"
    by (simp_all add: VERSIONBITS_TOP_BITS_def VERSIONBITS_TOP_MASK_def mask_eq_exp_minus_1)
  note eq = this
  show "bit VERSIONBITS_TOP_BITS n \<longleftrightarrow> n = 29" unfolding eq(1) bit_exp_iff by auto
  show "bit VERSIONBITS_TOP_MASK n \<longleftrightarrow> 29 \<le> n \<and> n < 32" unfolding eq(2) bit_not_iff bit_mask_iff by auto
qed


section \<open>An example chain\<close>

text \<open>Eight blocks ten seconds apart, all of which signal the first deployment, with periods of two.\<close>

definition fork_store :: index_store where
  "fork_store p = (if p < 8 then Some ((entry (if p = 0 then None else Some (p - 1)) None p (of_nat (10 * p + 10)))\<lparr>bi_nVersion := 0x20000001\<rparr>) else None)"

definition fork_params :: Params where
  "fork_params = sample_params\<lparr>nMinerConfirmationWindow := 2, nRuleChangeActivationThreshold := 2, vDeployments :=
     [\<lparr>dep_bit = 0, dep_nStartTime = 30, dep_nTimeout = 1000\<rparr>, \<lparr>dep_bit = 1, dep_nStartTime = 30, dep_nTimeout = 40\<rparr>,
      \<lparr>dep_bit = 2, dep_nStartTime = ALWAYS_ACTIVE, dep_nTimeout = 1000\<rparr>]\<rparr>"

lemma fork_params_ok: "deployments_ok fork_params" "distinct (map dep_bit (vDeployments fork_params))"
  "list_all (\<lambda>d. dep_bit d < VERSIONBITS_NUM_BITS) (vDeployments fork_params)"
  by code_simp+

lemma fork_ok: "index_ok fork_store"
  by (auto simp: index_ok_def linked_def skips_ok_def fork_store_def split: if_splits)

lemma fork_anc: "p < 8 \<Longrightarrow> i \<le> p \<Longrightarrow> anc fork_store p i = Some i"
proof -
  have "p < 8 \<Longrightarrow> n \<le> p \<Longrightarrow> walk_back fork_store p n = Some (p - n)" for n
    by (induction n arbitrary: p) (auto simp: fork_store_def)
  then show "p < 8 \<Longrightarrow> i \<le> p \<Longrightarrow> anc fork_store p i = Some i" by (simp add: anc_def fork_store_def)
qed

lemma fork_at:
  "p < 8 \<Longrightarrow> fork_store p = Some ((entry (if p = 0 then None else Some (p - 1)) None p (of_nat (10 * p + 10)))\<lparr>bi_nVersion := 0x20000001\<rparr>)"
  by (simp add: fork_store_def)

lemma fork_time: "p < 8 \<Longrightarrow> uint (of_nat (10 * p + 10) :: u32) = 10 * int p + 10"
  by (subst unsigned_of_nat, subst take_bit_nat_eq_self) simp_all

lemma fork_past: "p < 8 \<Longrightarrow> past_times fork_store n (Some p) = map (\<lambda>i. 10 * int (p - i) + 10) [0..<min n (Suc p)]"
proof (induction n arbitrary: p)
  case (Suc n)
  have "past_times fork_store n (if p = 0 then None else Some (p - 1)) = map (\<lambda>i. 10 * int (p - Suc i) + 10) [0..<min n p]"
  proof (cases p)
    case 0
    then show ?thesis by (cases n) simp_all
  next
    case (Suc m)
    then show ?thesis using Suc.IH [of m] Suc.prems by simp
  qed
  moreover have "[0..<min (Suc n) (Suc p)] = 0 # map Suc [0..<min n p]"
    unfolding min_Suc_Suc map_Suc_upt by (rule upt_conv_Cons) simp
  ultimately show ?case using Suc.prems fork_time [OF Suc.prems]
    by (simp add: fork_at [OF Suc.prems] GetBlockTime_def o_def del: upt_Suc of_nat_add of_nat_mult split del: if_split)
qed simp

lemma fork_median: "p < 8 \<Longrightarrow> median_past fork_store p = 10 * int (Suc p div 2) + 10"
proof -
  have "list_all (\<lambda>p. median (map (\<lambda>i. 10 * int (p - i) + 10) [0..<min 11 (Suc p)]) = 10 * int (Suc p div 2) + 10) [0..<8]" by code_simp
  then show "p < 8 \<Longrightarrow> median_past fork_store p = 10 * int (Suc p div 2) + 10" unfolding list_all_iff by (simp add: fork_past del: upt_rec_numeral)
qed

lemma fork_store_timed: "timed fork_store"
  unfolding timed_def times_ok_def
proof (intro conjI fork_ok allI impI)
  fix p b q
  assume a: "fork_store p = Some b" "pprev b = Some q"
  then have p: "p < 8" "p \<noteq> 0" "q = p - 1" by (auto simp: fork_store_def split: if_splits)
  have "GetBlockTime b = 10 * int p + 10" using a p(1) fork_time [OF p(1)] by (auto simp: fork_store_def GetBlockTime_def)
  then show "median_past fork_store q < GetBlockTime b" using p by (simp add: fork_median)
qed

lemma fork_signals: "signalling fork_params 0 fork_store p \<longleftrightarrow> p < 8"
proof -
  have "signals_bit fork_params 0 0x20000001" by code_simp
  then show ?thesis by (simp add: signalling_def fork_store_def)
qed

lemma fork_period: "nat (sint (nMinerConfirmationWindow fork_params)) = 2"
  by (simp add: fork_params_def)

lemma fork_blocks: "0 < p \<Longrightarrow> p < 8 \<Longrightarrow> blocks_back fork_store 2 (Some p) = [p, p - 1]"
  by (simp add: numeral_2_eq_2 fork_store_def)

lemma fork_height: "p < 8 \<Longrightarrow> nHeight (the (fork_store p)) = p"
  by (simp add: fork_store_def)

lemma fork_first: "dep_nStartTime (vDeployments fork_params ! 0) = 30" "dep_nTimeout (vDeployments fork_params ! 0) = 1000"
  "sint (nRuleChangeActivationThreshold fork_params) = 2"
  by (simp_all add: fork_params_def)

lemma fork_step:
  assumes "p < 8" "2 * k + 1 \<le> p"
  defines "B \<equiv> bip9 fork_store (VersionBitsConditionChecker fork_params 0) (signalling fork_params 0 fork_store) p"
  shows "B (Suc k) = bip9_step 30 1000 2 (10 * int (Suc k) + 10) 2 (B k)"
proof -
  have e: "period_end fork_store 2 p (Suc k) = 2 * k + 1" using assms(1,2) by (simp add: period_end_def fork_anc mult.commute)
  have "Suc (2 * k + 1) div 2 = Suc k" by simp
  then have "median_past fork_store (2 * k + 1) = 10 * int (Suc k) + 10" using fork_median [of "2 * k + 1"] assms(1,2) by (simp del: div_mult2_eq)
  moreover have "length (filter (signalling fork_params 0 fork_store) (blocks_back fork_store 2 (Some (2 * k + 1)))) = 2"
    using fork_blocks [of "2 * k + 1"] assms(1,2) by (simp add: fork_signals)
  ultimately show ?thesis unfolding B_def bip9.simps checker_sel fork_period fork_first e Let_def by simp
qed

lemma fork_states: "fork_state fork_store fork_params 0 (Some 7) = ACTIVE" "fork_state fork_store fork_params 0 (Some 4) = STARTED"
proof -
  let ?B = "bip9 fork_store (VersionBitsConditionChecker fork_params 0) (signalling fork_params 0 fork_store)"
  have "?B 7 (Suc (Suc (Suc (Suc 0)))) = ACTIVE" "?B 4 (Suc (Suc 0)) = STARTED" by (simp_all add: fork_step bip9_step_def del: bip9.simps(2))
  then have "?B 7 4 = ACTIVE" "?B 4 2 = STARTED" by (simp_all only: eval_nat_numeral BitM.simps)
  then show "fork_state fork_store fork_params 0 (Some 7) = ACTIVE" "fork_state fork_store fork_params 0 (Some 4) = STARTED"
    unfolding deployment_state_def by (simp_all add: fork_height fork_period fork_first ALWAYS_ACTIVE_def)
qed

lemma fork_caches: "caches_reach fork_params fork_store VersionBitsCache_Clear"
  using fork_store_timed by (rule caches_reach.start)

lemma fork_five:
  "anc fork_store 7 5 = Some 5" "median_past fork_store 5 = 40" "nat (sint (nMinerConfirmationWindow fork_params)) dvd Suc 5"
  "sint (nRuleChangeActivationThreshold fork_params) \<le>
     int (length (filter (signalling fork_params 0 fork_store) (blocks_back fork_store (nat (sint (nMinerConfirmationWindow fork_params))) (Some 5))))"
  "5 + nat (sint (nMinerConfirmationWindow fork_params)) \<le> 7"
  using fork_anc [of 7 5] fork_median [of 5] fork_blocks [of 5] by (simp_all add: fork_period fork_first fork_signals)

lemma fork_times:
  "dep_nTimeout (vDeployments fork_params ! 0) = 1000" "dep_nTimeout (vDeployments fork_params ! 1) = 40"
  "dep_nStartTime (vDeployments fork_params ! 0) \<noteq> ALWAYS_ACTIVE" "dep_nStartTime (vDeployments fork_params ! 1) \<noteq> ALWAYS_ACTIVE"
  by (simp_all add: fork_params_def ALWAYS_ACTIVE_def)




end
