(* ===== verification/Coin_Format.thy ===== *)
theory Coin_Format
  imports Undo
begin

unbundle bit_operations_syntax

text \<open>
  \<open>compressor.{h,cpp}\<close>, the serialisation of \<open>Coin\<close> in \<open>coins.h\<close> and \<open>undo.h\<close>: the formats of the
  coins database and of the undo files.  Objects are read into fresh ones.  The two operations on
  public keys that need the curve are arguments; \<open>None\<close> is a failed assertion of the writer.
\<close>

section \<open>32-bit variable-length integers\<close>

text \<open>\<open>WriteVarInt\<close> and \<open>ReadVarInt\<close> for \<open>unsigned int\<close>: the digits are those of the number, the bounds of
  the reader those of the type.\<close>

definition WriteVarInt32 :: "u32 \<Rightarrow> byte list" where
  "WriteVarInt32 n = WriteVarInt (ucast n)"

fun read_varint32_loop :: "u32 \<Rightarrow> u32 reader" where
  "read_varint32_loop n [] = Inl EndOfData"
| "read_varint32_loop n (chData # is) =
     (if n > drop_bit 7 (- 1) then Inl VarIntTooLarge
      else let n = push_bit 7 n OR ucast (chData AND 0x7F) in
        if chData AND 0x80 \<noteq> 0 then
          (if n = - 1 then Inl VarIntTooLarge else read_varint32_loop (n + 1) is)
        else Inr (n, is))"

definition ReadVarInt32 :: "u32 reader" where
  "ReadVarInt32 is = read_varint32_loop 0 is"

section \<open>Amounts\<close>

function strip_zeros :: "u64 \<Rightarrow> nat \<Rightarrow> u64 \<times> nat" where
  "strip_zeros n e = (if n mod 10 = 0 \<and> e < 9 then strip_zeros (n div 10) (e + 1) else (n, e))"
  by pat_completeness auto
termination by (relation "measure (\<lambda>(_, e). 9 - e)") auto

declare strip_zeros.simps [simp del]

definition CompressAmount :: "u64 \<Rightarrow> u64 option" where
  "CompressAmount n =
     (if n = 0 then Some 0
      else
        (let (n, e) = strip_zeros n 0 in
         if e < 9 then
           (let d = n mod 10 in
            if d \<ge> 1 \<and> d \<le> 9 then (let n = n div 10 in Some (1 + (n * 9 + d - 1) * 10 + of_nat e)) else None)
         else Some (1 + (n - 1) * 10 + 9)))"

definition DecompressAmount :: "u64 \<Rightarrow> u64" where
  "DecompressAmount x =
     (if x = 0 then 0
      else
        (let x = x - 1; e = unat (x mod 10); x = x div 10;
             n = (if e < 9 then (let d = x mod 9 + 1; x = x div 9 in x * 10 + d) else x + 1)
         in n * 10 ^ e))"

section \<open>Scripts\<close>

record pubkey_ops =
  IsFullyValid :: "valtype \<Rightarrow> bool"
  Decompress :: "valtype \<Rightarrow> valtype option"

abbreviation op_byte :: "nat \<Rightarrow> byte" where "op_byte c \<equiv> of_nat c"

definition IsToKeyID :: "valtype \<Rightarrow> valtype option" where
  "IsToKeyID script =
     (if length script = 25 \<and> script ! 0 = op_byte OP_DUP \<and> script ! 1 = op_byte OP_HASH160 \<and> script ! 2 = 20 \<and>
         script ! 23 = op_byte OP_EQUALVERIFY \<and> script ! 24 = op_byte OP_CHECKSIG
      then Some (take 20 (drop 3 script)) else None)"

definition IsToScriptID :: "valtype \<Rightarrow> valtype option" where
  "IsToScriptID script =
     (if length script = 23 \<and> script ! 0 = op_byte OP_HASH160 \<and> script ! 1 = 20 \<and> script ! 22 = op_byte OP_EQUAL
      then Some (take 20 (drop 2 script)) else None)"

definition IsToPubKey :: "pubkey_ops \<Rightarrow> valtype \<Rightarrow> valtype option" where
  "IsToPubKey ops script =
     (if length script = 35 \<and> script ! 0 = 33 \<and> script ! 34 = op_byte OP_CHECKSIG \<and> (script ! 1 = 0x02 \<or> script ! 1 = 0x03)
      then Some (take 33 (drop 1 script))
      else if length script = 67 \<and> script ! 0 = 65 \<and> script ! 66 = op_byte OP_CHECKSIG \<and> script ! 1 = 0x04
      then (let pubkey = take 65 (drop 1 script) in if IsFullyValid ops pubkey then Some pubkey else None)
      else None)"

definition CompressScript :: "pubkey_ops \<Rightarrow> valtype \<Rightarrow> valtype option" where
  "CompressScript ops script =
     (case IsToKeyID script of
        Some keyID \<Rightarrow> Some (0x00 # keyID)
      | None \<Rightarrow>
     (case IsToScriptID script of
        Some scriptID \<Rightarrow> Some (0x01 # scriptID)
      | None \<Rightarrow>
     (case IsToPubKey ops script of
        Some pubkey \<Rightarrow>
          (if pubkey ! 0 = 0x02 \<or> pubkey ! 0 = 0x03 then Some (pubkey ! 0 # take 32 (drop 1 pubkey))
           else if pubkey ! 0 = 0x04 then Some ((0x04 OR (pubkey ! 64 AND 0x01)) # take 32 (drop 1 pubkey))
           else None)
      | None \<Rightarrow> None)))"

definition GetSpecialScriptSize :: "nat \<Rightarrow> nat" where
  "GetSpecialScriptSize nSize = (if nSize = 0 \<or> nSize = 1 then 20 else if nSize = 2 \<or> nSize = 3 \<or> nSize = 4 \<or> nSize = 5 then 32 else 0)"

text \<open>The script, which stays empty where the function returns false.\<close>

definition DecompressScript :: "pubkey_ops \<Rightarrow> nat \<Rightarrow> valtype \<Rightarrow> ser_error + valtype" where
  "DecompressScript ops nSize in_bytes =
     (if nSize = 0x00 then Inr ([op_byte OP_DUP, op_byte OP_HASH160, 20] @ take 20 in_bytes @ [op_byte OP_EQUALVERIFY, op_byte OP_CHECKSIG])
      else if nSize = 0x01 then Inr ([op_byte OP_HASH160, 20] @ take 20 in_bytes @ [op_byte OP_EQUAL])
      else if nSize = 0x02 \<or> nSize = 0x03 then Inr ([33, of_nat nSize] @ take 32 in_bytes @ [op_byte OP_CHECKSIG])
      else if nSize = 0x04 \<or> nSize = 0x05 then
        (case Decompress ops (of_nat (nSize - 2) # take 32 in_bytes) of
           None \<Rightarrow> Inr []
         | Some pubkey \<Rightarrow>
             bindE (guardE (length pubkey = 65) PubKeyAssert) (\<lambda>_. Inr ([65] @ pubkey @ [op_byte OP_CHECKSIG])))
      else Inr [])"

definition nSpecialScripts :: nat where "nSpecialScripts = 6"

definition ser_script :: "pubkey_ops \<Rightarrow> valtype \<Rightarrow> byte list" where
  "ser_script ops script =
     (case CompressScript ops script of
        Some compr \<Rightarrow> compr
      | None \<Rightarrow> WriteVarInt32 (of_nat (length script + nSpecialScripts)) @ script)"

text \<open>\<open>s.ignore\<close> fails at the end of the data, as a read does.\<close>

definition unser_script :: "pubkey_ops \<Rightarrow> valtype reader" where
  "unser_script ops s =
     bindE (ReadVarInt32 s) (\<lambda>(n, s).
     let nSize = unat n in
     if nSize < nSpecialScripts then
       bindE (stream_read (GetSpecialScriptSize nSize) s) (\<lambda>(vch, s).
       bindE (DecompressScript ops nSize vch) (\<lambda>script. Inr (script, s)))
     else
       let nSize = nSize - nSpecialScripts in
       if nSize > MAX_SCRIPT_SIZE then bindE (stream_read nSize s) (\<lambda>(_, s). Inr ([op_byte OP_RETURN], s))
       else stream_read nSize s)"

definition ser_txout_compressed :: "pubkey_ops \<Rightarrow> CTxOut \<Rightarrow> byte list option" where
  "ser_txout_compressed ops txout =
     Option.bind (CompressAmount (word_of_int (nValue txout))) (\<lambda>nVal.
     Some (WriteVarInt nVal @ ser_script ops (scriptPubKey txout)))"

definition unser_txout_compressed :: "pubkey_ops \<Rightarrow> CTxOut reader" where
  "unser_txout_compressed ops s =
     bindE (ReadVarInt s) (\<lambda>(nVal, s).
     bindE (unser_script ops s) (\<lambda>(script, s).
     Inr (\<lparr>nValue = sint (DecompressAmount nVal), scriptPubKey = script\<rparr>, s)))"

section \<open>Coins and undo records\<close>

text \<open>The code of a coin: its height, a 30-bit field, and the two flags.\<close>

definition coin_code :: "Coin \<Rightarrow> u32" where
  "coin_code coin = push_bit 2 (of_nat (coin_nHeight coin)) + (if fCoinBase coin then 1 else 0) + (if fCoinStake coin then 2 else 0)"

definition coin_of_code :: "u32 \<Rightarrow> CTxOut \<Rightarrow> Coin" where
  "coin_of_code code out =
     \<lparr>coin_out = out, fCoinBase = (code AND 1 \<noteq> 0), fCoinStake = (drop_bit 1 code AND 1 \<noteq> 0), coin_nHeight = unat (drop_bit 2 code)\<rparr>"

definition ser_coin :: "pubkey_ops \<Rightarrow> Coin \<Rightarrow> byte list option" where
  "ser_coin ops coin =
     (if IsSpent coin then None
      else Option.bind (ser_txout_compressed ops (coin_out coin)) (\<lambda>out. Some (WriteVarInt32 (coin_code coin) @ out)))"

definition unser_coin :: "pubkey_ops \<Rightarrow> Coin reader" where
  "unser_coin ops s =
     bindE (ReadVarInt32 s) (\<lambda>(code, s).
     bindE (unser_txout_compressed ops s) (\<lambda>(out, s). Inr (coin_of_code code out, s)))"

definition TxInUndoSerializer :: "pubkey_ops \<Rightarrow> Coin \<Rightarrow> byte list option" where
  "TxInUndoSerializer ops coin =
     Option.bind (ser_txout_compressed ops (coin_out coin)) (\<lambda>out.
     Some (WriteVarInt32 (coin_code coin) @ (if coin_nHeight coin > 0 then [0] else []) @ out))"

definition TxInUndoDeserializer :: "pubkey_ops \<Rightarrow> Coin reader" where
  "TxInUndoDeserializer ops s =
     bindE (ReadVarInt32 s) (\<lambda>(nCode, s).
     bindE (if unat (drop_bit 2 nCode) > 0 then bindE (ReadVarInt32 s) (\<lambda>(_, s). Inr s) else Inr s) (\<lambda>s.
     bindE (unser_txout_compressed ops s) (\<lambda>(out, s). Inr (coin_of_code nCode out, s))))"

fun ser_all :: "('a \<Rightarrow> byte list option) \<Rightarrow> 'a list \<Rightarrow> byte list option" where
  "ser_all ser [] = Some []"
| "ser_all ser (x # xs) = Option.bind (ser x) (\<lambda>a. Option.bind (ser_all ser xs) (\<lambda>b. Some (a @ b)))"

definition ser_txundo :: "pubkey_ops \<Rightarrow> Coin list \<Rightarrow> byte list option" where
  "ser_txundo ops vprevout =
     Option.bind (ser_all (TxInUndoSerializer ops) vprevout) (\<lambda>v. Some (WriteCompactSize (of_nat (length vprevout)) @ v))"

text \<open>The argument is \<open>MAX_INPUTS_PER_BLOCK\<close>.\<close>

definition unser_txundo :: "pubkey_ops \<Rightarrow> nat \<Rightarrow> Coin list reader" where
  "unser_txundo ops max_inputs s =
     bindE (ReadCompactSize s) (\<lambda>(n, s).
     bindE (guardE (\<not> unat n > max_inputs) TooManyUndo) (\<lambda>_. read_many (TxInUndoDeserializer ops) (unat n) s))"

definition ser_blockundo :: "pubkey_ops \<Rightarrow> Coin list list \<Rightarrow> byte list option" where
  "ser_blockundo ops vtxundo =
     Option.bind (ser_all (ser_txundo ops) vtxundo) (\<lambda>v. Some (WriteCompactSize (of_nat (length vtxundo)) @ v))"

definition unser_blockundo :: "pubkey_ops \<Rightarrow> nat \<Rightarrow> Coin list list reader" where
  "unser_blockundo ops max_inputs = unser_vector (unser_txundo ops max_inputs)"

section \<open>The undo file\<close>

text \<open>A file is its bytes, and a write behind its end fills the gap with zeros.  Opening, seeking and
  writing succeed.\<close>

definition write_at :: "byte list \<Rightarrow> nat \<Rightarrow> byte list \<Rightarrow> byte list" where
  "write_at file nPos v = take nPos file @ replicate (nPos - length file) 0 @ v @ drop (nPos + length v) file"

definition UndoWriteToDisk :: "(byte list \<Rightarrow> uint256) \<Rightarrow> pubkey_ops \<Rightarrow> byte list \<Rightarrow> uint256 \<Rightarrow> Coin list list \<Rightarrow> byte list \<Rightarrow> nat \<Rightarrow>
    (byte list \<times> nat) option" where
  "UndoWriteToDisk H ops messageStart hashBlock blockundo file nPos =
     Option.bind (ser_blockundo ops blockundo) (\<lambda>v.
     let header = messageStart @ WriteLE32 (of_nat (length v)) in
     Some (write_at file nPos (header @ v @ H (hashBlock @ v)), nPos + length header))"

text \<open>The verifier hashes the block hash and the bytes it reads.\<close>

definition UndoReadFromDisk :: "(byte list \<Rightarrow> uint256) \<Rightarrow> pubkey_ops \<Rightarrow> nat \<Rightarrow> byte list \<Rightarrow> nat \<Rightarrow> uint256 \<Rightarrow> Coin list list option" where
  "UndoReadFromDisk H ops max_inputs file nPos hashPrev =
     (let data = drop nPos file in
      case unser_blockundo ops max_inputs data of
        Inl e \<Rightarrow> None
      | Inr (blockundo, rest) \<Rightarrow>
          (case stream_read 32 rest of
             Inl e \<Rightarrow> None
           | Inr (hashChecksum, _) \<Rightarrow>
               if hashChecksum \<noteq> H (hashPrev @ take (length data - length rest) data) then None else Some blockundo))"

end
