(* ===== verification/Coin_Format_Laws.thy ===== *)
theory Coin_Format_Laws
  imports Coin_Format
begin

unbundle bit_operations_syntax

text \<open>The formats of the coins database and of the undo files lose nothing.\<close>

section \<open>32-bit variable-length integers\<close>

text \<open>The 32-bit reader follows the 64-bit one as long as the result fits.\<close>

lemma unat_plus_1:
  fixes x :: "'a::len word"
  assumes "x \<noteq> - 1"
  shows "unat (x + 1) = unat x + 1"
proof -
  have "unat x \<noteq> unat (- 1 :: 'a word)" using assms by (simp add: word_unat_eq_iff)
  then have "unat x + 1 < 2 ^ LENGTH('a)" using unat_lt2p [of x] unfolding unsigned_minus_1_eq_mask mask_eq_exp_minus_1 by linarith
  then show ?thesis by (simp add: unat_word_ariths)
qed

lemma unat_ucast_32_64: "unat (ucast (a :: u32) :: u64) = unat a"
  using unat_lt2p [of a] by (simp add: unsigned_ucast_eq take_bit_nat_eq_self)

lemma ucast_32_64 [simp]: "ucast (ucast (a :: u32) :: u64) = a"
  by (rule bit_word_eqI) (auto simp: bit_simps)

lemma read_varint_bound: "read_varint_loop a s = Inr (n, r) \<Longrightarrow> unat a * 128 \<le> unat n"
proof (induction a s rule: read_varint_loop.induct)
  case (2 a c s)
  let ?m = "push_bit 7 a OR ucast (c AND 0x7F) :: u64"
  have a: "a \<le> drop_bit 7 (- 1)"
    using "2.prems" by (auto simp: not_le [symmetric] split: if_splits)
  have h: "drop_bit 7 ?m = a" by (rule varint_high [OF a])
  have "unat (drop_bit 7 ?m) = unat ?m div 128" unfolding unat_drop_bit_eq by (simp add: drop_bit_eq_div)
  then have m: "unat a * 128 \<le> unat ?m" unfolding h by simp
  show ?case
  proof (cases "c AND 0x80 = 0")
    case True
    then show ?thesis using "2.prems" a m by (simp add: not_less [symmetric] Let_def)
  next
    case False
    then have top: "?m \<noteq> - 1" and rd: "read_varint_loop (?m + 1) s = Inr (n, r)"
      using "2.prems" a by (simp_all add: not_less [symmetric] Let_def split: if_splits)
    have "unat (?m + 1) * 128 \<le> unat n" using "2.IH" [OF _ refl False top rd] a by (simp add: not_less)
    moreover have "unat (?m + 1) = unat ?m + 1" by (rule unat_plus_1 [OF top])
    ultimately show ?thesis using m by simp
  qed
qed simp

lemma varint_widen:
  fixes a :: u32 and c :: byte
  assumes "unat a < 2 ^ 25"
  shows "push_bit 7 (ucast a) OR ucast (c AND 0x7F) = (ucast (push_bit 7 a OR ucast (c AND 0x7F) :: u32) :: u64)"
proof (rule bit_word_eqI)
  fix i :: nat
  assume i: "i < LENGTH(64)"
  have "unat (drop_bit 25 a) = 0" using assms unfolding unat_drop_bit_eq by (simp add: drop_bit_eq_div)
  then have "take_bit 25 a = a" by (simp add: take_bit_eq_self_iff_drop_bit_eq_0 unat_eq_zero)
  then have "bit a (i - 7) \<Longrightarrow> i - 7 < 25" by (metis bit_take_bit_iff)
  then show "bit (push_bit 7 (ucast a) OR ucast (c AND 0x7F) :: u64) i \<longleftrightarrow> bit (ucast (push_bit 7 a OR ucast (c AND 0x7F) :: u32) :: u64) i"
    using i unfolding varint_masks by (auto simp: bit_simps)
qed

lemma read_varint32_sim:
  "read_varint_loop (ucast a) s = Inr (n, r) \<Longrightarrow> unat n < 2 ^ 32 \<Longrightarrow> read_varint32_loop a s = Inr (ucast n, r)"
proof (induction s arbitrary: a)
  case (Cons c s)
  let ?m = "push_bit 7 a OR ucast (c AND 0x7F) :: u32"
  let ?M = "push_bit 7 (ucast a) OR ucast (c AND 0x7F) :: u64"
  note ua = unat_ucast_32_64 [of a]
  have "unat a * 128 \<le> unat n" using read_varint_bound [OF Cons.prems(1)] unfolding ua .
  then have a: "unat a < 2 ^ 25" using Cons.prems(2) by simp
  have wide: "?M = ucast ?m" by (rule varint_widen [OF a])
  have small: "\<not> a > drop_bit 7 (- 1)" "\<not> (ucast a :: u64) > drop_bit 7 (- 1)"
    using a ua by (simp_all add: word_less_nat_alt mask_eq_exp_minus_1)
  show ?case
  proof (cases "c AND 0x80 = 0")
    case True
    then show ?thesis using Cons.prems(1) small by (auto simp: wide)
  next
    case False
    then have rd: "read_varint_loop (?M + 1) s = Inr (n, r)" using Cons.prems(1) small by (simp add: Let_def split: if_splits)
    have m: "?m \<noteq> - 1"
    proof
      assume eq: "?m = - 1"
      have M: "unat ?M = 2 ^ 32 - 1" unfolding wide unat_ucast_32_64 eq by (simp add: unsigned_minus_1_eq_mask mask_eq_exp_minus_1)
      then have "unat (?M + 1) = 2 ^ 32" by (simp add: unat_word_ariths)
      then show False using read_varint_bound [OF rd] Cons.prems(2) by simp
    qed
    then have "unat (?m + 1) = unat ?m + 1" by (rule unat_plus_1)
    then have "?M + 1 = ucast (?m + 1)" 
      unfolding wide word_unat_eq_iff unat_ucast_32_64 using unat_lt2p [of ?m] by (simp add: unat_word_ariths unat_ucast_32_64)
    then have "read_varint32_loop (?m + 1) s = Inr (ucast n, r)" using Cons.IH [of "?m + 1"] rd Cons.prems(2) by simp
    then show ?thesis using False small m by (simp add: Let_def)
  qed
qed simp

interpretation varint32: decoder WriteVarInt32 ReadVarInt32 "\<lambda>_. True"
proof
  show "ReadVarInt32 (WriteVarInt32 n @ r) = Inr (n, r)" for n r
    using read_varint32_sim [of 0 "WriteVarInt (ucast n) @ r" "ucast n" r] ReadVarInt_Write [of "ucast n" r] unat_lt2p [of n]
      unat_ucast_32_64 [of n]
    by (simp add: ReadVarInt32_def WriteVarInt32_def ReadVarInt_def)
qed

section \<open>Amounts\<close>

lemma unat_of_nat_64: "x < 2 ^ 64 \<Longrightarrow> unat (of_nat x :: u64) = x"
  by (simp add: unat_of_nat)


lemma strip_zeros_spec:
  "n \<noteq> 0 \<Longrightarrow> e \<le> 9 \<Longrightarrow> \<exists>m k. strip_zeros n e = (m, k) \<and> e \<le> k \<and> k \<le> 9 \<and> m \<noteq> 0 \<and> unat n = unat m * 10 ^ (k - e) \<and> (k < 9 \<longrightarrow> unat m mod 10 \<noteq> 0)"
proof (induction n e rule: strip_zeros.induct)
  case (1 n e)
  have md: "n mod 10 = 0 \<longleftrightarrow> unat n mod 10 = 0" by (simp add: word_unat_eq_iff unat_mod_distrib)
  show ?case
  proof (cases "n mod 10 = 0 \<and> e < 9")
    case True
    have d: "unat (n div 10) = unat n div 10" by (simp add: unat_div_distrib)
    have n0: "unat n div 10 \<noteq> 0" using "1.prems"(1) True md 
      by (auto simp: unat_eq_zero [symmetric] div_eq_0_iff)
    then have "n div 10 \<noteq> 0" using d by (auto simp: unat_eq_zero [symmetric])
    then obtain m k where mk: "strip_zeros (n div 10) (e + 1) = (m, k)" "e + 1 \<le> k" "k \<le> 9" "m \<noteq> 0" "unat n div 10 = unat m * 10 ^ (k - (e + 1))"
        "k < 9 \<longrightarrow> unat m mod 10 \<noteq> 0"
      using "1.IH" [OF True] True d by auto
    have "unat n = 10 * (unat n div 10)" using True md by auto
    also have "\<dots> = unat m * 10 ^ Suc (k - (e + 1))" unfolding mk(5) by simp
    also have "Suc (k - (e + 1)) = k - e" using mk(2) by simp
    finally show ?thesis using mk True by (subst strip_zeros.simps) simp
  next
    case False
    then show ?thesis using "1.prems" md by (subst strip_zeros.simps) auto
  qed
qed

lemma of_nat_div_64: "a < 2 ^ 64 \<Longrightarrow> b < 2 ^ 64 \<Longrightarrow> (of_nat a :: u64) div of_nat b = of_nat (a div b)"
  and of_nat_mod_64: "a < 2 ^ 64 \<Longrightarrow> b < 2 ^ 64 \<Longrightarrow> (of_nat a :: u64) mod of_nat b = of_nat (a mod b)"
proof -
  assume a: "a < 2 ^ 64" "b < 2 ^ 64"
  have d: "a div b < 2 ^ 64" "a mod b < 2 ^ 64" using a by (meson div_le_dividend mod_less_eq_dividend le_less_trans)+
  show "(of_nat a :: u64) div of_nat b = of_nat (a div b)" "(of_nat a :: u64) mod of_nat b = of_nat (a mod b)"
    unfolding word_unat_eq_iff unat_div_distrib unat_mod_distrib by (simp_all only: unat_of_nat_64 a d)
qed

text \<open>The decoder on numbers.\<close>

definition decompressed :: "nat \<Rightarrow> nat" where
  "decompressed y = (if y mod 10 < 9 then y div 10 div 9 * 10 + (y div 10 mod 9 + 1) else y div 10 + 1) * 10 ^ (y mod 10)"

lemma DecompressAmount_nat:
  assumes "y + 1 < 2 ^ 64"
  shows "DecompressAmount (of_nat (y + 1)) = of_nat (decompressed y)"
proof -
  have lt: "y < 2 ^ 64" "y div 10 < 2 ^ 64" using assms div_le_dividend [of y 10] by linarith+
  have nz: "(of_nat (y + 1) :: u64) \<noteq> 0" using unat_of_nat_64 [OF assms] by (auto simp: word_unat_eq_iff)
  have x: "of_nat (y + 1) - 1 = (of_nat y :: u64)" by simp
  have e: "unat ((of_nat y :: u64) mod 10) = y mod 10"
    using of_nat_mod_64 [OF lt(1), of 10] unat_of_nat_64 [of "y mod 10"] by (simp add: order.strict_trans1 [OF mod_less_eq_dividend])
  have d: "(of_nat y :: u64) div 10 = of_nat (y div 10)" using of_nat_div_64 [OF lt(1), of 10] by simp
  have n: "(of_nat (y div 10) :: u64) div 9 = of_nat (y div 10 div 9)" "(of_nat (y div 10) :: u64) mod 9 = of_nat (y div 10 mod 9)"
    using of_nat_div_64 [OF lt(2), of 9] of_nat_mod_64 [OF lt(2), of 9] by simp_all
  show ?thesis using nz unfolding DecompressAmount_def Let_def x e d n decompressed_def
    by (simp only: if_False of_nat_mult of_nat_power of_nat_add of_nat_numeral of_nat_1 split: if_split) simp
qed

text \<open>Amounts below \<open>2 ^ 60\<close>, thus all amounts of money, survive.\<close>

lemma DecompressAmount_Compress:
  assumes "unat n < 2 ^ 60"
  shows "\<exists>x. CompressAmount n = Some x \<and> DecompressAmount x = n"
proof (cases "n = 0")
  case nz: False
  obtain m e where s: "strip_zeros n 0 = (m, e)" "e \<le> 9" "m \<noteq> 0" "unat n = unat m * 10 ^ e" "e < 9 \<longrightarrow> unat m mod 10 \<noteq> 0"
    using strip_zeros_spec [OF nz, of 0] by auto
  have m: "unat m \<le> unat n" "0 < unat m" using s(3) by (simp_all add: s(4) unat_gt_0)
  have n: "n = of_nat (unat m * 10 ^ e)" unfolding s(4) [symmetric] by simp
  have m64: "unat m < 2 ^ 64" "m = of_nat (unat m)" using unat_lt2p [of m] by simp_all
  show ?thesis
  proof (cases "e < 9")
    case True
    define q d where "q = unat m div 10" and "d = unat m mod 10"
    have d: "1 \<le> d" "d \<le> 9" "unat m = q * 10 + d" using s(5) True by (simp_all add: d_def q_def)
    let ?y = "(q * 9 + (d - 1)) * 10 + e"
    have w: "m mod 10 = of_nat d" "m div 10 = of_nat q"
      using of_nat_mod_64 [OF m64(1), of 10] of_nat_div_64 [OF m64(1), of 10] m64(2) by (simp_all add: d_def q_def)
    have "1 + (m div 10 * 9 + m mod 10 - 1) * 10 + of_nat e = (of_nat (?y + 1) :: u64)" unfolding w using d(1) by (simp add: of_nat_diff)
    moreover have "1 \<le> m mod 10" "m mod 10 \<le> 9" unfolding w word_le_nat_alt using d unat_of_nat_64 [of d] by simp_all
    ultimately have c: "CompressAmount n = Some (of_nat (?y + 1))" using nz s(1) True unfolding CompressAmount_def by (simp only: Let_def prod.case if_True if_False) simp
    have "q * 10 + d < 2 ^ 60" using m(1) d(3) assms by linarith
    then have "?y + 1 < 2 ^ 64" using d(1) True by simp
    moreover have "decompressed ?y = unat m * 10 ^ e"
    proof -
      have "?y mod 10 = e" "?y div 10 = q * 9 + (d - 1)"
        using True by (simp_all only: mod_mult_self3 div_mult_self3 zero_neq_numeral not_False_eq_True mod_less div_less)
      moreover have "(q * 9 + (d - 1)) div 9 = q" "(q * 9 + (d - 1)) mod 9 = d - 1" using d(2) by simp_all
      ultimately show ?thesis using True d by (simp add: decompressed_def)
    qed
    ultimately show ?thesis using c DecompressAmount_nat [of ?y] n by simp
  next
    case False
    then have e: "e = 9" using s(2) by simp
    let ?y = "(unat m - 1) * 10 + 9"
    have "m - 1 = of_nat (unat m - 1)" using m(2) m64(2) by (simp add: of_nat_diff)
    then have "1 + (m - 1) * 10 + 9 = (of_nat (?y + 1) :: u64)" by simp
    then have c: "CompressAmount n = Some (of_nat (?y + 1))" using nz s(1) False unfolding CompressAmount_def by (simp only: Let_def prod.case if_False)
    have "?y + 1 < 2 ^ 64" using m assms by simp
    moreover have "decompressed ?y = unat m * 10 ^ e" using e m(2) by (simp add: decompressed_def)
    ultimately show ?thesis using c DecompressAmount_nat [of ?y] n by simp
  qed
qed (simp add: CompressAmount_def DecompressAmount_def)

section \<open>Scripts\<close>

text \<open>What decompression of public keys promises: the point of a fully valid key is found from its
  compressed form.\<close>

definition keys_ok :: "pubkey_ops \<Rightarrow> bool" where
  "keys_ok ops \<longleftrightarrow> (\<forall>key. length key = 65 \<longrightarrow> key ! 0 = 0x04 \<longrightarrow> IsFullyValid ops key \<longrightarrow>
     Decompress ops ((0x02 OR (key ! 64 AND 0x01)) # take 32 (drop 1 key)) = Some key)"

lemma WriteVarInt32_small: "n < 0x80 \<Longrightarrow> WriteVarInt32 n = [ucast n]"
proof -
  assume n: "n < 0x80"
  then have u: "unat (ucast n :: u64) < 128" by (simp add: unat_ucast_32_64 word_less_nat_alt)
  then have le: "(ucast n :: u64) \<le> 0x7F" by (simp add: word_le_nat_alt)
  have "unat ((ucast n :: u64) AND 0x7F) = unat n"
    using u by (simp add: varint_masks take_bit_eq_mask [symmetric] unsigned_take_bit_eq unat_ucast_32_64 take_bit_nat_eq_self)
  then have "(ucast ((ucast n :: u64) AND 0x7F) :: byte) = ucast n" by (simp add: word_unat_eq_iff unsigned_ucast_eq)
  then show ?thesis using le by (simp add: WriteVarInt32_def WriteVarInt_def varint_tmp.simps [of False])
qed

lemma read_special: "n < 0x80 \<Longrightarrow> ReadVarInt32 (ucast n # s) = Inr (n, s)"
  using varint32.unser_ser [of n s] by (simp add: WriteVarInt32_small)

lemma split_script:
  assumes "length s = k + n + l"
  shows "take k s @ take n (drop k s) @ drop (k + n) s = s"
  by (metis add.commute append_take_drop_id drop_drop)

lemma take_drop_nth:
  "0 < length s \<Longrightarrow> take 1 s = [s ! 0]" "1 < length s \<Longrightarrow> take 2 s = [s ! 0, s ! 1]" "2 < length s \<Longrightarrow> take 3 s = [s ! 0, s ! 1, s ! 2]"
  "length s = Suc k \<Longrightarrow> drop k s = [s ! k]" "length s = Suc (Suc k) \<Longrightarrow> drop k s = [s ! k, s ! Suc k]"
proof -
  show t: "take 1 s = [s ! 0]" if "0 < length s" for s :: "'a list" using that by (cases s) auto
  show t2: "take 2 s = [s ! 0, s ! 1]" if "1 < length s" using that by (cases s; cases "tl s") (auto simp: numeral_2_eq_2)
  show "take 3 s = [s ! 0, s ! 1, s ! 2]" if "2 < length s" using that t2 take_Suc_conv_app_nth [of 2 s] by (simp add: numeral_3_eq_3)
qed (simp_all add: Cons_nth_drop_Suc [symmetric])

lemma IsToKeyID_Some:
  assumes "IsToKeyID script = Some h"
  shows "length h = 20 \<and> script = [op_byte OP_DUP, op_byte OP_HASH160, 20] @ h @ [op_byte OP_EQUALVERIFY, op_byte OP_CHECKSIG]"
proof -
  have "length script = 25" using assms by (simp add: IsToKeyID_def split: if_splits)
  then show ?thesis
    using assms split_script [of script 3 20 2] take_drop_nth(3) [of script] take_drop_nth(5) [of script 23] by (auto simp: IsToKeyID_def split: if_splits)
qed

lemma IsToScriptID_Some:
  assumes "IsToScriptID script = Some h"
  shows "length h = 20 \<and> script = [op_byte OP_HASH160, 20] @ h @ [op_byte OP_EQUAL]"
proof -
  have "length script = 23" using assms by (simp add: IsToScriptID_def split: if_splits)
  then show ?thesis
    using assms split_script [of script 2 20 1] take_drop_nth(2) [of script] take_drop_nth(4) [of script 22] by (auto simp: IsToScriptID_def split: if_splits)
qed

lemma IsToPubKey_Some:
  assumes "IsToPubKey ops script = Some k"
  shows "length k = 33 \<and> (k ! 0 = 0x02 \<or> k ! 0 = 0x03) \<and> script = [33] @ k @ [op_byte OP_CHECKSIG] \<or>
    length k = 65 \<and> k ! 0 = 0x04 \<and> IsFullyValid ops k \<and> script = [65] @ k @ [op_byte OP_CHECKSIG]"
proof -
  consider "length script = 35" "script ! 0 = 33" "script ! 34 = op_byte OP_CHECKSIG" "script ! 1 = 0x02 \<or> script ! 1 = 0x03" "k = take 33 (drop 1 script)"
    | "length script = 67" "script ! 0 = 65" "script ! 66 = op_byte OP_CHECKSIG" "script ! 1 = 0x04" "k = take 65 (drop 1 script)" "IsFullyValid ops k"
    using assms by (auto simp: IsToPubKey_def Let_def split: if_splits)
  then show ?thesis
  proof cases
    case 1
    then show ?thesis using split_script [of script 1 33 1] take_drop_nth(1) [of script] take_drop_nth(4) [of script 34] by auto
  next
    case 2
    then show ?thesis using split_script [of script 1 65 1] take_drop_nth(1) [of script] take_drop_nth(4) [of script 66] by auto
  qed
qed

lemma length_Cons_nth: "length k = Suc n \<Longrightarrow> k = k ! 0 # take n (drop 1 k)"
  by (cases k) simp_all

lemma unser_ser_pubkey:
  assumes ok: "keys_ok ops" and k: "IsToPubKey ops script = Some k" "IsToKeyID script = None" "IsToScriptID script = None"
  shows "unser_script ops (ser_script ops script @ r) = Inr (script, r)"
proof -
  consider (short) "length k = 33" "k ! 0 = 0x02 \<or> k ! 0 = 0x03" "script = [33] @ k @ [op_byte OP_CHECKSIG]"
    | (long) "length k = 65" "k ! 0 = 0x04" "IsFullyValid ops k" "script = [65] @ k @ [op_byte OP_CHECKSIG]"
    using IsToPubKey_Some [OF k(1)] by blast
  then show ?thesis
  proof cases
    case a: short
    let ?t = "take 32 (drop 1 k)"
    have t: "k = k ! 0 # ?t" "length ?t = 32" using length_Cons_nth [of k 32] a(1) by simp_all
    have c: "ser_script ops script = k ! 0 # ?t" using k a(2) by (auto simp: ser_script_def CompressScript_def)
    have "script = [33, k ! 0] @ ?t @ [op_byte OP_CHECKSIG]" unfolding a(3) by (subst t(1)) simp
    then show ?thesis using a(2) t(2) read_special [of 2 "?t @ r"] read_special [of 3 "?t @ r"] unfolding c
      by (auto simp: unser_script_def GetSpecialScriptSize_def nSpecialScripts_def stream_read_append DecompressScript_def)
  next
    case a: long
    let ?t = "take 32 (drop 1 k)" and ?b = "k ! 64 AND 1"
    have t: "length ?t = 32" using a(1) by simp
    have d: "Decompress ops ((0x02 OR ?b) # ?t) = Some k" using ok a(1-3) by (simp add: keys_ok_def)
    have c: "ser_script ops script = (0x04 OR ?b) # ?t" using k a(2) by (auto simp: ser_script_def CompressScript_def)
    have "?b = 0 \<or> ?b = 1" by (simp add: and_one_eq mod_2_eq_odd)
    then show ?thesis
    proof
      assume b: "?b = 0"
      then show ?thesis using d a(1,4) t read_special [of 4 "?t @ r"] unfolding c b
        by (simp add: unser_script_def GetSpecialScriptSize_def nSpecialScripts_def stream_read_append DecompressScript_def)
    next
      assume b: "?b = 1"
      then show ?thesis using d a(1,4) t read_special [of 5 "?t @ r"] unfolding c b
        by (simp add: unser_script_def GetSpecialScriptSize_def nSpecialScripts_def stream_read_append DecompressScript_def)
    qed
  qed
qed

lemma unser_ser_script:
  assumes "keys_ok ops" "length script \<le> MAX_SCRIPT_SIZE"
  shows "unser_script ops (ser_script ops script @ r) = Inr (script, r)"
proof (cases "CompressScript ops script")
  case None
  have l: "length script + nSpecialScripts < 2 ^ 32" using assms(2) by (simp add: MAX_SCRIPT_SIZE_def nSpecialScripts_def)
  then have "unat (of_nat (length script + nSpecialScripts) :: u32) = length script + nSpecialScripts" by (simp add: unat_of_nat del: of_nat_add)
  then show ?thesis using None assms(2)
    by (simp add: unser_script_def ser_script_def varint32.unser_ser stream_read_append Let_def del: of_nat_add)
next
  case (Some compr)
  note size = read_special [of 0] read_special [of 1] read_special [of 2] read_special [of 3] read_special [of 4] read_special [of 5]
  show ?thesis
  proof (cases "IsToKeyID script")
    case (Some h)
    then show ?thesis using IsToKeyID_Some [OF Some] size(1)
      by (simp add: unser_script_def ser_script_def CompressScript_def GetSpecialScriptSize_def nSpecialScripts_def stream_read_append DecompressScript_def)
  next
    case nk: None
    show ?thesis
    proof (cases "IsToScriptID script")
      case (Some h)
      then show ?thesis using IsToScriptID_Some [OF Some] size(2) nk
        by (simp add: unser_script_def ser_script_def CompressScript_def GetSpecialScriptSize_def nSpecialScripts_def stream_read_append DecompressScript_def)
    next
      case ns: None
      then obtain k where k: "IsToPubKey ops script = Some k"
        using \<open>CompressScript ops script = Some compr\<close> nk by (auto simp: CompressScript_def split: option.splits)
      show ?thesis by (rule unser_ser_pubkey [OF assms(1) k nk ns])
    qed
  qed
qed

section \<open>Coins and undo records\<close>

text \<open>The coins a node stores: an amount of money, a script that can be spent, a height of 30 bits.\<close>

definition ok_coin :: "Coin \<Rightarrow> bool" where
  "ok_coin coin \<longleftrightarrow> MoneyRange (nValue (coin_out coin)) \<and> length (scriptPubKey (coin_out coin)) \<le> MAX_SCRIPT_SIZE \<and> coin_nHeight coin < 2 ^ 30"

lemma unser_ser_txout_compressed:
  assumes "keys_ok ops" "MoneyRange (nValue out)" "length (scriptPubKey out) \<le> MAX_SCRIPT_SIZE"
  shows "\<exists>v. ser_txout_compressed ops out = Some v \<and> (\<forall>r. unser_txout_compressed ops (v @ r) = Inr (out, r))"
proof -
  have m: "0 \<le> nValue out" "nValue out < 2 ^ 60" using assms(2) by (simp_all add: MoneyRange_def MAX_MONEY_def COIN_def CENT_def)
  then have u: "unat (word_of_int (nValue out) :: u64) = nat (nValue out)" by (simp add: unsigned_of_int take_bit_int_eq_self nat_less_iff)
  then have "unat (word_of_int (nValue out) :: u64) < 2 ^ 60" using m by (simp add: nat_less_iff)
  then obtain x where x: "CompressAmount (word_of_int (nValue out)) = Some x" "DecompressAmount x = word_of_int (nValue out)"
    using DecompressAmount_Compress by blast
  have "sint (word_of_int (nValue out) :: u64) = nValue out" using u m by (subst sint_eq_unat) (simp_all add: nat_less_iff)
  then show ?thesis using x unser_ser_script [OF assms(1,3)]
    by (simp add: ser_txout_compressed_def unser_txout_compressed_def varint.unser_ser)
qed

lemma odd_unat_32: "odd (unat (w :: u32)) \<longleftrightarrow> odd w"
  unfolding bit_0 [symmetric] by (simp add: bit_unsigned_iff)

lemma coin_of_code_code:
  assumes "coin_nHeight coin < 2 ^ 30"
  shows "coin_of_code (coin_code coin) (coin_out coin) = coin"
proof -
  define f :: nat where "f = (if fCoinBase coin then 1 else 0) + (if fCoinStake coin then 2 else 0)"
  have f: "f < 4" "odd f \<longleftrightarrow> fCoinBase coin" "odd (f div 2) \<longleftrightarrow> fCoinStake coin" by (auto simp: f_def)
  have "coin_code coin = of_nat (coin_nHeight coin * 4 + f)" by (simp add: coin_code_def f_def push_bit_eq_mult mult.commute)
  then have c: "unat (coin_code coin) = coin_nHeight coin * 4 + f" using assms f(1) by (simp add: unat_of_nat del: of_nat_add of_nat_mult)
  have "unat (drop_bit 2 (coin_code coin)) = coin_nHeight coin" "unat (drop_bit 1 (coin_code coin)) = coin_nHeight coin * 2 + f div 2"
    using f(1) unfolding unat_drop_bit_eq c by (simp_all add: drop_bit_eq_div)
  then show ?thesis using f(2,3) c by (simp add: coin_of_code_def and_one_eq mod_2_eq_odd flip: odd_unat_32)
qed

text \<open>The contract of a writer that may fail an assertion and its reader: on the values it is meant for
  the writer succeeds and the reader gives the value back.\<close>

locale checked_decoder =
  fixes ser :: "'a \<Rightarrow> byte list option" and unser :: "'a reader" and ok :: "'a \<Rightarrow> bool"
  assumes unser_ser: "ok a \<Longrightarrow> \<exists>v. ser a = Some v \<and> (\<forall>r. unser (v @ r) = Inr (a, r))"
begin

lemma read_many_ser_all:
  "list_all ok xs \<Longrightarrow> \<exists>v. ser_all ser xs = Some v \<and> (\<forall>r. read_many unser (length xs) (v @ r) = Inr (xs, r))"
proof (induction xs)
  case (Cons x xs)
  obtain v w where "ser x = Some v" "\<forall>r. unser (v @ r) = Inr (x, r)" "ser_all ser xs = Some w" "\<forall>r. read_many unser (length xs) (w @ r) = Inr (xs, r)"
    using Cons unser_ser [of x] by auto
  then show ?case by simp
qed simp

end

interpretation coin: checked_decoder "ser_coin ops" "unser_coin ops" "\<lambda>c. keys_ok ops \<and> ok_coin c" for ops
proof
  fix c
  assume c: "keys_ok ops \<and> ok_coin c"
  then obtain v where "ser_txout_compressed ops (coin_out c) = Some v" "\<forall>r. unser_txout_compressed ops (v @ r) = Inr (coin_out c, r)"
    using unser_ser_txout_compressed [of ops "coin_out c"] by (auto simp: ok_coin_def)
  moreover have "\<not> IsSpent c" using c by (auto simp: ok_coin_def IsSpent_def CTxOut_IsNull_def MoneyRange_def)
  ultimately show "\<exists>v. ser_coin ops c = Some v \<and> (\<forall>r. unser_coin ops (v @ r) = Inr (c, r))"
    using coin_of_code_code [of c] c by (simp add: ser_coin_def unser_coin_def varint32.unser_ser ok_coin_def)
qed

interpretation undo_coin: checked_decoder "TxInUndoSerializer ops" "TxInUndoDeserializer ops" "\<lambda>c. keys_ok ops \<and> ok_coin c" for ops
proof
  fix c
  assume c: "keys_ok ops \<and> ok_coin c"
  then obtain v where v: "ser_txout_compressed ops (coin_out c) = Some v" "\<forall>r. unser_txout_compressed ops (v @ r) = Inr (coin_out c, r)"
    using unser_ser_txout_compressed [of ops "coin_out c"] by (auto simp: ok_coin_def)
  have code: "coin_of_code (coin_code c) (coin_out c) = c" using coin_of_code_code c by (simp add: ok_coin_def)
  then have h: "unat (drop_bit 2 (coin_code c)) = coin_nHeight c" by (metis coin_of_code_def Coin.select_convs(4))
  have "ReadVarInt32 (0 # s) = Inr (0, s)" for s using read_special [of 0 s] by simp
  then show "\<exists>v. TxInUndoSerializer ops c = Some v \<and> (\<forall>r. TxInUndoDeserializer ops (v @ r) = Inr (c, r))"
    using v code h by (simp add: TxInUndoSerializer_def TxInUndoDeserializer_def varint32.unser_ser)
qed

definition ok_undo :: "pubkey_ops \<Rightarrow> nat \<Rightarrow> Coin list \<Rightarrow> bool" where
  "ok_undo ops max_inputs u \<longleftrightarrow> keys_ok ops \<and> list_all ok_coin u \<and> length u \<le> max_inputs \<and> length u \<le> MAX_SIZE"

interpretation txundo: checked_decoder "ser_txundo ops" "unser_txundo ops max_inputs" "ok_undo ops max_inputs" for ops max_inputs
proof
  fix u
  assume u: "ok_undo ops max_inputs u"
  then have "list_all (\<lambda>c. keys_ok ops \<and> ok_coin c) u" by (simp add: ok_undo_def list_all_iff)
  from undo_coin.read_many_ser_all [OF this]
  obtain v where "ser_all (TxInUndoSerializer ops) u = Some v" "\<forall>r. read_many (TxInUndoDeserializer ops) (length u) (v @ r) = Inr (u, r)" by blast
  moreover have n: "unat (of_nat (length u) :: u64) = length u" using u by (simp add: ok_undo_def unat_of_nat_MAX_SIZE)
  ultimately show "\<exists>v. ser_txundo ops u = Some v \<and> (\<forall>r. unser_txundo ops max_inputs (v @ r) = Inr (u, r))"
    using u csize.unser_ser [of "of_nat (length u)"] by (simp add: ser_txundo_def unser_txundo_def ok_undo_def)
qed

lemma unser_ser_blockundo:
  assumes "list_all (ok_undo ops max_inputs) us" "length us \<le> MAX_SIZE"
  shows "\<exists>v. ser_blockundo ops us = Some v \<and> (\<forall>r. unser_blockundo ops max_inputs (v @ r) = Inr (us, r))"
proof -
  obtain v where "ser_all (ser_txundo ops) us = Some v" "\<forall>r. read_many (unser_txundo ops max_inputs) (length us) (v @ r) = Inr (us, r)"
    using txundo.read_many_ser_all [OF assms(1)] by blast
  moreover have "unat (of_nat (length us) :: u64) = length us" using assms(2) by (simp add: unat_of_nat_MAX_SIZE)
  ultimately show ?thesis using assms(2) csize.unser_ser [of "of_nat (length us)"]
    by (simp add: ser_blockundo_def unser_blockundo_def unser_vector_def)
qed

section \<open>The undo file\<close>

lemma drop_write_at: "drop nPos (write_at file nPos v) = v @ drop (nPos + length v) file"
  by (simp add: write_at_def)

lemma UndoReadFromDisk_Write:
  assumes "list_all (ok_undo ops max_inputs) us" "length us \<le> MAX_SIZE" "\<And>x. length (H x) = 32"
  shows "\<exists>file' pos. UndoWriteToDisk H ops messageStart hashBlock us file nPos = Some (file', pos) \<and>
    UndoReadFromDisk H ops max_inputs file' pos hashBlock = Some us"
proof -
  obtain v where v: "ser_blockundo ops us = Some v" "\<And>r. unser_blockundo ops max_inputs (v @ r) = Inr (us, r)"
    using unser_ser_blockundo [OF assms(1,2)] by blast
  let ?header = "messageStart @ WriteLE32 (of_nat (length v))" and ?h = "H (hashBlock @ v)"
  let ?file = "write_at file nPos (?header @ v @ ?h)"
  have "drop (nPos + length ?header) ?file = drop (length ?header) (drop nPos ?file)" by (simp add: add.commute)
  also have "\<dots> = v @ ?h @ drop (nPos + length (?header @ v @ ?h)) file" unfolding drop_write_at by simp
  finally obtain r where r: "drop (nPos + length ?header) ?file = v @ ?h @ r" by blast
  have "UndoReadFromDisk H ops max_inputs ?file (nPos + length ?header) hashBlock = Some us"
    unfolding UndoReadFromDisk_def Let_def r v(2) by (simp add: stream_read_append assms(3))
  then show ?thesis using v(1) by (simp add: UndoWriteToDisk_def Let_def)
qed

section \<open>Disconnecting with the undo file\<close>

lemma outputs_from_ok:
  "(p, c) \<in> set (outputs_from txid height cb cs n outs) \<Longrightarrow> list_all (\<lambda>out. MoneyRange (nValue out)) outs \<Longrightarrow> ok_coin c"
  by (induction outs arbitrary: n) (auto simp: ok_coin_def Coin_of_def IsUnspendable_def nat_less_iff split: if_splits)

lemma apply_tx_ok:
  assumes "\<forall>c\<in>ran m. ok_coin c" "list_all (\<lambda>out. MoneyRange (nValue out)) (vout tx)"
  shows "\<forall>c\<in>ran (apply_tx H height tx m). ok_coin c"
proof
  fix c
  assume "c \<in> ran (apply_tx H height tx m)"
  then obtain p where "apply_tx H height tx m p = Some c" by (auto simp: ran_def)
  then consider "map_of (tx_outputs H height tx) p = Some c" | "m p = Some c"
    by (auto simp: apply_tx_def map_add_Some_iff restrict_map_def split: if_splits)
  then show "ok_coin c"
  proof cases
    case 1
    then show ?thesis using outputs_from_ok assms(2) map_of_SomeD by (fastforce simp: tx_outputs_def)
  qed (use assms(1) in \<open>auto simp: ran_def\<close>)
qed

lemma state_at_ok:
  assumes "\<forall>c\<in>ran m. ok_coin c" "list_all (\<lambda>tx. list_all (\<lambda>out. MoneyRange (nValue out)) (vout tx)) vtx"
  shows "\<forall>c\<in>ran (state_at H height vtx m k). ok_coin c"
proof -
  have "\<forall>c\<in>ran (fold (apply_tx H height) txs m). ok_coin c"
    if "list_all (\<lambda>tx. list_all (\<lambda>out. MoneyRange (nValue out)) (vout tx)) txs" for txs
    using that assms(1)
  proof (induction txs arbitrary: m)
    case (Cons tx txs)
    have "\<forall>c\<in>ran (apply_tx H height tx m). ok_coin c" by (rule apply_tx_ok [OF Cons.prems(2)]) (use Cons.prems(1) in simp)
    with Cons.IH [of "apply_tx H height tx m"] Cons.prems(1) show ?case by simp
  qed simp
  moreover have "list_all (\<lambda>tx. list_all (\<lambda>out. MoneyRange (nValue out)) (vout tx)) (take k vtx)"
    using assms(2) by (auto simp: list_all_iff dest: in_set_takeD)
  ultimately show ?thesis by (simp add: state_at_def)
qed

lemma undo_records_ok:
  assumes "block_fits H height 0 vtx m" "\<forall>c\<in>ran m. ok_coin c" "list_all (\<lambda>tx. list_all (\<lambda>out. MoneyRange (nValue out)) (vout tx)) vtx"
    "list_all (\<lambda>tx. length (vin tx) \<le> max_inputs) vtx" "max_inputs \<le> MAX_SIZE" "keys_ok ops" "k < length vtx"
  shows "ok_undo ops max_inputs (tx_undo (state_at H height vtx m k) (vtx ! k))"
proof -
  let ?s = "state_at H height vtx m k"
  have "set (tx_prevouts (vtx ! k)) \<subseteq> dom ?s" using assms(1,7) by (simp add: block_fits_def tx_fits_def)
  then have "list_all ok_coin (tx_undo ?s (vtx ! k))"
    using state_at_ok [OF assms(2,3), of H height k] by (fastforce simp: tx_undo_def list_all_iff ran_def)
  moreover have "length (tx_undo ?s (vtx ! k)) \<le> max_inputs" using assms(4,7) by (auto simp: tx_undo_def tx_prevouts_def list_all_length)
  ultimately show ?thesis using assms(5,6) by (simp add: ok_undo_def)
qed

text \<open>C3: a block can be taken back from its undo file.  For a block whose transactions passed the checks of
  inputs and outputs, the undo records of its connection are written to the undo file, whatever the
  file held, and read back from the recorded position with a matching checksum; disconnecting the
  block with what was read is clean, fails no assertion and gives back the unspent coins and the
  best block from before, whatever the caches held.\<close>

theorem undo_file_disconnects:
  assumes "view_ok (as_view cv)" "restorable (utxo (as_view cv))" "0 < height" "height < 2 ^ 30" "vtx \<noteq> []" "length vtx \<le> MAX_SIZE"
    "block_fits H height 0 vtx (utxo (as_view cv))"
    "\<not> uint256_IsNull blockHash" "\<not> uint256_IsNull prevHash" "best (as_view cv) = prevHash"
    "\<forall>c\<in>ran (utxo (as_view cv)). ok_coin c" "list_all (\<lambda>tx. list_all (\<lambda>out. MoneyRange (nValue out)) (vout tx)) vtx"
    "list_all (\<lambda>tx. length (vin tx) \<le> max_inputs) vtx" "max_inputs \<le> MAX_SIZE" "keys_ok ops" "\<And>x. length (H x) = 32"
  shows "\<exists>vtxundo cv1 file' pos cv2. connect_updates H height 0 vtx cv = Inr (vtxundo, cv1) \<and>
    UndoWriteToDisk H ops messageStart prevHash vtxundo file nPos = Some (file', pos) \<and>
    DisconnectBlock H max_outputs blockHash prevHash height vtx (UndoReadFromDisk H ops max_inputs file' pos prevHash)
      (SetBestBlock blockHash cv1) = Inr (DISCONNECT_OK, cv2) \<and>
    view_ok (as_view cv2) \<and> utxo (as_view cv2) = utxo (as_view cv) \<and> best (as_view cv2) = best (as_view cv)"
proof -
  let ?u = "drop 1 (map (\<lambda>k. tx_undo (state_at H height vtx (utxo (as_view cv)) k) (vtx ! k)) [0..<length vtx])"
  have "list_all (ok_undo ops max_inputs) (map (\<lambda>k. tx_undo (state_at H height vtx (utxo (as_view cv)) k) (vtx ! k)) [0..<length vtx])"
    using undo_records_ok [OF assms(7,11-15)] by (simp add: list_all_iff)
  then have "list_all (ok_undo ops max_inputs) ?u" unfolding list_all_iff using set_drop_subset by (metis (no_types, lifting) subset_iff)
  moreover have "length ?u \<le> MAX_SIZE" using assms(6) by simp
  ultimately obtain file' pos where f: "UndoWriteToDisk H ops messageStart prevHash ?u file nPos = Some (file', pos)"
      "UndoReadFromDisk H ops max_inputs file' pos prevHash = Some ?u"
    using UndoReadFromDisk_Write [where H = H and ops = ops and us = ?u, OF _ _ assms(16)] by blast
  obtain cv1 cv2 where d: "connect_updates H height 0 vtx cv = Inr (?u, cv1)"
      "DisconnectBlock H max_outputs blockHash prevHash height vtx (Some ?u) (SetBestBlock blockHash cv1) = Inr (DISCONNECT_OK, cv2)"
      "view_ok (as_view cv2)" "utxo (as_view cv2) = utxo (as_view cv)" "best (as_view cv2) = best (as_view cv)"
    using DisconnectBlock_undoes [OF assms(1-5,7-10), of max_outputs] by (elim exE conjE) (rule that)
  show ?thesis by (intro exI conjI) (rule d(1), rule f(1), unfold f(2), rule d(2), rule d(3), rule d(4), rule d(5))
qed

text \<open>Keys that are never fully valid need no decompression.\<close>

definition no_keys :: pubkey_ops where
  "no_keys = \<lparr>IsFullyValid = \<lambda>_. False, Decompress = \<lambda>_. None\<rparr>"

theorem undo_file_disconnects_witness:
  "\<exists>vtxundo cv1 file' pos cv2.
    connect_updates sample_hash 7 0 [sample_coinbase, sample_spend]
      (SetBestBlock (replicate 32 1) (CCoinsViewCache_new (CCoinsViewDB sample_db))) = Inr (vtxundo, cv1) \<and>
    UndoWriteToDisk sample_hash no_keys [1, 2, 3, 4] (replicate 32 1) vtxundo [9, 9] 1 = Some (file', pos) \<and>
    DisconnectBlock sample_hash 10 (replicate 32 2) (replicate 32 1) 7 [sample_coinbase, sample_spend]
      (UndoReadFromDisk sample_hash no_keys 10 file' pos (replicate 32 1)) (SetBestBlock (replicate 32 2) cv1) = Inr (DISCONNECT_OK, cv2) \<and>
    utxo (as_view cv2) = Map.empty"
proof -
  define h1 h2 :: uint256 where "h1 = replicate 32 1" and "h2 = replicate 32 2"
  let ?cv = "SetBestBlock h1 (CCoinsViewCache_new (CCoinsViewDB sample_db))" and ?vtx = "[sample_coinbase, sample_spend]"
  have n: "\<not> uint256_IsNull h1" "\<not> uint256_IsNull h2" unfolding h1_def h2_def by code_simp+
  have cv: "view_ok (as_view ?cv)" "utxo (as_view ?cv) = Map.empty" "best (as_view ?cv) = h1"
    using n by (auto simp: SetBestBlock_def CCoinsViewCache_new_def sample_db_def view_ok.simps utxo.simps best.simps map_ok_def)
  have fits: "restorable (utxo (as_view ?cv))" "block_fits sample_hash 7 0 ?vtx (utxo (as_view ?cv))" "\<forall>c\<in>ran (utxo (as_view ?cv)). ok_coin c"
    unfolding cv(2) by (simp_all add: restorable_def sample_block_fits)
  have small: "(0 :: int) < 7" "(7 :: int) < 2 ^ 30" "?vtx \<noteq> []" "length ?vtx \<le> MAX_SIZE" "10 \<le> MAX_SIZE" by (simp_all add: MAX_SIZE_def)
  have out: "list_all (\<lambda>tx. list_all (\<lambda>out. MoneyRange (nValue out)) (vout tx)) ?vtx" "list_all (\<lambda>tx. length (vin tx) \<le> 10) ?vtx"
    by (simp_all add: sample_coinbase_def sample_spend_def MoneyRange_def MAX_MONEY_def COIN_def CENT_def)
  have ops: "keys_ok no_keys" and len: "length (sample_hash x) = 32" for x by (simp_all add: keys_ok_def no_keys_def sample_hash_def)
  obtain vtxundo cv1 file' pos cv2 where r: "connect_updates sample_hash 7 0 ?vtx ?cv = Inr (vtxundo, cv1)"
      "UndoWriteToDisk sample_hash no_keys [1, 2, 3, 4] h1 vtxundo [9, 9] 1 = Some (file', pos)"
      "DisconnectBlock sample_hash 10 h2 h1 7 ?vtx (UndoReadFromDisk sample_hash no_keys 10 file' pos h1) (SetBestBlock h2 cv1) = Inr (DISCONNECT_OK, cv2)"
      "utxo (as_view cv2) = utxo (as_view ?cv)"
    using undo_file_disconnects [where H = sample_hash, OF cv(1) fits(1) small(1-4) fits(2) n(2,1) cv(3) fits(3) out small(5) ops len, of "[1, 2, 3, 4]" "[9, 9]" 1 10]
    by (elim exE conjE) (rule that)
  show ?thesis unfolding h1_def [symmetric] h2_def [symmetric]
    by (intro exI conjI) (rule r(1), rule r(2), rule r(3), rule r(4) [unfolded cv(2)])
qed

end
