(* ===== verification/Data_Stream.thy ===== *)
theory Data_Stream
  imports Serialize
begin

text \<open>
  \<open>CDataStream\<close> of \<open>streams.h\<close>: a byte vector with a read position of 32 bits, and the proof that its
  operations are those of a plain list of the unread bytes, the streams of \<open>Serialize\<close>, as long as
  no position reaches \<open>2 ^ 32\<close>.
\<close>

section \<open>The buffer and its operations\<close>

record CDataStream =
  vch :: "byte list"
  nReadPos :: u32

text \<open>Exceptions and copies from outside the vector are outcomes.\<close>

datatype 'a outcome = EndOfStream | NegativeSize | OutOfBounds | Done 'a

definition stream_size :: "CDataStream \<Rightarrow> u64" where
  "stream_size s = of_nat (length (vch s)) - ucast (nReadPos s)"

definition CDataStream_clear :: "CDataStream \<Rightarrow> CDataStream" where
  "CDataStream_clear s = s\<lparr>vch := [], nReadPos := 0\<rparr>"

definition CDataStream_Compact :: "CDataStream \<Rightarrow> CDataStream" where
  "CDataStream_Compact s = s\<lparr>vch := drop (unat (nReadPos s)) (vch s), nReadPos := 0\<rparr>"

definition CDataStream_Rewind :: "u64 \<Rightarrow> CDataStream \<Rightarrow> bool \<times> CDataStream" where
  "CDataStream_Rewind n s =
     (if n > ucast (nReadPos s) then (False, s) else (True, s\<lparr>nReadPos := nReadPos s - ucast n\<rparr>))"

text \<open>The sum of the position and the 64-bit size is stored in 32 bits.\<close>

definition CDataStream_read :: "u64 \<Rightarrow> CDataStream \<Rightarrow> (byte list \<times> CDataStream) outcome" where
  "CDataStream_read nSize s =
     (if nSize = 0 then Done ([], s)
      else
        let nReadPosNext = ucast (ucast (nReadPos s) + nSize) :: u32 in
        if unat nReadPosNext > length (vch s) then EndOfStream
        else if unat (nReadPos s) + unat nSize > length (vch s) then OutOfBounds
        else
          let pch = take (unat nSize) (drop (unat (nReadPos s)) (vch s)) in
          if unat nReadPosNext = length (vch s) then Done (pch, CDataStream_clear s)
          else Done (pch, s\<lparr>nReadPos := nReadPosNext\<rparr>))"

definition CDataStream_ignore :: "32 word \<Rightarrow> CDataStream \<Rightarrow> CDataStream outcome" where
  "CDataStream_ignore nSize s =
     (if sint nSize < 0 then NegativeSize
      else
        let nReadPosNext = nReadPos s + nSize in
        if unat nReadPosNext \<ge> length (vch s) then
          (if unat nReadPosNext > length (vch s) then EndOfStream else Done (CDataStream_clear s))
        else Done (s\<lparr>nReadPos := nReadPosNext\<rparr>))"

definition CDataStream_write :: "byte list \<Rightarrow> CDataStream \<Rightarrow> CDataStream" where
  "CDataStream_write pch s = s\<lparr>vch := vch s @ pch\<rparr>"

section \<open>The unread bytes\<close>

definition stream_bytes :: "CDataStream \<Rightarrow> byte list" where
  "stream_bytes s = drop (unat (nReadPos s)) (vch s)"

definition wf_stream :: "CDataStream \<Rightarrow> bool" where
  "wf_stream s \<longleftrightarrow> unat (nReadPos s) \<le> length (vch s) \<and> length (vch s) < 2 ^ 32"

lemma stream_size_bytes: "wf_stream s \<Longrightarrow> unat (stream_size s) = length (stream_bytes s)"
  by (simp add: stream_size_def stream_bytes_def wf_stream_def unat_sub word_le_nat_alt unat_ucast unat_of_nat)

lemma CDataStream_Compact_bytes: "stream_bytes (CDataStream_Compact s) = stream_bytes s"
  by (simp add: CDataStream_Compact_def stream_bytes_def)

lemma CDataStream_write_bytes:
  "wf_stream s \<Longrightarrow> stream_bytes (CDataStream_write pch s) = stream_bytes s @ pch"
  by (simp add: CDataStream_write_def stream_bytes_def wf_stream_def)

lemma next_pos:
  assumes "unat (p :: u32) + unat (n :: u64) < 2 ^ 32"
  shows "unat (ucast (ucast p + n) :: u32) = unat p + unat n"
proof -
  have "unat (ucast p + n :: u64) = unat p + unat n"
    using assms by (subst unat_add_lem [THEN iffD1]) (simp_all add: unat_ucast)
  then show ?thesis using assms by (simp add: unat_ucast)
qed

text \<open>Below \<open>2 ^ 32\<close> a read is \<open>stream_read\<close> of the unread bytes.\<close>

lemma CDataStream_read_stream_read:
  assumes "wf_stream s" "unat (nReadPos s) + unat nSize < 2 ^ 32"
  shows "case stream_read (unat nSize) (stream_bytes s) of
      Inl _ \<Rightarrow> CDataStream_read nSize s = EndOfStream
    | Inr (pch, rest) \<Rightarrow> (\<exists>s'. CDataStream_read nSize s = Done (pch, s') \<and> wf_stream s' \<and> stream_bytes s' = rest)"
  using assms next_pos [OF assms(2)]
  by (auto simp: CDataStream_read_def stream_read_def stream_bytes_def wf_stream_def CDataStream_clear_def Let_def
      add.commute unat_eq_0)

lemma CDataStream_Rewind_read:
  assumes "wf_stream s" "unat (nReadPos s) + unat nSize < length (vch s)"
  shows "\<exists>pch s'. CDataStream_read nSize s = Done (pch, s') \<and> CDataStream_Rewind nSize s' = (True, s)"
proof -
  have lt: "unat (nReadPos s) + unat nSize < 2 ^ 32" using assms by (simp add: wf_stream_def)
  let ?next = "ucast (ucast (nReadPos s) + nSize) :: u32"
  have n: "unat (ucast nSize :: u32) = unat nSize" using lt by (simp add: unat_ucast)
  then have "?next - ucast nSize = nReadPos s"
    using next_pos [OF lt] by (simp add: word_unat_eq_iff unat_sub word_le_nat_alt)
  moreover have "\<not> ucast ?next < nSize" using next_pos [OF lt] by (simp add: word_less_nat_alt unat_ucast)
  ultimately show ?thesis
    using assms next_pos [OF lt] by (auto simp: CDataStream_read_def CDataStream_Rewind_def Let_def)
qed

text \<open>A size above the range wraps around: the bounds check passes and the copy leaves the vector.
  \<open>ReadCompactSize\<close> and the chunks of the vector readers keep every size at most \<open>MAX_SIZE\<close>.\<close>

lemma CDataStream_read_wraps:
  "vch s = [1, 2, 3] \<Longrightarrow> nReadPos s = 1 \<Longrightarrow> CDataStream_read (2 ^ 32 + 1) s = OutOfBounds"
  by (simp add: CDataStream_read_def Let_def)

lemma CDataStream_ignore_bytes:
  assumes "wf_stream s" "n < 2 ^ 31" "unat (nReadPos s) + n < 2 ^ 32"
  shows "if n \<le> length (stream_bytes s)
    then \<exists>s'. CDataStream_ignore (of_nat n) s = Done s' \<and> wf_stream s' \<and> stream_bytes s' = drop n (stream_bytes s)
    else CDataStream_ignore (of_nat n) s = EndOfStream"
proof -
  have n: "unat (of_nat n :: 32 word) = n" using assms(2) by (simp add: unat_of_nat)
  have "sint (of_nat n :: 32 word) = int n"
    using assms(2) by (simp add: signed_of_nat signed_take_bit_int_eq_self)
  moreover have "unat (nReadPos s + of_nat n) = unat (nReadPos s) + n"
    using assms(3) n by (subst unat_add_lem [THEN iffD1]) simp_all
  ultimately show ?thesis
    using assms(1) by (auto simp: CDataStream_ignore_def stream_bytes_def wf_stream_def CDataStream_clear_def Let_def add.commute)
qed

end
