(* ===== verification/Spec2Isabelle.thy ===== *)
theory Spec2Isabelle
  imports Script_Softfork Script_Safety Script_Limits Script_Delete Script_Spend Script_Multisig
    Block_Index Undo Standard_Solver Tx_Checks Condense_Laws Sighash_Laws Pos_Laws
    Partial_Merkle Version_Bits_Laws Coin_Format_Laws Data_Stream
begin

text \<open>
  Verification of slucore, a proof-of-stake node with contracts in the Bitcoin Core code base
  (\<open>src/src/\<close>): the consensus code, from bytes and scripts to the block index and the coins.

  \<^bold>\<open>The program and how its parts interact.\<close>  Blocks and transactions arrive as bytes and are read by
  the serialisation code.  A header is checked for proof of work or stake and for the difficulty its
  predecessors require, and joins the block index, a tree of entries linked by \<open>pprev\<close> and skip pointers
  on which the active chain is a path.  The transactions of a block are committed to by a Merkle root.
  Connecting a block checks each transaction against the coins it spends, runs the script of every
  input with the checker of signatures and lock times, updates the caches stacked on the coins
  database, and writes undo records by which the block can be disconnected.  Contract outputs are
  recognised by their script templates; the transfers of an execution are condensed into one
  transaction over the coins of contracts.  Soft forks are activated by the version bits of blocks.

  \<^bold>\<open>Theories and the code they model.\<close>  State is a record, an operation a function of the same name as
  in the code; an assertion, exception or error return is a value of an error type, and a loop over
  pointers is a \<open>partial_function\<close> with the value \<open>None\<close> where it does not end.

  \<^item> \<open>Prelude\<close>: machine integers, the error monad, little-endian bytes (\<open>crypto/common.h\<close>).
  \<^item> \<open>Serialize\<close>, \<open>Data_Stream\<close> (\<open>serialize.h\<close>, \<open>streams.h\<close>): encodings, and the buffer they are read from.
    The locale \<open>codec\<close> is the contract of a writer and a reader; every serialised type interprets it.
  \<^item> \<open>Script_Num\<close>, \<open>Script\<close>, \<open>Script_Checks\<close>, \<open>Script_Interp\<close>, \<open>Script_Verify\<close> (\<open>script/script.h\<close>,
    \<open>script/interpreter.cpp\<close>): script numbers, instructions, encoding checks, \<open>EvalScript\<close>, \<open>VerifyScript\<close>.
  \<^item> \<open>Standard\<close> (\<open>script/standard.cpp\<close>): templates, contract outputs and destinations.
  \<^item> \<open>Arith_Uint256\<close>, \<open>Pow\<close>, \<open>Pos\<close> (\<open>arith_uint256.cpp\<close>, \<open>pow.cpp\<close>, \<open>pos.cpp\<close>): 256-bit arithmetic by limbs,
    difficulty and the stake kernel.
  \<^item> \<open>Transaction\<close>, \<open>Block\<close>, \<open>Merkle\<close> (\<open>primitives/\<close>, \<open>consensus/merkle.cpp\<close>, \<open>merkleblock.cpp\<close>): data, formats,
    Merkle roots and partial trees.
  \<^item> \<open>Chain\<close>, \<open>Block_Index\<close>, \<open>Version_Bits\<close> (\<open>chain.cpp\<close>, \<open>AddToBlockIndex\<close> of \<open>validation.cpp\<close>,
    \<open>versionbits.cpp\<close>): the index as a store from addresses to entries, the active chain, deployments.
  \<^item> \<open>Coins\<close>, \<open>Undo\<close>, \<open>Coin_Format\<close> (\<open>coins.cpp\<close>, \<open>txdb.cpp\<close>, \<open>compressor.cpp\<close>, \<open>undo.h\<close>, parts of
    \<open>validation.cpp\<close>): coin views, connecting and disconnecting, the formats on disk.
  \<^item> \<open>Tx_Verify\<close>, \<open>Sighash\<close> (\<open>consensus/tx_verify.cpp\<close>, \<open>script/interpreter.cpp\<close>): transaction checks, lock
    times, signature hashes.
  \<^item> \<open>Condensing\<close> (\<open>silubium/silubiumstate.cpp\<close>): the coins of contracts and condensing transactions.

  \<^bold>\<open>What is shown.\<close>

  \<^item> Scripts: flags only restrict what is accepted (\<open>Script_Softfork\<close>); no assertion, out-of-range access
    or pop of an empty stack is reachable (\<open>Script_Safety\<close>); stacks and operation counts stay within the
    limits and contract opcodes end an evaluation where they are reached (\<open>Script_Limits\<close>, by the locale
    \<open>eval_invariant\<close>); \<open>FindAndDelete\<close> deletes at instruction boundaries (\<open>Script_Delete\<close>); who can spend a
    public key hash and what a multisignature decides (\<open>Script_Spend\<close>, \<open>Script_Multisig\<close>); what the
    templates recognise (\<open>Standard_Solver\<close>).
  \<^item> Formats: readers invert writers and accept one encoding (\<open>Serialize\<close>, \<open>Transaction\<close>, \<open>Block\<close>,
    \<open>Script_Num\<close>, \<open>Compact\<close>, \<open>Coin_Format_Laws\<close>).
  \<^item> Arithmetic: the limb operations compute modulo \<open>2 ^ 256\<close> (\<open>Arith_Uint256\<close>), the contract \<open>Uint_Laws\<close>
    carries work and difficulty (\<open>Compact\<close>, \<open>Pow\<close>) and the stake kernel (\<open>Pos_Laws\<close>).
  \<^item> Index: the skip list finds the ancestors of the plain walk, the active chain is the path to its tip,
    fork points are the last common ancestors, median times do not decrease (\<open>Chain_Index\<close>,
    \<open>Chain_Active\<close>, \<open>Chain_Time\<close>), and every index built by \<open>AddToBlockIndex\<close> satisfies its invariant
    (\<open>Block_Index\<close>); cached deployment states are those of BIP 9 (\<open>Version_Bits_Laws\<close>).
  \<^item> Coins: stacked caches refine a map of unspent coins, across flushes and crashes (\<open>Coins_Refine\<close>, by
    the simulation locale of \<open>Simulation\<close>); disconnecting inverts connecting, through the undo file
    (\<open>Undo\<close>, \<open>Coin_Format_Laws\<close>); checked transactions create no money (\<open>Coins_Value\<close>, \<open>Tx_Checks\<close>);
    condensing transactions conserve the coins of contracts (\<open>Condense_Laws\<close>).
  \<^item> Commitments: Merkle roots, partial trees and signature hashes determine what they commit to, unless
    the hash collides on messages the statement names (\<open>Merkle_Laws\<close>, \<open>Merkle_Nodes\<close>, \<open>Partial_Merkle\<close>,
    \<open>Sighash_Laws\<close>); lock times hold when the opcodes pass (\<open>Tx_Locks\<close>, \<open>Sighash_Laws\<close>).

  \<^bold>\<open>Bounds and termination.\<close>  Recursion is structural or has a measure; the loops of \<open>Chain\<close>, \<open>Pow\<close> and
  \<open>Version_Bits\<close> that follow pointers are proved to end on well-formed indexes.  No fuel is used.  Counters
  are words of their width where they can wrap: operation counts and sizes of scripts, target
  arithmetic, sums of amounts, counts and positions of partial trees, the position of a stream.
  Heights are natural numbers below \<open>2 ^ 31\<close> in use.

  \<^bold>\<open>Not modelled.\<close>  Hash functions, secp256k1 and LevelDB are arguments or plain maps, since the sources
  only call them.  Execution of contracts by the EVM, the network, the wallet, the mempool, mining,
  RPC and the graphical interface are input and output or libraries around the code above.
  Of \<open>validation.cpp\<close> only the parts named above are modelled: block checks, rewards and the activation of
  chains join them with disk, locks and the EVM.
\<close>

end
